(* ===== verification/Astro_Prelude.thy ===== *)
theory Astro_Prelude
  imports Complex_Main
    "HOL-Library.AList"
    "HOL-Library.Char_ord"
    "HOL-Library.List_Lexorder"
    "HOL-Library.Multiset"
    "HOL-Library.Product_Lexorder"
begin

text \<open>
  Shared vocabulary of the development: Python dictionaries as association lists (insertion
  order is kept, as a Python dict keeps it), results with an error branch, Python's stable
  \<open>max\<close>/\<open>min\<close> with a key, string helpers and truncation of numbers. The lemmas about them go
  into the simpset or into the collections \<open>dict_simps\<close> and \<open>result_simps\<close>.

  Numbers: Python integers are \<open>int\<close> (or \<open>nat\<close> where the code counts), Python floats that
  carry measurements (temperatures, seconds, fractions) are exact rationals \<open>rat\<close>; rounding of
  the binary format is not modelled.
\<close>

named_theorems dict_simps "lookups, keys and well-formedness of Python dictionaries"
named_theorems result_simps "unfolding of results with an error branch"

section \<open>Python dictionaries\<close>

type_synonym ('k, 'v) dict = "('k \<times> 'v) list"

abbreviation dkeys :: "('k, 'v) dict \<Rightarrow> 'k list" where
  "dkeys d \<equiv> map fst d"

abbreviation dput :: "'k \<Rightarrow> 'v \<Rightarrow> ('k, 'v) dict \<Rightarrow> ('k, 'v) dict" where
  "dput \<equiv> AList.update"

abbreviation dpop :: "'k \<Rightarrow> ('k, 'v) dict \<Rightarrow> ('k, 'v) dict" where
  "dpop \<equiv> AList.delete"

abbreviation wf_dict :: "('k, 'v) dict \<Rightarrow> bool" where
  "wf_dict d \<equiv> distinct (map fst d)"

definition has_key :: "('k, 'v) dict \<Rightarrow> 'k \<Rightarrow> bool" where
  "has_key d k = (map_of d k \<noteq> None)"

fun dupdate :: "('k, 'v) dict \<Rightarrow> ('k, 'v) dict \<Rightarrow> ('k, 'v) dict" where
  "dupdate d [] = d"
| "dupdate d ((k, v) # e) = dupdate (dput k v d) e"

lemma map_of_dput [simp, dict_simps]: "map_of (dput k v d) = (map_of d)(k \<mapsto> v)"
  by (rule update_conv')

lemma map_of_dpop [simp, dict_simps]: "map_of (dpop k d) = (map_of d)(k := None)"
  by (rule delete_conv')

lemma wf_dput [simp, intro, dict_simps]: "wf_dict d \<Longrightarrow> wf_dict (dput k v d)"
  by (rule distinct_update)

lemma wf_dpop [simp, intro, dict_simps]: "wf_dict d \<Longrightarrow> wf_dict (dpop k d)"
  by (rule distinct_delete)

lemma set_dkeys_dput [simp, dict_simps]: "set (dkeys (dput k v d)) = insert k (set (dkeys d))"
  by (induction d) auto

lemma set_fst_dput [simp, dict_simps]: "fst ` set (dput k v d) = insert k (fst ` set d)"
  using set_dkeys_dput [of k v d] by simp

lemma has_key_iff [dict_simps]: "has_key d k \<longleftrightarrow> k \<in> set (dkeys d)"
  by (simp add: has_key_def map_of_eq_None_iff)

lemma has_key_map_of: "has_key d k \<longleftrightarrow> (\<exists>v. map_of d k = Some v)"
  by (auto simp: has_key_def)

lemma has_key_dput [simp, dict_simps]: "has_key (dput k v d) k' \<longleftrightarrow> k' = k \<or> has_key d k'"
  by (auto simp: has_key_def)

lemma has_key_dpop [simp, dict_simps]: "has_key (dpop k d) k' \<longleftrightarrow> k' \<noteq> k \<and> has_key d k'"
  by (auto simp: has_key_def)

lemma map_of_dupdate [simp, dict_simps]:
  "wf_dict e \<Longrightarrow> map_of (dupdate d e) = map_of d ++ map_of e"
proof (induction d e rule: dupdate.induct)
  case (2 d k v e)
  then have "map_of e k = None" by (auto simp: map_of_eq_None_iff)
  with 2 show ?case by (auto simp: map_add_def fun_eq_iff split: option.splits)
qed simp

lemma wf_dupdate [simp, intro, dict_simps]: "wf_dict d \<Longrightarrow> wf_dict (dupdate d e)"
  by (induction d e rule: dupdate.induct) auto

lemma map_of_map_snd: "map_of (map (\<lambda>(k, v). (k, f k v)) d) k = map_option (f k) (map_of d k)"
  by (induction d) auto

lemma map_of_filter_fst:
  "map_of (filter (\<lambda>(k, v). P k) d) k = (if P k then map_of d k else None)"
  by (induction d) auto

lemma wf_dict_perm_map_of: "wf_dict d \<Longrightarrow> wf_dict e \<Longrightarrow> set d = set e \<Longrightarrow> map_of d = map_of e"
  by (metis map_of_eqI map_of_is_SomeI map_of_SomeD map_of_eq_None_iff image_set option.exhaust)

text \<open>
  \<open>sorted(d.keys())\<close> followed by a lookup of each key gives the pairs in key order; for
  distinct keys that is a function of the set of pairs only.
\<close>

lemma sort_key_fst_cong:
  fixes d e :: "('k :: linorder \<times> 'v) list"
  assumes d: "wf_dict d" and e: "wf_dict e" and eq: "set d = set e"
  shows "sort_key fst d = sort_key fst e"
proof (rule map_sorted_distinct_set_unique [where f = fst])
  show "inj_on fst (set (sort_key fst d) \<union> set (sort_key fst e))"
    using d eq by (simp add: distinct_map)
  show "distinct (map fst (sort_key fst d))" "distinct (map fst (sort_key fst e))"
    using d e by (auto simp: distinct_map)
qed (use eq in simp_all)

lemma sort_key_map_pairs_cong:
  fixes d e :: "('k :: linorder \<times> 'v) list"
  assumes d: "wf_dict d" and e: "wf_dict e" and keys: "set (dkeys d) = set (dkeys e)"
    and vals: "\<And>k v w. map_of d k = Some v \<Longrightarrow> map_of e k = Some w \<Longrightarrow> f k v = g k w"
  shows "map (\<lambda>(k, v). (k, f k v)) (sort_key fst d) = map (\<lambda>(k, v). (k, g k v)) (sort_key fst e)"
proof (rule map_sorted_distinct_set_unique [where f = fst])
  let ?D = "map (\<lambda>(k, v). (k, f k v)) (sort_key fst d)"
  let ?E = "map (\<lambda>(k, v). (k, g k v)) (sort_key fst e)"
  have fD: "map fst ?D = map fst (sort_key fst d)" and fE: "map fst ?E = map fst (sort_key fst e)"
    by auto
  show "sorted (map fst ?D)" "sorted (map fst ?E)" unfolding fD fE by simp_all
  have "wf_dict (sort_key fst d)" "wf_dict (sort_key fst e)"
    using d e by (auto simp: distinct_map)
  then show "distinct (map fst ?D)" "distinct (map fst ?E)" unfolding fD fE by simp_all
  have pair: "(k, u) \<in> set ?D \<longleftrightarrow> (k, u) \<in> set ?E" for k u
  proof -
    have pair: "(k, u) \<in> set ?D \<longleftrightarrow> (\<exists>v. map_of d k = Some v \<and> u = f k v)"
      using d by (force simp: image_iff)
    also have "\<dots> \<longleftrightarrow> (\<exists>w. map_of e k = Some w \<and> u = g k w)"
    proof -
      have "map_of d k = None \<longleftrightarrow> map_of e k = None"
        using keys by (simp add: map_of_eq_None_iff)
      then show ?thesis using vals [of k] by (cases "map_of d k"; cases "map_of e k") auto
    qed
    also have "\<dots> \<longleftrightarrow> (k, u) \<in> set ?E" using e by (force simp: image_iff)
    finally show ?thesis .
  qed
  show "set ?D = set ?E" by (rule set_eqI) (simp only: split_paired_all pair)
  then have "set ?D \<union> set ?E = set ?D" by auto
  then show "inj_on fst (set ?D \<union> set ?E)"
    using \<open>distinct (map fst ?D)\<close> by (simp only: distinct_map)
qed

section \<open>Results with an error branch\<close>

definition rbind :: "'e + 'a \<Rightarrow> ('a \<Rightarrow> 'e + 'b) \<Rightarrow> 'e + 'b" where
  "rbind r f = (case r of Inl e \<Rightarrow> Inl e | Inr a \<Rightarrow> f a)"

lemma rbind_Inl [simp, result_simps]: "rbind (Inl e) f = Inl e"
  by (simp add: rbind_def)

lemma rbind_Inr [simp, result_simps]: "rbind (Inr a) f = f a"
  by (simp add: rbind_def)

lemma rbind_eq_Inr [result_simps]: "rbind r f = Inr b \<longleftrightarrow> (\<exists>a. r = Inr a \<and> f a = Inr b)"
  by (cases r) auto

lemma rbind_eq_Inl [result_simps]:
  "rbind r f = Inl e \<longleftrightarrow> r = Inl e \<or> (\<exists>a. r = Inr a \<and> f a = Inl e)"
  by (cases r) auto

lemma rbind_cong [fundef_cong]:
  "r = r' \<Longrightarrow> (\<And>a. r' = Inr a \<Longrightarrow> f a = g a) \<Longrightarrow> rbind r f = rbind r' g"
  by (cases r') auto

text \<open>A Python loop that may raise: the first error ends it.\<close>

fun fold_res :: "('a \<Rightarrow> 's \<Rightarrow> 'e + 's) \<Rightarrow> 'a list \<Rightarrow> 's \<Rightarrow> 'e + 's" where
  "fold_res f [] s = Inr s"
| "fold_res f (x # xs) s = rbind (f x s) (fold_res f xs)"

lemma fold_res_invariant:
  assumes "fold_res f xs s = Inr t" "P s"
    and "\<And>x s s'. x \<in> set xs \<Longrightarrow> P s \<Longrightarrow> f x s = Inr s' \<Longrightarrow> P s'"
  shows "P t"
  using assms
proof (induction xs arbitrary: s)
  case (Cons x xs)
  from Cons.prems(1) obtain s' where s': "f x s = Inr s'" "fold_res f xs s' = Inr t"
    by (auto simp: rbind_eq_Inr)
  have "P s'" using Cons.prems(3) [of x s s'] Cons.prems(2) s'(1) by simp
  then show ?case using Cons.IH [OF s'(2)] Cons.prems(3) by auto
qed simp

lemma fold_res_append:
  "fold_res f (xs @ ys) s = rbind (fold_res f xs s) (fold_res f ys)"
proof (induction xs arbitrary: s)
  case (Cons x xs)
  then show ?case by (cases "f x s") auto
qed simp

section \<open>Python's \<open>max\<close> and \<open>min\<close> with a key\<close>

text \<open>
  \<open>max(xs, key=f)\<close> and \<open>min(xs, key=f)\<close> keep the first element until a later one is strictly
  better. \<open>better y x\<close> reads: y replaces x.
\<close>

fun best_from :: "('a \<Rightarrow> 'a \<Rightarrow> bool) \<Rightarrow> 'a \<Rightarrow> 'a list \<Rightarrow> 'a" where
  "best_from better x [] = x"
| "best_from better x (y # ys) = best_from better (if better y x then y else x) ys"

fun best :: "('a \<Rightarrow> 'a \<Rightarrow> bool) \<Rightarrow> 'a list \<Rightarrow> 'a option" where
  "best better [] = None"
| "best better (x # xs) = Some (best_from better x xs)"

definition py_max :: "('a \<Rightarrow> 'b :: linorder) \<Rightarrow> 'a list \<Rightarrow> 'a option" where
  "py_max f = best (\<lambda>y x. f x < f y)"

definition py_min :: "('a \<Rightarrow> 'b :: linorder) \<Rightarrow> 'a list \<Rightarrow> 'a option" where
  "py_min f = best (\<lambda>y x. f y < f x)"

text \<open>The contract of such a choice: the replacement order is a strict weak order.\<close>

locale strict_choice =
  fixes better :: "'a \<Rightarrow> 'a \<Rightarrow> bool"
  assumes irrefl: "\<not> better x x"
    and trans: "better x y \<Longrightarrow> better y z \<Longrightarrow> better x z"
    and neg_trans: "\<not> better x y \<Longrightarrow> \<not> better y z \<Longrightarrow> \<not> better x z"
begin

lemma best_from_in: "best_from better x ys \<in> insert x (set ys)"
  by (induction ys arbitrary: x) (auto split: if_splits)

lemma best_from_not_worse: "\<not> better x (best_from better x ys)"
proof (induction ys arbitrary: x)
  case Nil
  then show ?case by (simp add: irrefl)
next
  case (Cons y ys)
  show ?case
  proof (cases "better y x")
    case True
    have "\<not> better x y" using True irrefl trans by blast
    then have "\<not> better x (best_from better y ys)" using Cons.IH [of y] by (rule neg_trans)
    then show ?thesis using True by simp
  next
    case False
    then show ?thesis using Cons.IH [of x] by simp
  qed
qed

lemma best_from_maximal: "y \<in> insert x (set ys) \<Longrightarrow> \<not> better y (best_from better x ys)"
proof (induction ys arbitrary: x y)
  case Nil
  then show ?case by (simp add: irrefl)
next
  case (Cons z ys)
  define x' where "x' = (if better z x then z else x)"
  have step: "best_from better x (z # ys) = best_from better x' ys" by (simp add: x'_def)
  have x': "\<not> better x' (best_from better x' ys)" by (rule best_from_not_worse)
  have xz: "\<not> better x x'" "\<not> better z x'"
    unfolding x'_def using irrefl trans by (metis (full_types))+
  consider "y = x" | "y = z" | "y \<in> set ys" using Cons.prems by auto
  then have "\<not> better y (best_from better x' ys)"
  proof cases
    case 1
    show ?thesis unfolding 1 by (rule neg_trans [OF xz(1) x'])
  next
    case 2
    show ?thesis unfolding 2 by (rule neg_trans [OF xz(2) x'])
  next
    case 3
    then show ?thesis using Cons.IH [of y x'] by simp
  qed
  then show ?case by (simp only: step not_False_eq_True)
qed

lemma best_Some_iff: "(\<exists>b. best better xs = Some b) \<longleftrightarrow> xs \<noteq> []"
  by (cases xs) auto

lemma best_in: "best better xs = Some b \<Longrightarrow> b \<in> set xs"
  using best_from_in by (cases xs) auto

lemma best_maximal: "best better xs = Some b \<Longrightarrow> y \<in> set xs \<Longrightarrow> \<not> better y b"
  using best_from_maximal by (cases xs) auto

lemma best_from_first:
  "best_from better x ys = x \<or>
   (\<exists>us vs. ys = us @ best_from better x ys # vs \<and>
      (\<forall>u \<in> insert x (set us). better (best_from better x ys) u))"
proof (induction ys arbitrary: x)
  case (Cons y ys)
  show ?case
  proof (cases "better y x")
    case True
    let ?b = "best_from better y ys"
    from Cons.IH [of y] show ?thesis
    proof
      assume b: "?b = y"
      have "y # ys = [] @ ?b # ys \<and> (\<forall>u \<in> insert x (set []). better ?b u)"
        using True b by simp
      then show ?thesis using True by (metis best_from.simps(2))
    next
      assume "\<exists>us vs. ys = us @ ?b # vs \<and> (\<forall>u \<in> insert y (set us). better ?b u)"
      then obtain us vs where "ys = us @ ?b # vs" and all: "\<forall>u \<in> insert y (set us). better ?b u"
        by blast
      then have "y # ys = (y # us) @ ?b # vs \<and> (\<forall>u \<in> insert x (set (y # us)). better ?b u)"
        using True trans by (metis append_Cons insert_iff list.simps(15))
      then show ?thesis using True by (metis best_from.simps(2))
    qed
  next
    case False
    let ?b = "best_from better x ys"
    from Cons.IH [of x] show ?thesis
    proof
      assume "?b = x"
      then show ?thesis using False by simp
    next
      assume "\<exists>us vs. ys = us @ ?b # vs \<and> (\<forall>u \<in> insert x (set us). better ?b u)"
      then obtain us vs where ys: "ys = us @ ?b # vs" and all: "\<forall>u \<in> insert x (set us). better ?b u"
        by blast
      have "better ?b y"
        using all False neg_trans by blast
      then have "y # ys = (y # us) @ ?b # vs \<and> (\<forall>u \<in> insert x (set (y # us)). better ?b u)"
        using ys all by (metis append_Cons insert_iff list.simps(15))
      then show ?thesis using False by (metis best_from.simps(2))
    qed
  qed
qed simp

text \<open>Ties go to the earliest element: everything before the choice is strictly worse.\<close>

lemma best_first:
  assumes "best better xs = Some b"
  obtains us vs where "xs = us @ b # vs" and "\<And>u. u \<in> set us \<Longrightarrow> better b u"
proof (cases xs)
  case Nil
  with assms show ?thesis by simp
next
  case (Cons x ys)
  then have b: "b = best_from better x ys" using assms by simp
  from best_from_first [of x ys] show ?thesis
  proof
    assume "best_from better x ys = x"
    then show ?thesis using that [of "[]" ys] Cons b by simp
  next
    assume "\<exists>us vs. ys = us @ best_from better x ys # vs \<and>
      (\<forall>u \<in> insert x (set us). better (best_from better x ys) u)"
    then obtain us vs where "ys = us @ b # vs" "\<forall>u \<in> insert x (set us). better b u"
      using b by blast
    then show ?thesis using that [of "x # us" vs] Cons by auto
  qed
qed

end

interpretation max_choice: strict_choice "\<lambda>y x. (f x :: 'b :: linorder) < f y" for f
  by unfold_locales auto

interpretation min_choice: strict_choice "\<lambda>y x. (f y :: 'b :: linorder) < f x" for f
  by unfold_locales auto

lemma py_max_None [simp]: "py_max f xs = None \<longleftrightarrow> xs = []"
  by (cases xs) (auto simp: py_max_def)

lemma py_min_None [simp]: "py_min f xs = None \<longleftrightarrow> xs = []"
  by (cases xs) (auto simp: py_min_def)

lemma py_max_in: "py_max f xs = Some b \<Longrightarrow> b \<in> set xs"
  unfolding py_max_def by (rule max_choice.best_in)

lemma py_min_in: "py_min f xs = Some b \<Longrightarrow> b \<in> set xs"
  unfolding py_min_def by (rule min_choice.best_in)

lemma py_max_ge: "py_max f xs = Some b \<Longrightarrow> y \<in> set xs \<Longrightarrow> f y \<le> f b"
  unfolding py_max_def using max_choice.best_maximal [of f xs b y] by simp

lemma py_min_le: "py_min f xs = Some b \<Longrightarrow> y \<in> set xs \<Longrightarrow> f b \<le> f y"
  unfolding py_min_def using min_choice.best_maximal [of f xs b y] by simp

section \<open>Strings and numbers\<close>

lemma split_at_sep:
  assumes "c \<notin> set a" "c \<notin> set a'"
  shows "a @ c # b = a' @ c # b' \<longleftrightarrow> a = a' \<and> b = b'"
  using assms
proof (induction a arbitrary: a')
  case Nil
  then show ?case by (cases a') auto
next
  case (Cons x a)
  then show ?case by (cases a') auto
qed

text \<open>\<open>s.split(".", 1)[0]\<close>: everything before the first dot (the whole string without one).\<close>

definition before_dot :: "string \<Rightarrow> string" where
  "before_dot s = takeWhile (\<lambda>c. c \<noteq> CHR ''.'') s"

fun join :: "string \<Rightarrow> string list \<Rightarrow> string" where
  "join sep [] = []"
| "join sep [x] = x"
| "join sep (x # xs) = x @ sep @ join sep xs"

definition starts_with :: "string \<Rightarrow> string \<Rightarrow> bool" where
  "starts_with p s = (take (length p) s = p)"

lemma starts_with_append [simp]: "starts_with p (p @ s)"
  by (simp add: starts_with_def)

lemma starts_withE: "starts_with p s \<Longrightarrow> (\<And>t. s = p @ t \<Longrightarrow> thesis) \<Longrightarrow> thesis"
  unfolding starts_with_def by (metis append_take_drop_id)

definition digit_char :: "nat \<Rightarrow> char" where
  "digit_char d = char_of (48 + d)"

fun show_nat :: "nat \<Rightarrow> string" where
  "show_nat n = (if n < 10 then [digit_char n] else show_nat (n div 10) @ [digit_char (n mod 10)])"

declare show_nat.simps [simp del]

definition show_int :: "int \<Rightarrow> string" where
  "show_int i = (if i < 0 then CHR ''-'' # show_nat (nat (- i)) else show_nat (nat i))"

text \<open>Decimal texts are injective and hold no NUL byte.\<close>

fun digits_value :: "nat \<Rightarrow> string \<Rightarrow> nat" where
  "digits_value a [] = a"
| "digits_value a (c # cs) = digits_value (10 * a + (of_char c - 48)) cs"

lemma digits_value_append: "digits_value a (xs @ ys) = digits_value (digits_value a xs) ys"
  by (induction a xs rule: digits_value.induct) auto

lemma of_digit_char: "d < 10 \<Longrightarrow> of_char (digit_char d) = 48 + d"
  by (simp add: digit_char_def)

lemma digits_value_show_nat: "digits_value 0 (show_nat n) = n"
proof (induction n rule: show_nat.induct)
  case (1 n)
  show ?case
  proof (cases "n < 10")
    case True
    then show ?thesis by (simp add: show_nat.simps [of n] of_digit_char)
  next
    case False
    then have "digits_value 0 (show_nat (n div 10)) = n div 10" by (rule "1.IH")
    then show ?thesis
      using False by (simp add: show_nat.simps [of n] digits_value_append of_digit_char)
  qed
qed

lemma show_nat_chars: "c \<in> set (show_nat n) \<Longrightarrow> (48 :: nat) \<le> of_char c"
proof (induction n rule: show_nat.induct)
  case (1 n)
  show ?case
  proof (cases "n < 10")
    case True
    then show ?thesis using 1 by (simp add: show_nat.simps [of n] of_digit_char)
  next
    case False
    then show ?thesis
      using 1 by (auto simp: show_nat.simps [of n] of_digit_char)
  qed
qed

lemma show_nat_inj: "show_nat m = show_nat n \<Longrightarrow> m = n"
  by (metis digits_value_show_nat)

lemma show_nat_no_minus: "show_nat n \<noteq> CHR ''-'' # s"
proof
  assume "show_nat n = CHR ''-'' # s"
  then have "(48 :: nat) \<le> of_char CHR ''-''" by (intro show_nat_chars [of _ n]) simp
  then show False by simp
qed

lemma show_int_inj: "show_int i = show_int j \<Longrightarrow> i = j"
  by (auto simp: show_int_def show_nat_no_minus show_nat_no_minus [symmetric] dest!: show_nat_inj
      split: if_splits)

lemma show_int_no_nul: "CHR 0x00 \<notin> set (show_int i)"
proof
  assume "CHR 0x00 \<in> set (show_int i)"
  then have "CHR 0x00 \<in> set (show_nat (nat (- i))) \<or> CHR 0x00 \<in> set (show_nat (nat i))"
    by (auto simp: show_int_def split: if_splits)
  then have "(48 :: nat) \<le> of_char (CHR 0x00)" using show_nat_chars by blast
  then show False by simp
qed

text \<open>Python's \<open>int(x)\<close> on a float: truncation toward zero.\<close>

definition trunc :: "rat \<Rightarrow> int" where
  "trunc x = (if x < 0 then - \<lfloor>- x\<rfloor> else \<lfloor>x\<rfloor>)"

text \<open>Python's \<open>x or 0\<close> on an optional number.\<close>

definition or_zero :: "'a :: zero option \<Rightarrow> 'a" where
  "or_zero x = (case x of None \<Rightarrow> 0 | Some v \<Rightarrow> v)"

lemma or_zero_simps [simp]: "or_zero None = 0" "or_zero (Some v) = v"
  by (simp_all add: or_zero_def)

end
