(* ===== verification/Py_Text.thy ===== *)
theory Py_Text
  imports Astro_Prelude
begin

text \<open>
  Python's text operations as far as the program uses them, on ASCII: white space and \<open>strip\<close>, \<open>split\<close>, case, decimal
  digits, names and suffixes of paths, and the steps of the deterministic patterns the modules match file
  names with (a literal, a run of characters of one class).
\<close>

section \<open>White space and case\<close>

definition is_space :: "char \<Rightarrow> bool" where
  "is_space c = (c \<in> {CHR 0x09, CHR 0x0A, CHR 0x0B, CHR 0x0C, CHR 0x0D, CHR 0x1C, CHR 0x1D, CHR 0x1E, CHR 0x1F, CHR 0x20})"

definition strip :: "string \<Rightarrow> string" where
  "strip s = rev (dropWhile is_space (rev (dropWhile is_space s)))"

text \<open>\<open>split()\<close>: the words between white space.\<close>

function split_words :: "string \<Rightarrow> string list" where
  "split_words s =
     (let s1 = dropWhile is_space s
      in if s1 = [] then [] else takeWhile (Not \<circ> is_space) s1 # split_words (dropWhile (Not \<circ> is_space) s1))"
  by pat_completeness auto
termination
proof (relation "measure length", goal_cases)
  case (2 s s1)
  then obtain c r where s1: "s1 = c # r" "\<not> is_space c"
    by (metis hd_dropWhile list.exhaust_sel)
  then have "length (dropWhile (Not \<circ> is_space) s1) \<le> length r" by (simp add: length_dropWhile_le)
  also have "\<dots> < length s1" by (simp add: s1)
  also have "\<dots> \<le> length s" using 2(1) by (simp add: length_dropWhile_le)
  finally show ?case by simp
qed simp

declare split_words.simps [simp del]

definition shift_case :: "nat \<Rightarrow> nat \<Rightarrow> (nat \<Rightarrow> nat) \<Rightarrow> char \<Rightarrow> char" where
  "shift_case lo hi f c = (if lo \<le> of_char c \<and> of_char c \<le> hi then char_of (f (of_char c)) else c)"

definition lower :: "string \<Rightarrow> string" where
  "lower = map (shift_case 65 90 (\<lambda>n. n + 32))"

definition upper :: "string \<Rightarrow> string" where
  "upper = map (shift_case 97 122 (\<lambda>n. n - 32))"

section \<open>Numbers\<close>

definition is_digit :: "char \<Rightarrow> bool" where
  "is_digit c = (CHR ''0'' \<le> c \<and> c \<le> CHR ''9'')"

definition decimal :: "string \<Rightarrow> string \<Rightarrow> rat" where
  "decimal ds fs = of_nat (digits_value 0 ds) + of_nat (digits_value 0 fs) / 10 ^ length fs"

section \<open>Paths\<close>

definition name_of :: "string \<Rightarrow> string" where
  "name_of p = rev (takeWhile (\<lambda>c. c \<noteq> CHR ''/'') (rev p))"

definition parent_of :: "string \<Rightarrow> string" where
  "parent_of p =
     (let d = rev (drop 1 (dropWhile (\<lambda>c. c \<noteq> CHR ''/'') (rev p)))
      in if d = '''' \<and> starts_with ''/'' p then ''/'' else d)"

text \<open>\<open>Path.suffix\<close>: from the last dot, unless it starts or ends the name.\<close>

definition suffix_of :: "string \<Rightarrow> string" where
  "suffix_of name =
     (let after = takeWhile (\<lambda>c. c \<noteq> CHR ''.'') (rev name); rest = dropWhile (\<lambda>c. c \<noteq> CHR ''.'') (rev name)
      in if length rest \<le> 1 \<or> after = [] then '''' else CHR ''.'' # rev after)"

definition ends_with :: "string \<Rightarrow> string \<Rightarrow> bool" where
  "ends_with p s = starts_with (rev p) (rev s)"

section \<open>Patterns\<close>

text \<open>A literal; a non-empty run, taken greedily. Both give the rest of the text.\<close>

definition lit :: "string \<Rightarrow> string \<Rightarrow> string option" where
  "lit p s = (if starts_with p s then Some (drop (length p) s) else None)"

definition run_of :: "(char \<Rightarrow> bool) \<Rightarrow> string \<Rightarrow> (string \<times> string) option" where
  "run_of P s = (if takeWhile P s = [] then None else Some (takeWhile P s, dropWhile P s))"

lemma lit_append [simp]: "lit p (p @ s) = Some s"
  by (simp add: lit_def)

lemma lit_Some: "lit p s = Some r \<longleftrightarrow> s = p @ r"
  by (auto simp: lit_def elim: starts_withE)

lemma run_of_append:
  assumes "\<forall>c \<in> set ds. P c" "ds \<noteq> []" "s = [] \<or> \<not> P (hd s)"
  shows "run_of P (ds @ s) = Some (ds, s)"
proof -
  have "takeWhile P s = []" "dropWhile P s = s" using assms(3) by (cases s; simp)+
  then show ?thesis using assms(1,2) by (simp add: run_of_def takeWhile_append2 dropWhile_append2)
qed

section \<open>Facts\<close>

lemma is_digit_char: "d < 10 \<Longrightarrow> is_digit (digit_char d)"
  by (simp add: is_digit_def digit_char_def less_eq_char_def)

lemma show_nat_digits: "c \<in> set (show_nat n) \<Longrightarrow> is_digit c"
proof (induction n rule: show_nat.induct)
  case (1 n)
  show ?case
  proof (cases "n < 10")
    case True
    then show ?thesis using 1(2) by (simp add: show_nat.simps [of n] is_digit_char)
  next
    case False
    then show ?thesis using 1 by (auto simp: show_nat.simps [of n] is_digit_char)
  qed
qed

lemma show_nat_not_Nil [simp]: "show_nat n \<noteq> []"
  by (simp add: show_nat.simps [of n])

end
