(* ===== verification/Times.thy ===== *)
theory Times
  imports Py_Text
begin

text \<open>
  The calendar arithmetic the program takes from Python's \<open>datetime\<close>: \<open>fromisoformat\<close> on the
  extended forms \<open>YYYY-MM-DD[THH:MM[:SS[.frac]]][+HH:MM]\<close> the code writes and reads, as
  microseconds since the first day of year 1. A value with an offset is aware and held in UTC; comparing
  or subtracting an aware and a naive value is a TypeError in Python. ISO basic and week forms,
  which Python would also accept, are not parsed.
\<close>

datatype py_datetime = Naive int | Aware int

definition is_leap :: "int \<Rightarrow> bool" where
  "is_leap y = (y mod 4 = 0 \<and> (y mod 100 \<noteq> 0 \<or> y mod 400 = 0))"

definition days_in_month :: "int \<Rightarrow> int \<Rightarrow> int" where
  "days_in_month y m =
     (if m = 2 then (if is_leap y then 29 else 28)
      else if m \<in> {4, 6, 9, 11} then 30 else 31)"

definition days_before_month :: "int \<Rightarrow> int \<Rightarrow> int" where
  "days_before_month y m = sum_list (map (days_in_month y) [1..m - 1])"

definition days_before_year :: "int \<Rightarrow> int" where
  "days_before_year y = (let p = y - 1 in p * 365 + p div 4 - p div 100 + p div 400)"

definition to_ordinal :: "int \<Rightarrow> int \<Rightarrow> int \<Rightarrow> int" where
  "to_ordinal y m d = days_before_year y + days_before_month y m + d"

definition digit_value :: "char \<Rightarrow> int" where
  "digit_value c = of_char c - 48"

definition number_of :: "string \<Rightarrow> int option" where
  "number_of s = (if s \<noteq> [] \<and> list_all is_digit s
     then Some (foldl (\<lambda>n c. 10 * n + digit_value c) 0 s) else None)"

text \<open>Exactly \<open>w\<close> digits at the front of the text.\<close>

definition take_number :: "nat \<Rightarrow> string \<Rightarrow> (int \<times> string) option" where
  "take_number w s =
     (if length s < w then None
      else case number_of (take w s) of None \<Rightarrow> None | Some n \<Rightarrow> Some (n, drop w s))"

definition take_char :: "char \<Rightarrow> string \<Rightarrow> string option" where
  "take_char c s = (case s of [] \<Rightarrow> None | x # xs \<Rightarrow> if x = c then Some xs else None)"

definition parse_date :: "string \<Rightarrow> (int \<times> string) option" where
  "parse_date s =
     (case take_number 4 s of None \<Rightarrow> None | Some (y, s1) \<Rightarrow>
     (case Option.bind (take_char CHR ''-'' s1) (take_number 2) of None \<Rightarrow> None | Some (m, s2) \<Rightarrow>
     (case Option.bind (take_char CHR ''-'' s2) (take_number 2) of None \<Rightarrow> None | Some (d, s3) \<Rightarrow>
        if 1 \<le> y \<and> 1 \<le> m \<and> m \<le> 12 \<and> 1 \<le> d \<and> d \<le> days_in_month y m
        then Some (to_ordinal y m d, s3) else None)))"

text \<open>Up to six digits count as microseconds, further digits are dropped.\<close>

definition parse_fraction :: "string \<Rightarrow> (int \<times> string) option" where
  "parse_fraction s =
     (case s of
        [] \<Rightarrow> Some (0, [])
      | c # rest \<Rightarrow>
          if c = CHR ''.'' then
            let ds = takeWhile is_digit rest; six = take 6 (ds @ ''000000'') in
            (case number_of six of
               Some n \<Rightarrow> if ds = [] then None else Some (n, drop (length ds) rest)
             | None \<Rightarrow> None)
          else Some (0, s))"

definition parse_seconds :: "string \<Rightarrow> (int \<times> string) option" where
  "parse_seconds s =
     (case take_char CHR '':'' s of
        None \<Rightarrow> Some (0, s)
      | Some s1 \<Rightarrow>
          (case take_number 2 s1 of None \<Rightarrow> None | Some (sec, s2) \<Rightarrow>
             if 59 < sec then None
             else map_option (\<lambda>(us, s3). (sec * 1000000 + us, s3)) (parse_fraction s2)))"

definition parse_clock :: "string \<Rightarrow> (int \<times> string) option" where
  "parse_clock s =
     (case take_number 2 s of None \<Rightarrow> None | Some (h, s1) \<Rightarrow>
     (case Option.bind (take_char CHR '':'' s1) (take_number 2) of None \<Rightarrow> None | Some (m, s2) \<Rightarrow>
        if 23 < h \<or> 59 < m then None
        else map_option (\<lambda>(us, s3). ((h * 60 + m) * 60000000 + us, s3)) (parse_seconds s2)))"

text \<open>The offset in microseconds; None when the text has none.\<close>

definition parse_offset :: "string \<Rightarrow> int option option" where
  "parse_offset s =
     (case s of
        [] \<Rightarrow> Some None
      | c # rest \<Rightarrow>
          if c = CHR ''+'' \<or> c = CHR ''-'' then
            (case take_number 2 rest of None \<Rightarrow> None | Some (h, s1) \<Rightarrow>
            (case Option.bind (take_char CHR '':'' s1) (take_number 2) of
               Some (m, []) \<Rightarrow> if 23 < h \<or> 59 < m then None
                 else Some (Some ((if c = CHR ''-'' then -1 else 1) * (h * 60 + m) * 60000000))
             | _ \<Rightarrow> None))
          else None)"

definition day_us :: int where
  "day_us = 86400000000"

definition fromisoformat :: "string \<Rightarrow> py_datetime option" where
  "fromisoformat s =
     (case parse_date s of None \<Rightarrow> None | Some (day, s1) \<Rightarrow>
      if s1 = [] then Some (Naive (day * day_us))
      else (case parse_clock (tl s1) of None \<Rightarrow> None | Some (us, s2) \<Rightarrow>
        (case parse_offset s2 of
           None \<Rightarrow> None
         | Some None \<Rightarrow> Some (Naive (day * day_us + us))
         | Some (Some off) \<Rightarrow> Some (Aware (day * day_us + us - off)))))"

text \<open>\<open>a < b\<close> and \<open>(a - b).total_seconds()\<close> in microseconds; None is the TypeError.\<close>

fun dt_less :: "py_datetime \<Rightarrow> py_datetime \<Rightarrow> bool option" where
  "dt_less (Naive a) (Naive b) = Some (a < b)"
| "dt_less (Aware a) (Aware b) = Some (a < b)"
| "dt_less _ _ = None"

fun dt_diff :: "py_datetime \<Rightarrow> py_datetime \<Rightarrow> int option" where
  "dt_diff (Naive a) (Naive b) = Some (a - b)"
| "dt_diff (Aware a) (Aware b) = Some (a - b)"
| "dt_diff _ _ = None"

lemma fromisoformat_examples:
  "fromisoformat ''2024-02-29T23:59:59.5'' = Some (Naive (738945 * day_us + 86399500000))"
  "fromisoformat ''2024-03-01T01:00:00+01:00'' = Some (Aware (738946 * day_us))"
  "fromisoformat ''2023-02-29'' = None"
  by code_simp+

end
