(* ===== verification/Sessions.thy ===== *)
theory Sessions
  imports Times "HOL-Library.Product_Lexorder" "HOL-Library.Multiset"
begin

text \<open>
  \<open>server/catalog/sessions.py\<close>: the derivation of imaging sessions from the frames table by time gaps,
  and the rebuild of the tables \<open>sessions\<close>, \<open>session_frames\<close> and \<open>targets\<close> that keeps session ids
  stable. Tables are lists of rows in rowid order, which is the order the code's unordered SELECTs see;
  exposure times are exact rationals. A new row's id is one more than the largest (SQLite's rowid rule
  for \<open>INTEGER PRIMARY KEY\<close>).
\<close>

section \<open>Tables\<close>

record frame =
  fr_id :: int
  fr_image_type :: "string option"
  fr_quality :: "string option"
  fr_object :: "string option"
  fr_instrument :: "string option"
  fr_camera :: "string option"
  fr_filter :: "string option"
  fr_exptime :: "rat option"
  fr_gain :: "int option"
  fr_binning :: "int option"
  fr_ccd_temp :: "rat option"
  fr_date_obs :: "string option"
  fr_scope_id :: "string option"
  fr_path :: string

record session_row =
  se_id :: int
  se_scope_id :: "string option"
  se_target_id :: "int option"
  se_instrument :: "string option"
  se_camera :: "string option"
  se_filter :: "string option"
  se_exptime :: "rat option"
  se_gain :: "int option"
  se_binning :: "int option"
  se_started_at :: "string option"
  se_ended_at :: "string option"
  se_frame_count :: int
  se_failed_count :: int
  se_notes :: "string option"
  se_description :: "string option"

record catalog =
  ct_frames :: "frame list"
  ct_sessions :: "session_row list"
  ct_links :: "(int \<times> int) list"
  ct_targets :: "(int \<times> string) list"

datatype sessions_error = Mixed_Timezones

section \<open>Clusters\<close>

definition DEFAULT_GAP_MINUTES :: int where
  "DEFAULT_GAP_MINUTES = 60"

text \<open>scope, object, instrument, camera, filter, exptime, gain, binning.\<close>

type_synonym config_key =
  "string option \<times> string option \<times> string option \<times> string option \<times> string option
   \<times> rat option \<times> int option \<times> int option"

record cluster =
  cl_config :: config_key
  cl_frame_ids :: "int list"
  cl_failed_count :: int
  cl_started_at :: "string option"
  cl_ended_at :: "string option"

definition rstrip_Z :: "string \<Rightarrow> string" where
  "rstrip_Z s = rev (dropWhile (\<lambda>c. c = CHR ''Z'') (rev s))"

definition parse_iso :: "string option \<Rightarrow> py_datetime option" where
  "parse_iso v = (case v of None \<Rightarrow> None | Some s \<Rightarrow> if s = '''' then None else fromisoformat (rstrip_Z s))"

definition config_of :: "frame \<Rightarrow> config_key" where
  "config_of r =
     (fr_scope_id r, fr_object r, fr_instrument r, fr_camera r, fr_filter r, fr_exptime r, fr_gain r, fr_binning r)"

text \<open>The WHERE clause.\<close>

definition eligible :: "frame \<Rightarrow> bool" where
  "eligible r = (fr_image_type r = Some ''LIGHT'' \<and> fr_object r \<noteq> None \<and> fr_date_obs r \<noteq> None)"

definition group_add :: "frame \<Rightarrow> (config_key, frame list) dict \<Rightarrow> (config_key, frame list) dict" where
  "group_add r groups =
     dput (config_of r) ((case map_of groups (config_of r) of None \<Rightarrow> [] | Some fs \<Rightarrow> fs) @ [r]) groups"

text \<open>\<open>_parse_iso(...) or datetime.min\<close>: naive, the first microsecond of year 1.\<close>

definition datetime_min :: py_datetime where
  "datetime_min = Naive (to_ordinal 1 1 1 * day_us)"

definition sort_time :: "frame \<Rightarrow> py_datetime" where
  "sort_time r = (case parse_iso (fr_date_obs r) of None \<Rightarrow> datetime_min | Some t \<Rightarrow> t)"

definition is_naive :: "py_datetime \<Rightarrow> bool" where
  "is_naive t = (case t of Naive _ \<Rightarrow> True | Aware _ \<Rightarrow> False)"

definition instant :: "py_datetime \<Rightarrow> int" where
  "instant t = (case t of Naive us \<Rightarrow> us | Aware us \<Rightarrow> us)"

text \<open>
  Sorting compares the neighbours of the result at some point, so a list with naive and aware times
  raises a TypeError and any other one is sorted.
\<close>

definition sort_frames :: "frame list \<Rightarrow> sessions_error + frame list" where
  "sort_frames fs =
     (if list_ex (is_naive \<circ> sort_time) fs \<and> list_ex (Not \<circ> is_naive \<circ> sort_time) fs then Inl Mixed_Timezones
      else Inr (sort_key (\<lambda>r. (instant (sort_time r), fr_id r)) fs))"

definition is_failed :: "frame \<Rightarrow> bool" where
  "is_failed r = (fr_quality r = Some ''failed'')"

definition open_cluster :: "config_key \<Rightarrow> frame \<Rightarrow> cluster" where
  "open_cluster config f =
     \<lparr>cl_config = config, cl_frame_ids = [fr_id f], cl_failed_count = (if is_failed f then 1 else 0),
      cl_started_at = fr_date_obs f, cl_ended_at = fr_date_obs f\<rparr>"

definition extend_cluster :: "frame \<Rightarrow> cluster \<Rightarrow> cluster" where
  "extend_cluster f c =
     c\<lparr>cl_frame_ids := cl_frame_ids c @ [fr_id f],
       cl_failed_count := (if is_failed f then cl_failed_count c + 1 else cl_failed_count c),
       cl_ended_at := fr_date_obs f\<rparr>"

type_synonym gap_state = "cluster list \<times> cluster option \<times> py_datetime option"

definition gap_step :: "config_key \<Rightarrow> int \<Rightarrow> frame \<Rightarrow> gap_state \<Rightarrow> sessions_error + gap_state" where
  "gap_step config threshold_seconds f = (\<lambda>(clusters, current, last_dt).
     let dt = parse_iso (fr_date_obs f) in
     rbind (case (current, dt, last_dt) of
              (Some _, Some t, Some prev) \<Rightarrow>
                (case dt_diff t prev of None \<Rightarrow> Inl Mixed_Timezones | Some us \<Rightarrow> Inr (threshold_seconds * 1000000 < us))
            | _ \<Rightarrow> Inr True)
       (\<lambda>new_cluster. case current of
          None \<Rightarrow> Inr (clusters, Some (open_cluster config f), dt)
        | Some c \<Rightarrow>
            if new_cluster then Inr (clusters @ [c], Some (open_cluster config f), dt)
            else Inr (clusters, Some (extend_cluster f c), dt)))"

definition close_current :: "gap_state \<Rightarrow> cluster list" where
  "close_current = (\<lambda>(clusters, current, _). case current of None \<Rightarrow> clusters | Some c \<Rightarrow> clusters @ [c])"

definition cluster_group ::
  "int \<Rightarrow> config_key \<times> frame list \<Rightarrow> cluster list \<Rightarrow> sessions_error + cluster list" where
  "cluster_group threshold_seconds = (\<lambda>(config, fs) clusters.
     rbind (sort_frames fs) (\<lambda>sortable.
     rbind (fold_res (gap_step config threshold_seconds) sortable (clusters, None, None)) (\<lambda>st.
       Inr (close_current st))))"

definition group_frames :: "frame list \<Rightarrow> (config_key, frame list) dict" where
  "group_frames fs = fold group_add (filter eligible fs) []"

definition compute_clusters :: "frame list \<Rightarrow> int \<Rightarrow> sessions_error + cluster list" where
  "compute_clusters fs gap_minutes = fold_res (cluster_group (gap_minutes * 60)) (group_frames fs) []"

section \<open>Rebuilding the tables\<close>

definition existing_session_frames :: "catalog \<Rightarrow> (int, int list) dict" where
  "existing_session_frames ct =
     fold (\<lambda>(sid, fid) out. dput sid ((case map_of out sid of None \<Rightarrow> [] | Some fs \<Rightarrow> fs) @ [fid]) out) (ct_links ct)
       (fold (\<lambda>r out. dput (se_id r) [] out) (ct_sessions ct) [])"

definition overlap :: "int list \<Rightarrow> int list \<Rightarrow> nat" where
  "overlap xs ys = length (filter (\<lambda>x. x \<in> set ys) (remdups xs))"

definition match_cluster_to_session :: "int list \<Rightarrow> (int, int list) dict \<Rightarrow> int list \<Rightarrow> int option" where
  "match_cluster_to_session cluster_frames existing consumed =
     fst (fold (\<lambda>(sid, frame_ids) (best_id, best_overlap).
            if sid \<in> set consumed then (best_id, best_overlap)
            else if best_overlap < overlap cluster_frames frame_ids then (Some sid, overlap cluster_frames frame_ids)
            else (best_id, best_overlap)) existing (None, 0))"

definition next_rowid :: "int list \<Rightarrow> int" where
  "next_rowid ids = (if ids = [] then 1 else fold max ids (hd ids) + 1)"

definition upsert_target :: "string \<Rightarrow> catalog \<Rightarrow> catalog \<times> int" where
  "upsert_target name ct =
     (case find (\<lambda>(i, n). n = name) (ct_targets ct) of
        Some (i, _) \<Rightarrow> (ct, i)
      | None \<Rightarrow> let i = next_rowid (map fst (ct_targets ct))
          in (ct\<lparr>ct_targets := ct_targets ct @ [(i, name)]\<rparr>, i))"

definition refresh_session :: "cluster \<Rightarrow> session_row \<Rightarrow> session_row" where
  "refresh_session c r =
     (let (scope_id, target, instrument, camera, filt, exptime, gain, binning) = cl_config c
      in r\<lparr>se_scope_id := scope_id, se_instrument := instrument, se_camera := camera, se_filter := filt,
           se_exptime := exptime, se_gain := gain, se_binning := binning,
           se_started_at := cl_started_at c, se_ended_at := cl_ended_at c,
           se_frame_count := int (length (cl_frame_ids c)), se_failed_count := cl_failed_count c\<rparr>)"

definition new_session :: "int \<Rightarrow> int option \<Rightarrow> cluster \<Rightarrow> session_row" where
  "new_session sid target_id c =
     (let (scope_id, target, instrument, camera, filt, exptime, gain, binning) = cl_config c
      in \<lparr>se_id = sid, se_scope_id = scope_id, se_target_id = target_id, se_instrument = instrument,
          se_camera = camera, se_filter = filt, se_exptime = exptime, se_gain = gain, se_binning = binning,
          se_started_at = cl_started_at c, se_ended_at = cl_ended_at c,
          se_frame_count = int (length (cl_frame_ids c)), se_failed_count = cl_failed_count c,
          se_notes = None, se_description = None\<rparr>)"

definition relink :: "int \<Rightarrow> int list \<Rightarrow> catalog \<Rightarrow> catalog" where
  "relink sid frame_ids ct =
     ct\<lparr>ct_links := filter (\<lambda>(s, f). s \<noteq> sid) (ct_links ct)
          @ map (\<lambda>r. (sid, fr_id r)) (filter (\<lambda>r. fr_id r \<in> set frame_ids) (ct_frames ct))\<rparr>"

definition target_of :: "cluster \<Rightarrow> string option" where
  "target_of c = fst (snd (cl_config c))"

definition place_cluster ::
  "(int, int list) dict \<Rightarrow> cluster \<Rightarrow> catalog \<times> int list \<Rightarrow> catalog \<times> int list" where
  "place_cluster existing c = (\<lambda>(ct, consumed).
     let (ct1, target_id) = (case target_of c of
           Some name \<Rightarrow> if name = '''' then (ct, None) else (let (ct', i) = upsert_target name ct in (ct', Some i))
         | None \<Rightarrow> (ct, None))
     in case match_cluster_to_session (cl_frame_ids c) existing consumed of
          Some sid \<Rightarrow>
            (relink sid (cl_frame_ids c)
               (ct1\<lparr>ct_sessions := map (\<lambda>r. if se_id r = sid then refresh_session c r else r) (ct_sessions ct1)\<rparr>),
             sid # consumed)
        | None \<Rightarrow>
            let sid = next_rowid (map se_id (ct_sessions ct1))
            in (relink sid (cl_frame_ids c) (ct1\<lparr>ct_sessions := ct_sessions ct1 @ [new_session sid target_id c]\<rparr>),
                consumed))"

definition drop_orphans :: "(int, int list) dict \<Rightarrow> int list \<Rightarrow> catalog \<Rightarrow> catalog" where
  "drop_orphans existing consumed ct =
     (let orphans = filter (\<lambda>sid. sid \<notin> set consumed) (dkeys existing)
      in ct\<lparr>ct_sessions := filter (\<lambda>r. se_id r \<notin> set orphans) (ct_sessions ct),
            ct_links := filter (\<lambda>(s, f). s \<notin> set orphans) (ct_links ct)\<rparr>)"

definition drop_unused_targets :: "catalog \<Rightarrow> catalog" where
  "drop_unused_targets ct =
     ct\<lparr>ct_targets := filter (\<lambda>(i, _). Some i \<in> set (map se_target_id (ct_sessions ct))) (ct_targets ct)\<rparr>"

definition cluster_sessions :: "int \<Rightarrow> catalog \<Rightarrow> sessions_error + catalog" where
  "cluster_sessions gap_minutes ct =
     rbind (compute_clusters (ct_frames ct) gap_minutes) (\<lambda>clusters.
       let existing = existing_session_frames ct;
           (ct', consumed) = fold (place_cluster existing) clusters (ct, [])
       in Inr (drop_unused_targets (drop_orphans existing consumed ct')))"

section \<open>The gap loop computes a split\<close>

text \<open>Reference: cut a list between neighbours that \<open>brk\<close> separates.\<close>

fun split_when :: "('a \<Rightarrow> 'a \<Rightarrow> bool) \<Rightarrow> 'a list \<Rightarrow> 'a list list" where
  "split_when brk [] = []"
| "split_when brk [x] = [[x]]"
| "split_when brk (x # y # ys) =
     (if brk x y then [x] # split_when brk (y # ys)
      else (x # hd (split_when brk (y # ys))) # tl (split_when brk (y # ys)))"

lemma split_when_Nil [simp]: "split_when brk xs = [] \<longleftrightarrow> xs = []"
  by (induction brk xs rule: split_when.induct) auto

lemma concat_split_when [simp]: "concat (split_when brk xs) = xs"
proof (induction brk xs rule: split_when.induct)
  case (3 brk x y ys)
  then show ?case by (cases "split_when brk (y # ys)") auto
qed auto

lemma split_hd: "hd (split_when brk (y # ys)) \<noteq> [] \<and> hd (hd (split_when brk (y # ys))) = y"
  by (cases ys) simp_all

lemma split_when_parts: "g \<in> set (split_when brk xs) \<Longrightarrow> g \<noteq> [] \<and> successively (\<lambda>x y. \<not> brk x y) g"
proof (induction brk xs arbitrary: g rule: split_when.induct)
  case (3 brk x y ys)
  obtain h hs where s: "split_when brk (y # ys) = h # hs" by (cases "split_when brk (y # ys)") auto
  have "h \<noteq> [] \<and> hd h = y"
    using split_hd [of brk y ys] by (simp add: s)
  then show ?case
    using "3.prems" "3.IH" by (cases "brk x y") (auto simp: s successively_Cons)
qed auto

definition breaks :: "int \<Rightarrow> frame \<Rightarrow> frame \<Rightarrow> bool" where
  "breaks threshold_seconds x y =
     (case (parse_iso (fr_date_obs y), parse_iso (fr_date_obs x)) of
        (Some t, Some prev) \<Rightarrow> (case dt_diff t prev of None \<Rightarrow> True | Some us \<Rightarrow> threshold_seconds * 1000000 < us)
      | _ \<Rightarrow> True)"

definition cluster_of :: "config_key \<Rightarrow> frame list \<Rightarrow> cluster" where
  "cluster_of config fs =
     \<lparr>cl_config = config, cl_frame_ids = map fr_id fs, cl_failed_count = int (length (filter is_failed fs)),
      cl_started_at = fr_date_obs (hd fs), cl_ended_at = fr_date_obs (last fs)\<rparr>"

definition mixed :: "frame list \<Rightarrow> bool" where
  "mixed fs \<longleftrightarrow> (\<exists>x \<in> set fs. is_naive (sort_time x)) \<and> (\<exists>x \<in> set fs. \<not> is_naive (sort_time x))"

definition time_order :: "frame list \<Rightarrow> frame list" where
  "time_order = sort_key (\<lambda>r. (instant (sort_time r), fr_id r))"

definition clusters_of :: "int \<Rightarrow> config_key \<times> frame list \<Rightarrow> cluster list" where
  "clusters_of threshold_seconds = (\<lambda>(config, fs). map (cluster_of config) (split_when (breaks threshold_seconds) (time_order fs)))"

lemma sort_frames_eq: "sort_frames fs = (if mixed fs then Inl Mixed_Timezones else Inr (time_order fs))"
  by (auto simp: sort_frames_def mixed_def time_order_def list_ex_iff)

lemma same_kind:
  assumes "\<not> mixed fs" "x \<in> set fs" "y \<in> set fs" "parse_iso (fr_date_obs x) = Some t" "parse_iso (fr_date_obs y) = Some u"
  shows "dt_diff t u \<noteq> None"
proof -
  have "is_naive t = is_naive u"
    using assms unfolding mixed_def sort_time_def by (metis option.simps(5))
  then show ?thesis by (cases t; cases u) (simp_all add: is_naive_def)
qed

fun split_acc :: "('a \<Rightarrow> 'a \<Rightarrow> bool) \<Rightarrow> 'a list \<Rightarrow> 'a \<Rightarrow> 'a list \<Rightarrow> 'a list list" where
  "split_acc brk pre x [] = [pre @ [x]]"
| "split_acc brk pre x (y # ys) =
     (if brk x y then (pre @ [x]) # split_acc brk [] y ys else split_acc brk (pre @ [x]) y ys)"

lemma split_acc_eq:
  "split_acc brk pre x ys = (pre @ hd (split_when brk (x # ys))) # tl (split_when brk (x # ys))"
proof (induction brk pre x ys rule: split_acc.induct)
  case (2 brk pre x y ys)
  obtain h hs where "split_when brk (y # ys) = h # hs" by (cases "split_when brk (y # ys)") auto
  then show ?case using 2 by simp
qed simp

lemma open_cluster_of: "open_cluster config f = cluster_of config [f]"
  by (simp add: open_cluster_def cluster_of_def)

lemma extend_cluster_of:
  "extend_cluster y (cluster_of config (pre @ [x])) = cluster_of config (pre @ [x, y])"
  by (cases pre) (simp_all add: extend_cluster_def cluster_of_def)

lemma gap_loop:
  assumes "\<not> mixed fs" "set (x # ys) \<subseteq> set fs"
  shows "\<exists>st. fold_res (gap_step config thr) ys (cs, Some (cluster_of config (pre @ [x])), parse_iso (fr_date_obs x)) = Inr st
    \<and> close_current st = cs @ map (cluster_of config) (split_acc (breaks thr) pre x ys)"
  using assms(2)
proof (induction ys arbitrary: cs pre x)
  case Nil
  show ?case by (simp add: close_current_def)
next
  case (Cons y ys)
  let ?dy = "parse_iso (fr_date_obs y)"
  have nodiff: "dt_diff t u \<noteq> None" if "?dy = Some t" "parse_iso (fr_date_obs x) = Some u" for t u
    by (rule same_kind [OF assms(1) _ _ that]) (use Cons.prems in simp_all)
  have step: "gap_step config thr y (cs, Some (cluster_of config (pre @ [x])), parse_iso (fr_date_obs x))
      = Inr (if breaks thr x y then (cs @ [cluster_of config (pre @ [x])], Some (cluster_of config [y]), ?dy)
             else (cs, Some (cluster_of config (pre @ [x] @ [y])), ?dy))"
  proof (cases "?dy = None \<or> parse_iso (fr_date_obs x) = None")
    case True
    then show ?thesis by (auto simp: gap_step_def breaks_def open_cluster_of split: option.splits)
  next
    case False
    then obtain t u where tu: "?dy = Some t" "parse_iso (fr_date_obs x) = Some u" by auto
    then obtain us where "dt_diff t u = Some us" using nodiff by blast
    then show ?thesis by (simp add: gap_step_def breaks_def open_cluster_of extend_cluster_of tu)
  qed
  show ?case
    using Cons.IH [of y "cs @ [cluster_of config (pre @ [x])]" "[]"] Cons.IH [of y cs "pre @ [x]"] Cons.prems step
    by (cases "breaks thr x y") auto
qed

lemma cluster_group_eq:
  "cluster_group thr (config, fs) cs
   = (if mixed fs then Inl Mixed_Timezones else Inr (cs @ clusters_of thr (config, fs)))"
proof (cases "mixed fs")
  case False
  show ?thesis
  proof (cases "time_order fs")
    case Nil
    then show ?thesis using False by (simp add: cluster_group_def sort_frames_eq clusters_of_def close_current_def)
  next
    case (Cons x ys)
    have "set (x # ys) \<subseteq> set fs" unfolding Cons [symmetric] time_order_def by simp
    from gap_loop [OF False this, of config thr cs "[]"] obtain st
      where "fold_res (gap_step config thr) ys (cs, Some (cluster_of config [x]), parse_iso (fr_date_obs x)) = Inr st"
        "close_current st = cs @ map (cluster_of config) (split_when (breaks thr) (x # ys))"
      by (auto simp: split_acc_eq)
    moreover have "gap_step config thr x (cs, None, None) = Inr (cs, Some (cluster_of config [x]), parse_iso (fr_date_obs x))"
      by (simp add: gap_step_def open_cluster_def cluster_of_def split: option.splits)
    ultimately show ?thesis
      using False Cons by (simp add: cluster_group_def sort_frames_eq clusters_of_def)
  qed
qed (simp add: cluster_group_def sort_frames_eq)

section \<open>Groups and clusters\<close>

definition group_of :: "frame list \<Rightarrow> config_key \<Rightarrow> frame list" where
  "group_of fs k = filter (\<lambda>r. eligible r \<and> config_of r = k) fs"

lemma group_fold:
  "wf_dict gs \<Longrightarrow> wf_dict (fold group_add fs gs)
   \<and> map_of (fold group_add fs gs) k
     = (let new = filter (\<lambda>r. config_of r = k) fs
        in if new = [] then map_of gs k else Some ((case map_of gs k of None \<Rightarrow> [] | Some old \<Rightarrow> old) @ new))"
proof (induction fs arbitrary: gs)
  case (Cons f fs)
  have "wf_dict (group_add f gs)" using Cons.prems by (simp add: group_add_def)
  from Cons.IH [OF this] show ?case
    by (auto simp: group_add_def Let_def split: option.splits if_splits)
qed simp

lemma group_frames_wf [simp]: "wf_dict (group_frames fs)"
  using group_fold [of "[]" "filter eligible fs"] by (simp add: group_frames_def)

lemma group_frames_lookup:
  "map_of (group_frames fs) k = (if group_of fs k = [] then None else Some (group_of fs k))"
  using group_fold [of "[]" "filter eligible fs" k]
  by (simp add: group_frames_def group_of_def Let_def conj_commute)

lemma group_frames_iff: "(k, g) \<in> set (group_frames fs) \<longleftrightarrow> g = group_of fs k \<and> g \<noteq> []"
  using map_of_eq_Some_iff [OF group_frames_wf, of fs k g] group_frames_lookup [of fs k] by (auto split: if_splits)

lemma sum_groups:
  assumes "wf_dict gs" "\<And>k g. (k, g) \<in> set gs \<Longrightarrow> g = filter (\<lambda>r. c r = k) xs" "\<And>r. r \<in> set xs \<Longrightarrow> c r \<in> fst ` set gs"
  shows "mset (concat (map snd gs)) = mset xs"
proof -
  have "mset (concat (map snd gs)) = mset (filter (\<lambda>r. c r \<in> fst ` set gs) xs)"
    using assms(1,2)
  proof (induction gs)
    case (Cons kg gs)
    obtain k g where kg: "kg = (k, g)" by (cases kg)
    have "mset (filter (\<lambda>r. c r \<in> fst ` set (kg # gs)) xs)
        = mset (filter (\<lambda>r. c r = k) xs) + mset (filter (\<lambda>r. c r \<in> fst ` set gs) xs)"
      using Cons.prems(1) unfolding kg by (induction xs) auto
    moreover have "g = filter (\<lambda>r. c r = k) xs" using Cons.prems(2) [of k g] by (simp add: kg)
    moreover have "mset (concat (map snd gs)) = mset (filter (\<lambda>r. c r \<in> fst ` set gs) xs)"
      using Cons.prems by (intro Cons.IH) (simp_all add: kg)
    ultimately show ?case by (simp add: kg)
  qed simp
  also have "filter (\<lambda>r. c r \<in> fst ` set gs) xs = xs" using assms(3) by simp
  finally show ?thesis .
qed

lemma groups_mset: "mset (concat (map snd (group_frames fs))) = mset (filter eligible fs)"
proof (rule sum_groups [where c = config_of])
  show "g = filter (\<lambda>r. config_of r = k) (filter eligible fs)" if "(k, g) \<in> set (group_frames fs)" for k g
    using that by (simp add: group_frames_iff group_of_def conj_commute)
  show "config_of r \<in> fst ` set (group_frames fs)" if "r \<in> set (filter eligible fs)" for r
  proof -
    have "group_of fs (config_of r) \<noteq> []" using that by (auto simp: group_of_def filter_empty_conv)
    then have "(config_of r, group_of fs (config_of r)) \<in> set (group_frames fs)" by (simp add: group_frames_iff)
    then show ?thesis by force
  qed
qed simp

lemma cluster_groups_eq:
  "fold_res (cluster_group thr) gs cs
   = (if \<exists>(k, g) \<in> set gs. mixed g then Inl Mixed_Timezones else Inr (cs @ concat (map (clusters_of thr) gs)))"
proof (induction gs arbitrary: cs)
  case (Cons kg gs)
  obtain k g where "kg = (k, g)" by (cases kg)
  then show ?case using Cons by (simp add: cluster_group_eq)
qed simp

text \<open>
  C31: the clustering loop computes the documented thing. Per configuration the frames, in time order, are cut exactly
  where a neighbour pair is more than the gap apart or has an unreadable time; a piece becomes a cluster
  with its frame ids, its count of failed frames and its first and last times.
\<close>

theorem compute_clusters_reference:
  "compute_clusters fs gap
   = (if \<exists>(k, g) \<in> set (group_frames fs). mixed g then Inl Mixed_Timezones
      else Inr (concat (map (\<lambda>(config, g). map (cluster_of config) (split_when (breaks (gap * 60)) (time_order g)))
                  (group_frames fs))))"
proof -
  have "clusters_of (gap * 60) = (\<lambda>(config, g). map (cluster_of config) (split_when (breaks (gap * 60)) (time_order g)))"
    by (simp add: clusters_of_def)
  then show ?thesis by (simp add: compute_clusters_def cluster_groups_eq)
qed

lemma compute_clusters_Inr:
  "compute_clusters fs gap = Inr cs \<Longrightarrow> cs = concat (map (clusters_of (gap * 60)) (group_frames fs))"
  by (simp add: compute_clusters_def cluster_groups_eq split: if_splits)

lemma clusters_mset:
  assumes "compute_clusters fs gap = Inr cs"
  shows "mset (concat (map cl_frame_ids cs)) = mset (map fr_id (filter eligible fs))"
proof -
  have one: "concat (map cl_frame_ids (clusters_of thr kg)) = map fr_id (time_order (snd kg))" for thr kg
    by (cases kg) (simp add: clusters_of_def cluster_of_def comp_def map_concat [symmetric])
  have "mset (concat (map cl_frame_ids (concat (map (clusters_of (gap * 60)) gs)))) = mset (map fr_id (concat (map snd gs)))" for gs
    by (induction gs) (simp_all add: one time_order_def)
  then show ?thesis
    unfolding compute_clusters_Inr [OF assms] by (simp only: mset_map groups_mset)
qed

lemma clusters_facts:
  assumes "compute_clusters fs gap = Inr cs" "distinct (map fr_id fs)"
  shows "distinct (concat (map cl_frame_ids cs))"
    "set (concat (map cl_frame_ids cs)) = fr_id ` {r \<in> set fs. eligible r}"
    "\<And>c. c \<in> set cs \<Longrightarrow> cl_frame_ids c \<noteq> []"
proof -
  note m = clusters_mset [OF assms(1)]
  have "distinct (map fr_id (filter eligible fs))" using assms(2) by (rule distinct_map_filter)
  then show "distinct (concat (map cl_frame_ids cs))" using mset_eq_imp_distinct_iff [OF m] by simp
  show "set (concat (map cl_frame_ids cs)) = fr_id ` {r \<in> set fs. eligible r}"
    using mset_eq_setD [OF m] by auto
  show "cl_frame_ids c \<noteq> []" if "c \<in> set cs" for c
    using that unfolding compute_clusters_Inr [OF assms(1)]
    by (auto simp: clusters_of_def cluster_of_def dest: split_when_parts)
qed

section \<open>Matching clusters to sessions\<close>

lemma match_fold:
  "\<exists>b v. fold (\<lambda>(sid, frame_ids) (best_id, best_overlap).
            if sid \<in> set consumed then (best_id, best_overlap)
            else if best_overlap < overlap cf frame_ids then (Some sid, overlap cf frame_ids)
            else (best_id, best_overlap)) existing (binit, vinit) = (b, v)
     \<and> vinit \<le> v \<and> (\<forall>(sid, fs) \<in> set existing. sid \<in> set consumed \<or> overlap cf fs \<le> v)
     \<and> ((b, v) = (binit, vinit) \<or> (\<exists>(sid, fs) \<in> set existing. sid \<notin> set consumed \<and> b = Some sid \<and> v = overlap cf fs \<and> vinit < v))"
proof (induction existing arbitrary: binit vinit)
  case (Cons e existing)
  obtain sid fs where e: "e = (sid, fs)" by (cases e)
  let ?take = "sid \<notin> set consumed \<and> vinit < overlap cf fs"
  show ?case
  proof (cases ?take)
    case True
    from Cons.IH [of "Some sid" "overlap cf fs"] True show ?thesis by (fastforce simp: e)
  next
    case False
    from Cons.IH [of binit vinit] False show ?thesis by (fastforce simp: e)
  qed
qed simp

lemma match_facts:
  obtains (none) "match_cluster_to_session cf existing consumed = None"
      "\<And>sid fs. (sid, fs) \<in> set existing \<Longrightarrow> sid \<notin> set consumed \<Longrightarrow> overlap cf fs = 0"
  | (some) sid fs where "match_cluster_to_session cf existing consumed = Some sid"
      "(sid, fs) \<in> set existing" "sid \<notin> set consumed" "0 < overlap cf fs"
      "\<And>sid' fs'. (sid', fs') \<in> set existing \<Longrightarrow> sid' \<notin> set consumed \<Longrightarrow> overlap cf fs' \<le> overlap cf fs"
proof -
  obtain b v where bv: "fold (\<lambda>(sid, frame_ids) (best_id, best_overlap).
            if sid \<in> set consumed then (best_id, best_overlap)
            else if best_overlap < overlap cf frame_ids then (Some sid, overlap cf frame_ids)
            else (best_id, best_overlap)) existing (None, 0) = (b, v)"
    and le: "\<forall>(sid, fs) \<in> set existing. sid \<in> set consumed \<or> overlap cf fs \<le> v"
    and src: "(b, v) = (None, 0) \<or> (\<exists>(sid, fs) \<in> set existing. sid \<notin> set consumed \<and> b = Some sid \<and> v = overlap cf fs \<and> 0 < v)"
    using match_fold [where consumed = consumed and cf = cf and existing = existing and binit = None and vinit = 0] by blast
  have m: "match_cluster_to_session cf existing consumed = b" by (simp add: match_cluster_to_session_def bv)
  from src show thesis
  proof
    assume "(b, v) = (None, 0)"
    then show thesis using none m le by fastforce
  next
    assume "\<exists>(sid, fs) \<in> set existing. sid \<notin> set consumed \<and> b = Some sid \<and> v = overlap cf fs \<and> 0 < v"
    then obtain sid fs where "(sid, fs) \<in> set existing" "sid \<notin> set consumed" "b = Some sid" "v = overlap cf fs" "0 < v"
      by blast
    then show thesis using some [of sid fs] m le by fastforce
  qed
qed

text \<open>
  which session a cluster continues. It is one not yet taken in this rebuild, sharing at least one frame, and
  no other free session shares more; there is none exactly when no free session shares a frame.
\<close>

theorem match_largest_overlap:
  "case match_cluster_to_session cf existing consumed of
     None \<Rightarrow> \<forall>(sid, fs) \<in> set existing. sid \<in> set consumed \<or> set cf \<inter> set fs = {}
   | Some sid \<Rightarrow> sid \<notin> set consumed \<and> (\<exists>fs. (sid, fs) \<in> set existing \<and> set cf \<inter> set fs \<noteq> {}
       \<and> (\<forall>(sid', fs') \<in> set existing. sid' \<in> set consumed \<or> card (set cf \<inter> set fs') \<le> card (set cf \<inter> set fs)))"
proof -
  have card: "overlap cf fs = card (set cf \<inter> set fs)" for fs
  proof -
    have "overlap cf fs = card (set (filter (\<lambda>x. x \<in> set fs) (remdups cf)))"
      unfolding overlap_def by (rule distinct_card [symmetric]) simp
    then show ?thesis by (simp add: Int_def)
  qed
  show ?thesis
  proof (cases rule: match_facts [of cf existing consumed])
    case none
    then show ?thesis by (auto simp: card)
  next
    case (some sid fs)
    have "set cf \<inter> set fs \<noteq> {}" using some(4) by (auto simp: card)
    moreover have "\<forall>(sid', fs') \<in> set existing. sid' \<in> set consumed \<or> card (set cf \<inter> set fs') \<le> card (set cf \<inter> set fs)"
      using some(5) unfolding card by blast
    ultimately show ?thesis using some(1,2,3) by auto
  qed
qed

lemma match_Some:
  assumes "match_cluster_to_session cf existing consumed = Some sid"
  shows "sid \<in> set (dkeys existing)" "sid \<notin> set consumed"
  using assms by (cases rule: match_facts [of cf existing consumed]; force)+

lemma overlap_zero: "overlap cf fs = 0 \<longleftrightarrow> set cf \<inter> set fs = {}"
  by (auto simp: overlap_def filter_empty_conv)

lemma match_only:
  assumes "map_of existing sid = Some fs" "wf_dict existing" "sid \<notin> set consumed" "set cf \<inter> set fs \<noteq> {}"
    and "\<And>sid' fs'. (sid', fs') \<in> set existing \<Longrightarrow> sid' \<noteq> sid \<Longrightarrow> set cf \<inter> set fs' = {}"
  shows "match_cluster_to_session cf existing consumed = Some sid"
proof -
  have own: "(sid, fs) \<in> set existing" using assms(1) by (rule map_of_SomeD)
  show ?thesis
  proof (cases rule: match_facts [of cf existing consumed])
    case none
    show ?thesis using none(2) [OF own assms(3)] overlap_zero [of cf fs] assms(4) by simp
  next
    case (some sid' fs')
    then have "sid' = sid" using assms(5) [OF some(2)] overlap_zero [of cf fs'] by auto
    with some(1) show ?thesis by simp
  qed
qed

section \<open>The rebuild\<close>

definition wf_catalog :: "catalog \<Rightarrow> bool" where
  "wf_catalog ct \<longleftrightarrow>
     distinct (map fr_id (ct_frames ct)) \<and> distinct (map se_id (ct_sessions ct))
     \<and> fst ` set (ct_links ct) \<subseteq> se_id ` set (ct_sessions ct)
     \<and> (\<forall>r \<in> set (ct_sessions ct). \<forall>t. se_target_id r = Some t \<longrightarrow> t \<in> fst ` set (ct_targets ct))"

lemma existing_init:
  "map_of (fold (\<lambda>r out. dput (se_id r) [] out) rs out) k = (if k \<in> se_id ` set rs then Some [] else map_of out k)"
  "wf_dict out \<Longrightarrow> wf_dict (fold (\<lambda>r out. dput (se_id r) [] out) rs out)"
  by (induction rs arbitrary: out) auto

lemma existing_links:
  "map_of (fold (\<lambda>(sid, fid) out. dput sid ((case map_of out sid of None \<Rightarrow> [] | Some fs \<Rightarrow> fs) @ [fid]) out) ls out) k
   = (if k \<in> fst ` set ls then Some ((case map_of out k of None \<Rightarrow> [] | Some fs \<Rightarrow> fs) @ map snd (filter (\<lambda>(s, f). s = k) ls))
      else map_of out k)"
  "wf_dict out \<Longrightarrow>
   wf_dict (fold (\<lambda>(sid, fid) out. dput sid ((case map_of out sid of None \<Rightarrow> [] | Some fs \<Rightarrow> fs) @ [fid]) out) ls out)"
proof (induction ls arbitrary: out)
  case (Cons l ls)
  obtain s f where l: "l = (s, f)" by (cases l)
  {
    case 1
    have none: "map snd (filter (\<lambda>(s', f). s' = s) ls) = []" if "s \<notin> fst ` set ls"
      using that by (force simp: filter_empty_conv)
    show ?case using none by (auto simp: l Cons.IH(1))
  next
    case 2
    then show ?case by (simp add: l Cons.IH(2))
  }
qed simp_all

lemma existing_lookup:
  assumes "wf_catalog ct"
  shows "map_of (existing_session_frames ct) k
    = (if k \<in> se_id ` set (ct_sessions ct) then Some (map snd (filter (\<lambda>(s, f). s = k) (ct_links ct))) else None)"
proof -
  have "map snd (filter (\<lambda>(s, f). s = k) (ct_links ct)) = []" if "k \<notin> fst ` set (ct_links ct)"
    using that by (force simp: filter_empty_conv)
  then show ?thesis
    using assms by (auto simp: existing_session_frames_def existing_links(1) existing_init(1) wf_catalog_def)
qed

lemma existing_wf [simp]: "wf_dict (existing_session_frames ct)"
  by (simp add: existing_session_frames_def existing_links(2) existing_init(2))

lemma existing_keys:
  assumes "wf_catalog ct"
  shows "set (dkeys (existing_session_frames ct)) = se_id ` set (ct_sessions ct)"
proof (rule set_eqI)
  fix k
  show "k \<in> set (dkeys (existing_session_frames ct)) \<longleftrightarrow> k \<in> se_id ` set (ct_sessions ct)"
    using existing_lookup [OF assms, of k] map_of_eq_None_iff [of "existing_session_frames ct" k]
    by (auto split: if_splits)
qed

lemma next_rowid_greater: "i \<in> set ids \<Longrightarrow> i < next_rowid ids"
proof -
  assume i: "i \<in> set ids"
  then obtain j js where ids: "ids = j # js" by (cases ids) auto
  have "fold max ids (hd ids) = Max (set ids)" using Max.set_eq_fold [of j js] by (simp add: ids)
  moreover have "i \<le> Max (set ids)" using i by simp
  ultimately show ?thesis by (simp add: next_rowid_def ids)
qed

definition links_for :: "frame list \<Rightarrow> cluster \<times> int \<Rightarrow> (int \<times> int) list" where
  "links_for fs = (\<lambda>(c, sid). map (\<lambda>r. (sid, fr_id r)) (filter (\<lambda>r. fr_id r \<in> set (cl_frame_ids c)) fs))"

definition row_fits :: "catalog \<Rightarrow> cluster \<Rightarrow> int \<Rightarrow> bool" where
  "row_fits ct c sid \<longleftrightarrow> (\<exists>r \<in> set (ct_sessions ct). se_id r = sid \<and> refresh_session c r = r)"

text \<open>The state after the clusters \<open>ps\<close> have been placed in the sessions \<open>sids\<close>.\<close>

definition placed :: "catalog \<Rightarrow> cluster list \<Rightarrow> int list \<Rightarrow> catalog \<times> int list \<Rightarrow> bool" where
  "placed ct0 ps sids = (\<lambda>(ct, consumed).
     length sids = length ps \<and> distinct sids \<and> ct_frames ct = ct_frames ct0
     \<and> ct_links ct = filter (\<lambda>(s, f). s \<notin> set sids) (ct_links ct0) @ concat (map (links_for (ct_frames ct0)) (zip ps sids))
     \<and> distinct (map se_id (ct_sessions ct))
     \<and> se_id ` set (ct_sessions ct) = se_id ` set (ct_sessions ct0) \<union> set sids
     \<and> set consumed = set sids \<inter> se_id ` set (ct_sessions ct0)
     \<and> list_all2 (row_fits ct) ps sids
     \<and> (\<forall>r \<in> set (ct_sessions ct). \<forall>t. se_target_id r = Some t \<longrightarrow> t \<in> fst ` set (ct_targets ct)))"

lemma refresh_id [simp]: "se_id (refresh_session c r) = se_id r" "se_target_id (refresh_session c r) = se_target_id r"
  "refresh_session c (refresh_session c r) = refresh_session c r"
  by (simp_all add: refresh_session_def split: prod.splits)

lemma new_session_fields [simp]: "se_id (new_session sid t c) = sid" "se_target_id (new_session sid t c) = t"
  "refresh_session c (new_session sid t c) = new_session sid t c"
  by (simp_all add: refresh_session_def new_session_def split: prod.splits)

lemma links_for_concat_fst:
  "(s, f) \<in> set (concat (map (links_for fs) (zip ps sids))) \<Longrightarrow> s \<in> set sids"
  by (auto simp: links_for_def dest: set_zip_rightD)

lemma relink_links:
  assumes "length sids = length ps" "sid \<notin> set sids"
    "ct_links ct = filter (\<lambda>(s, f). s \<notin> set sids) L @ concat (map (links_for (ct_frames ct)) (zip ps sids))"
  shows "ct_links (relink sid (cl_frame_ids c) ct)
    = filter (\<lambda>(s, f). s \<notin> set (sids @ [sid])) L @ concat (map (links_for (ct_frames ct)) (zip (ps @ [c]) (sids @ [sid])))"
proof -
  have keep: "filter (\<lambda>(s, f). s \<noteq> sid) (concat (map (links_for fs) (zip ps sids))) = concat (map (links_for fs) (zip ps sids))" for fs
    using assms(2) by (intro filter_True) (auto simp: links_for_def dest: set_zip_rightD)
  have "filter (\<lambda>(s, f). s \<noteq> sid) (filter (\<lambda>(s, f). s \<notin> set sids) L) = filter (\<lambda>(s, f). s \<notin> set (sids @ [sid])) L"
    by (auto intro: filter_cong)
  moreover have "zip (ps @ [c]) (sids @ [sid]) = zip ps sids @ [(c, sid)]" using assms(1) by simp
  ultimately show ?thesis by (simp add: relink_def assms(3) keep) (simp add: links_for_def)
qed

lemma relink_fields [simp]:
  "ct_frames (relink sid ids ct) = ct_frames ct" "ct_sessions (relink sid ids ct) = ct_sessions ct"
  "ct_targets (relink sid ids ct) = ct_targets ct"
  by (simp_all add: relink_def)

lemma row_fits_cong: "ct_sessions ct = ct_sessions ct' \<Longrightarrow> row_fits ct = row_fits ct'"
  by (simp add: row_fits_def fun_eq_iff)

lemma upsert_target_fields:
  assumes "upsert_target name ct = (ct', i)"
  shows "ct_frames ct' = ct_frames ct" "ct_sessions ct' = ct_sessions ct" "ct_links ct' = ct_links ct"
    "i \<in> fst ` set (ct_targets ct')" "\<exists>new. ct_targets ct' = ct_targets ct @ new \<and> fst ` set new \<inter> fst ` set (ct_targets ct) = {}"
proof -
  show "ct_frames ct' = ct_frames ct" "ct_sessions ct' = ct_sessions ct" "ct_links ct' = ct_links ct"
    using assms by (auto simp: upsert_target_def Let_def split: option.splits)
  show "i \<in> fst ` set (ct_targets ct')"
    using assms by (force simp: upsert_target_def Let_def find_Some_iff in_set_conv_nth split: option.splits)
  have "next_rowid (map fst (ct_targets ct)) \<notin> fst ` set (ct_targets ct)"
    using next_rowid_greater [of "next_rowid (map fst (ct_targets ct))" "map fst (ct_targets ct)"] by auto
  then show "\<exists>new. ct_targets ct' = ct_targets ct @ new \<and> fst ` set new \<inter> fst ` set (ct_targets ct) = {}"
    using assms by (auto simp: upsert_target_def Let_def split: option.splits)
qed

definition with_target :: "cluster \<Rightarrow> catalog \<Rightarrow> catalog \<times> int option" where
  "with_target c ct = (case target_of c of
       Some name \<Rightarrow> if name = '''' then (ct, None) else (let (ct', i) = upsert_target name ct in (ct', Some i))
     | None \<Rightarrow> (ct, None))"

lemma with_target_fields:
  assumes "with_target c ct = (ct', t)"
  shows "ct_frames ct' = ct_frames ct" "ct_sessions ct' = ct_sessions ct" "ct_links ct' = ct_links ct"
    "\<And>i. t = Some i \<Longrightarrow> i \<in> fst ` set (ct_targets ct')"
    "\<exists>new. ct_targets ct' = ct_targets ct @ new \<and> fst ` set new \<inter> fst ` set (ct_targets ct) = {}"
proof -
  have "(ct' = ct \<and> t = None) \<or> (\<exists>name i. upsert_target name ct = (ct', i) \<and> t = Some i)"
    using assms by (auto simp: with_target_def split: option.splits if_splits prod.splits)
  then consider "ct' = ct" "t = None" | name i where "upsert_target name ct = (ct', i)" "t = Some i" by blast
  then show "ct_frames ct' = ct_frames ct" "ct_sessions ct' = ct_sessions ct" "ct_links ct' = ct_links ct"
    "\<And>i. t = Some i \<Longrightarrow> i \<in> fst ` set (ct_targets ct')"
    "\<exists>new. ct_targets ct' = ct_targets ct @ new \<and> fst ` set new \<inter> fst ` set (ct_targets ct) = {}"
    by (cases; simp add: upsert_target_fields)+
qed

lemma place_cluster_eq:
  "place_cluster existing c (ct, consumed) =
     (let (ct1, target_id) = with_target c ct
      in case match_cluster_to_session (cl_frame_ids c) existing consumed of
          Some sid \<Rightarrow>
            (relink sid (cl_frame_ids c)
               (ct1\<lparr>ct_sessions := map (\<lambda>r. if se_id r = sid then refresh_session c r else r) (ct_sessions ct1)\<rparr>),
             sid # consumed)
        | None \<Rightarrow>
            let sid = next_rowid (map se_id (ct_sessions ct1))
            in (relink sid (cl_frame_ids c) (ct1\<lparr>ct_sessions := ct_sessions ct1 @ [new_session sid target_id c]\<rparr>),
                consumed))"
  by (simp add: place_cluster_def with_target_def)

lemma placed_start: "wf_catalog ct \<Longrightarrow> placed ct [] [] (ct, [])"
  by (simp add: placed_def wf_catalog_def)

lemma fits_snoc:
  assumes "list_all2 (row_fits ct) ps sids"
    and "\<And>c' sid'. sid' \<in> set sids \<Longrightarrow> row_fits ct c' sid' \<Longrightarrow> row_fits ct' c' sid'" "row_fits ct' c sid"
  shows "list_all2 (row_fits ct') (ps @ [c]) (sids @ [sid])"
proof (rule list_all2_appendI)
  show "list_all2 (row_fits ct') ps sids" by (rule list.rel_mono_strong [OF assms(1)]) (rule assms(2))
qed (simp add: assms(3))

lemma placed_step:
  assumes wf: "wf_catalog ct0" and p: "placed ct0 ps sids (ct, consumed)"
    and step: "place_cluster (existing_session_frames ct0) c (ct, consumed) = (ct', consumed')"
  shows "\<exists>sid. placed ct0 (ps @ [c]) (sids @ [sid]) (ct', consumed')"
proof -
  let ?ex = "existing_session_frames ct0"
  obtain ct1 t where ct1: "with_target c ct = (ct1, t)" by (cases "with_target c ct")
  note f = with_target_fields [OF ct1]
  from f(5) obtain new where new: "ct_targets ct1 = ct_targets ct @ new" by blast
  note inv = p [unfolded placed_def prod.case]
  have links: "ct_links ct2 = filter (\<lambda>(s, f). s \<notin> set sids) (ct_links ct0) @ concat (map (links_for (ct_frames ct2)) (zip ps sids))"
    if "ct_links ct2 = ct_links ct" "ct_frames ct2 = ct_frames ct" for ct2
    using inv that by simp
  have fits: "list_all2 (row_fits ct) ps sids" using inv by blast
  have refs: "t' \<in> fst ` set (ct_targets ct)" if "r \<in> set (ct_sessions ct)" "se_target_id r = Some t'" for r t'
    using inv that by blast
  show ?thesis
  proof (cases "match_cluster_to_session (cl_frame_ids c) ?ex consumed")
    case (Some sid)
    let ?g = "\<lambda>r. if se_id r = sid then refresh_session c r else r"
    let ?ct2 = "ct1\<lparr>ct_sessions := map ?g (ct_sessions ct1)\<rparr>"
    have ct': "ct' = relink sid (cl_frame_ids c) ?ct2" "consumed' = sid # consumed"
      using step by (simp_all add: place_cluster_eq ct1 Some)
    have sid: "sid \<in> se_id ` set (ct_sessions ct0)" "sid \<notin> set consumed"
      using match_Some [OF Some] existing_keys [OF wf] by auto
    then have fresh: "sid \<notin> set sids" using inv by auto
    have ids: "map se_id (map ?g rs) = map se_id rs" for rs by (simp add: comp_def cong: if_cong)
    have ids': "map se_id (ct_sessions ct') = map se_id (ct_sessions ct)"
      using ids [of "ct_sessions ct"] by (simp add: ct' f)
    have old: "row_fits ct' c' sid'" if "sid' \<in> set sids" "row_fits ct c' sid'" for c' sid'
    proof -
      obtain r where "r \<in> set (ct_sessions ct)" "se_id r = sid'" "refresh_session c' r = r"
        using \<open>row_fits ct c' sid'\<close> by (auto simp: row_fits_def)
      then show ?thesis
        using fresh \<open>sid' \<in> set sids\<close> by (auto simp: row_fits_def ct' f intro!: bexI [of _ r])
    qed
    have now: "row_fits ct' c sid"
    proof -
      have "sid \<in> se_id ` set (ct_sessions ct)" using sid(1) inv by auto
      then obtain r where "r \<in> set (ct_sessions ct)" "se_id r = sid" by auto
      then show ?thesis by (auto simp: row_fits_def ct' f intro!: bexI [of _ "refresh_session c r"] image_eqI [of _ _ r])
    qed
    have "placed ct0 (ps @ [c]) (sids @ [sid]) (ct', consumed')"
      unfolding placed_def prod.case
    proof (intro conjI)
      show "ct_links ct' = filter (\<lambda>(s, f). s \<notin> set (sids @ [sid])) (ct_links ct0)
          @ concat (map (links_for (ct_frames ct0)) (zip (ps @ [c]) (sids @ [sid])))"
        unfolding ct' using relink_links [OF _ fresh links [of ?ct2]] inv f by simp
      show "list_all2 (row_fits ct') (ps @ [c]) (sids @ [sid])"
        using fits old now by (rule fits_snoc)
      show "distinct (map se_id (ct_sessions ct'))" using inv unfolding ids' by blast
      show "se_id ` set (ct_sessions ct') = se_id ` set (ct_sessions ct0) \<union> set (sids @ [sid])"
        using arg_cong [OF ids', of set] inv sid(1) by (auto simp: insert_absorb)
      show "\<forall>r \<in> set (ct_sessions ct'). \<forall>t. se_target_id r = Some t \<longrightarrow> t \<in> fst ` set (ct_targets ct')"
        unfolding ct' by (auto simp: f new image_Un dest: refs split: if_splits)
    qed (use inv fresh sid(1) f in \<open>simp_all add: ct'\<close>)
    then show ?thesis ..
  next
    case None
    define sid where "sid = next_rowid (map se_id (ct_sessions ct))"
    let ?ct2 = "ct1\<lparr>ct_sessions := ct_sessions ct1 @ [new_session sid t c]\<rparr>"
    have ct': "ct' = relink sid (cl_frame_ids c) ?ct2" "consumed' = consumed"
      using step by (simp_all add: place_cluster_eq ct1 None f sid_def Let_def)
    have out: "sid \<notin> se_id ` set (ct_sessions ct)"
      using next_rowid_greater [of sid "map se_id (ct_sessions ct)"] by (auto simp: sid_def)
    then have fresh: "sid \<notin> set sids" "sid \<notin> se_id ` set (ct_sessions ct0)" using inv by auto
    have old: "row_fits ct' c' sid'" if "sid' \<in> set sids" "row_fits ct c' sid'" for c' sid'
      using that by (auto simp: row_fits_def ct' f)
    have now: "row_fits ct' c sid" by (simp add: row_fits_def ct')
    have "placed ct0 (ps @ [c]) (sids @ [sid]) (ct', consumed')"
      unfolding placed_def prod.case
    proof (intro conjI)
      show "ct_links ct' = filter (\<lambda>(s, f). s \<notin> set (sids @ [sid])) (ct_links ct0)
          @ concat (map (links_for (ct_frames ct0)) (zip (ps @ [c]) (sids @ [sid])))"
        unfolding ct' using relink_links [OF _ fresh(1) links [of ?ct2]] inv f by simp
      show "list_all2 (row_fits ct') (ps @ [c]) (sids @ [sid])"
        using fits old now by (rule fits_snoc)
      show "distinct (map se_id (ct_sessions ct'))" using inv out unfolding ct' by (auto simp add: f)
      show "se_id ` set (ct_sessions ct') = se_id ` set (ct_sessions ct0) \<union> set (sids @ [sid])"
        using inv unfolding ct' by (simp add: f)
      show "\<forall>r \<in> set (ct_sessions ct'). \<forall>t. se_target_id r = Some t \<longrightarrow> t \<in> fst ` set (ct_targets ct')"
        using f(4) unfolding ct' by (auto simp: f new image_Un dest: refs)
    qed (use inv fresh f in \<open>simp_all add: ct'\<close>)
    then show ?thesis ..
  qed
qed

lemma placed_all:
  assumes wf: "wf_catalog ct0"
  shows "placed ct0 ps sids st \<Longrightarrow> \<exists>sids'. placed ct0 (ps @ cs) sids' (fold (place_cluster (existing_session_frames ct0)) cs st)"
proof (induction cs arbitrary: ps sids st)
  case (Cons c cs)
  obtain ct consumed where st: "st = (ct, consumed)" by (cases st)
  obtain st' where st': "place_cluster (existing_session_frames ct0) c st = st'" by simp
  obtain sid where "placed ct0 (ps @ [c]) (sids @ [sid]) st'"
    using placed_step [OF wf Cons.prems [unfolded st], of c "fst st'" "snd st'"] st' by (auto simp: st)
  from Cons.IH [OF this] show ?case by (simp add: st')
qed auto

text \<open>The tables after a rebuild.\<close>

definition rebuilt :: "catalog \<Rightarrow> cluster list \<Rightarrow> int list \<Rightarrow> bool" where
  "rebuilt ct clusters sids \<longleftrightarrow>
     length sids = length clusters \<and> distinct sids
     \<and> ct_links ct = concat (map (links_for (ct_frames ct)) (zip clusters sids))
     \<and> distinct (map se_id (ct_sessions ct)) \<and> se_id ` set (ct_sessions ct) = set sids
     \<and> list_all2 (row_fits ct) clusters sids
     \<and> (\<forall>r \<in> set (ct_sessions ct). \<forall>t. se_target_id r = Some t \<longrightarrow> t \<in> fst ` set (ct_targets ct))
     \<and> (\<forall>(t, name) \<in> set (ct_targets ct). \<exists>r \<in> set (ct_sessions ct). se_target_id r = Some t)"

lemma cluster_sessions_rebuilt:
  assumes wf: "wf_catalog ct" and run: "cluster_sessions gap ct = Inr ct'"
  obtains clusters sids where "compute_clusters (ct_frames ct) gap = Inr clusters" "ct_frames ct' = ct_frames ct"
    "rebuilt ct' clusters sids"
proof -
  from run obtain clusters where cs: "compute_clusters (ct_frames ct) gap = Inr clusters"
    by (auto simp: cluster_sessions_def rbind_eq_Inr)
  obtain ct1 consumed where fold: "fold (place_cluster (existing_session_frames ct)) clusters (ct, []) = (ct1, consumed)"
    by (cases "fold (place_cluster (existing_session_frames ct)) clusters (ct, [])")
  have ct': "ct' = drop_unused_targets (drop_orphans (existing_session_frames ct) consumed ct1)"
    using run by (simp add: cluster_sessions_def cs fold)
  obtain sids where "placed ct clusters sids (ct1, consumed)"
    using placed_all [OF wf placed_start [OF wf], of clusters] by (auto simp: fold)
  note p = this [unfolded placed_def prod.case]
  let ?ids = "se_id ` set (ct_sessions ct)"
  have orphan: "s \<in> set (filter (\<lambda>sid. sid \<notin> set consumed) (dkeys (existing_session_frames ct))) \<longleftrightarrow> s \<in> ?ids \<and> s \<notin> set sids" for s
    using p existing_keys [OF wf] by auto
  have ids: "se_id ` set (ct_sessions ct1) = ?ids \<union> set sids" using p by blast
  have sess: "ct_sessions ct' = filter (\<lambda>r. se_id r \<in> set sids) (ct_sessions ct1)"
  proof -
    have "ct_sessions ct' = filter (\<lambda>r. se_id r \<notin> set (filter (\<lambda>sid. sid \<notin> set consumed)
        (dkeys (existing_session_frames ct)))) (ct_sessions ct1)"
      by (simp add: ct' drop_unused_targets_def drop_orphans_def Let_def)
    also have "\<dots> = filter (\<lambda>r. se_id r \<in> set sids) (ct_sessions ct1)"
      unfolding orphan using ids by (intro filter_cong) auto
    finally show ?thesis .
  qed
  have sid_set: "se_id ` set (ct_sessions ct') = set sids"
    using ids by (auto simp: sess)
  have links: "ct_links ct' = concat (map (links_for (ct_frames ct)) (zip clusters sids))"
  proof -
    let ?keep = "\<lambda>(s, f). s \<notin> set (filter (\<lambda>sid. sid \<notin> set consumed) (dkeys (existing_session_frames ct)))"
    have "ct_links ct' = filter ?keep (ct_links ct1)"
      by (simp add: ct' drop_unused_targets_def drop_orphans_def Let_def)
    also have "\<dots> = filter ?keep (filter (\<lambda>(s, f). s \<notin> set sids) (ct_links ct))
        @ filter ?keep (concat (map (links_for (ct_frames ct)) (zip clusters sids)))"
      using p by (simp del: filter_filter)
    also have "filter ?keep (filter (\<lambda>(s, f). s \<notin> set sids) (ct_links ct)) = []"
      using wf unfolding orphan wf_catalog_def by (fastforce simp: filter_empty_conv)
    also have "filter ?keep (concat (map (links_for (ct_frames ct)) (zip clusters sids)))
        = concat (map (links_for (ct_frames ct)) (zip clusters sids))"
      unfolding orphan by (rule filter_True) (auto simp: links_for_def dest: set_zip_rightD)
    finally show ?thesis by simp
  qed
  have fits: "list_all2 (row_fits ct') clusters sids"
  proof (rule list.rel_mono_strong)
    show "list_all2 (row_fits ct1) clusters sids" using p by blast
    show "row_fits ct' c sid" if "sid \<in> set sids" "row_fits ct1 c sid" for c sid
      using that by (auto simp: row_fits_def sess)
  qed
  have refs: "t \<in> fst ` set (ct_targets ct1)" if "r \<in> set (ct_sessions ct1)" "se_target_id r = Some t" for r t
    using p that by blast
  have targets: "ct_targets ct' = filter (\<lambda>(i, _). Some i \<in> set (map se_target_id (ct_sessions ct'))) (ct_targets ct1)"
    by (simp add: ct' drop_unused_targets_def drop_orphans_def Let_def)
  have "rebuilt ct' clusters sids"
    unfolding rebuilt_def
  proof (intro conjI ballI allI impI)
    fix r t
    assume r: "r \<in> set (ct_sessions ct')" "se_target_id r = Some t"
    then have "t \<in> fst ` set (ct_targets ct1)" using refs by (auto simp: sess)
    then show "t \<in> fst ` set (ct_targets ct')"
      using r by (force simp: targets image_iff)
  next
    fix x
    assume "x \<in> set (ct_targets ct')"
    then show "case x of (t, name) \<Rightarrow> \<exists>r \<in> set (ct_sessions ct'). se_target_id r = Some t"
      by (force simp: targets)
  next
    show "distinct (map se_id (ct_sessions ct'))" using p by (simp add: sess distinct_map_filter)
    show "ct_links ct' = concat (map (links_for (ct_frames ct')) (zip clusters sids))"
      using p links by (simp add: ct' drop_unused_targets_def drop_orphans_def Let_def)
  qed (use p sid_set fits in simp_all)
  moreover have "ct_frames ct' = ct_frames ct"
    using p by (simp add: ct' drop_unused_targets_def drop_orphans_def Let_def)
  ultimately show thesis using that cs by blast
qed

lemma distinct_concat_nth:
  "distinct (concat xss) \<Longrightarrow> i < length xss \<Longrightarrow> j < length xss \<Longrightarrow> x \<in> set (xss ! i) \<Longrightarrow> x \<in> set (xss ! j) \<Longrightarrow> i = j"
proof (induction xss arbitrary: i j)
  case (Cons xs xss)
  have later: "x \<in> set (concat xss)" if "x \<in> set (xss ! k)" "k < length xss" for k using that by auto
  have apart: "set xs \<inter> set (concat xss) = {}" using Cons.prems(1) by simp
  have zero: "\<not> (x \<in> set xs \<and> k < length xss \<and> x \<in> set (xss ! k))" for k using later apart by blast
  show ?case
    using Cons.prems zero Cons.IH [of "i - 1" "j - 1"] by (cases i; cases j) auto
qed simp

lemma links_for_set:
  assumes "distinct (map fr_id fs)" "set (cl_frame_ids c) \<subseteq> fr_id ` set fs"
  shows "set (links_for fs (c, sid)) = (\<lambda>f. (sid, f)) ` set (cl_frame_ids c)"
  using assms by (auto simp: links_for_def image_iff subset_iff)

lemma rebuilt_link:
  assumes "rebuilt ct clusters sids" "distinct (map fr_id (ct_frames ct))"
    and "\<And>c. c \<in> set clusters \<Longrightarrow> set (cl_frame_ids c) \<subseteq> fr_id ` set (ct_frames ct)"
  shows "(sid, f) \<in> set (ct_links ct) \<longleftrightarrow> (\<exists>i < length clusters. sid = sids ! i \<and> f \<in> set (cl_frame_ids (clusters ! i)))"
proof -
  have len: "length sids = length clusters" using assms(1) by (simp add: rebuilt_def)
  have "set (links_for (ct_frames ct) (c, s)) = (\<lambda>f. (s, f)) ` set (cl_frame_ids c)" if "(c, s) \<in> set (zip clusters sids)" for c s
    by (rule links_for_set [OF assms(2) assms(3)]) (rule set_zip_leftD [OF that])
  then have "set (ct_links ct) = (\<Union>(c, s) \<in> set (zip clusters sids). (\<lambda>f. (s, f)) ` set (cl_frame_ids c))"
    using assms(1) by (simp add: rebuilt_def cong: SUP_cong_simp) (auto split: prod.splits)
  then have "(sid, f) \<in> set (ct_links ct) \<longleftrightarrow> (\<exists>c. (c, sid) \<in> set (zip clusters sids) \<and> f \<in> set (cl_frame_ids c))" by auto
  also have "\<dots> \<longleftrightarrow> (\<exists>i < length clusters. sid = sids ! i \<and> f \<in> set (cl_frame_ids (clusters ! i)))"
    using len by (auto simp: in_set_zip)
  finally show ?thesis .
qed

text \<open>The frames of a session, and the sessions of a frame.\<close>

lemma rebuilt_frames_of:
  assumes link: "\<And>sid f. (sid, f) \<in> set links \<longleftrightarrow> (\<exists>i < length clusters. sid = sids ! i \<and> f \<in> set (cl_frame_ids (clusters ! i)))"
    and "length sids = length clusters" "distinct sids" "i < length clusters"
  shows "{f. (sids ! i, f) \<in> set links} = set (cl_frame_ids (clusters ! i))"
proof -
  have "j = i" if "j < length clusters" "sids ! i = sids ! j" for j
    using that assms(2-4) nth_eq_iff_index_eq [of sids i j] by simp
  then show ?thesis using assms(4) unfolding link by blast
qed

lemma rebuilt_sessions_of:
  assumes link: "\<And>sid f. (sid, f) \<in> set links \<longleftrightarrow> (\<exists>i < length clusters. sid = sids ! i \<and> f \<in> set (cl_frame_ids (clusters ! i)))"
    and d: "distinct (concat (map cl_frame_ids clusters))"
  shows "card {sid. (sid, f) \<in> set links} = (if f \<in> set (concat (map cl_frame_ids clusters)) then 1 else 0)"
proof (cases "f \<in> set (concat (map cl_frame_ids clusters))")
  case True
  then obtain i where i: "i < length clusters" "f \<in> set (cl_frame_ids (clusters ! i))"
    by (auto simp: in_set_conv_nth [of _ clusters])
  have "j = i" if "j < length clusters" "f \<in> set (cl_frame_ids (clusters ! j))" for j
    using distinct_concat_nth [OF d, of i j f] i that by simp
  then have "{sid. (sid, f) \<in> set links} = {sids ! i}" using i unfolding link by blast
  then show ?thesis using True by simp
next
  case False
  then have "{sid. (sid, f) \<in> set links} = {}" unfolding link by (auto dest: nth_mem)
  then show ?thesis using False by simp
qed

text \<open>
  C6: what a rebuild leaves. There is one session per cluster and none besides: its row carries the cluster's
  configuration, times and counts, and it is linked to exactly the cluster's frames. So every light
  frame with an object and a time is in exactly one session, and no other frame is in any.
\<close>

theorem rebuild_mirrors_clusters:
  assumes "wf_catalog ct" "cluster_sessions gap ct = Inr ct'"
  shows "\<exists>clusters sids. compute_clusters (ct_frames ct) gap = Inr clusters \<and> distinct sids
      \<and> se_id ` set (ct_sessions ct') = set sids
      \<and> list_all2 (\<lambda>c sid. (\<exists>r \<in> set (ct_sessions ct'). se_id r = sid \<and> refresh_session c r = r)
          \<and> {f. (sid, f) \<in> set (ct_links ct')} = set (cl_frame_ids c)) clusters sids
    \<and> (\<forall>r \<in> set (ct_frames ct). card {sid. (sid, fr_id r) \<in> set (ct_links ct')} = (if eligible r then 1 else 0))"
proof -
  obtain clusters sids where cs: "compute_clusters (ct_frames ct) gap = Inr clusters" and fr: "ct_frames ct' = ct_frames ct"
    and rb: "rebuilt ct' clusters sids"
    by (rule cluster_sessions_rebuilt [OF assms])
  have dist: "distinct (map fr_id (ct_frames ct))" using assms(1) by (simp add: wf_catalog_def)
  note facts = clusters_facts [OF cs dist]
  have len: "length sids = length clusters" and ds: "distinct sids" and ids: "se_id ` set (ct_sessions ct') = set sids"
    using rb by (simp_all add: rebuilt_def)
  have "set (cl_frame_ids c) \<subseteq> fr_id ` set (ct_frames ct)" if "c \<in> set clusters" for c
  proof -
    have "set (cl_frame_ids c) \<subseteq> set (concat (map cl_frame_ids clusters))" using that by auto
    then show ?thesis unfolding facts(2) by blast
  qed
  then have link: "(sid, f) \<in> set (ct_links ct') \<longleftrightarrow> (\<exists>i < length clusters. sid = sids ! i \<and> f \<in> set (cl_frame_ids (clusters ! i)))" for sid f
    using rebuilt_link [OF rb] dist by (simp add: fr)
  have card: "\<forall>r \<in> set (ct_frames ct). card {sid. (sid, fr_id r) \<in> set (ct_links ct')} = (if eligible r then 1 else 0)"
  proof
    fix r
    assume r: "r \<in> set (ct_frames ct)"
    then have "fr_id r \<in> set (concat (map cl_frame_ids clusters)) \<longleftrightarrow> eligible r"
      using dist unfolding facts(2) by (auto simp: inj_on_eq_iff distinct_map)
    then show "card {sid. (sid, fr_id r) \<in> set (ct_links ct')} = (if eligible r then 1 else 0)"
      by (simp only: rebuilt_sessions_of [OF link facts(1)])
  qed
  have fits: "list_all2 (row_fits ct') clusters sids" using rb by (simp add: rebuilt_def)
  have "list_all2 (\<lambda>c sid. (\<exists>r \<in> set (ct_sessions ct'). se_id r = sid \<and> refresh_session c r = r)
          \<and> {f. (sid, f) \<in> set (ct_links ct')} = set (cl_frame_ids c)) clusters sids"
    unfolding list_all2_conv_all_nth
  proof (intro conjI allI impI)
    fix i
    assume i: "i < length clusters"
    then have "row_fits ct' (clusters ! i) (sids ! i)" by (rule list_all2_nthD [OF fits])
    then show "\<exists>r \<in> set (ct_sessions ct'). se_id r = sids ! i \<and> refresh_session (clusters ! i) r = r"
      by (simp add: row_fits_def)
    show "{f. (sids ! i, f) \<in> set (ct_links ct')} = set (cl_frame_ids (clusters ! i))"
      by (rule rebuilt_frames_of [OF link len ds i])
  qed (simp add: len)
  then show ?thesis by (intro exI [of _ clusters] exI [of _ sids] conjI cs ds ids card)
qed

section \<open>A second scan changes nothing\<close>

definition rescanned :: "catalog \<Rightarrow> cluster list \<Rightarrow> int list \<Rightarrow> nat \<Rightarrow> catalog \<times> int list \<Rightarrow> bool" where
  "rescanned ct clusters sids k = (\<lambda>(ctk, consumed).
     ct_frames ctk = ct_frames ct \<and> ct_sessions ctk = ct_sessions ct \<and> set consumed = set (take k sids)
     \<and> ct_links ctk = concat (map (links_for (ct_frames ct)) (drop k (zip clusters sids) @ take k (zip clusters sids)))
     \<and> (\<exists>extra. ct_targets ctk = ct_targets ct @ extra \<and> fst ` set extra \<inter> fst ` set (ct_targets ct) = {}))"

lemma refresh_same:
  assumes "distinct (map se_id rs)" "\<exists>r \<in> set rs. se_id r = sid \<and> refresh_session c r = r"
  shows "map (\<lambda>r. if se_id r = sid then refresh_session c r else r) rs = rs"
proof -
  obtain r where r: "r \<in> set rs" "se_id r = sid" "refresh_session c r = r" using assms(2) by blast
  have "r' = r" if "r' \<in> set rs" "se_id r' = sid" for r'
    using assms(1) r(1,2) that by (auto simp: distinct_map inj_on_def)
  then show ?thesis using r(3) by (intro map_idI) auto
qed

lemma links_others:
  assumes "distinct sids" "length sids = length clusters" "k < length clusters"
  shows "filter (\<lambda>(s, f). s \<noteq> sids ! k)
      (concat (map (links_for fs) (drop k (zip clusters sids) @ take k (zip clusters sids))))
    = concat (map (links_for fs) (drop (Suc k) (zip clusters sids) @ take k (zip clusters sids)))"
proof -
  have split: "drop k (zip clusters sids) = (clusters ! k, sids ! k) # drop (Suc k) (zip clusters sids)"
    using assms(2,3) by (simp add: Cons_nth_drop_Suc [symmetric])
  have other: "sid \<noteq> sids ! k" if "(c, sid) \<in> set (drop (Suc k) (zip clusters sids) @ take k (zip clusters sids))" for c sid
  proof -
    have "sid \<in> set (drop (Suc k) sids) \<union> set (take k sids)"
      using that by (auto simp: drop_zip take_zip dest: set_zip_rightD)
    moreover have "distinct (take k sids @ sids ! k # drop (Suc k) sids)"
      using assms by (simp add: id_take_nth_drop [symmetric])
    ultimately show ?thesis by auto
  qed
  have keep: "filter (\<lambda>(s, f). s \<noteq> sids ! k) (concat (map (links_for fs) ps)) = concat (map (links_for fs) ps)"
    if "\<And>c sid. (c, sid) \<in> set ps \<Longrightarrow> sid \<noteq> sids ! k" for ps
    using that by (intro filter_True) (force simp: links_for_def)
  have own: "filter (\<lambda>(s, f). s \<noteq> sids ! k) (links_for fs (clusters ! k, sids ! k)) = []"
    by (simp add: links_for_def filter_empty_conv)
  have "filter (\<lambda>(s, f). s \<noteq> sids ! k) (concat (map (links_for fs) (drop k (zip clusters sids) @ take k (zip clusters sids))))
      = filter (\<lambda>(s, f). s \<noteq> sids ! k) (links_for fs (clusters ! k, sids ! k))
        @ filter (\<lambda>(s, f). s \<noteq> sids ! k) (concat (map (links_for fs) (drop (Suc k) (zip clusters sids) @ take k (zip clusters sids))))"
    unfolding split by simp
  also have "\<dots> = concat (map (links_for fs) (drop (Suc k) (zip clusters sids) @ take k (zip clusters sids)))"
    unfolding own append_Nil by (rule keep) (rule other)
  finally show ?thesis .
qed

lemma rescan_step:
  assumes "rescanned ct clusters sids k (ctk, consumed)" "k < length clusters"
    and rb: "rebuilt ct clusters sids"
    and match: "match_cluster_to_session (cl_frame_ids (clusters ! k)) existing consumed = Some (sids ! k)"
  shows "rescanned ct clusters sids (Suc k) (place_cluster existing (clusters ! k) (ctk, consumed))"
proof -
  let ?c = "clusters ! k" and ?sid = "sids ! k" and ?fs = "ct_frames ct"
  obtain ct1 t where ct1: "with_target ?c ctk = (ct1, t)" by (cases "with_target ?c ctk")
  note f = with_target_fields [OF ct1]
  note inv = assms(1) [unfolded rescanned_def prod.case]
  have len: "length sids = length clusters" and ds: "distinct sids" using rb by (simp_all add: rebuilt_def)
  obtain extra where extra: "ct_targets ctk = ct_targets ct @ extra" "fst ` set extra \<inter> fst ` set (ct_targets ct) = {}"
    using inv by blast
  obtain new where new: "ct_targets ct1 = ct_targets ctk @ new" "fst ` set new \<inter> fst ` set (ct_targets ctk) = {}"
    using f(5) by blast
  have "row_fits ct ?c ?sid" using rb assms(2) by (auto simp: rebuilt_def dest: list_all2_nthD)
  then have rows: "map (\<lambda>r. if se_id r = ?sid then refresh_session ?c r else r) (ct_sessions ct1) = ct_sessions ct"
    using refresh_same [of "ct_sessions ct" ?sid ?c] rb inv f(2) by (simp add: rebuilt_def row_fits_def)
  have res: "place_cluster existing ?c (ctk, consumed)
      = (relink ?sid (cl_frame_ids ?c) (ct1\<lparr>ct_sessions := ct_sessions ct\<rparr>), ?sid # consumed)"
    by (simp add: place_cluster_eq ct1 match rows)
  have "ct_links (relink ?sid (cl_frame_ids ?c) (ct1\<lparr>ct_sessions := ct_sessions ct\<rparr>))
      = filter (\<lambda>(s, f). s \<noteq> ?sid) (ct_links ctk) @ links_for ?fs (?c, ?sid)"
    using inv by (simp add: relink_def links_for_def f)
  also have "filter (\<lambda>(s, f). s \<noteq> ?sid) (ct_links ctk)
      = concat (map (links_for ?fs) (drop (Suc k) (zip clusters sids) @ take k (zip clusters sids)))"
    using links_others [OF ds len assms(2)] inv by simp
  also have "\<dots> @ links_for ?fs (?c, ?sid)
      = concat (map (links_for ?fs) (drop (Suc k) (zip clusters sids) @ take (Suc k) (zip clusters sids)))"
    using assms(2) len by (simp add: take_Suc_conv_app_nth)
  finally have links: "ct_links (relink ?sid (cl_frame_ids ?c) (ct1\<lparr>ct_sessions := ct_sessions ct\<rparr>)) = \<dots>" .
  have "set (?sid # consumed) = set (take (Suc k) sids)"
    using inv assms(2) len by (simp add: take_Suc_conv_app_nth)
  moreover have "\<exists>extra. ct_targets ct1 = ct_targets ct @ extra \<and> fst ` set extra \<inter> fst ` set (ct_targets ct) = {}"
    using extra new by (intro exI [of _ "extra @ new"]) (auto simp: image_Un)
  ultimately show ?thesis
    unfolding res rescanned_def prod.case using inv f(1) links by simp
qed

lemma rescan_match:
  assumes rb: "rebuilt ct clusters sids" and wf: "wf_catalog ct" and k: "k < length clusters"
    and link: "\<And>sid f. (sid, f) \<in> set (ct_links ct) \<longleftrightarrow> (\<exists>i < length clusters. sid = sids ! i \<and> f \<in> set (cl_frame_ids (clusters ! i)))"
    and apart: "distinct (concat (map cl_frame_ids clusters))" "cl_frame_ids (clusters ! k) \<noteq> []"
    and consumed: "set consumed = set (take k sids)"
  shows "match_cluster_to_session (cl_frame_ids (clusters ! k)) (existing_session_frames ct) consumed = Some (sids ! k)"
proof -
  have len: "length sids = length clusters" and ds: "distinct sids" and ids: "se_id ` set (ct_sessions ct) = set sids"
    using rb by (simp_all add: rebuilt_def)
  have frames: "set (map snd (filter (\<lambda>(s, f). s = sids ! i) (ct_links ct))) = set (cl_frame_ids (clusters ! i))"
    if "i < length clusters" for i
  proof -
    have "set (map snd (filter (\<lambda>(s, f). s = sids ! i) (ct_links ct))) = {f. (sids ! i, f) \<in> set (ct_links ct)}"
      by force
    then show ?thesis using rebuilt_frames_of [OF link len ds that] by simp
  qed
  show ?thesis
  proof (rule match_only)
    show "map_of (existing_session_frames ct) (sids ! k) = Some (map snd (filter (\<lambda>(s, f). s = sids ! k) (ct_links ct)))"
      using k len ids by (simp add: existing_lookup [OF wf])
    show "sids ! k \<notin> set consumed"
      using ds k len by (auto simp: consumed in_set_conv_nth nth_eq_iff_index_eq)
    show "set (cl_frame_ids (clusters ! k)) \<inter> set (map snd (filter (\<lambda>(s, f). s = sids ! k) (ct_links ct))) \<noteq> {}"
      using apart(2) unfolding frames [OF k] by simp
  next
    fix sid' fs'
    assume e: "(sid', fs') \<in> set (existing_session_frames ct)" "sid' \<noteq> sids ! k"
    then have m: "map_of (existing_session_frames ct) sid' = Some fs'" by simp
    then have "sid' \<in> set sids" "fs' = map snd (filter (\<lambda>(s, f). s = sid') (ct_links ct))"
      unfolding existing_lookup [OF wf] using ids by (auto split: if_splits)
    then obtain j where j: "j < length clusters" "sid' = sids ! j" "set fs' = set (cl_frame_ids (clusters ! j))"
      using frames len by (auto simp: in_set_conv_nth)
    then have "j \<noteq> k" using e(2) by auto
    then show "set (cl_frame_ids (clusters ! k)) \<inter> set fs' = {}"
      using distinct_concat_nth [OF apart(1), of j k] j k by auto
  qed simp
qed

lemma unused_extra:
  assumes rb: "rebuilt ct clusters sids"
    and n: "ct_frames ctn = ct_frames ct" "ct_sessions ctn = ct_sessions ct" "ct_links ctn = ct_links ct"
      "ct_targets ctn = ct_targets ct @ extra" "fst ` set extra \<inter> fst ` set (ct_targets ct) = {}"
  shows "drop_unused_targets ctn = ct"
proof -
  let ?used = "\<lambda>(i, _). Some i \<in> set (map se_target_id (ct_sessions ct))"
  have used: "\<exists>r \<in> set (ct_sessions ct). se_target_id r = Some (fst x)" if "x \<in> set (ct_targets ct)" for x
    using rb that by (cases x) (fastforce simp: rebuilt_def)
  have refs: "t \<in> fst ` set (ct_targets ct)" if "r \<in> set (ct_sessions ct)" "se_target_id r = Some t" for r t
    using rb that unfolding rebuilt_def by blast
  have "filter ?used (ct_targets ct) = ct_targets ct"
    using used by (intro filter_True) (force simp: image_iff)
  moreover have "filter ?used extra = []"
    using refs n(5) by (auto simp: filter_empty_conv disjoint_iff image_iff) (metis fst_conv)
  ultimately show ?thesis using n by (cases ct; cases ctn) (simp add: drop_unused_targets_def)
qed

lemma place_cluster_frames: "ct_frames (fst (place_cluster existing c st)) = ct_frames (fst st)"
  by (cases st) (auto simp: place_cluster_def relink_def upsert_target_def Let_def split: option.splits prod.splits)

lemma cluster_sessions_frames:
  assumes "cluster_sessions gap ct = Inr ct'"
  shows "ct_frames ct' = ct_frames ct"
proof -
  from assms obtain clusters where cs: "compute_clusters (ct_frames ct) gap = Inr clusters"
    by (auto simp: cluster_sessions_def rbind_eq_Inr)
  let ?ex = "existing_session_frames ct"
  obtain ct1 consumed where f: "fold (place_cluster ?ex) clusters (ct, []) = (ct1, consumed)"
    by (cases "fold (place_cluster ?ex) clusters (ct, [])")
  have "ct_frames (fst (fold (place_cluster ?ex) cs st)) = ct_frames (fst st)" for cs st
    by (induction cs arbitrary: st) (simp_all add: place_cluster_frames)
  from this [of clusters "(ct, [])"] have "ct_frames ct1 = ct_frames ct" by (simp add: f)
  moreover have "ct' = drop_unused_targets (drop_orphans ?ex consumed ct1)" using assms by (simp add: cluster_sessions_def cs f)
  ultimately show ?thesis by (simp add: drop_unused_targets_def drop_orphans_def Let_def)
qed

lemma rebuild_wf:
  assumes wf: "wf_catalog ct" and run: "cluster_sessions gap ct = Inr ct'"
  shows "wf_catalog ct'"
proof -
  obtain clusters sids where fr: "ct_frames ct' = ct_frames ct" and rb: "rebuilt ct' clusters sids"
    by (rule cluster_sessions_rebuilt [OF wf run])
  have "distinct (map fr_id (ct_frames ct'))" using wf by (simp add: wf_catalog_def fr)
  then show ?thesis using rb by (auto simp: wf_catalog_def rebuilt_def links_for_def dest: set_zip_rightD)
qed

text \<open>A catalog that mirrors its clusters is left as it is, whatever targets its sessions are bound to.\<close>

lemma rebuilt_fixed:
  assumes wf': "wf_catalog ct'" and cs: "compute_clusters (ct_frames ct') gap = Inr clusters" and rb: "rebuilt ct' clusters sids"
  shows "cluster_sessions gap ct' = Inr ct'"
proof -
  have dist: "distinct (map fr_id (ct_frames ct'))" using wf' by (simp add: wf_catalog_def)
  note facts = clusters_facts [OF cs dist]
  have len: "length sids = length clusters" and ids: "se_id ` set (ct_sessions ct') = set sids"
    and lks: "ct_links ct' = concat (map (links_for (ct_frames ct')) (zip clusters sids))"
    using rb by (simp_all add: rebuilt_def)
  have sub: "set (cl_frame_ids c) \<subseteq> fr_id ` set (ct_frames ct')" if "c \<in> set clusters" for c
  proof -
    have "set (cl_frame_ids c) \<subseteq> set (concat (map cl_frame_ids clusters))" using that by auto
    then show ?thesis unfolding facts(2) by blast
  qed
  note link = rebuilt_link [OF rb dist sub]
  let ?ex = "existing_session_frames ct'"
  have steps: "rescanned ct' clusters sids k (fold (place_cluster ?ex) (take k clusters) (ct', []))" if "k \<le> length clusters" for k
    using that
  proof (induction k)
    case 0
    show ?case by (simp add: rescanned_def lks)
  next
    case (Suc k)
    obtain ctk consumed where st: "fold (place_cluster ?ex) (take k clusters) (ct', []) = (ctk, consumed)"
      by (cases "fold (place_cluster ?ex) (take k clusters) (ct', [])")
    have IH: "rescanned ct' clusters sids k (ctk, consumed)" using Suc st by simp
    have k: "k < length clusters" using Suc.prems by simp
    then have "match_cluster_to_session (cl_frame_ids (clusters ! k)) ?ex consumed = Some (sids ! k)"
      using IH facts by (intro rescan_match [OF rb wf' k link]) (auto simp: rescanned_def)
    from rescan_step [OF IH k rb this] show ?case using k by (simp add: take_Suc_conv_app_nth st)
  qed
  obtain ctn consumed where fold: "fold (place_cluster ?ex) clusters (ct', []) = (ctn, consumed)"
    by (cases "fold (place_cluster ?ex) clusters (ct', [])")
  have "rescanned ct' clusters sids (length clusters) (ctn, consumed)" using steps [of "length clusters"] fold by simp
  then obtain extra where n: "ct_frames ctn = ct_frames ct'" "ct_sessions ctn = ct_sessions ct'" "set consumed = set sids"
      "ct_links ctn = ct_links ct'" "ct_targets ctn = ct_targets ct' @ extra" "fst ` set extra \<inter> fst ` set (ct_targets ct') = {}"
    using len by (auto simp: rescanned_def lks)
  have "drop_orphans ?ex consumed ctn = ctn"
  proof -
    have "sid \<in> set consumed" if "sid \<in> set (dkeys ?ex)" for sid using that n(3) existing_keys [OF wf'] ids by auto
    then have "filter (\<lambda>sid. sid \<notin> set consumed) (dkeys ?ex) = []" by (simp add: filter_empty_conv)
    then show ?thesis by (simp add: drop_orphans_def)
  qed
  moreover have "drop_unused_targets ctn = ct'"
    by (rule unused_extra [OF rb n(1,2,4,5,6)])
  ultimately show ?thesis by (simp add: cluster_sessions_def cs fold)
qed

lemma rebuild_same:
  assumes wf: "wf_catalog ct" and run: "cluster_sessions gap ct = Inr ct'"
  shows "cluster_sessions gap ct' = Inr ct'"
proof -
  obtain clusters sids where "compute_clusters (ct_frames ct) gap = Inr clusters" "ct_frames ct' = ct_frames ct"
    "rebuilt ct' clusters sids"
    by (rule cluster_sessions_rebuilt [OF wf run])
  then show ?thesis using rebuilt_fixed [OF rebuild_wf [OF wf run]] by simp
qed

text \<open>
  C7: session ids survive rescans. Rebuilding from an unchanged frames table changes nothing at all: every
  session keeps its id and row (a target reassigned by the user included), its links, and the targets
  table stays as it was.
\<close>

theorem rescan_idempotent:
  assumes "wf_catalog ct" "cluster_sessions gap ct = Inr ct'"
  shows "cluster_sessions gap ct' = Inr ct'"
  by (rule rebuild_same [OF assms])

section \<open>Offsets\<close>

text \<open>
  When a rebuild fails. It raises exactly when one configuration has a light frame whose time carries a UTC
  offset and another whose time does not (a trailing Z counts as none, and so does an unreadable time):
  sorting the two compares an aware with a naive datetime. One such pair anywhere stops the whole rebuild.
\<close>

theorem rebuild_fails_iff_mixed:
  "cluster_sessions gap ct = Inl Mixed_Timezones \<longleftrightarrow>
     (\<exists>x \<in> set (ct_frames ct). \<exists>y \<in> set (ct_frames ct). eligible x \<and> eligible y \<and> config_of x = config_of y
        \<and> (\<exists>t. parse_iso (fr_date_obs x) = Some (Aware t)) \<and> (\<nexists>t. parse_iso (fr_date_obs y) = Some (Aware t)))"
proof -
  have aware: "\<not> is_naive (sort_time x) \<longleftrightarrow> (\<exists>t. parse_iso (fr_date_obs x) = Some (Aware t))" for x
    by (auto simp: is_naive_def sort_time_def datetime_min_def split: option.splits py_datetime.splits)
  have "cluster_sessions gap ct = Inl Mixed_Timezones \<longleftrightarrow> (\<exists>(k, g) \<in> set (group_frames (ct_frames ct)). mixed g)"
    by (simp add: cluster_sessions_def compute_clusters_def cluster_groups_eq Let_def split: prod.splits)
  also have "\<dots> \<longleftrightarrow> (\<exists>k. mixed (group_of (ct_frames ct) k))"
  proof -
    have "mixed g \<Longrightarrow> g \<noteq> []" for g by (auto simp: mixed_def)
    then have "(\<exists>k g. (k, g) \<in> set (group_frames (ct_frames ct)) \<and> mixed g) \<longleftrightarrow> (\<exists>k. mixed (group_of (ct_frames ct) k))"
      unfolding group_frames_iff by blast
    then show ?thesis unfolding Bex_def by blast
  qed
  also have "\<dots> \<longleftrightarrow> (\<exists>x \<in> set (ct_frames ct). \<exists>y \<in> set (ct_frames ct). eligible x \<and> eligible y \<and> config_of x = config_of y
        \<and> \<not> is_naive (sort_time x) \<and> is_naive (sort_time y))"
  proof -
    have "mixed (group_of (ct_frames ct) k) \<longleftrightarrow>
        (\<exists>x \<in> set (ct_frames ct). eligible x \<and> config_of x = k \<and> \<not> is_naive (sort_time x))
        \<and> (\<exists>y \<in> set (ct_frames ct). eligible y \<and> config_of y = k \<and> is_naive (sort_time y))" for k
      by (auto simp: mixed_def group_of_def)
    then show ?thesis by metis
  qed
  finally show ?thesis unfolding aware [symmetric] by simp
qed

section \<open>A night\<close>

definition demo_frame :: "int \<Rightarrow> string \<Rightarrow> frame" where
  "demo_frame i t =
     \<lparr>fr_id = i, fr_image_type = Some ''LIGHT'', fr_quality = Some ''ok'', fr_object = Some ''M 31'',
      fr_instrument = Some ''dwarf'', fr_camera = Some ''TELE'', fr_filter = Some ''VIS'', fr_exptime = Some 15,
      fr_gain = Some 60, fr_binning = Some 1, fr_ccd_temp = Some 20, fr_date_obs = Some t,
      fr_scope_id = Some ''dwarf3'', fr_path = ''/c/night/'' @ show_int i @ ''.fits''\<rparr>"

text \<open>Session 7 holds frame 1 of the evening; session 3 lost its frame; the morning frames are new.\<close>

definition demo_catalog :: catalog where
  "demo_catalog =
     \<lparr>ct_frames = [demo_frame 4 ''2026-01-02T05:00:00Z'', demo_frame 1 ''2026-01-01T22:00:00'',
                   demo_frame 2 ''2026-01-01T22:30:00.5'', demo_frame 3 ''2026-01-02T04:59:00''],
      ct_sessions = [(new_session 3 None (open_cluster (config_of (demo_frame 1 '''')) (demo_frame 9 ''''))),
                     (new_session 7 (Some 1) (open_cluster (config_of (demo_frame 1 '''')) (demo_frame 1 '''')))],
      ct_links = [(7, 1)], ct_targets = [(1, ''Andromeda'')]\<rparr>"

lemma demo_catalog_wf: "wf_catalog demo_catalog"
  by (simp add: wf_catalog_def demo_catalog_def demo_frame_def)

lemma demo_rebuild:
  obtains ct' where "cluster_sessions 60 demo_catalog = Inr ct'"
    "map se_id (ct_sessions ct') = [7, 8]" "ct_links ct' = [(7, 1), (7, 2), (8, 4), (8, 3)]"
    "ct_targets ct' = [(1, ''Andromeda''), (2, ''M 31'')]"
proof -
  have "(case cluster_sessions 60 demo_catalog of Inl _ \<Rightarrow> False
     | Inr ct' \<Rightarrow> map se_id (ct_sessions ct') = [7, 8] \<and> ct_links ct' = [(7, 1), (7, 2), (8, 4), (8, 3)]
         \<and> ct_targets ct' = [(1, ''Andromeda''), (2, ''M 31'')])"
    by code_simp
  then show thesis using that by (auto split: sum.splits)
qed

lemma rebuild_mirrors_clusters_witness:
  "\<exists>ct'. cluster_sessions 60 demo_catalog = Inr ct' \<and> ct_links ct' = [(7, 1), (7, 2), (8, 4), (8, 3)]
     \<and> card {sid. (sid, 4) \<in> set (ct_links ct')} = 1"
proof -
  obtain ct' where ct': "cluster_sessions 60 demo_catalog = Inr ct'" "ct_links ct' = [(7, 1), (7, 2), (8, 4), (8, 3)]"
    by (rule demo_rebuild)
  let ?f = "demo_frame 4 ''2026-01-02T05:00:00Z''"
  have f: "?f \<in> set (ct_frames demo_catalog)" "eligible ?f" "fr_id ?f = 4"
    by (simp_all add: demo_catalog_def eligible_def demo_frame_def)
  have "\<forall>r \<in> set (ct_frames demo_catalog). card {sid. (sid, fr_id r) \<in> set (ct_links ct')} = (if eligible r then 1 else 0)"
    using rebuild_mirrors_clusters [OF demo_catalog_wf ct'(1)] by blast
  from bspec [OF this f(1)] have "card {sid. (sid, 4) \<in> set (ct_links ct')} = 1" by (simp only: f if_True)
  then show ?thesis by (intro exI [of _ ct'] conjI) (simp_all only: ct')
qed

lemma rescan_idempotent_witness:
  "\<exists>ct'. cluster_sessions 60 demo_catalog = Inr ct' \<and> map se_id (ct_sessions ct') = [7, 8]
     \<and> cluster_sessions 60 ct' = Inr ct'"
proof -
  obtain ct' where ct': "cluster_sessions 60 demo_catalog = Inr ct'" "map se_id (ct_sessions ct') = [7, 8]"
    by (rule demo_rebuild)
  show ?thesis by (rule exI [of _ ct']) (simp add: ct' rescan_idempotent [OF demo_catalog_wf ct'(1)])
qed

end
