(* ===== verification/Node_Model.thy ===== *)
theory Node_Model
  imports Astro_Prelude
begin

text \<open>
  The data shapes the subsystems agree on: JSON values (what \<open>json.loads\<close> returns and params
  are made of), port types (\<open>server/ports.py\<close>), Ref, NodeSpec, Template, Job and Profile
  (\<open>server/models.py\<close>), the node contract (\<open>nodes/base.py\<close>) and the node registry
  (\<open>server/registry.py\<close>).

  A node class is a record: its class attributes, pydantic validation of its params schema
  (pydantic is not part of the program, so it is a field) and the effect of \<open>run\<close> and
  \<open>estimate_storage_bytes\<close> as functions of the state \<open>'w\<close> the node reads.
\<close>

section \<open>JSON values\<close>

datatype pyfloat = NaN | Pos_Inf | Neg_Inf | Neg_Zero | Fin rat

datatype json =
    JNull
  | JBool bool
  | JInt int
  | JFloat pyfloat
  | JStr string
  | JList "json list"
  | JDict "(string \<times> json) list"
  | JModel "(string \<times> json) list"

text \<open>\<open>JModel d\<close> is a pydantic model instance, given by its \<open>model_dump(mode="json")\<close>.\<close>

type_synonym params = "(string, json) dict"

lemma json_size_dict [termination_simp]: "(k, v) \<in> set d \<Longrightarrow> size v < Suc (size_list (size_prod (\<lambda>_. 0) size) d)"
  by (induction d) auto

lemma json_size_dict_char [termination_simp]:
  "(k, v) \<in> set d \<Longrightarrow> size v < Suc (size_list (size_prod (size_list size_char) size) d)"
  by (induction d) auto

text \<open>Python's truth value.\<close>

fun truthy :: "json \<Rightarrow> bool" where
  "truthy JNull = False"
| "truthy (JBool b) = b"
| "truthy (JInt n) = (n \<noteq> 0)"
| "truthy (JFloat x) = (x \<noteq> Fin 0 \<and> x \<noteq> Neg_Zero)"
| "truthy (JStr s) = (s \<noteq> '''')"
| "truthy (JList xs) = (xs \<noteq> [])"
| "truthy (JDict d) = (d \<noteq> [])"
| "truthy (JModel d) = True"

section \<open>Ports, refs, templates and jobs\<close>

datatype port_type =
    IMAGE_PNG | IMAGE_FITS | SEQUENCE_FITS | MASTER_FITS | MASTER_FITS_LIST | CHANNEL_TRIPLE

fun port_type_value :: "port_type \<Rightarrow> string" where
  "port_type_value IMAGE_PNG = ''image/png''"
| "port_type_value IMAGE_FITS = ''image/fits''"
| "port_type_value SEQUENCE_FITS = ''sequence/fits''"
| "port_type_value MASTER_FITS = ''master/fits''"
| "port_type_value MASTER_FITS_LIST = ''master/fits/list''"
| "port_type_value CHANNEL_TRIPLE = ''channel_triple''"

definition all_port_types :: "port_type list" where
  "all_port_types =
     [IMAGE_PNG, IMAGE_FITS, SEQUENCE_FITS, MASTER_FITS, MASTER_FITS_LIST, CHANNEL_TRIPLE]"

text \<open>\<open>PortType(s)\<close>: the member with value s, None for the ValueError.\<close>

definition parse_port_type :: "string \<Rightarrow> port_type option" where
  "parse_port_type s = find (\<lambda>t. port_type_value t = s) all_port_types"

lemma parse_port_type_value [simp]: "parse_port_type (port_type_value t) = Some t"
  by (cases t) (simp_all add: parse_port_type_def all_port_types_def)

record ref =
  r_node_hash :: string
  r_port :: string
  r_path :: string
  r_type :: port_type
  r_display_ready :: bool

datatype node_input = One ref | Many "ref list"

record node_spec =
  n_id :: string
  n_kind :: string
  n_variant :: "string option"
  n_params :: params
  n_inputs :: "(string, string) dict"
  n_ui_depends_on :: "string option"

record template =
  t_id :: string
  t_version :: int
  t_description :: string
  t_profile :: "string option"
  t_nodes :: "node_spec list"
  t_outputs :: "(string, string) dict"

datatype cal_mode = Auto | Explicit | No_Calibration

record calibration_spec =
  cal_mode :: cal_mode
  cal_master_ids :: "(string, int) dict"

type_synonym overrides = "(string, params) dict"

record job =
  j_template_id :: string
  j_template_version :: int
  j_profile_id :: "string option"
  j_target_id :: "string option"
  j_session_ids :: "string list"
  j_calibration :: calibration_spec
  j_param_overrides :: overrides
  j_inputs :: "(string, node_input) dict"
  j_preview_only :: bool

record profile =
  p_id :: string
  p_description :: string
  p_pipeline_defaults :: overrides
  p_ingest :: params

section \<open>The node contract\<close>

datatype tier = Bulk | Keep

datatype node_outcome =
    Produced "(string, ref) dict"
  | Cancelled
  | Raised string

datatype node_call =
    Progress_Call rat string
  | Warn_Call string string "params option"

record node_result =
  nr_files :: "(string \<times> nat) list"
  nr_calls :: "node_call list"
  nr_outcome :: node_outcome

text \<open>
  \<open>nr_files\<close> are the files \<open>run\<close> leaves under its output directory (relative path and size),
  \<open>nr_calls\<close> its calls of \<open>ctx.progress\<close> and \<open>ctx.warn\<close> in order.
  \<open>cls_fields\<close> are the params model's fields with their \<open>json_schema_extra\<close> dict.
\<close>

record 'w node_cls =
  cls_name :: string
  cls_id :: string
  cls_version :: int
  cls_tier :: tier
  cls_uses_siril :: bool
  cls_inputs :: "(string, port_type) dict"
  cls_outputs :: "(string, port_type) dict"
  cls_optional_inputs :: "string list"
  cls_fields :: "(string, params option) dict"
  cls_validate :: "params \<Rightarrow> params option"
  cls_estimate :: "'w \<Rightarrow> (string, node_input) dict \<Rightarrow> params \<Rightarrow> nat option"
  cls_run :: "'w \<Rightarrow> (string, node_input) dict \<Rightarrow> params \<Rightarrow> string \<Rightarrow> node_result"

section \<open>The registry\<close>

text \<open>
  Two classes are the same object when their qualified names agree; \<open>register\<close> raises on a key
  held by another class and is a no-op on the same one.
\<close>

type_synonym 'w registry = "(string \<times> string option, 'w node_cls) dict"

datatype registry_error = Registry_Collision string string

definition register ::
  "string \<Rightarrow> string option \<Rightarrow> 'w node_cls \<Rightarrow> 'w registry \<Rightarrow> registry_error + 'w registry" where
  "register kind variant cls reg =
     (case map_of reg (kind, variant) of
        Some existing \<Rightarrow>
          if cls_name existing \<noteq> cls_name cls
          then Inl (Registry_Collision (cls_name existing) (cls_name cls))
          else Inr (dput (kind, variant) cls reg)
      | None \<Rightarrow> Inr (dput (kind, variant) cls reg))"

text \<open>\<open>registry.lookup\<close>: None is the KeyError.\<close>

definition registry_lookup :: "'w registry \<Rightarrow> string \<Rightarrow> string option \<Rightarrow> 'w node_cls option" where
  "registry_lookup reg kind variant = map_of reg (kind, variant)"

definition all_kinds :: "'w registry \<Rightarrow> (string \<times> string option) list" where
  "all_kinds reg = sort_key (\<lambda>(k, v). (k, case v of None \<Rightarrow> '''' | Some s \<Rightarrow> s)) (dkeys reg)"

text \<open>The registry's contract: a key keeps the class it was first registered with.\<close>

locale keyed_registry =
  fixes add :: "'k \<Rightarrow> 'v \<Rightarrow> 's \<Rightarrow> 'e + 's"
    and find_in :: "'s \<Rightarrow> 'k \<Rightarrow> 'v option"
    and same :: "'v \<Rightarrow> 'v \<Rightarrow> bool"
  assumes find_add: "add k v s = Inr s' \<Longrightarrow> find_in s' k' = (if k' = k then Some v else find_in s k')"
    and add_refused: "(\<exists>e. add k v s = Inl e) \<longleftrightarrow> (\<exists>w. find_in s k = Some w \<and> \<not> same w v)"
    and same_refl: "same v v"
    and same_trans: "same u v \<Longrightarrow> same v w \<Longrightarrow> same u w"
begin

lemma find_add_same: "add k v s = Inr s' \<Longrightarrow> find_in s' k = Some v"
  by (simp add: find_add)

lemma add_keeps:
  assumes "add k v s = Inr s'" "find_in s k' = Some w"
  shows "\<exists>w'. find_in s' k' = Some w' \<and> same w w'"
proof (cases "k' = k")
  case True
  have "same w v" using add_refused [of k v s] assms True by auto
  then show ?thesis using find_add [OF assms(1)] True by auto
next
  case False
  then show ?thesis using find_add [OF assms(1)] assms(2) same_refl by auto
qed

lemma add_all_keeps:
  assumes "fold_res (\<lambda>(k, v). add k v) kvs s = Inr s'" "find_in s k = Some w"
  shows "\<exists>w'. find_in s' k = Some w' \<and> same w w'"
  using assms
proof (induction kvs arbitrary: s w)
  case Nil
  then show ?case by (auto intro: same_refl)
next
  case (Cons kv kvs)
  obtain k1 v1 where kv: "kv = (k1, v1)" by (cases kv)
  from Cons.prems kv obtain s1 where s1: "add k1 v1 s = Inr s1"
      "fold_res (\<lambda>(k, v). add k v) kvs s1 = Inr s'"
    by (auto simp: rbind_eq_Inr)
  from add_keeps [OF s1(1) Cons.prems(2)] obtain w1 where w1: "find_in s1 k = Some w1" "same w w1"
    by blast
  from Cons.IH [OF s1(2) w1(1)] show ?case using same_trans w1(2) by blast
qed

end

interpretation node_registry: keyed_registry
  "\<lambda>(kind, variant) cls. register kind variant cls"
  "\<lambda>reg (kind, variant). registry_lookup reg kind variant"
  "\<lambda>c c'. cls_name c = cls_name c'"
  by unfold_locales (auto simp: register_def registry_lookup_def split: option.splits if_splits prod.splits)

text \<open>
  once a (kind, variant) pair is registered, no later sequence of registrations that goes
  through can point it at a different class; a second class for the same pair is refused.
\<close>

theorem registry_first_class_stays:
  assumes "fold_res (\<lambda>((kind, variant), cls). register kind variant cls) kvs reg = Inr reg'"
    and "registry_lookup reg kind variant = Some cls"
  shows "\<exists>cls'. registry_lookup reg' kind variant = Some cls' \<and> cls_name cls' = cls_name cls"
proof -
  have eq: "(\<lambda>(k, v). (\<lambda>(kind, variant) cls. register kind variant cls) k v)
      = (\<lambda>((kind, variant), cls). register kind variant cls)"
    by auto
  have "\<exists>w'. (\<lambda>reg (kind, variant). registry_lookup reg kind variant) reg' (kind, variant) = Some w'
      \<and> cls_name cls = cls_name w'"
    by (rule node_registry.add_all_keeps [where kvs = kvs and s = reg]) (use assms eq in auto)
  then show ?thesis by auto
qed

definition demo_cls :: "string \<Rightarrow> 'w node_cls" where
  "demo_cls name =
     \<lparr>cls_name = name, cls_id = name, cls_version = 1, cls_tier = Bulk, cls_uses_siril = False,
      cls_inputs = [], cls_outputs = [], cls_optional_inputs = [], cls_fields = [],
      cls_validate = Some, cls_estimate = (\<lambda>_ _ _. None),
      cls_run = (\<lambda>_ _ _ _. \<lparr>nr_files = [], nr_calls = [], nr_outcome = Produced []\<rparr>)\<rparr>"

theorem registry_first_class_stays_witness:
  "\<exists>reg' cls'. fold_res (\<lambda>((kind, variant), cls). register kind variant cls)
        [((''stack'', None), demo_cls ''SeqStack''), ((''crop'', None), demo_cls ''Crop'')]
        [((''stack'', None), demo_cls ''SeqStack'' :: unit node_cls)] = Inr reg'
     \<and> registry_lookup reg' ''stack'' None = Some cls' \<and> cls_name cls' = ''SeqStack''"
proof -
  let ?reg = "[((''stack'', None), demo_cls ''SeqStack'' :: unit node_cls)]"
  let ?kvs = "[((''stack'', None), demo_cls ''SeqStack'' :: unit node_cls), ((''crop'', None), demo_cls ''Crop'')]"
  obtain reg' where r: "fold_res (\<lambda>((kind, variant), cls). register kind variant cls) ?kvs ?reg = Inr reg'"
    by (simp add: register_def)
  have "registry_lookup ?reg ''stack'' None = Some (demo_cls ''SeqStack'')"
    by (simp add: registry_lookup_def)
  from registry_first_class_stays [OF r this] r show ?thesis by (simp add: demo_cls_def)
qed

end
