(* ===== verification/Matching.thy ===== *)
theory Matching
  imports Sessions Node_Model "HOL-Library.Option_ord"
begin

text \<open>
  \<open>server/catalog/matching.py\<close> and \<open>server/profiles.py\<close>: the choice of calibration masters for a session
  and for a bundle of sessions, and the calibration policy of scope profiles. Temperatures and
  exposure times are exact rationals. A SELECT yields rows in table order; no property depends on
  which of several equally good masters comes first. The texts Python's float formatting and
  \<open>repr\<close> produce in reasons are arguments.
\<close>

section \<open>Profiles\<close>

record scope_profile =
  sp_id :: string
  sp_display_name :: string
  sp_skip_match :: bool
  sp_skip_reason :: "string option"
  sp_node_defaults :: overrides
  sp_notes :: "string option"

type_synonym profiles = "(string, scope_profile) dict"

definition default_profile :: scope_profile where
  "default_profile = \<lparr>sp_id = ''_default'', sp_display_name = ''(unknown scope)'', sp_skip_match = False,
     sp_skip_reason = None, sp_node_defaults = [], sp_notes = None\<rparr>"

text \<open>
  The files of the profile directory in name order; None for one that is no YAML, no mapping or does
  not validate. A later file overwrites an earlier one with the same id.
\<close>

definition load_all :: "scope_profile option list \<Rightarrow> profiles" where
  "load_all files = fold (\<lambda>f out. case f of None \<Rightarrow> out | Some p \<Rightarrow> dput (sp_id p) p out) files []"

definition get_profile :: "profiles \<Rightarrow> string option \<Rightarrow> scope_profile" where
  "get_profile ps scope_id =
     (case scope_id of None \<Rightarrow> default_profile
      | Some s \<Rightarrow> (case map_of ps s of None \<Rightarrow> default_profile | Some p \<Rightarrow> p))"

section \<open>Masters\<close>

record master =
  ma_id :: int
  ma_kind :: string
  ma_instrument :: "string option"
  ma_camera :: "string option"
  ma_filter :: "string option"
  ma_exptime :: "rat option"
  ma_gain :: "int option"
  ma_binning :: "int option"
  ma_ccd_temp :: "rat option"
  ma_stack_count :: "int option"
  ma_path :: string
  ma_date_built :: "string option"

datatype match_quality = Exact | Approx | No_Match | Not_Needed

type_synonym match_result = "int option \<times> match_quality \<times> params"

record texts =
  tx_fixed1 :: "rat \<Rightarrow> string"
  tx_repr :: "string option \<Rightarrow> string"

definition DARK_TEMP_TOLERANCE_C :: rat where
  "DARK_TEMP_TOLERANCE_C = 5"

definition DARK_STACK_BIN_C :: rat where
  "DARK_STACK_BIN_C = 2"

definition DARK_TEMP_BIN_WIDTH_C :: rat where
  "DARK_TEMP_BIN_WIDTH_C = 2"

definition ifnull :: "'a option \<Rightarrow> 'a \<Rightarrow> 'a" where
  "ifnull v d = (case v of None \<Rightarrow> d | Some x \<Rightarrow> x)"

definition reason :: "string \<Rightarrow> params" where
  "reason s = [(''reason'', JStr s)]"

text \<open>The WHERE clauses. A NULL instrument equals nothing.\<close>

definition camera_fits :: "string option \<Rightarrow> master \<Rightarrow> bool" where
  "camera_fits camera m = (ma_camera m = None \<or> camera = None \<or> ma_camera m = camera)"

definition dark_fits :: "string \<Rightarrow> string option \<Rightarrow> rat \<Rightarrow> int option \<Rightarrow> int option \<Rightarrow> master \<Rightarrow> bool" where
  "dark_fits instrument camera exptime gain binning m =
     (ma_kind m = ''dark'' \<and> ma_instrument m = Some instrument
      \<and> \<bar>ifnull (ma_exptime m) 0 - exptime\<bar> < 1 / 1000
      \<and> ifnull (ma_gain m) (-1) = ifnull gain (-1) \<and> ifnull (ma_binning m) (-1) = ifnull binning (-1)
      \<and> camera_fits camera m)"

definition temp_gap :: "rat \<Rightarrow> master \<Rightarrow> rat" where
  "temp_gap t m = \<bar>or_zero (ma_ccd_temp m) - t\<bar>"

definition dark_score :: "rat \<Rightarrow> master \<Rightarrow> int \<times> int" where
  "dark_score t m = (trunc (temp_gap t m / DARK_STACK_BIN_C), - or_zero (ma_stack_count m))"

definition stack_depth :: "master \<Rightarrow> int" where
  "stack_depth m = or_zero (ma_stack_count m)"

section \<open>One session\<close>

text \<open>The session row with \<open>avg_ccd_temp\<close>.\<close>

type_synonym session_view = "session_row \<times> rat option"

definition match_dark :: "texts \<Rightarrow> master list \<Rightarrow> session_view \<Rightarrow> match_result" where
  "match_dark tx masters = (\<lambda>(s, avg_ccd_temp).
     case (se_instrument s, se_exptime s) of
       (Some instrument, Some exptime) \<Rightarrow>
         let candidates = filter (dark_fits instrument (se_camera s) exptime (se_gain s) (se_binning s)) masters
         in if candidates = [] then (None, No_Match, reason ''no dark candidates with matching exp/gain/bin'')
            else (case avg_ccd_temp of
                None \<Rightarrow> (map_option ma_id (py_max stack_depth candidates), Approx,
                         reason ''no session ccd_temp; chose deepest stack'')
              | Some t \<Rightarrow>
                  let in_tolerance = filter (\<lambda>c. temp_gap t c \<le> DARK_TEMP_TOLERANCE_C) candidates
                  in (case py_min (dark_score t) in_tolerance of
                        None \<Rightarrow> (None, No_Match,
                          reason (''no dark within +/-5C of session temp '' @ tx_fixed1 tx t @ ''C''))
                      | Some chosen \<Rightarrow>
                          let delta_c = or_zero (ma_ccd_temp chosen) - t
                          in (Some (ma_id chosen), if delta_c = 0 then Exact else Approx,
                              [(''delta_C'', JFloat (Fin delta_c))])))
     | _ \<Rightarrow> (None, No_Match, reason ''session missing instrument or exptime''))"

definition show_opt_int :: "int option \<Rightarrow> string" where
  "show_opt_int v = (case v of None \<Rightarrow> ''None'' | Some n \<Rightarrow> show_int n)"

text \<open>\<open>session['camera'] or 'any camera'\<close>.\<close>

definition camera_text :: "string option \<Rightarrow> string" where
  "camera_text c = (case c of None \<Rightarrow> ''any camera'' | Some s \<Rightarrow> if s = '''' then ''any camera'' else s)"

definition flat_fits :: "string \<Rightarrow> session_row \<Rightarrow> master \<Rightarrow> bool" where
  "flat_fits instrument s m =
     (ma_kind m = ''flat'' \<and> ma_instrument m = Some instrument
      \<and> ifnull (ma_filter m) '''' = ifnull (se_filter s) ''''
      \<and> ifnull (ma_binning m) (-1) = ifnull (se_binning s) (-1) \<and> camera_fits (se_camera s) m)"

definition flat_rank :: "master \<Rightarrow> string \<times> int" where
  "flat_rank m = (ifnull (ma_date_built m) '''', stack_depth m)"

definition match_flat :: "texts \<Rightarrow> master list \<Rightarrow> session_view \<Rightarrow> match_result" where
  "match_flat tx masters = (\<lambda>(s, avg_ccd_temp).
     case se_instrument s of
       None \<Rightarrow> (None, No_Match, reason ''session missing instrument'')
     | Some instrument \<Rightarrow>
         (case py_max flat_rank (filter (flat_fits instrument s) masters) of
            None \<Rightarrow> (None, No_Match, reason (''no flat for filter='' @ tx_repr tx (se_filter s) @ '' bin=''
                      @ show_opt_int (se_binning s) @ '' on '' @ camera_text (se_camera s)))
          | Some chosen \<Rightarrow> (Some (ma_id chosen), Exact, [])))"

definition bias_fits :: "string \<Rightarrow> session_row \<Rightarrow> master \<Rightarrow> bool" where
  "bias_fits instrument s m =
     (ma_kind m = ''bias'' \<and> ma_instrument m = Some instrument
      \<and> ifnull (ma_binning m) (-1) = ifnull (se_binning s) (-1) \<and> camera_fits (se_camera s) m)"

definition match_bias :: "texts \<Rightarrow> master list \<Rightarrow> session_view \<Rightarrow> match_result" where
  "match_bias tx masters = (\<lambda>(s, avg_ccd_temp).
     case se_instrument s of
       None \<Rightarrow> (None, No_Match, reason ''session missing instrument'')
     | Some instrument \<Rightarrow>
         (case py_max stack_depth (filter (bias_fits instrument s) masters) of
            None \<Rightarrow> (None, No_Match, reason (''no bias for bin='' @ show_opt_int (se_binning s)
                      @ '' on '' @ camera_text (se_camera s)))
          | Some chosen \<Rightarrow> (Some (ma_id chosen), Exact, [])))"

definition matchers :: "texts \<Rightarrow> master list \<Rightarrow> (string, session_view \<Rightarrow> match_result) dict" where
  "matchers tx masters =
     [(''dark'', match_dark tx masters), (''flat'', match_flat tx masters), (''bias'', match_bias tx masters)]"

record cal_match =
  cm_master_id :: "int option"
  cm_quality :: match_quality
  cm_details :: "params option"
  cm_overridden :: bool
  cm_updated_at :: rat

type_synonym cal_table = "(int \<times> string, cal_match) dict"

record match_out =
  mo_master_id :: "int option"
  mo_quality :: match_quality
  mo_details :: "params option"
  mo_overridden :: bool

text \<open>SQL's AVG over the linked frames with a temperature; NULL when there is none.\<close>

definition session_with_temp :: "catalog \<Rightarrow> int \<Rightarrow> session_view option" where
  "session_with_temp ct sid =
     (case find (\<lambda>s. se_id s = sid) (ct_sessions ct) of
        None \<Rightarrow> None
      | Some s \<Rightarrow>
          let temps = List.map_filter fr_ccd_temp (filter (\<lambda>f. (sid, fr_id f) \<in> set (ct_links ct)) (ct_frames ct))
          in Some (s, if temps = [] then None else Some (sum_list temps / of_nat (length temps))))"

definition skip_reason :: "scope_profile \<Rightarrow> string" where
  "skip_reason p =
     (let computed = ''scope '' @ [CHR 0x27] @ sp_id p @ [CHR 0x27] @ '' pre-calibrates lights on device''
      in case sp_skip_reason p of None \<Rightarrow> computed | Some r \<Rightarrow> if r = '''' then computed else r)"

definition match_kind ::
  "scope_profile \<Rightarrow> rat \<Rightarrow> session_view \<Rightarrow> string \<times> (session_view \<Rightarrow> match_result)
   \<Rightarrow> cal_table \<times> (string, match_out) dict \<Rightarrow> cal_table \<times> (string, match_out) dict" where
  "match_kind profile now view = (\<lambda>(kind, matcher) (table, out).
     let key = (se_id (fst view), kind);
         compute = (\<lambda>_. let (master_id, quality, details) =
                  (if sp_skip_match profile then (None, Not_Needed, reason (skip_reason profile)) else matcher view)
            in (dput key \<lparr>cm_master_id = master_id, cm_quality = quality, cm_details = Some details,
                          cm_overridden = False, cm_updated_at = now\<rparr> table,
                dput kind \<lparr>mo_master_id = master_id, mo_quality = quality, mo_details = Some details,
                           mo_overridden = False\<rparr> out))
     in case map_of table key of
          None \<Rightarrow> compute ()
        | Some row \<Rightarrow>
            if cm_overridden row then
              (table, dput kind \<lparr>mo_master_id = cm_master_id row, mo_quality = cm_quality row,
                                 mo_details = cm_details row, mo_overridden = True\<rparr> out)
            else compute ())"

datatype match_error = Session_Not_Found int | Unorderable_Bins

definition match_session ::
  "texts \<Rightarrow> profiles \<Rightarrow> rat \<Rightarrow> catalog \<Rightarrow> master list \<Rightarrow> int \<Rightarrow> cal_table
   \<Rightarrow> match_error + cal_table \<times> (string, match_out) dict" where
  "match_session tx profiles now ct masters sid table =
     (case session_with_temp ct sid of
        None \<Rightarrow> Inl (Session_Not_Found sid)
      | Some view \<Rightarrow>
          Inr (fold (match_kind (get_profile profiles (se_scope_id (fst view))) now view) (matchers tx masters) (table, [])))"

definition match_all_sessions ::
  "texts \<Rightarrow> profiles \<Rightarrow> rat \<Rightarrow> catalog \<Rightarrow> master list \<Rightarrow> cal_table \<Rightarrow> match_error + cal_table \<times> nat" where
  "match_all_sessions tx profiles now ct masters table =
     rbind (fold_res (\<lambda>s table. rbind (match_session tx profiles now ct masters (se_id s) table) (\<lambda>(table', _). Inr table'))
              (ct_sessions ct) table)
       (\<lambda>table'. Inr (table', length (ct_sessions ct)))"

section \<open>A bundle of sessions\<close>

type_synonym bin_key = "rat \<times> int option \<times> int option \<times> rat option"

record bucket =
  bk_count :: int
  bk_instrument :: "string option"
  bk_camera :: "string option"

record bundle_dark_bin =
  bd_exptime :: rat
  bd_gain :: "int option"
  bd_binning :: "int option"
  bd_temp_bin_c :: "rat option"
  bd_frame_count :: int
  bd_master_id :: "int option"
  bd_master_path :: "string option"
  bd_quality :: match_quality
  bd_delta_c :: "rat option"
  bd_fallback :: bool

definition bin_temp :: "rat option \<Rightarrow> rat \<Rightarrow> rat option" where
  "bin_temp ccd_temp width = map_option (\<lambda>t. (of_int (trunc (t / width)) + 1 / 2) * width) ccd_temp"

definition coalesce :: "'a option \<Rightarrow> 'a option \<Rightarrow> 'a option" where
  "coalesce a b = (case a of None \<Rightarrow> b | Some _ \<Rightarrow> a)"

text \<open>The joined row of a light frame in one of the sessions: frame columns, filled from the session's.\<close>

definition bundle_row :: "session_row \<Rightarrow> frame \<Rightarrow> frame" where
  "bundle_row s f =
     f\<lparr>fr_exptime := coalesce (fr_exptime f) (se_exptime s), fr_gain := coalesce (fr_gain f) (se_gain s),
       fr_binning := coalesce (fr_binning f) (se_binning s),
       fr_instrument := coalesce (fr_instrument f) (se_instrument s),
       fr_camera := coalesce (fr_camera f) (se_camera s)\<rparr>"

definition bundle_frames :: "catalog \<Rightarrow> int list \<Rightarrow> frame list" where
  "bundle_frames ct sids =
     concat (map (\<lambda>f. if fr_image_type f = Some ''LIGHT'' then
         concat (map (\<lambda>(sid, fid). if fid = fr_id f \<and> sid \<in> set sids then
             map (\<lambda>s. bundle_row s f) (filter (\<lambda>s. se_id s = sid) (ct_sessions ct)) else []) (ct_links ct))
       else []) (ct_frames ct))"

definition bucket_add :: "rat \<Rightarrow> frame \<Rightarrow> (bin_key, bucket) dict \<Rightarrow> (bin_key, bucket) dict" where
  "bucket_add width f buckets =
     (case fr_exptime f of
        None \<Rightarrow> buckets
      | Some exptime \<Rightarrow>
          let key = (exptime, fr_gain f, fr_binning f, bin_temp (fr_ccd_temp f) width)
          in (case map_of buckets key of
                None \<Rightarrow> dput key \<lparr>bk_count = 1, bk_instrument = fr_instrument f, bk_camera = fr_camera f\<rparr> buckets
              | Some b \<Rightarrow> dput key (b\<lparr>bk_count := bk_count b + 1\<rparr>) buckets))"

text \<open>
  Tuples compare at the first position where they differ; None against a number raises. A sort that
  never compared such a pair could not have ordered it.
\<close>

definition orderable :: "bin_key \<Rightarrow> bin_key \<Rightarrow> bool" where
  "orderable = (\<lambda>(e, g, b, t) (e', g', b', t').
     if e \<noteq> e' then True
     else if g \<noteq> g' then g \<noteq> None \<and> g' \<noteq> None
     else if b \<noteq> b' then b \<noteq> None \<and> b' \<noteq> None
     else t = t' \<or> t \<noteq> None \<and> t' \<noteq> None)"

definition sorted_buckets :: "(bin_key, bucket) dict \<Rightarrow> match_error + (bin_key \<times> bucket) list" where
  "sorted_buckets buckets =
     (if list_all (\<lambda>k. list_all (orderable k) (dkeys buckets)) (dkeys buckets) then Inr (sort_key fst buckets)
      else Inl Unorderable_Bins)"

record bin_choice =
  bc_id :: int
  bc_path :: string
  bc_quality :: match_quality
  bc_delta_c :: "rat option"
  bc_fallback :: bool

definition best_dark_for_bin ::
  "master list \<Rightarrow> string option \<Rightarrow> string option \<Rightarrow> rat \<Rightarrow> int option \<Rightarrow> int option \<Rightarrow> rat option \<Rightarrow> rat
   \<Rightarrow> bin_choice option" where
  "best_dark_for_bin masters instrument camera exptime gain binning temp_bin temp_tolerance_c =
     (case instrument of
        None \<Rightarrow> None
      | Some ins \<Rightarrow>
          let candidates = filter (dark_fits ins camera exptime gain binning) masters
          in case temp_bin of
               None \<Rightarrow> map_option (\<lambda>m. \<lparr>bc_id = ma_id m, bc_path = ma_path m, bc_quality = Approx, bc_delta_c = None,
                                          bc_fallback = False\<rparr>) (py_max stack_depth candidates)
             | Some t \<Rightarrow>
                 let in_tolerance = filter (\<lambda>c. temp_gap t c \<le> temp_tolerance_c) candidates
                 in (case py_min (dark_score t) in_tolerance of
                       Some m \<Rightarrow>
                         let delta = or_zero (ma_ccd_temp m) - t
                         in Some \<lparr>bc_id = ma_id m, bc_path = ma_path m,
                                  bc_quality = (if delta = 0 then Exact else Approx), bc_delta_c = Some delta,
                                  bc_fallback = False\<rparr>
                     | None \<Rightarrow>
                         map_option (\<lambda>m. \<lparr>bc_id = ma_id m, bc_path = ma_path m, bc_quality = Approx,
                             bc_delta_c = Some (or_zero (ma_ccd_temp m) - t), bc_fallback = True\<rparr>)
                           (py_min (temp_gap t) candidates)))"

definition dark_bin :: "master list \<Rightarrow> rat \<Rightarrow> bin_key \<times> bucket \<Rightarrow> bundle_dark_bin" where
  "dark_bin masters tolerance = (\<lambda>((exptime, gain, binning, temp_bin), agg).
     let master = best_dark_for_bin masters (bk_instrument agg) (bk_camera agg) exptime gain binning temp_bin tolerance
     in \<lparr>bd_exptime = exptime, bd_gain = gain, bd_binning = binning, bd_temp_bin_c = temp_bin,
         bd_frame_count = bk_count agg, bd_master_id = map_option bc_id master,
         bd_master_path = map_option bc_path master,
         bd_quality = (case master of None \<Rightarrow> No_Match | Some m \<Rightarrow> bc_quality m),
         bd_delta_c = Option.bind master bc_delta_c,
         bd_fallback = (case master of None \<Rightarrow> False | Some m \<Rightarrow> bc_fallback m)\<rparr>)"

definition match_bundle_darks ::
  "catalog \<Rightarrow> master list \<Rightarrow> int list \<Rightarrow> rat \<Rightarrow> rat \<Rightarrow> match_error + bundle_dark_bin list" where
  "match_bundle_darks ct masters session_ids width tolerance =
     (if session_ids = [] then Inr []
      else rbind (sorted_buckets (fold (bucket_add width) (bundle_frames ct (sort (remdups session_ids))) []))
        (\<lambda>buckets. Inr (map (dark_bin masters tolerance) buckets)))"

section \<open>What the matchers choose\<close>

lemma trunc_nonneg: "0 \<le> x \<Longrightarrow> trunc x = \<lfloor>x\<rfloor>"
  by (simp add: trunc_def)

lemma dark_score_le:
  "dark_score t m \<le> dark_score t m' \<longleftrightarrow>
     \<lfloor>temp_gap t m / 2\<rfloor> < \<lfloor>temp_gap t m' / 2\<rfloor>
     \<or> \<lfloor>temp_gap t m / 2\<rfloor> = \<lfloor>temp_gap t m' / 2\<rfloor> \<and> stack_depth m' \<le> stack_depth m"
  by (simp add: dark_score_def temp_gap_def DARK_STACK_BIN_C_def trunc_nonneg stack_depth_def less_eq_prod_def) auto

text \<open>The eligible masters of a session with a temperature.\<close>

definition dark_candidate :: "session_row \<Rightarrow> string \<Rightarrow> rat \<Rightarrow> rat \<Rightarrow> master list \<Rightarrow> master \<Rightarrow> bool" where
  "dark_candidate s instrument exptime t masters m \<longleftrightarrow>
     m \<in> set masters \<and> dark_fits instrument (se_camera s) exptime (se_gain s) (se_binning s) m \<and> temp_gap t m \<le> 5"

text \<open>
  The dark a session gets. Among the masters of its instrument, exposure, gain, binning and camera within 5
  degrees it is one in the lowest 2-degree band of temperature difference and, in that band, of the
  deepest stack; the match is exact just when its temperature is the session's. No master is chosen
  only if there is none.
\<close>

theorem dark_match_best:
  assumes "se_instrument s = Some instrument" "se_exptime s = Some exptime"
    and "match_dark tx masters (s, Some t) = (mid, quality, details)"
  shows "case mid of
      None \<Rightarrow> quality = No_Match \<and> (\<nexists>m. dark_candidate s instrument exptime t masters m)
    | Some i \<Rightarrow> (\<exists>m. ma_id m = i \<and> dark_candidate s instrument exptime t masters m
        \<and> quality = (if or_zero (ma_ccd_temp m) = t then Exact else Approx)
        \<and> (\<forall>m'. dark_candidate s instrument exptime t masters m' \<longrightarrow>
             \<lfloor>temp_gap t m / 2\<rfloor> < \<lfloor>temp_gap t m' / 2\<rfloor>
             \<or> \<lfloor>temp_gap t m / 2\<rfloor> = \<lfloor>temp_gap t m' / 2\<rfloor> \<and> stack_depth m' \<le> stack_depth m))"
proof -
  let ?cands = "filter (dark_fits instrument (se_camera s) exptime (se_gain s) (se_binning s)) masters"
  let ?near = "filter (\<lambda>c. temp_gap t c \<le> DARK_TEMP_TOLERANCE_C) ?cands"
  have near: "m \<in> set ?near \<longleftrightarrow> dark_candidate s instrument exptime t masters m" for m
    by (auto simp: dark_candidate_def DARK_TEMP_TOLERANCE_C_def)
  show ?thesis
  proof (cases "py_min (dark_score t) ?near")
    case None
    then have "?near = []" by simp
    then have "\<nexists>m. dark_candidate s instrument exptime t masters m" using near by (metis empty_iff empty_set)
    moreover have "mid = None \<and> quality = No_Match"
      using assms None \<open>?near = []\<close> by (auto simp: match_dark_def Let_def py_min_def split: if_splits)
    ultimately show ?thesis by simp
  next
    case (Some m)
    have m: "dark_candidate s instrument exptime t masters m" using py_min_in [OF Some] unfolding near .
    have "m \<in> set ?cands" using py_min_in [OF Some] by simp
    then have "?cands \<noteq> []" by (metis empty_iff empty_set)
    then have "mid = Some (ma_id m)" "quality = (if or_zero (ma_ccd_temp m) = t then Exact else Approx)"
      using assms Some by (auto simp: match_dark_def Let_def)
    moreover have "dark_score t m \<le> dark_score t m'" if "dark_candidate s instrument exptime t masters m'" for m'
      using py_min_le [OF Some] that unfolding near by blast
    ultimately show ?thesis using m unfolding dark_score_le by auto
  qed
qed

section \<open>Overrides\<close>

lemma match_kind_other:
  "key \<noteq> (se_id (fst view), kind) \<Longrightarrow>
   map_of (fst (match_kind profile now view (kind, matcher) (table, out))) key = map_of table key"
  by (auto simp: match_kind_def Let_def split: option.splits prod.splits)

lemma match_kind_overridden:
  "map_of table key = Some row \<Longrightarrow> cm_overridden row \<Longrightarrow>
   map_of (fst (match_kind profile now view km (table, out))) key = Some row"
  by (auto simp: match_kind_def Let_def split: option.splits prod.splits)

lemma match_kinds_overridden:
  "map_of (fst st) key = Some row \<Longrightarrow> cm_overridden row \<Longrightarrow>
   map_of (fst (fold (match_kind profile now view) kms st)) key = Some row"
proof (induction kms arbitrary: st)
  case (Cons km kms)
  have "map_of (fst (match_kind profile now view km st)) key = Some row"
    using match_kind_overridden [OF _ Cons.prems(2), of "fst st" key] Cons.prems(1) by (cases st) simp
  then show ?case using Cons by simp
qed simp

text \<open>
  C17: overrides are kept. Whatever sessions, masters and profiles there are, a recomputation of all matches
  leaves every row the user has overridden exactly as it was.
\<close>

theorem overrides_survive:
  assumes "map_of table key = Some row" "cm_overridden row"
    and "match_all_sessions tx profiles now ct masters table = Inr (table', n)"
  shows "map_of table' key = Some row"
proof -
  obtain t where t: "fold_res (\<lambda>s table. rbind (match_session tx profiles now ct masters (se_id s) table)
      (\<lambda>(table', _). Inr table')) (ct_sessions ct) table = Inr t" "table' = t"
    using assms(3) by (auto simp: match_all_sessions_def rbind_eq_Inr)
  have "map_of t key = Some row"
  proof (rule fold_res_invariant [OF t(1), where P = "\<lambda>t. map_of t key = Some row"])
    fix s t1 t2
    assume "map_of t1 key = Some row"
      "rbind (match_session tx profiles now ct masters (se_id s) t1) (\<lambda>(table', _). Inr table') = Inr t2"
    then show "map_of t2 key = Some row"
      using match_kinds_overridden [of "(t1, [])" key row, OF _ assms(2)]
      by (auto simp: match_session_def rbind_eq_Inr split: option.splits) (metis fst_conv)
  qed (rule assms(1))
  then show ?thesis by (simp add: t(2))
qed

section \<open>Temperature bins\<close>

text \<open>
  how far a bin's centre is from its temperatures. At or above freezing at most half a width. Below freezing
  the truncation picks the bin above: the centre is more than half a width, and up to one and a half, too
  warm. The bin around zero therefore spans two widths, where the documentation says temperatures are floored.
\<close>

theorem bin_temp_error:
  assumes "0 < width" "bin_temp (Some t) width = Some c"
  shows "if 0 \<le> t then \<bar>c - t\<bar> \<le> width / 2 else width / 2 \<le> c - t \<and> c - t < 3 / 2 * width"
proof -
  have c: "c = (of_int (trunc (t / width)) + 1 / 2) * width" using assms(2) by (simp add: bin_temp_def)
  show ?thesis
  proof (cases "0 \<le> t")
    case True
    then have q: "trunc (t / width) = \<lfloor>t / width\<rfloor>" using assms(1) by (simp add: trunc_nonneg)
    have "of_int \<lfloor>t / width\<rfloor> \<le> t / width" "t / width < of_int \<lfloor>t / width\<rfloor> + 1" by linarith+
    then have "of_int \<lfloor>t / width\<rfloor> * width \<le> t" "t < (of_int \<lfloor>t / width\<rfloor> + 1) * width"
      using assms(1) by (simp_all only: pos_le_divide_eq pos_divide_less_eq)
    then have "\<bar>c - t\<bar> \<le> width / 2" unfolding abs_le_iff c q by (simp add: algebra_simps)
    then show ?thesis using True by simp
  next
    case False
    then have "t / width < 0" using assms(1) by (simp add: divide_neg_pos)
    then have q: "trunc (t / width) = - \<lfloor>- (t / width)\<rfloor>" by (simp add: trunc_def)
    have "of_int \<lfloor>- t / width\<rfloor> \<le> - t / width" "- t / width < of_int \<lfloor>- t / width\<rfloor> + 1" by linarith+
    then have "of_int \<lfloor>- t / width\<rfloor> * width \<le> - t" "- t < (of_int \<lfloor>- t / width\<rfloor> + 1) * width"
      using assms(1) by (simp_all only: pos_le_divide_eq pos_divide_less_eq)
    then show ?thesis using False by (simp add: c q algebra_simps)
  qed
qed

section \<open>Bundles\<close>

definition key_of :: "rat \<Rightarrow> frame \<Rightarrow> bin_key" where
  "key_of width f = (ifnull (fr_exptime f) 0, fr_gain f, fr_binning f, bin_temp (fr_ccd_temp f) width)"

definition timed :: "frame \<Rightarrow> bool" where
  "timed f \<longleftrightarrow> fr_exptime f \<noteq> None"

lemma bucket_count:
  "map_option bk_count (map_of (fold (bucket_add width) fs bs) k)
   = (let n = length (filter (\<lambda>f. timed f \<and> key_of width f = k) fs)
      in case map_of bs k of None \<Rightarrow> if n = 0 then None else Some (int n) | Some b \<Rightarrow> Some (bk_count b + int n))"
proof (induction fs arbitrary: bs)
  case Nil
  show ?case by (simp split: option.splits)
next
  case (Cons f fs)
  show ?case
  proof (cases "fr_exptime f")
    case None
    then show ?thesis using Cons by (simp add: bucket_add_def timed_def)
  next
    case (Some e)
    have k: "key_of width f = (e, fr_gain f, fr_binning f, bin_temp (fr_ccd_temp f) width)"
      by (simp add: key_of_def ifnull_def Some)
    show ?thesis
      using Cons [of "bucket_add width f bs"]
      by (auto simp: bucket_add_def Some timed_def k Let_def split: option.splits)
  qed
qed

lemma bucket_wf: "wf_dict bs \<Longrightarrow> wf_dict (fold (bucket_add width) fs bs)"
proof (induction fs arbitrary: bs)
  case (Cons f fs)
  then show ?case by (simp add: bucket_add_def Let_def split: option.splits)
qed simp

lemma bucket_result:
  defines "bins fs width \<equiv> fold (bucket_add width) fs []"
  shows "(k, b) \<in> set (bins fs width) \<Longrightarrow>
      bk_count b = int (length (filter (\<lambda>f. timed f \<and> key_of width f = k) fs)) \<and> 0 < bk_count b"
    "k \<in> fst ` set (bins fs width) \<longleftrightarrow> (\<exists>f \<in> set fs. timed f \<and> key_of width f = k)"
proof -
  have wf: "wf_dict (bins fs width)" unfolding bins_def by (rule bucket_wf) simp
  have count: "map_option bk_count (map_of (bins fs width) k)
      = (let n = length (filter (\<lambda>f. timed f \<and> key_of width f = k) fs) in if n = 0 then None else Some (int n))"
    using bucket_count [of width fs "[]" k] by (simp add: bins_def)
  show "(k, b) \<in> set (bins fs width) \<Longrightarrow>
      bk_count b = int (length (filter (\<lambda>f. timed f \<and> key_of width f = k) fs)) \<and> 0 < bk_count b"
    using count map_of_is_SomeI [OF wf, of k b] by (auto simp: Let_def split: if_splits)
  have "k \<in> fst ` set (bins fs width) \<longleftrightarrow> map_of (bins fs width) k \<noteq> None"
    by (simp add: map_of_eq_None_iff)
  also have "\<dots> \<longleftrightarrow> filter (\<lambda>f. timed f \<and> key_of width f = k) fs \<noteq> []"
    using count by (auto simp: Let_def split: if_splits)
  also have "\<dots> \<longleftrightarrow> (\<exists>f \<in> set fs. timed f \<and> key_of width f = k)"
    by (auto simp: filter_empty_conv)
  finally show "k \<in> fst ` set (bins fs width) \<longleftrightarrow> (\<exists>f \<in> set fs. timed f \<and> key_of width f = k)" .
qed

lemma bucket_keys:
  "set (dkeys (fold (bucket_add width) fs [])) = key_of width ` {f \<in> set fs. timed f}"
proof (rule set_eqI)
  fix k
  have "k \<in> fst ` set (fold (bucket_add width) fs []) \<longleftrightarrow> (\<exists>f \<in> set fs. timed f \<and> key_of width f = k)"
    by (rule bucket_result(2))
  also have "\<dots> \<longleftrightarrow> k \<in> key_of width ` {f \<in> set fs. timed f}" by (force simp: image_iff)
  finally show "k \<in> set (dkeys (fold (bucket_add width) fs [])) \<longleftrightarrow> k \<in> key_of width ` {f \<in> set fs. timed f}"
    by simp
qed

definition bin_key_of :: "bundle_dark_bin \<Rightarrow> bin_key" where
  "bin_key_of b = (bd_exptime b, bd_gain b, bd_binning b, bd_temp_bin_c b)"

lemma dark_bin_key [simp]: "bin_key_of (dark_bin masters tol (k, agg)) = k"
  by (cases k) (simp add: dark_bin_def bin_key_of_def Let_def)

lemma dark_bin_count [simp]: "bd_frame_count (dark_bin masters tol (k, agg)) = bk_count agg"
  by (cases k) (simp add: dark_bin_def Let_def)

text \<open>
  every frame is accounted for. The bins of a bundle are sorted by exposure, gain, binning and temperature
  without repetition; their keys are those of the bundle's light frames that have an exposure time, and
  each counts exactly the frames with its key.
\<close>

theorem bundle_bins_partition:
  assumes "match_bundle_darks ct masters sids width tol = Inr bins" "sids \<noteq> []"
  shows "sorted (map bin_key_of bins) \<and> distinct (map bin_key_of bins)
    \<and> set (map bin_key_of bins) = key_of width ` {f \<in> set (bundle_frames ct (sort (remdups sids))). timed f}
    \<and> (\<forall>b \<in> set bins. bd_frame_count b
         = int (length (filter (\<lambda>f. timed f \<and> key_of width f = bin_key_of b) (bundle_frames ct (sort (remdups sids))))))"
proof -
  let ?fs = "bundle_frames ct (sort (remdups sids))"
  let ?bs = "fold (bucket_add width) ?fs []"
  have bins: "bins = map (dark_bin masters tol) (sort_key fst ?bs)"
    using assms by (auto simp: match_bundle_darks_def sorted_buckets_def rbind_eq_Inr split: if_splits)
  have "bin_key_of (dark_bin masters tol kb) = fst kb" for kb by (cases kb) (simp only: dark_bin_key fst_conv)
  then have keys: "map bin_key_of bins = map fst (sort_key fst ?bs)" unfolding bins by simp
  have wf: "distinct (map fst ?bs)" using bucket_wf [of "[]" width ?fs] by simp
  have "mset (map fst (sort_key fst ?bs)) = mset (map fst ?bs)" by simp
  then have d: "distinct (map fst (sort_key fst ?bs))"
    using wf mset_eq_imp_distinct_iff by blast
  have "set (map fst (sort_key fst ?bs)) = key_of width ` {f \<in> set ?fs. timed f}"
    using bucket_keys [of width ?fs] by simp
  moreover have "bd_frame_count b = int (length (filter (\<lambda>f. timed f \<and> key_of width f = bin_key_of b) ?fs))"
    if "b \<in> set bins" for b
  proof -
    from that obtain k agg where "b = dark_bin masters tol (k, agg)" "(k, agg) \<in> set ?bs" by (auto simp: bins)
    then show ?thesis using bucket_result(1) [where fs = ?fs and width = width and k = k and b = agg] by simp
  qed
  ultimately show ?thesis using d unfolding keys by simp
qed

definition one_missing :: "'a option \<Rightarrow> 'a option \<Rightarrow> bool" where
  "one_missing a b = ((a = None) \<noteq> (b = None))"

text \<open>
  when a bundle's darks cannot be computed. The bins fail to sort exactly when two of its frames agree up to
  some key position at which one has a value and the other none, as with a temperature missing from
  only some of otherwise equal frames, which the code means to group on their own.
\<close>

theorem bundle_fails_iff_unorderable:
  "match_bundle_darks ct masters sids width tol = Inl Unorderable_Bins \<longleftrightarrow>
    (\<exists>f \<in> set (bundle_frames ct (sort (remdups sids))). \<exists>f' \<in> set (bundle_frames ct (sort (remdups sids))).
       timed f \<and> timed f' \<and> fr_exptime f = fr_exptime f'
       \<and> (one_missing (fr_gain f) (fr_gain f')
          \<or> fr_gain f = fr_gain f' \<and> (one_missing (fr_binning f) (fr_binning f')
             \<or> fr_binning f = fr_binning f' \<and> one_missing (fr_ccd_temp f) (fr_ccd_temp f'))))"
proof -
  let ?fs = "bundle_frames ct (sort (remdups sids))"
  let ?bs = "fold (bucket_add width) ?fs []"
  have none: "bundle_frames ct (sort (remdups sids)) = []" if "sids = []"
    using that by (auto simp: bundle_frames_def split: prod.splits)
  have "match_bundle_darks ct masters sids width tol = Inl Unorderable_Bins
      \<longleftrightarrow> (\<exists>k \<in> set (dkeys ?bs). \<exists>k' \<in> set (dkeys ?bs). \<not> orderable k k')"
    using none by (auto simp: match_bundle_darks_def sorted_buckets_def list_all_iff)
  also have "\<dots> \<longleftrightarrow> (\<exists>f \<in> set ?fs. \<exists>f' \<in> set ?fs. timed f \<and> timed f' \<and> \<not> orderable (key_of width f) (key_of width f'))"
    unfolding bucket_keys by blast
  also have "\<dots> \<longleftrightarrow> (\<exists>f \<in> set ?fs. \<exists>f' \<in> set ?fs. timed f \<and> timed f' \<and> fr_exptime f = fr_exptime f'
       \<and> (one_missing (fr_gain f) (fr_gain f')
          \<or> fr_gain f = fr_gain f' \<and> (one_missing (fr_binning f) (fr_binning f')
             \<or> fr_binning f = fr_binning f' \<and> one_missing (fr_ccd_temp f) (fr_ccd_temp f'))))"
  proof -
    have "timed f \<Longrightarrow> timed f' \<Longrightarrow> \<not> orderable (key_of width f) (key_of width f') \<longleftrightarrow> fr_exptime f = fr_exptime f'
       \<and> (one_missing (fr_gain f) (fr_gain f')
          \<or> fr_gain f = fr_gain f' \<and> (one_missing (fr_binning f) (fr_binning f')
             \<or> fr_binning f = fr_binning f' \<and> one_missing (fr_ccd_temp f) (fr_ccd_temp f')))" for f f'
      by (cases "fr_gain f"; cases "fr_gain f'"; cases "fr_binning f"; cases "fr_binning f'")
         (auto simp: orderable_def key_of_def timed_def bin_temp_def ifnull_def one_missing_def)
    then show ?thesis by (simp cong: conj_cong)
  qed
  finally show ?thesis .
qed

section \<open>Instances\<close>

definition demo_texts :: texts where
  "demo_texts = \<lparr>tx_fixed1 = (\<lambda>_. ''20.0''), tx_repr = (\<lambda>_. ''None'')\<rparr>"

definition demo_dark :: "int \<Rightarrow> rat \<Rightarrow> int \<Rightarrow> master" where
  "demo_dark i temp stack =
     \<lparr>ma_id = i, ma_kind = ''dark'', ma_instrument = Some ''dwarf'', ma_camera = Some ''TELE'', ma_filter = None,
      ma_exptime = Some 15, ma_gain = Some 60, ma_binning = Some 1, ma_ccd_temp = Some temp,
      ma_stack_count = Some stack, ma_path = ''/m'', ma_date_built = None\<rparr>"

definition demo_session :: session_row where
  "demo_session = new_session 7 (Some 1) (open_cluster (config_of (demo_frame 1 '''')) (demo_frame 1 ''''))"

text \<open>The exact but shallow master loses to the deeper one in the same band.\<close>

lemma dark_match_best_witness:
  "\<exists>m. ma_id m = 2 \<and> dark_candidate demo_session ''dwarf'' 15 20 [demo_dark 1 20 3, demo_dark 2 21 10, demo_dark 3 30 99] m"
proof -
  let ?ms = "[demo_dark 1 20 3, demo_dark 2 21 10, demo_dark 3 30 99]"
  have m: "match_dark demo_texts ?ms (demo_session, Some 20) = (Some 2, Approx, [(''delta_C'', JFloat (Fin 1))])"
    by code_simp
  have s: "se_instrument demo_session = Some ''dwarf''" "se_exptime demo_session = Some 15" by code_simp+
  from dark_match_best [OF s m] show ?thesis by auto
qed

lemma overrides_survive_witness:
  "\<exists>table' n. match_all_sessions demo_texts [] 5 demo_catalog [demo_dark 1 20 3]
       [((7, ''dark''), \<lparr>cm_master_id = Some 9, cm_quality = Exact, cm_details = None, cm_overridden = True, cm_updated_at = 0\<rparr>)]
       = Inr (table', n)
     \<and> map_of table' (7, ''dark'') = Some \<lparr>cm_master_id = Some 9, cm_quality = Exact, cm_details = None,
         cm_overridden = True, cm_updated_at = 0\<rparr>"
proof -
  let ?row = "\<lparr>cm_master_id = Some 9, cm_quality = Exact, cm_details = None, cm_overridden = True, cm_updated_at = 0\<rparr>"
  let ?run = "match_all_sessions demo_texts [] 5 demo_catalog [demo_dark 1 20 3] [((7, ''dark''), ?row)]"
  have "case ?run of Inl _ \<Rightarrow> False | Inr _ \<Rightarrow> True" by code_simp
  then obtain table' n where r: "?run = Inr (table', n)" by (auto split: sum.splits)
  have k: "map_of [((7, ''dark''), ?row)] (7, ''dark'') = Some ?row" by simp
  from overrides_survive [OF k _ r] r show ?thesis by simp
qed

lemma bin_temp_error_witness: "bin_temp (Some (-3)) 2 = Some (-1) \<and> (2 :: rat) / 2 \<le> -1 - (-3)"
proof -
  have b: "bin_temp (Some (-3)) 2 = Some (-1)" by code_simp
  from bin_temp_error [OF _ b] b show ?thesis by simp
qed

lemma bundle_bins_partition_witness:
  "\<exists>bins. match_bundle_darks demo_catalog [demo_dark 1 20 3] [7] 2 5 = Inr bins
     \<and> set (map bin_key_of bins) = {(15, Some 60, Some 1, Some 21)}"
proof -
  have "case match_bundle_darks demo_catalog [demo_dark 1 20 3] [7] 2 5 of Inl _ \<Rightarrow> False | Inr _ \<Rightarrow> True" by code_simp
  then obtain bins where b: "match_bundle_darks demo_catalog [demo_dark 1 20 3] [7] 2 5 = Inr bins"
    by (auto split: sum.splits)
  have f: "map (key_of 2) (filter timed (bundle_frames demo_catalog (sort (remdups [7])))) = [(15, Some 60, Some 1, Some 21)]"
    by code_simp
  have "key_of 2 ` {f \<in> set (bundle_frames demo_catalog (sort (remdups [7]))). timed f} = {(15, Some 60, Some 1, Some 21)}"
    using arg_cong [OF f, of set] by simp
  with bundle_bins_partition [OF b] b show ?thesis by simp
qed

end
