(* ===== verification/Job_Builder.thy ===== *)
theory Job_Builder
  imports Matching Py_Text
begin

text \<open>
  \<open>server/job_builder.py\<close>: from sessions and a template to a runnable job, its external inputs wired by
  port name and type. Stored paths are absolute and normalised. The staging area under the
  application's home is a map from directory to its entries (a build that fails gives the error only:
  what it left of the staging area the next build replaces); \<open>resolve\<close> is the file system's
  resolution of symbolic links and \<open>digest\<close> the first 16 hex digits of SHA-1.
\<close>

datatype build_error =
    No_Sessions
  | Session_Missing int
  | No_Lights "int list"
  | Spans_Folders int nat
  | Too_Few_Frames "int list" nat
  | Incompatible "string list"
  | Unknown_Node string
  | Calibration_Missing string
  | Bundle_Failed match_error
  | Cannot_Stage string

definition MIN_FRAMES_FOR_STACK :: nat where
  "MIN_FRAMES_FOR_STACK = 3"

section \<open>Lookups\<close>

definition is_light :: "frame \<Rightarrow> bool" where
  "is_light f = (fr_image_type f = Some ''LIGHT'')"

definition session_lights :: "catalog \<Rightarrow> int \<Rightarrow> frame list" where
  "session_lights ct sid = filter (\<lambda>f. (sid, fr_id f) \<in> set (ct_links ct) \<and> is_light f) (ct_frames ct)"

definition session_lights_folder :: "catalog \<Rightarrow> int \<Rightarrow> build_error + string" where
  "session_lights_folder ct sid =
     (case session_lights ct sid of
        [] \<Rightarrow> Inl (No_Lights [sid])
      | fs \<Rightarrow> (case remdups (map (parent_of \<circ> fr_path) fs) of
                [d] \<Rightarrow> Inr d | ds \<Rightarrow> Inl (Spans_Folders sid (length ds))))"

definition matched_master_path :: "cal_table \<Rightarrow> master list \<Rightarrow> int \<Rightarrow> string \<Rightarrow> string option" where
  "matched_master_path table masters sid kind =
     Option.bind (Option.bind (map_of table (sid, kind)) cm_master_id)
       (\<lambda>mid. map_option ma_path (find (\<lambda>m. ma_id m = mid) masters))"

definition load_sessions :: "catalog \<Rightarrow> int list \<Rightarrow> build_error + session_row list" where
  "load_sessions ct sids =
     fold_res (\<lambda>sid out. case find (\<lambda>s. se_id s = sid) (ct_sessions ct) of
         None \<Rightarrow> Inl (Session_Missing sid) | Some s \<Rightarrow> Inr (out @ [s])) sids []"

definition COMPAT_FIELDS :: "(string \<times> (session_row \<Rightarrow> string option + int option)) list" where
  "COMPAT_FIELDS =
     [(''instrument'', \<lambda>s. Inl (se_instrument s)), (''camera'', \<lambda>s. Inl (se_camera s)),
      (''filter'', \<lambda>s. Inl (se_filter s)), (''gain'', \<lambda>s. Inr (se_gain s)), (''binning'', \<lambda>s. Inr (se_binning s))]"

definition assert_compatible :: "session_row list \<Rightarrow> build_error + unit" where
  "assert_compatible sessions =
     (let conflicts = filter (\<lambda>(name, field). list_ex (\<lambda>s. field s \<noteq> field (hd sessions)) (tl sessions)) COMPAT_FIELDS
      in if conflicts = [] then Inr () else Inl (Incompatible (map fst conflicts)))"

section \<open>Staging\<close>

datatype stage_entry = Symlink string | Plain_File | Directory

type_synonym stages = "(string, (string, stage_entry) dict) dict"

definition stage_dir :: "(string \<Rightarrow> string) \<Rightarrow> string \<Rightarrow> int list \<Rightarrow> string" where
  "stage_dir digest home sids =
     home @ ''/lights_stage/'' @ digest (join '','' (map show_int (sort sids)))"

text \<open>The joined rows, ordered by session and path.\<close>

definition stage_rows :: "catalog \<Rightarrow> int list \<Rightarrow> (int \<times> string) list" where
  "stage_rows ct sids =
     sort (concat (map (\<lambda>(sid, fid). if sid \<in> set sids
        then map (\<lambda>f. (sid, fr_path f)) (filter (\<lambda>f. fr_id f = fid \<and> is_light f) (ct_frames ct)) else []) (ct_links ct)))"

definition link_name :: "(string \<Rightarrow> string) \<Rightarrow> int \<times> string \<Rightarrow> string" where
  "link_name resolve = (\<lambda>(sid, path). ''s'' @ show_int sid @ ''__'' @ name_of (resolve path))"

definition desired_links :: "(string \<Rightarrow> string) \<Rightarrow> (int \<times> string) list \<Rightarrow> (string, string) dict" where
  "desired_links resolve rows = fold (\<lambda>r out. dput (link_name resolve r) (resolve (snd r)) out) rows []"

text \<open>Unlinking a directory fails and is suppressed.\<close>

definition drop_stale :: "(string, string) dict \<Rightarrow> (string, stage_entry) dict \<Rightarrow> (string, stage_entry) dict" where
  "drop_stale desired entries = filter (\<lambda>(name, e). has_key desired name \<or> e = Directory) entries"

definition put_link :: "string \<times> string \<Rightarrow> (string, stage_entry) dict \<Rightarrow> build_error + (string, stage_entry) dict" where
  "put_link = (\<lambda>(name, src) entries.
     case map_of entries name of
       None \<Rightarrow> Inr (dput name (Symlink src) entries)
     | Some (Symlink target) \<Rightarrow>
         if target = src then Inr entries else Inr (dput name (Symlink src) (dpop name entries))
     | Some Plain_File \<Rightarrow> Inr (dput name (Symlink src) (dpop name entries))
     | Some Directory \<Rightarrow> Inl (Cannot_Stage name))"

definition stage_multi_session_lights ::
  "(string \<Rightarrow> string) \<Rightarrow> (string \<Rightarrow> string) \<Rightarrow> string \<Rightarrow> catalog \<Rightarrow> int list \<Rightarrow> stages \<Rightarrow> build_error + string \<times> stages" where
  "stage_multi_session_lights resolve digest home ct sids fs =
     (let dir = stage_dir digest home sids;
          entries = (case map_of fs dir of None \<Rightarrow> [] | Some es \<Rightarrow> es);
          rows = stage_rows ct sids
      in if rows = [] then Inl (No_Lights (sort sids))
         else let desired = desired_links resolve rows
           in rbind (fold_res put_link desired (drop_stale desired entries)) (\<lambda>entries'.
                Inr (dir, dput dir entries' fs)))"

section \<open>Dark metadata\<close>

definition opt_json :: "('a \<Rightarrow> json) \<Rightarrow> 'a option \<Rightarrow> json" where
  "opt_json f v = (case v of None \<Rightarrow> JNull | Some x \<Rightarrow> f x)"

definition dark_bin_meta :: "string \<Rightarrow> rat option \<Rightarrow> int option \<Rightarrow> rat option \<Rightarrow> json" where
  "dark_bin_meta path exptime gain ccd_temp =
     JDict [(''path'', JStr path), (''exptime'', opt_json (JFloat \<circ> Fin) exptime), (''gain'', opt_json JInt gain),
            (''ccd_temp'', opt_json (JFloat \<circ> Fin) ccd_temp)]"

definition master_meta :: "master \<Rightarrow> json" where
  "master_meta m = dark_bin_meta (ma_path m) (ma_exptime m) (ma_gain m) (ma_ccd_temp m)"

definition fetch_dark_meta :: "master list \<Rightarrow> string list \<Rightarrow> json list" where
  "fetch_dark_meta masters paths =
     map (\<lambda>p. case find (\<lambda>m. ma_path m = p) masters of
            None \<Rightarrow> dark_bin_meta p None None None | Some m \<Rightarrow> master_meta m) paths"

definition unique_paths :: "bundle_dark_bin list \<Rightarrow> string list" where
  "unique_paths bins =
     fold (\<lambda>b out. case bd_master_path b of None \<Rightarrow> out | Some p \<Rightarrow> if p \<in> set out then out else out @ [p]) bins []"

section \<open>Wiring\<close>

record build_env =
  be_catalog :: catalog
  be_masters :: "master list"
  be_matches :: cal_table
  be_session_ids :: "int list"
  be_lights_dir :: string
  be_calibration :: calibration_spec

type_synonym wiring = "(string, node_input) dict \<times> overrides"

definition ext_ref :: "string \<Rightarrow> string \<Rightarrow> port_type \<Rightarrow> ref" where
  "ext_ref port path t = \<lparr>r_node_hash = ''ext'', r_port = port, r_path = path, r_type = t, r_display_ready = False\<rparr>"

definition explicit_master :: "build_env \<Rightarrow> string \<Rightarrow> int option" where
  "explicit_master be port =
     (if cal_mode (be_calibration be) = Explicit then map_of (cal_master_ids (be_calibration be)) port else None)"

definition missing_or_skip :: "'w node_cls \<Rightarrow> string \<Rightarrow> wiring \<Rightarrow> build_error + wiring" where
  "missing_or_skip cls port w = (if port \<in> set (cls_optional_inputs cls) then Inr w else Inl (Calibration_Missing port))"

text \<open>Convention 2: a list of master darks, one per bin, with their metadata in the node's overrides.\<close>

definition add_darks :: "string \<Rightarrow> string \<Rightarrow> string list \<Rightarrow> json list \<Rightarrow> wiring \<Rightarrow> wiring" where
  "add_darks nid port paths meta = (\<lambda>(inputs, ov).
     (dput (nid @ ''.'' @ port) (Many (map (\<lambda>p. ext_ref port p MASTER_FITS) paths)) inputs,
      if meta = [] then ov
      else dput nid (dput ''dark_bins'' (JList meta) (case map_of ov nid of None \<Rightarrow> [] | Some p \<Rightarrow> p)) ov))"

definition wire_darks :: "build_env \<Rightarrow> string \<Rightarrow> 'w node_cls \<Rightarrow> string \<Rightarrow> wiring \<Rightarrow> build_error + wiring" where
  "wire_darks be nid cls port w =
     (if cal_mode (be_calibration be) = No_Calibration then missing_or_skip cls port w
      else case explicit_master be port of
        Some mid \<Rightarrow>
          (case find (\<lambda>m. ma_id m = mid) (be_masters be) of
             None \<Rightarrow> Inl (Calibration_Missing port)
           | Some m \<Rightarrow> Inr (add_darks nid port [ma_path m] [master_meta m] w))
      | None \<Rightarrow>
          (case match_bundle_darks (be_catalog be) (be_masters be) (be_session_ids be) DARK_TEMP_BIN_WIDTH_C
                  DARK_TEMP_TOLERANCE_C of
             Inl e \<Rightarrow> Inl (Bundle_Failed e)
           | Inr bins \<Rightarrow>
               let paths = unique_paths bins
               in if paths = [] then missing_or_skip cls port w
                  else Inr (add_darks nid port paths (fetch_dark_meta (be_masters be) paths) w)))"

text \<open>Convention 3: one master per kind.\<close>

definition wire_master :: "build_env \<Rightarrow> string \<Rightarrow> 'w node_cls \<Rightarrow> string \<Rightarrow> wiring \<Rightarrow> build_error + wiring" where
  "wire_master be nid cls port = (\<lambda>(inputs, ov).
     let use = (\<lambda>path. Inr (dput (nid @ ''.'' @ port) (One (ext_ref port path MASTER_FITS)) inputs, ov))
     in if cal_mode (be_calibration be) = No_Calibration then missing_or_skip cls port (inputs, ov)
        else case explicit_master be port of
          Some mid \<Rightarrow>
            (case find (\<lambda>m. ma_id m = mid) (be_masters be) of
               None \<Rightarrow> Inl (Calibration_Missing port) | Some m \<Rightarrow> use (ma_path m))
        | None \<Rightarrow>
            (case matched_master_path (be_matches be) (be_masters be) (hd (be_session_ids be)) port of
               None \<Rightarrow> missing_or_skip cls port (inputs, ov) | Some path \<Rightarrow> use path))"

definition wire_port ::
  "build_env \<Rightarrow> node_spec \<Rightarrow> 'w node_cls \<Rightarrow> string \<times> port_type \<Rightarrow> wiring \<Rightarrow> build_error + wiring" where
  "wire_port be node cls = (\<lambda>(port, t) w.
     if has_key (n_inputs node) port then Inr w
     else if t = SEQUENCE_FITS \<and> port = ''lights'' then
       Inr (dput (n_id node @ ''.'' @ port) (One (ext_ref port (be_lights_dir be) SEQUENCE_FITS)) (fst w), snd w)
     else if t = MASTER_FITS_LIST \<and> port = ''dark'' then wire_darks be (n_id node) cls port w
     else if t = MASTER_FITS \<and> port \<in> {''dark'', ''flat'', ''bias''} then wire_master be (n_id node) cls port w
     else Inr w)"

definition wire_node :: "'w registry \<Rightarrow> build_env \<Rightarrow> node_spec \<Rightarrow> wiring \<Rightarrow> build_error + wiring" where
  "wire_node reg be node w =
     (case registry_lookup reg (n_kind node) (n_variant node) of
        None \<Rightarrow> Inl (Unknown_Node (n_kind node))
      | Some cls \<Rightarrow> fold_res (wire_port be node cls) (cls_inputs cls) w)"

section \<open>The builder\<close>

definition default_calibration :: calibration_spec where
  "default_calibration = \<lparr>cal_mode = Auto, cal_master_ids = []\<rparr>"

definition build_from_sessions ::
  "'w registry \<Rightarrow> (string \<Rightarrow> string) \<Rightarrow> (string \<Rightarrow> string) \<Rightarrow> string \<Rightarrow> catalog \<Rightarrow> master list \<Rightarrow> cal_table
   \<Rightarrow> int list \<Rightarrow> template \<Rightarrow> calibration_spec option \<Rightarrow> stages \<Rightarrow> build_error + job \<times> stages" where
  "build_from_sessions reg resolve digest home ct masters matches session_ids t calibration fs =
     (if session_ids = [] then Inl No_Sessions
      else
        let sids = sort (remdups session_ids);
            cal = (case calibration of None \<Rightarrow> default_calibration | Some c \<Rightarrow> c)
        in rbind (load_sessions ct sids) (\<lambda>sessions.
           rbind (if 1 < length sessions then assert_compatible sessions else Inr ()) (\<lambda>_.
           let lights = sum_list (map (length \<circ> session_lights ct) sids)
           in if lights < MIN_FRAMES_FOR_STACK then Inl (Too_Few_Frames sids lights)
              else rbind (case sids of
                     [sid] \<Rightarrow> rbind (session_lights_folder ct sid) (\<lambda>d. Inr (d, fs))
                   | _ \<Rightarrow> stage_multi_session_lights resolve digest home ct sids fs) (\<lambda>(lights_dir, fs').
                let be = \<lparr>be_catalog = ct, be_masters = masters, be_matches = matches, be_session_ids = sids,
                          be_lights_dir = lights_dir, be_calibration = cal\<rparr>
                in rbind (fold_res (wire_node reg be) (t_nodes t) ([], [])) (\<lambda>(inputs, ov).
                   Inr (\<lparr>j_template_id = t_id t, j_template_version = t_version t, j_profile_id = None,
                         j_target_id = None, j_session_ids = map show_int sids, j_calibration = cal,
                         j_param_overrides = ov, j_inputs = inputs, j_preview_only = False\<rparr>, fs'))))))"

definition build_from_session ::
  "'w registry \<Rightarrow> (string \<Rightarrow> string) \<Rightarrow> (string \<Rightarrow> string) \<Rightarrow> string \<Rightarrow> catalog \<Rightarrow> master list \<Rightarrow> cal_table
   \<Rightarrow> int \<Rightarrow> template \<Rightarrow> calibration_spec option \<Rightarrow> stages \<Rightarrow> build_error + job \<times> stages" where
  "build_from_session reg resolve digest home ct masters matches session_id t calibration fs =
     build_from_sessions reg resolve digest home ct masters matches [session_id] t calibration fs"

section \<open>Loops that reach a goal\<close>

lemma fold_res_reaches:
  assumes "fold_res f xs s = Inr t" "x \<in> set xs"
    and "\<And>s s'. f x s = Inr s' \<Longrightarrow> Q s'"
    and "\<And>y s s'. Q s \<Longrightarrow> f y s = Inr s' \<Longrightarrow> Q s'"
  shows "Q t"
  using assms(1,2)
proof (induction xs arbitrary: s)
  case (Cons y ys)
  from Cons.prems(1) obtain s' where s': "f y s = Inr s'" "fold_res f ys s' = Inr t"
    by (auto simp: rbind_eq_Inr)
  show ?case
  proof (cases "x \<in> set ys")
    case True
    then show ?thesis by (rule Cons.IH [OF s'(2)])
  next
    case False
    then have "Q s'" using Cons.prems(2) s'(1) assms(3) by simp
    then show ?thesis by (rule fold_res_invariant [OF s'(2)]) (rule assms(4))
  qed
qed simp

section \<open>What a wired port is\<close>

text \<open>The ports the builder knows and the kinds of ref each takes.\<close>

definition known_port :: "string \<Rightarrow> port_type \<Rightarrow> bool" where
  "known_port port t =
     (t = SEQUENCE_FITS \<and> port = ''lights'' \<or> t = MASTER_FITS_LIST \<and> port = ''dark''
      \<or> t = MASTER_FITS \<and> port \<in> {''dark'', ''flat'', ''bias''})"

definition ext_ok :: "string \<Rightarrow> ref \<Rightarrow> bool" where
  "ext_ok port r = (r_node_hash r = ''ext'' \<and> r_port r = port)"

fun input_ok :: "string \<Rightarrow> port_type \<Rightarrow> node_input \<Rightarrow> bool" where
  "input_ok port t (One r) = (ext_ok port r \<and> r_type r = t \<and> t \<noteq> MASTER_FITS_LIST)"
| "input_ok port t (Many rs) =
     (t = MASTER_FITS_LIST \<and> rs \<noteq> [] \<and> (\<forall>r \<in> set rs. ext_ok port r \<and> r_type r = MASTER_FITS))"

definition meta_for :: "ref \<Rightarrow> json \<Rightarrow> bool" where
  "meta_for r m = (\<exists>rest. m = JDict ((''path'', JStr (r_path r)) # rest))"

lemma ext_ref_simps [simp]: "ext_ok port (ext_ref port p t)" "r_type (ext_ref port p t) = t" "r_path (ext_ref port p t) = p"
  by (simp_all add: ext_ok_def ext_ref_def)

text \<open>What one port does to the inputs: nothing, or one new entry of the port's type.\<close>

definition wires :: "node_spec \<Rightarrow> string \<times> port_type \<Rightarrow> wiring \<Rightarrow> wiring \<Rightarrow> bool" where
  "wires node pt w w' =
     (\<exists>inp. \<not> has_key (n_inputs node) (fst pt) \<and> known_port (fst pt) (snd pt) \<and> input_ok (fst pt) (snd pt) inp
        \<and> fst w' = dput (n_id node @ ''.'' @ fst pt) inp (fst w))"

lemma wires_add_darks: "paths \<noteq> [] \<Longrightarrow> \<not> has_key (n_inputs node) ''dark''
  \<Longrightarrow> wires node (''dark'', MASTER_FITS_LIST) w (add_darks (n_id node) ''dark'' paths meta w)"
  unfolding wires_def
  by (rule exI [of _ "Many (map (\<lambda>p. ext_ref ''dark'' p MASTER_FITS) paths)"])
     (auto simp: add_darks_def known_port_def split: prod.splits)

lemma wires_one:
  assumes "\<not> has_key (n_inputs node) port" "known_port port t" "t \<noteq> MASTER_FITS_LIST"
    and "fst w' = dput (n_id node @ ''.'' @ port) (One (ext_ref port path t)) (fst w)"
  shows "wires node (port, t) w w'"
  unfolding wires_def by (rule exI [of _ "One (ext_ref port path t)"]) (use assms in simp)

lemma missing_or_skip_Inr: "missing_or_skip cls port w = Inr w' \<longleftrightarrow> port \<in> set (cls_optional_inputs cls) \<and> w' = w"
  by (auto simp: missing_or_skip_def)

lemma wire_darks_cases:
  assumes "wire_darks be nid cls port w = Inr w'"
  shows "port \<in> set (cls_optional_inputs cls) \<and> w' = w
    \<or> (\<exists>paths meta. paths \<noteq> [] \<and> w' = add_darks nid port paths meta w
         \<and> list_all2 (\<lambda>p m. \<exists>rest. m = JDict ((''path'', JStr p) # rest)) paths meta)"
proof -
  have one: "list_all2 (\<lambda>p m. \<exists>rest. m = JDict ((''path'', JStr p) # rest)) [ma_path m] [master_meta m]" for m
    by (simp add: master_meta_def dark_bin_meta_def)
  have many: "list_all2 (\<lambda>p m. \<exists>rest. m = JDict ((''path'', JStr p) # rest)) ps (fetch_dark_meta masters ps)" for masters ps
    by (induction ps) (auto simp: fetch_dark_meta_def dark_bin_meta_def master_meta_def find_Some_iff split: option.splits)
  show ?thesis
    using assms one many
    by (auto simp: wire_darks_def missing_or_skip_Inr Let_def split: if_splits option.splits sum.splits)
      blast+
qed

lemma wire_master_cases:
  assumes "wire_master be nid cls port w = Inr w'"
  shows "port \<in> set (cls_optional_inputs cls) \<and> w' = w
    \<or> (\<exists>path. w' = (dput (nid @ ''.'' @ port) (One (ext_ref port path MASTER_FITS)) (fst w), snd w))"
  using assms
  by (cases w) (auto simp: wire_master_def missing_or_skip_Inr Let_def split: if_splits option.splits)

lemma wire_port_cases:
  assumes "wire_port be node cls pt w = Inr w'"
  shows "w' = w \<and> (has_key (n_inputs node) (fst pt) \<or> \<not> known_port (fst pt) (snd pt)
            \<or> snd pt \<noteq> SEQUENCE_FITS \<and> fst pt \<in> set (cls_optional_inputs cls))
    \<or> wires node pt w w'"
proof -
  obtain port t where pt: "pt = (port, t)" by (cases pt)
  show ?thesis
  proof (cases "has_key (n_inputs node) port \<or> \<not> known_port port t")
    case True
    then show ?thesis using assms pt by (auto simp: wire_port_def known_port_def split: if_splits)
  next
    case False
    then consider "t = SEQUENCE_FITS" "port = ''lights''" | "t = MASTER_FITS_LIST" "port = ''dark''"
      | "t = MASTER_FITS" "port \<in> {''dark'', ''flat'', ''bias''}"
      by (auto simp: known_port_def)
    then show ?thesis
    proof cases
      case 1
      have "wires node (port, t) w w'"
        by (rule wires_one [where path = "be_lights_dir be"]) (use assms False pt 1 in \<open>auto simp: wire_port_def\<close>)
      then show ?thesis by (simp add: pt)
    next
      case 2
      then have "wire_darks be (n_id node) cls port w = Inr w'" using assms False pt by (simp add: wire_port_def)
      from wire_darks_cases [OF this] show ?thesis
      proof
        assume "\<exists>paths meta. paths \<noteq> [] \<and> w' = add_darks (n_id node) port paths meta w
          \<and> list_all2 (\<lambda>p m. \<exists>rest. m = JDict ((''path'', JStr p) # rest)) paths meta"
        then obtain paths meta where "paths \<noteq> []" "w' = add_darks (n_id node) ''dark'' paths meta w"
          using 2 by blast
        then have "wires node (port, t) w w'" using wires_add_darks False 2 by blast
        then show ?thesis by (simp add: pt)
      qed (use 2 pt in auto)
    next
      case 3
      then have "wire_master be (n_id node) cls port w = Inr w'" using assms False pt by (auto simp: wire_port_def)
      from wire_master_cases [OF this] show ?thesis
      proof
        assume "\<exists>path. w' = (dput (n_id node @ ''.'' @ port) (One (ext_ref port path MASTER_FITS)) (fst w), snd w)"
        then obtain path where "fst w' = dput (n_id node @ ''.'' @ port) (One (ext_ref port path t)) (fst w)"
          using 3 by auto
        then have "wires node (port, t) w w'" by (rule wires_one [rotated 3]) (use False 3 in auto)
        then show ?thesis by (simp add: pt)
      qed (use 3 pt in auto)
    qed
  qed
qed

section \<open>The wired job\<close>

lemma build_from_sessions_parts:
  assumes "build_from_sessions reg resolve digest home ct masters matches session_ids t calibration fs = Inr (job, fs')"
  obtains be sessions where
    "load_sessions ct (sort (remdups session_ids)) = Inr sessions"
    "1 < length sessions \<longrightarrow> assert_compatible sessions = Inr ()"
    "MIN_FRAMES_FOR_STACK \<le> sum_list (map (length \<circ> session_lights ct) (sort (remdups session_ids)))"
    "fold_res (wire_node reg be) (t_nodes t) ([], []) = Inr (j_inputs job, j_param_overrides job)"
  using assms
  by (auto simp: build_from_sessions_def Let_def rbind_eq_Inr split: if_splits list.splits)

lemma wire_node_Inr:
  assumes "wire_node reg be node w = Inr w'"
  obtains cls where "registry_lookup reg (n_kind node) (n_variant node) = Some cls"
    "fold_res (wire_port be node cls) (cls_inputs cls) w = Inr w'"
  using assms by (auto simp: wire_node_def split: option.splits)

lemma wire_port_keeps: "wire_port be node cls pt w = Inr w' \<Longrightarrow> has_key (fst w) key \<Longrightarrow> has_key (fst w') key"
  using wire_port_cases [of be node cls pt w w'] by (auto simp: wires_def)

lemma wire_node_keeps: "wire_node reg be node w = Inr w' \<Longrightarrow> has_key (fst w) key \<Longrightarrow> has_key (fst w') key"
  by (erule wire_node_Inr, erule fold_res_invariant [where P = "\<lambda>w. has_key (fst w) key"])
     (auto intro: wire_port_keeps)

lemma set_dput: "(k', v') \<in> set (dput k v d) \<Longrightarrow> k' = k \<and> v' = v \<or> (k', v') \<in> set d"
  by (induction d) (auto split: if_splits)

text \<open>The ports an input of the job may stand for.\<close>

definition declares :: "'w registry \<Rightarrow> template \<Rightarrow> node_spec \<Rightarrow> 'w node_cls \<Rightarrow> string \<Rightarrow> port_type \<Rightarrow> bool" where
  "declares reg t node cls port pt =
     (node \<in> set (t_nodes t) \<and> registry_lookup reg (n_kind node) (n_variant node) = Some cls
      \<and> (port, pt) \<in> set (cls_inputs cls) \<and> \<not> has_key (n_inputs node) port \<and> known_port port pt)"

definition inputs_typed :: "'w registry \<Rightarrow> template \<Rightarrow> wiring \<Rightarrow> bool" where
  "inputs_typed reg t w =
     (\<forall>(key, inp) \<in> set (fst w). \<exists>node cls port pt.
        declares reg t node cls port pt \<and> key = n_id node @ ''.'' @ port \<and> input_ok port pt inp)"

lemma wire_port_typed:
  assumes "inputs_typed reg t w" "wire_port be node cls pt w = Inr w'" "pt \<in> set (cls_inputs cls)"
    and "node \<in> set (t_nodes t)" "registry_lookup reg (n_kind node) (n_variant node) = Some cls"
  shows "inputs_typed reg t w'"
proof -
  obtain port ty where p: "pt = (port, ty)" by (cases pt)
  from wire_port_cases [OF assms(2)] show ?thesis
  proof
    assume "wires node pt w w'"
    then obtain inp where inp: "\<not> has_key (n_inputs node) port" "known_port port ty" "input_ok port ty inp"
        "fst w' = dput (n_id node @ ''.'' @ port) inp (fst w)"
      by (auto simp: wires_def p)
    have d: "declares reg t node cls port ty" using assms(3-5) inp p by (simp add: declares_def)
    have "\<exists>node cls port pt. declares reg t node cls port pt \<and> key = n_id node @ ''.'' @ port \<and> input_ok port pt i"
      if "(key, i) \<in> set (fst w')" for key i
    proof -
      from that inp(4) have "key = n_id node @ ''.'' @ port \<and> i = inp \<or> (key, i) \<in> set (fst w)"
        using set_dput by metis
      then show ?thesis using d inp(3) assms(1) unfolding inputs_typed_def by blast
    qed
    then show ?thesis unfolding inputs_typed_def by blast
  qed (use assms(1) in simp)
qed

lemma wire_node_typed:
  assumes "inputs_typed reg t w" "wire_node reg be node w = Inr w'" "node \<in> set (t_nodes t)"
  shows "inputs_typed reg t w'"
proof -
  from assms(2) obtain cls where c: "registry_lookup reg (n_kind node) (n_variant node) = Some cls"
      "fold_res (wire_port be node cls) (cls_inputs cls) w = Inr w'"
    by (rule wire_node_Inr)
  show ?thesis by (rule fold_res_invariant [where P = "inputs_typed reg t", OF c(2) assms(1)]) (use wire_port_typed assms(3) c(1) in blast)
qed

text \<open>
  C37: every external input of a built job stands for a port that a node of the template declares and no edge
  of the template feeds, and carries external refs of that port's type: one ref of the port's own
  type, or for a master list a non-empty list of master refs.
\<close>

theorem built_inputs_typed:
  assumes "build_from_sessions reg resolve digest home ct masters matches session_ids t calibration fs = Inr (job, fs')"
    and "(key, inp) \<in> set (j_inputs job)"
  shows "\<exists>node cls port pt. node \<in> set (t_nodes t)
    \<and> registry_lookup reg (n_kind node) (n_variant node) = Some cls \<and> (port, pt) \<in> set (cls_inputs cls)
    \<and> \<not> has_key (n_inputs node) port \<and> key = n_id node @ ''.'' @ port \<and> input_ok port pt inp"
proof -
  from assms(1) obtain be
    where be: "fold_res (wire_node reg be) (t_nodes t) ([], []) = Inr (j_inputs job, j_param_overrides job)"
    by (rule build_from_sessions_parts)
  have "inputs_typed reg t (j_inputs job, j_param_overrides job)"
    by (rule fold_res_invariant [where P = "inputs_typed reg t", OF be])
       (simp add: inputs_typed_def, use wire_node_typed in blast)
  then show ?thesis using assms(2) by (fastforce simp: inputs_typed_def declares_def)
qed

lemma wire_node_wires:
  assumes "wire_node reg be node w = Inr w'" "registry_lookup reg (n_kind node) (n_variant node) = Some cls"
    and "(port, pt) \<in> set (cls_inputs cls)" "\<not> has_key (n_inputs node) port" "known_port port pt"
    and "pt = SEQUENCE_FITS \<or> port \<notin> set (cls_optional_inputs cls)"
  shows "has_key (fst w') (n_id node @ ''.'' @ port)"
proof -
  from assms(1,2) have f: "fold_res (wire_port be node cls) (cls_inputs cls) w = Inr w'"
    by (auto elim: wire_node_Inr)
  show ?thesis
  proof (rule fold_res_reaches [OF f assms(3), where Q = "\<lambda>w. has_key (fst w) (n_id node @ ''.'' @ port)"])
    fix s s' assume "wire_port be node cls (port, pt) s = Inr s'"
    from wire_port_cases [OF this] have "wires node (port, pt) s s'" using assms(4-6) by auto
    then show "has_key (fst s') (n_id node @ ''.'' @ port)" by (auto simp: wires_def)
  qed (rule wire_port_keeps)
qed

text \<open>
  C18: a job is never built with a port the builder knows left open: the lights of every node and each
  calibration master that its node does not declare optional are wired, so a missing master stops the
  build instead of producing a stack without calibration.
\<close>

theorem required_inputs_wired:
  assumes "build_from_sessions reg resolve digest home ct masters matches session_ids t calibration fs = Inr (job, fs')"
    and "node \<in> set (t_nodes t)" "registry_lookup reg (n_kind node) (n_variant node) = Some cls"
    and "(port, pt) \<in> set (cls_inputs cls)" "\<not> has_key (n_inputs node) port" "known_port port pt"
    and "pt = SEQUENCE_FITS \<or> port \<notin> set (cls_optional_inputs cls)"
  shows "has_key (j_inputs job) (n_id node @ ''.'' @ port)"
proof -
  from assms(1) obtain be
    where be: "fold_res (wire_node reg be) (t_nodes t) ([], []) = Inr (j_inputs job, j_param_overrides job)"
    by (rule build_from_sessions_parts)
  have "has_key (fst (j_inputs job, j_param_overrides job)) (n_id node @ ''.'' @ port)"
    by (rule fold_res_reaches [OF be assms(2), where Q = "\<lambda>w. has_key (fst w) (n_id node @ ''.'' @ port)"])
       (use wire_node_wires assms(3-7) in blast, rule wire_node_keeps)
  then show ?thesis by simp
qed

lemma wire_port_shape:
  assumes "wire_port be node cls pt w = Inr w'"
  shows "w' = w \<or> (\<exists>key r. w' = (dput key (One r) (fst w), snd w))
    \<or> (\<exists>paths meta. paths \<noteq> [] \<and> w' = add_darks (n_id node) ''dark'' paths meta w
         \<and> list_all2 (\<lambda>p m. \<exists>rest. m = JDict ((''path'', JStr p) # rest)) paths meta)"
proof -
  obtain port t where pt: "pt = (port, t)" by (cases pt)
  let ?lights = "(dput (n_id node @ ''.'' @ port) (One (ext_ref port (be_lights_dir be) SEQUENCE_FITS)) (fst w), snd w)"
  have "wire_port be node cls pt w \<in> {Inr w, Inr ?lights, wire_master be (n_id node) cls port w}
      \<or> port = ''dark'' \<and> wire_port be node cls pt w = wire_darks be (n_id node) cls port w"
    by (simp add: wire_port_def pt)
  then consider "w' = w" | "w' = ?lights"
    | "wire_darks be (n_id node) cls port w = Inr w'" "port = ''dark''"
    | "wire_master be (n_id node) cls port w = Inr w'"
    using assms by force
  then show ?thesis
  proof cases
    case 3
    from wire_darks_cases [OF 3(1)] show ?thesis unfolding 3(2) by blast
  next
    case 4
    from wire_master_cases [OF 4] show ?thesis by blast
  qed blast+
qed

definition darks_aligned :: "wiring \<Rightarrow> bool" where
  "darks_aligned w =
     (\<forall>nid rs. map_of (fst w) (nid @ ''.dark'') = Some (Many rs) \<longrightarrow>
        (\<exists>ps metas. map_of (snd w) nid = Some ps \<and> map_of ps ''dark_bins'' = Some (JList metas)
           \<and> list_all2 meta_for rs metas))"

lemma meta_for_refs:
  "list_all2 (\<lambda>p m. \<exists>rest. m = JDict ((''path'', JStr p) # rest)) paths meta
   \<Longrightarrow> list_all2 meta_for (map (\<lambda>p. ext_ref port p ty) paths) meta"
  by (induction rule: list_all2_induct) (auto simp: meta_for_def)

lemma add_darks_aligned:
  assumes "darks_aligned w" "paths \<noteq> []"
    and "list_all2 (\<lambda>p m. \<exists>rest. m = JDict ((''path'', JStr p) # rest)) paths meta"
  shows "darks_aligned (add_darks nid ''dark'' paths meta w)"
  unfolding darks_aligned_def
proof (intro allI impI)
  fix nid' rs
  assume a: "map_of (fst (add_darks nid ''dark'' paths meta w)) (nid' @ ''.dark'') = Some (Many rs)"
  obtain inputs ov where w: "w = (inputs, ov)" by (cases w)
  have meta: "meta \<noteq> []" using assms(2,3) by auto
  show "\<exists>ps metas. map_of (snd (add_darks nid ''dark'' paths meta w)) nid' = Some ps
      \<and> map_of ps ''dark_bins'' = Some (JList metas) \<and> list_all2 meta_for rs metas"
  proof (cases "nid' = nid")
    case True
    then have "rs = map (\<lambda>p. ext_ref ''dark'' p MASTER_FITS) paths" using a by (simp add: add_darks_def w)
    then show ?thesis using meta_for_refs [OF assms(3)] True meta by (simp add: add_darks_def w)
  next
    case False
    then have "map_of inputs (nid' @ ''.dark'') = Some (Many rs)" using a by (simp add: add_darks_def w)
    with assms(1) obtain ps metas where "map_of ov nid' = Some ps" "map_of ps ''dark_bins'' = Some (JList metas)"
        "list_all2 meta_for rs metas"
      unfolding darks_aligned_def w fst_conv snd_conv by blast
    then show ?thesis using False meta by (simp add: add_darks_def w)
  qed
qed

lemma one_aligned: "darks_aligned w \<Longrightarrow> darks_aligned (dput key (One r) (fst w), snd w)"
  by (auto simp: darks_aligned_def)

lemma wire_port_aligned: "wire_port be node cls pt w = Inr w' \<Longrightarrow> darks_aligned w \<Longrightarrow> darks_aligned w'"
  using wire_port_shape [of be node cls pt w w'] add_darks_aligned one_aligned by blast

lemma wire_node_aligned: "wire_node reg be node w = Inr w' \<Longrightarrow> darks_aligned w \<Longrightarrow> darks_aligned w'"
  by (erule wire_node_Inr, erule fold_res_invariant [where P = darks_aligned]) (auto intro: wire_port_aligned)

lemma built_job_aligned:
  assumes "build_from_sessions reg resolve digest home ct masters matches session_ids t calibration fs = Inr (job, fs')"
  shows "darks_aligned (j_inputs job, j_param_overrides job)"
proof -
  from assms obtain be
    where be: "fold_res (wire_node reg be) (t_nodes t) ([], []) = Inr (j_inputs job, j_param_overrides job)"
    by (rule build_from_sessions_parts)
  show ?thesis
    by (rule fold_res_invariant [where P = darks_aligned, OF be])
       (simp add: darks_aligned_def, use wire_node_aligned in blast)
qed

text \<open>
  a node that got a list of master darks has in its overrides the metadata of exactly these darks, in
  the same order, so that the calibration step can pair them by index.
\<close>

theorem dark_bins_align:
  assumes "build_from_sessions reg resolve digest home ct masters matches session_ids t calibration fs = Inr (job, fs')"
    and "map_of (j_inputs job) (nid @ ''.dark'') = Some (Many rs)"
  shows "\<exists>ps metas. map_of (j_param_overrides job) nid = Some ps \<and> map_of ps ''dark_bins'' = Some (JList metas)
    \<and> list_all2 (\<lambda>r m. \<exists>rest. m = JDict ((''path'', JStr (r_path r)) # rest)) rs metas"
  using built_job_aligned [OF assms(1)] assms(2) by (auto simp: darks_aligned_def meta_for_def [abs_def])

section \<open>Staging\<close>

lemma map_of_desired_links:
  "map_of (desired_links resolve rows) name
    = map_option (\<lambda>r. resolve (snd r)) (find (\<lambda>r. link_name resolve r = name) (rev rows))"
proof (induction rows rule: rev_induct)
  case (snoc r rows)
  then show ?case by (simp add: desired_links_def)
qed (simp add: desired_links_def)

lemma wf_desired_links: "wf_dict (desired_links resolve rows)"
proof (induction rows rule: rev_induct)
  case (snoc r rows)
  then show ?case by (simp add: desired_links_def)
qed (simp add: desired_links_def)

lemma put_link_entry:
  assumes "put_link (name, src) entries = Inr entries'"
  shows "map_of entries' name = Some (Symlink src)" "n \<noteq> name \<Longrightarrow> map_of entries' n = map_of entries n"
  using assms by (auto simp: put_link_def split: option.splits stage_entry.splits if_splits)

lemma put_links_entry:
  assumes "fold_res put_link desired entries = Inr entries'" "wf_dict desired"
  shows "map_of entries' n = (case map_of desired n of Some src \<Rightarrow> Some (Symlink src) | None \<Rightarrow> map_of entries n)"
  using assms
proof (induction desired arbitrary: entries)
  case (Cons d desired)
  obtain name src where d: "d = (name, src)" by (cases d)
  from Cons.prems(1) d obtain e1 where e1: "put_link (name, src) entries = Inr e1" "fold_res put_link desired e1 = Inr entries'"
    by (auto simp: rbind_eq_Inr)
  have wf: "wf_dict desired" "name \<notin> set (dkeys desired)" using Cons.prems(2) d by auto
  from wf(2) have none: "map_of desired name = None" by (simp add: map_of_eq_None_iff)
  show ?case
    using Cons.IH [OF e1(2) wf(1)] put_link_entry(2) [OF e1(1), of n] put_link_entry(1) [OF e1(1)] none d
    by (cases "n = name") (simp_all split: option.splits)
qed simp

lemma find_greatest:
  assumes "sorted rows"
  shows "find P (rev rows) = Some (r :: 'a :: linorder) \<longleftrightarrow> r \<in> set rows \<and> P r \<and> (\<forall>r' \<in> set rows. P r' \<longrightarrow> r' \<le> r)"
  using assms
proof (induction rows rule: rev_induct)
  case (snoc x rows)
  show ?case
  proof (cases "P x")
    case True
    have "\<forall>r' \<in> set rows. r' \<le> x" using snoc.prems by (simp add: sorted_append)
    then show ?thesis using True by (auto intro: antisym)
  next
    case False
    then show ?thesis using snoc by (auto simp: sorted_append)
  qed
qed simp

definition bundle_lights :: "catalog \<Rightarrow> int list \<Rightarrow> (int \<times> string) set" where
  "bundle_lights ct sids = {(sid, fr_path f) | sid f. sid \<in> set sids \<and> f \<in> set (ct_frames ct) \<and> is_light f
     \<and> (sid, fr_id f) \<in> set (ct_links ct)}"

lemma set_stage_rows: "set (stage_rows ct sids) = bundle_lights ct sids"
  by (force simp: stage_rows_def bundle_lights_def)

lemma sorted_stage_rows: "sorted (stage_rows ct sids)"
  by (simp add: stage_rows_def)

lemma map_of_drop_stale:
  assumes "wf_dict entries"
  shows "map_of (drop_stale desired entries) name
    = (case map_of entries name of None \<Rightarrow> None
       | Some e \<Rightarrow> if has_key desired name \<or> e = Directory then Some e else None)"
proof -
  have wf: "wf_dict (drop_stale desired entries)" using assms by (simp add: drop_stale_def distinct_map_filter)
  have iff: "map_of (drop_stale desired entries) name = Some v
      \<longleftrightarrow> map_of entries name = Some v \<and> (has_key desired name \<or> v = Directory)" for v
    unfolding map_of_eq_Some_iff [OF wf] map_of_eq_Some_iff [OF assms] by (auto simp: drop_stale_def)
  have ext: "x = y" if "\<And>v. x = Some v \<longleftrightarrow> y = Some v" for x y :: "stage_entry option"
    using that [of "the x"] that [of "the y"] by (cases x; cases y) simp_all
  show ?thesis by (rule ext) (simp only: iff, auto split: option.splits if_splits)
qed

text \<open>
  C30: what staging a bundle leaves. The directory depends on the set of sessions only and no other directory
  changes. In it, a name is a link exactly when it is the session-prefixed file name of some light
  frame of the bundle; its target is the file of the greatest such frame by session and path, so that frames of
  one session with the same file name in two folders share one link. No other link or file survives, whatever
  an earlier run left; only a directory, which unlinking refuses, does.
\<close>

theorem staging_exact:
  assumes "stage_multi_session_lights resolve digest home ct sids fs = Inr (dir, fs')"
    and "\<forall>old. map_of fs dir = Some old \<longrightarrow> wf_dict old"
  shows "dir = stage_dir digest home sids \<and> (\<forall>d. d \<noteq> dir \<longrightarrow> map_of fs' d = map_of fs d)
    \<and> (\<exists>es. map_of fs' dir = Some es
      \<and> (\<forall>name src. map_of es name = Some (Symlink src) \<longleftrightarrow>
           (\<exists>r \<in> bundle_lights ct sids. link_name resolve r = name \<and> src = resolve (snd r)
              \<and> (\<forall>r' \<in> bundle_lights ct sids. link_name resolve r' = name \<longrightarrow> r' \<le> r)))
      \<and> (\<forall>name. map_of es name \<noteq> Some Plain_File)
      \<and> (\<forall>name. map_of es name = Some Directory \<longleftrightarrow>
           (\<forall>r \<in> bundle_lights ct sids. link_name resolve r \<noteq> name)
           \<and> (\<exists>old. map_of fs dir = Some old \<and> map_of old name = Some Directory)))"
proof -
  let ?rows = "stage_rows ct sids" and ?lights = "bundle_lights ct sids"
  let ?old = "case map_of fs dir of None \<Rightarrow> [] | Some es \<Rightarrow> es"
  let ?desired = "desired_links resolve ?rows"
  from assms(1) obtain es where es: "dir = stage_dir digest home sids" "fs' = dput dir es fs"
      "fold_res put_link ?desired (drop_stale ?desired ?old) = Inr es"
    by (auto simp: stage_multi_session_lights_def Let_def rbind_eq_Inr split: if_splits)
  have wf: "wf_dict ?old" using assms(2) by (simp split: option.splits)
  have want: "map_of ?desired name = Some src \<longleftrightarrow> (\<exists>r \<in> ?lights. link_name resolve r = name \<and> src = resolve (snd r)
      \<and> (\<forall>r' \<in> ?lights. link_name resolve r' = name \<longrightarrow> r' \<le> r))" for name src
    unfolding map_of_desired_links map_option_eq_Some find_greatest [OF sorted_stage_rows] set_stage_rows by blast
  have none: "map_of ?desired name = None \<longleftrightarrow> (\<forall>r \<in> ?lights. link_name resolve r \<noteq> name)" for name
    by (simp only: map_of_desired_links option.map_disc_iff find_None_iff set_rev set_stage_rows) blast
  have entry: "map_of es name = (case map_of ?desired name of Some src \<Rightarrow> Some (Symlink src)
      | None \<Rightarrow> if map_of ?old name = Some Directory then Some Directory else None)" for name
    unfolding put_links_entry [OF es(3) wf_desired_links] map_of_drop_stale [OF wf] has_key_def
    by (auto split: option.splits)
  have old: "map_of ?old name = Some Directory \<longleftrightarrow> (\<exists>old. map_of fs dir = Some old \<and> map_of old name = Some Directory)" for name
    by (simp split: option.splits)
  have "map_of es name = Some (Symlink src) \<longleftrightarrow> map_of ?desired name = Some src"
    "map_of es name \<noteq> Some Plain_File"
    "map_of es name = Some Directory \<longleftrightarrow> map_of ?desired name = None \<and> map_of ?old name = Some Directory" for name src
    by (auto simp: entry split: option.splits)
  then have "(\<forall>name src. map_of es name = Some (Symlink src) \<longleftrightarrow> map_of ?desired name = Some src)
      \<and> (\<forall>name. map_of es name \<noteq> Some Plain_File)
      \<and> (\<forall>name. map_of es name = Some Directory \<longleftrightarrow> map_of ?desired name = None \<and> map_of ?old name = Some Directory)"
    by blast
  then show ?thesis unfolding want none old using es(1,2) by simp
qed

text \<open>The request is a set: neither the order nor repetitions of the session ids matter.\<close>

lemma build_ignores_request_order:
  assumes "set xs = set ys"
  shows "build_from_sessions reg resolve digest home ct masters matches xs t calibration fs
    = build_from_sessions reg resolve digest home ct masters matches ys t calibration fs"
proof -
  have "sort (remdups xs) = sort (remdups ys)"
    using assms by (simp flip: sorted_list_of_set_sort_remdups)
  moreover have "xs = [] \<longleftrightarrow> ys = []" using assms by auto
  ultimately show ?thesis by (simp add: build_from_sessions_def)
qed

section \<open>A bundle of two sessions\<close>

text \<open>Session 7 has two folders with a file of the same name; session 9 has one light.\<close>

definition bundle_catalog :: catalog where
  "bundle_catalog =
     \<lparr>ct_frames = [(demo_frame 1 '''')\<lparr>fr_path := ''/a/x''\<rparr>, (demo_frame 2 '''')\<lparr>fr_path := ''/b/x''\<rparr>,
                   (demo_frame 3 '''')\<lparr>fr_path := ''/a/y''\<rparr>],
      ct_sessions = [demo_session, demo_session\<lparr>se_id := 9\<rparr>],
      ct_links = [(7, 1), (7, 2), (9, 3)], ct_targets = []\<rparr>"

definition stack_registry :: "unit registry" where
  "stack_registry =
     [((''convert'', None), (demo_cls ''Convert'')\<lparr>cls_inputs := [(''lights'', SEQUENCE_FITS)]\<rparr>),
      ((''calibrate'', None), (demo_cls ''Calibrate'')\<lparr>cls_inputs := [(''lights'', SEQUENCE_FITS), (''dark'', MASTER_FITS_LIST),
         (''flat'', MASTER_FITS)], cls_optional_inputs := [''flat'']\<rparr>)]"

definition stack_node :: "string \<Rightarrow> (string, string) dict \<Rightarrow> node_spec" where
  "stack_node n ins = \<lparr>n_id = n, n_kind = n, n_variant = None, n_params = [], n_inputs = ins, n_ui_depends_on = None\<rparr>"

definition stack_template :: template where
  "stack_template =
     \<lparr>t_id = ''osc'', t_version = 1, t_description = '''', t_profile = None,
      t_nodes = [stack_node ''convert'' [], stack_node ''calibrate'' [(''lights'', ''convert.sequence'')]], t_outputs = []\<rparr>"

abbreviation stack_build :: "stages \<Rightarrow> build_error + job \<times> stages" where
  "stack_build \<equiv> build_from_sessions stack_registry id id ''/h'' bundle_catalog [demo_dark 4 20 9] [] [9, 7, 9] stack_template None"

lemma stack_build:
  obtains job fs' where "stack_build [] = Inr (job, fs')"
    "j_inputs job = [(''convert.lights'', One (ext_ref ''lights'' ''/h/lights_stage/7,9'' SEQUENCE_FITS)),
       (''calibrate.dark'', Many [ext_ref ''dark'' ''/m'' MASTER_FITS])]"
    "j_param_overrides job = [(''calibrate'', [(''dark_bins'', JList [master_meta (demo_dark 4 20 9)])])]"
proof -
  have "case stack_build [] of Inl _ \<Rightarrow> False
      | Inr (job, _) \<Rightarrow> j_inputs job = [(''convert.lights'', One (ext_ref ''lights'' ''/h/lights_stage/7,9'' SEQUENCE_FITS)),
            (''calibrate.dark'', Many [ext_ref ''dark'' ''/m'' MASTER_FITS])]
          \<and> j_param_overrides job = [(''calibrate'', [(''dark_bins'', JList [master_meta (demo_dark 4 20 9)])])]"
    by code_simp
  then show thesis using that by (auto split: sum.splits)
qed

lemma built_inputs_typed_witness:
  "\<exists>job fs'. stack_build [] = Inr (job, fs') \<and> map fst (j_inputs job) = [''convert.lights'', ''calibrate.dark'']
     \<and> (\<exists>node cls port pt. node \<in> set (t_nodes stack_template)
          \<and> registry_lookup stack_registry (n_kind node) (n_variant node) = Some cls \<and> (port, pt) \<in> set (cls_inputs cls)
          \<and> ''calibrate.dark'' = n_id node @ ''.'' @ port \<and> input_ok port pt (Many [ext_ref ''dark'' ''/m'' MASTER_FITS]))"
proof -
  obtain job fs' where b: "stack_build [] = Inr (job, fs')"
    "j_inputs job = [(''convert.lights'', One (ext_ref ''lights'' ''/h/lights_stage/7,9'' SEQUENCE_FITS)),
       (''calibrate.dark'', Many [ext_ref ''dark'' ''/m'' MASTER_FITS])]"
    by (rule stack_build)
  have i: "(''calibrate.dark'', Many [ext_ref ''dark'' ''/m'' MASTER_FITS]) \<in> set (j_inputs job)" by (simp add: b(2))
  from built_inputs_typed [OF b(1) i] b show ?thesis by (intro exI [of _ job] exI [of _ fs'] conjI) (auto simp del: input_ok.simps)
qed

lemma required_inputs_wired_witness:
  "\<exists>job fs'. stack_build [] = Inr (job, fs') \<and> has_key (j_inputs job) ''calibrate.dark''"
proof -
  obtain job fs' where b: "stack_build [] = Inr (job, fs')" by (rule stack_build)
  let ?node = "stack_node ''calibrate'' [(''lights'', ''convert.sequence'')]"
  obtain cls where c: "registry_lookup stack_registry (n_kind ?node) (n_variant ?node) = Some cls"
      "cls_inputs cls = [(''lights'', SEQUENCE_FITS), (''dark'', MASTER_FITS_LIST), (''flat'', MASTER_FITS)]"
      "cls_optional_inputs cls = [''flat'']"
    by (simp add: registry_lookup_def stack_registry_def stack_node_def)
  have "has_key (j_inputs job) (n_id ?node @ ''.'' @ ''dark'')"
    by (rule required_inputs_wired [OF b _ c(1), where pt = MASTER_FITS_LIST])
       (simp_all add: c stack_template_def stack_node_def has_key_def known_port_def)
  then show ?thesis using b by (simp add: stack_node_def)
qed

lemma dark_bins_align_witness:
  "\<exists>job fs' ps metas. stack_build [] = Inr (job, fs') \<and> map_of (j_param_overrides job) ''calibrate'' = Some ps
     \<and> map_of ps ''dark_bins'' = Some (JList metas) \<and> length metas = 1"
proof -
  obtain job fs' where b: "stack_build [] = Inr (job, fs')"
    "j_inputs job = [(''convert.lights'', One (ext_ref ''lights'' ''/h/lights_stage/7,9'' SEQUENCE_FITS)),
       (''calibrate.dark'', Many [ext_ref ''dark'' ''/m'' MASTER_FITS])]"
    by (rule stack_build)
  have m: "map_of (j_inputs job) (''calibrate'' @ ''.dark'') = Some (Many [ext_ref ''dark'' ''/m'' MASTER_FITS])"
    by (simp add: b(2))
  from dark_bins_align [OF b(1) m] obtain ps metas where
    "map_of (j_param_overrides job) ''calibrate'' = Some ps" "map_of ps ''dark_bins'' = Some (JList metas)" "length metas = 1"
    by (auto dest: list_all2_lengthD)
  then show ?thesis using b(1) by blast
qed

text \<open>The two files of session 7 named \<open>x\<close> share one link; the stale entry goes.\<close>

lemma staging_exact_witness:
  "\<exists>dir fs' es. stage_multi_session_lights id id ''/h'' bundle_catalog [7, 9]
        [(''/h/lights_stage/7,9'', [(''junk'', Plain_File), (''s7__x'', Symlink ''/a/x'')])] = Inr (dir, fs')
     \<and> map_of fs' dir = Some es \<and> es = [(''s7__x'', Symlink ''/b/x''), (''s9__y'', Symlink ''/a/y'')]
     \<and> (\<exists>r \<in> bundle_lights bundle_catalog [7, 9]. link_name id r = ''s7__x'' \<and> snd r = ''/b/x'')"
proof -
  let ?fs = "[(''/h/lights_stage/7,9'', [(''junk'', Plain_File), (''s7__x'', Symlink ''/a/x'')])]"
  let ?es = "[(''s7__x'', Symlink ''/b/x''), (''s9__y'', Symlink ''/a/y'')]"
  let ?run = "stage_multi_session_lights id id ''/h'' bundle_catalog [7, 9] ?fs"
  have r: "?run = Inr (''/h/lights_stage/7,9'', [(''/h/lights_stage/7,9'', ?es)])" by code_simp
  have wf: "\<forall>old. map_of ?fs ''/h/lights_stage/7,9'' = Some old \<longrightarrow> wf_dict old" by simp
  from staging_exact [OF r wf] obtain es where es: "map_of [(''/h/lights_stage/7,9'', ?es)] ''/h/lights_stage/7,9'' = Some es"
      "\<forall>name src. map_of es name = Some (Symlink src) \<longleftrightarrow>
           (\<exists>r \<in> bundle_lights bundle_catalog [7, 9]. link_name id r = name \<and> src = id (snd r)
              \<and> (\<forall>r' \<in> bundle_lights bundle_catalog [7, 9]. link_name id r' = name \<longrightarrow> r' \<le> r))"
    by blast
  have "es = ?es" using es(1) by simp
  then have "map_of es ''s7__x'' = Some (Symlink ''/b/x'')" by simp
  then have "\<exists>r \<in> bundle_lights bundle_catalog [7, 9]. link_name id r = ''s7__x'' \<and> snd r = ''/b/x''"
    using es(2) unfolding id_apply by metis
  then show ?thesis using r by (intro exI [of _ "''/h/lights_stage/7,9''"] exI [of _ "[(''/h/lights_stage/7,9'', ?es)]"] exI [of _ ?es]) simp
qed

end
