(* ===== verification/Siril_Runner.thy ===== *)
theory Siril_Runner
  imports Job_Builder Py_Text
begin

text \<open>
  What the nodes that drive Siril share: the progress lines and scripts of \<open>server/siril.py\<close> and
  staging, running and validating a sequence of \<open>nodes/_seq_runner.py\<close>. Siril is a function from
  the script, the working directory and its entries to an exit code, its output lines and the entries
  it leaves. Its log is ASCII, links are not dangling, fractions are exact rationals. The temporary script
  file in the working directory is written before and removed after the run and not shown.
\<close>

section \<open>Node computations\<close>

text \<open>The calls of \<open>ctx.progress\<close> and \<open>ctx.warn\<close> in order, then the error raised or the value.\<close>

datatype siril_error =
    Siril_Cancelled
  | Siril_Exited int
  | Missing_Output string
  | Missing_Input string
  | Not_Unlinked string
  | Wrong_Count nat nat
  | Bad_Header string
  | Nothing_Left

type_synonym 'a act = "node_call list \<times> (siril_error + 'a)"

definition act_return :: "'a \<Rightarrow> 'a act" where
  "act_return a = ([], Inr a)"

definition act_raise :: "siril_error \<Rightarrow> 'a act" where
  "act_raise e = ([], Inl e)"

definition act_calls :: "node_call list \<Rightarrow> unit act" where
  "act_calls cs = (cs, Inr ())"

definition act_lift :: "siril_error + 'a \<Rightarrow> 'a act" where
  "act_lift r = ([], r)"

definition act_bind :: "'a act \<Rightarrow> ('a \<Rightarrow> 'b act) \<Rightarrow> 'b act" where
  "act_bind m f =
     (case m of (cs, Inl e) \<Rightarrow> (cs, Inl e)
      | (cs, Inr a) \<Rightarrow> (case f a of (cs', r) \<Rightarrow> (cs @ cs', r)))"

lemma act_simps [simp]:
  "act_bind (act_return a) f = f a" "act_bind (act_raise e) f = act_raise e"
  "fst (act_calls cs) = cs" "snd (act_calls cs) = Inr ()"
  by (simp_all add: act_bind_def act_return_def act_raise_def act_calls_def)

named_theorems act_iff "when a node computation returns, and with which calls"

lemma act_bind_Inr [act_iff]:
  "act_bind m f = (cs, Inr b) \<longleftrightarrow> (\<exists>cs1 a cs2. m = (cs1, Inr a) \<and> f a = (cs2, Inr b) \<and> cs = cs1 @ cs2)"
proof (cases "snd m")
  case (Inl e)
  then show ?thesis by (cases m) (auto simp: act_bind_def)
next
  case (Inr a)
  then show ?thesis by (cases m; cases "f a") (auto simp: act_bind_def)
qed

lemma act_guard_Inr [act_iff]: "(if c then act_raise e else m) = (cs, Inr b) \<longleftrightarrow> \<not> c \<and> m = (cs, Inr b)"
  by (simp add: act_raise_def)

lemma act_calls_Inr [act_iff]: "act_calls cs = (cs', Inr u) \<longleftrightarrow> cs' = cs"
  by (auto simp: act_calls_def)

lemma act_return_Inr [act_iff]: "act_return a = (cs, Inr b) \<longleftrightarrow> cs = [] \<and> b = a"
  by (auto simp: act_return_def)

lemma act_lift_Inr [act_iff]: "act_lift x = (cs, Inr a) \<longleftrightarrow> cs = [] \<and> x = Inr a"
  by (auto simp: act_lift_def)

lemma act_bind_calls: "fst (act_bind m f) = fst m @ (case snd m of Inl e \<Rightarrow> [] | Inr a \<Rightarrow> fst (f a))"
  by (cases m; cases "snd m") (auto simp: act_bind_def split: prod.splits)

lemma act_bind_snd: "snd (act_bind m f) = (case snd m of Inl e \<Rightarrow> Inl e | Inr a \<Rightarrow> snd (f a))"
  by (cases m; cases "snd m") (auto simp: act_bind_def split: prod.splits)

section \<open>Progress lines\<close>

text \<open>The tail \<open>\<s>*(\<d>+(?:\<dot>\<d>+)?)\<s>*%\<s>*$\<close> of the pattern; the number it stands for.\<close>

definition percent_end :: "string \<Rightarrow> bool" where
  "percent_end s = (case dropWhile is_space s of c # r \<Rightarrow> c = CHR ''%'' \<and> list_all is_space r | [] \<Rightarrow> False)"

definition parse_percent :: "string \<Rightarrow> rat option" where
  "parse_percent s =
     (let s1 = dropWhile is_space s; ds = takeWhile is_digit s1; r = dropWhile is_digit s1
      in if ds = [] then None
         else if percent_end r then Some (decimal ds [])
         else case r of
           c # r1 \<Rightarrow> if c = CHR ''.'' \<and> takeWhile is_digit r1 \<noteq> [] \<and> percent_end (dropWhile is_digit r1)
                     then Some (decimal ds (takeWhile is_digit r1)) else None
         | [] \<Rightarrow> None)"

text \<open>The lazy group: the shortest non-empty text before a comma after which the tail matches.\<close>

fun lazy_message :: "string \<Rightarrow> string \<Rightarrow> (string \<times> rat) option" where
  "lazy_message pre [] = None"
| "lazy_message pre (c # s) =
     (if c = CHR '','' \<and> pre \<noteq> [] then
        (case parse_percent s of Some v \<Rightarrow> Some (rev pre, v) | None \<Rightarrow> lazy_message (c # pre) s)
      else lazy_message (c # pre) s)"

text \<open>White space before the group is taken greedily and given back one by one.\<close>

fun first_some :: "('a \<Rightarrow> 'b option) \<Rightarrow> 'a list \<Rightarrow> 'b option" where
  "first_some f [] = None"
| "first_some f (x # xs) = (case f x of None \<Rightarrow> first_some f xs | Some y \<Rightarrow> Some y)"

definition parse_progress :: "string \<Rightarrow> (string \<times> rat) option" where
  "parse_progress line =
     (if starts_with ''progress:'' line then
        (let body = drop 9 line
         in map_option (\<lambda>(msg, pct). (strip msg, max 0 (min (pct / 100) 1)))
              (first_some (\<lambda>k. lazy_message [] (drop k body)) (rev [0 ..< Suc (length (takeWhile is_space body))])))
      else None)"

record handler_state =
  hs_last :: rat
  hs_phase :: int
  hs_emitted :: rat

definition handler_init :: "rat \<Rightarrow> handler_state" where
  "handler_init low = \<lparr>hs_last = 0, hs_phase = 0, hs_emitted = low\<rparr>"

text \<open>One parsed line: the new state, whose \<open>hs_emitted\<close> is the fraction handed to \<open>ctx.progress\<close>.\<close>

definition handler_step :: "rat \<Rightarrow> rat \<Rightarrow> int \<Rightarrow> rat \<Rightarrow> handler_state \<Rightarrow> handler_state" where
  "handler_step low high phases part st =
     (let phase_size = (high - low) / of_int (max phases 1);
          phase = (if part + 1 / 2 < hs_last st then min (hs_phase st + 1) (phases - 1) else hs_phase st);
          scaled = min (low + of_int phase * phase_size + part * phase_size) high
      in \<lparr>hs_last = part, hs_phase = phase, hs_emitted = max scaled (hs_emitted st)\<rparr>)"

fun handle_lines :: "rat \<Rightarrow> rat \<Rightarrow> int \<Rightarrow> string \<Rightarrow> handler_state \<Rightarrow> string list \<Rightarrow> (rat \<times> string) list" where
  "handle_lines low high phases prefix st [] = []"
| "handle_lines low high phases prefix st (line # ls) =
     (case parse_progress line of
        None \<Rightarrow> handle_lines low high phases prefix st ls
      | Some (msg, part) \<Rightarrow>
          let st' = handler_step low high phases part st
          in (hs_emitted st', prefix @ msg) # handle_lines low high phases prefix st' ls)"

definition progress_handler :: "rat \<Rightarrow> rat \<Rightarrow> int \<Rightarrow> string \<Rightarrow> string list \<Rightarrow> (rat \<times> string) list" where
  "progress_handler low high phases prefix = handle_lines low high phases prefix (handler_init low)"

section \<open>Running a script\<close>

datatype 'c seq_file = Data 'c | Link string | Sub_Dir

type_synonym 'c listing = "(string, 'c seq_file) dict"

record 'c siril_result =
  sr_code :: int
  sr_lines :: "string list"
  sr_dir :: "'c listing"

type_synonym 'c siril = "string \<Rightarrow> string \<Rightarrow> 'c listing \<Rightarrow> 'c siril_result"

definition compose_ssf :: "string list \<Rightarrow> string \<Rightarrow> string" where
  "compose_ssf commands require_version =
     join [CHR 0x0A] ((if list_ex (\<lambda>c. starts_with ''requires '' (dropWhile is_space c)) commands then []
                       else [''requires '' @ require_version]) @ commands) @ [CHR 0x0A]"

text \<open>\<open>cancel\<close>: whether the event is set when the run starts and when Siril has ended.\<close>

definition siril_run ::
  "'c siril \<Rightarrow> bool \<times> bool \<Rightarrow> string list \<Rightarrow> string \<Rightarrow> 'c listing \<Rightarrow> (string list \<Rightarrow> node_call list) \<Rightarrow> 'c siril_result act" where
  "siril_run siril cancel commands dir files on_log =
     (if fst cancel then act_raise Siril_Cancelled
      else let r = siril (compose_ssf commands ''1.4.0'') dir files
        in act_bind (act_calls (on_log (sr_lines r)))
             (\<lambda>_. if snd cancel then act_raise Siril_Cancelled else act_return r))"

definition quote :: "string \<Rightarrow> string" where
  "quote s =
     (if list_ex (\<lambda>c. c \<in> {CHR 0x20, CHR 0x09, CHR 0x22}) s
      then [CHR 0x22] @ concat (map (\<lambda>c. if c = CHR 0x22 then [CHR 0x5C, CHR 0x22] else [c]) s) @ [CHR 0x22]
      else s)"

section \<open>Sequences\<close>

definition is_frame_of :: "string \<Rightarrow> string \<Rightarrow> bool" where
  "is_frame_of basename name =
     (starts_with (basename @ ''_'') name \<and> suffix_of name \<in> {''.fit'', ''.fits''})"

definition frames_of :: "string \<Rightarrow> 'c listing \<Rightarrow> string list" where
  "frames_of basename files = sort (filter (is_frame_of basename) (dkeys files))"

definition put_symlink :: "string \<Rightarrow> string \<Rightarrow> 'c listing \<Rightarrow> siril_error + 'c listing" where
  "put_symlink name target files =
     (if map_of files name = Some Sub_Dir then Inl (Not_Unlinked name)
      else Inr (dput name (Link target) (dpop name files)))"

definition child :: "string \<Rightarrow> string \<Rightarrow> string" where
  "child dir name = dir @ ''/'' @ name"

definition stage_frame ::
  "(string \<Rightarrow> string) \<Rightarrow> string \<Rightarrow> string \<Rightarrow> 'c listing \<times> string list \<Rightarrow> siril_error + 'c listing \<times> string list" where
  "stage_frame resolve seq_in name = (\<lambda>(out, staged).
     rbind (put_symlink name (resolve (child seq_in name)) out) (\<lambda>out'. Inr (out', staged @ [name])))"

definition staged_name :: "string \<Rightarrow> 'c seq_file \<Rightarrow> string \<Rightarrow> bool" where
  "staged_name basename f name =
     (f \<noteq> Sub_Dir \<and> starts_with (basename @ ''_'') name \<and> suffix_of name \<in> {''.fit'', ''.fits'', ''.seq''})"

definition stage_sequence ::
  "(string \<Rightarrow> string) \<Rightarrow> string \<Rightarrow> 'c listing \<Rightarrow> string \<Rightarrow> 'c listing \<Rightarrow> string \<Rightarrow> bool
   \<Rightarrow> siril_error + 'c listing \<times> string list" where
  "stage_sequence resolve seq_in files seq_out out basename fitseq =
     (if fitseq then
        (let name = basename @ ''.fit''
         in if has_key files name then stage_frame resolve seq_in name (out, []) else Inr (out, []))
      else
        rbind (fold_res (stage_frame resolve seq_in)
            (sort (map fst (filter (\<lambda>(name, f). staged_name basename f name) files))) (out, [])) (\<lambda>(out', staged).
          let underscored = basename @ ''_.seq''; no_underscore = basename @ ''.seq''
          in if has_key out' underscored \<and> \<not> has_key out' no_underscore then
               Inr (dput no_underscore (Link (resolve (child seq_out underscored))) out', staged @ [no_underscore])
             else Inr (out', staged)))"

definition drop_staged :: "string list \<Rightarrow> 'c listing \<Rightarrow> siril_error + 'c listing" where
  "drop_staged staged files =
     fold_res (\<lambda>name out. if map_of out name = Some Sub_Dir then Inl (Not_Unlinked name) else Inr (dpop name out)) staged files"

definition progress_calls :: "(rat \<times> string) list \<Rightarrow> node_call list" where
  "progress_calls = map (\<lambda>(f, m). Progress_Call f m)"

definition check_exit :: "'c siril_result \<Rightarrow> 'c siril_result act" where
  "check_exit r = (if sr_code r = 0 then act_return r else act_raise (Siril_Exited (sr_code r)))"

text \<open>\<open>files = None\<close>: the input directory does not exist. The value is the summary and the entries of \<open>seq_out\<close>.\<close>

definition run_siril_on_sequence ::
  "(string \<Rightarrow> string) \<Rightarrow> 'c siril \<Rightarrow> bool \<times> bool \<Rightarrow> string \<Rightarrow> 'c listing option \<Rightarrow> string \<Rightarrow> 'c listing \<Rightarrow> string list
   \<Rightarrow> string \<Rightarrow> string \<Rightarrow> bool \<Rightarrow> int \<Rightarrow> (string \<times> 'c listing) act" where
  "run_siril_on_sequence resolve siril cancel seq_in files seq_out out commands basename out_basename fitseq phases =
     (case files of
        None \<Rightarrow> act_raise (Missing_Input seq_in)
      | Some fs \<Rightarrow>
          act_bind (act_lift (stage_sequence resolve seq_in fs seq_out out basename fitseq)) (\<lambda>(out1, staged).
            if staged = [] then act_raise (Missing_Input basename)
            else act_bind (siril_run siril cancel commands seq_out out1
                  (progress_calls \<circ> progress_handler (1 / 5) (19 / 20) phases '''')) (\<lambda>r.
              act_bind (check_exit r) (\<lambda>r.
              act_bind
                (if fitseq then
                   (if has_key (sr_dir r) (out_basename @ ''.fit'') then act_return (out_basename @ ''.fit'')
                    else act_raise (Missing_Output (out_basename @ ''.fit'')))
                 else if frames_of out_basename (sr_dir r) = [] then act_raise (Missing_Output out_basename)
                 else act_return (show_nat (length (frames_of out_basename (sr_dir r))) @ '' frames'')) (\<lambda>wrote.
              act_bind (act_lift (drop_staged staged (sr_dir r))) (\<lambda>out2. act_return (wrote, out2)))))))"

definition seq_ref :: "string \<Rightarrow> ref" where
  "seq_ref path = \<lparr>r_node_hash = '''', r_port = ''sequence'', r_path = path, r_type = SEQUENCE_FITS, r_display_ready = False\<rparr>"

section \<open>The bar never moves back\<close>

lemma parse_progress_range: "parse_progress line = Some (msg, part) \<Longrightarrow> 0 \<le> part \<and> part \<le> 1"
  by (auto simp: parse_progress_def Let_def split: if_splits)

lemma handler_step_emitted:
  assumes "low \<le> high" "low \<le> hs_emitted st" "hs_emitted st \<le> high"
  shows "hs_emitted st \<le> hs_emitted (handler_step low high phases part st)"
    "low \<le> hs_emitted (handler_step low high phases part st)"
    "hs_emitted (handler_step low high phases part st) \<le> high"
  using assms by (auto simp: handler_step_def Let_def)

lemma handle_lines_monotone:
  assumes "low \<le> high" "low \<le> hs_emitted st" "hs_emitted st \<le> high"
  shows "sorted (map fst (handle_lines low high phases prefix st ls))
    \<and> (\<forall>p \<in> set (handle_lines low high phases prefix st ls). hs_emitted st \<le> fst p \<and> fst p \<le> high)"
  using assms(2,3)
proof (induction ls arbitrary: st)
  case (Cons line ls)
  show ?case
  proof (cases "parse_progress line")
    case None
    then show ?thesis using Cons by simp
  next
    case (Some mp)
    obtain msg part where mp: "mp = (msg, part)" by (cases mp)
    let ?st = "handler_step low high phases part st"
    note step = handler_step_emitted [OF assms(1) Cons.prems, of phases part]
    have ih: "sorted (map fst (handle_lines low high phases prefix ?st ls))
        \<and> (\<forall>p \<in> set (handle_lines low high phases prefix ?st ls). hs_emitted ?st \<le> fst p \<and> fst p \<le> high)"
      by (rule Cons.IH) (rule step(2,3))+
    then show ?thesis using Some mp step by (fastforce simp: Let_def)
  qed
qed simp

lemma progress_handler_monotone:
  assumes "low \<le> high"
  shows "sorted (map fst (progress_handler low high phases prefix ls))"
    "p \<in> set (progress_handler low high phases prefix ls) \<Longrightarrow> low \<le> fst p \<and> fst p \<le> high"
  using handle_lines_monotone [OF assms, of "handler_init low" phases prefix ls] assms
  by (auto simp: progress_handler_def handler_init_def)

text \<open>The message and the percentage of a line of Siril's, whatever the message says.\<close>

lemma parse_progress_examples:
  "parse_progress ''progress: Rejection stacking in progress..., 50.00%'' = Some (''Rejection stacking in progress...'', 1 / 2)"
  "parse_progress ''progress: a, 7%, 120 %'' = Some (''a, 7%'', 1)"
  "parse_progress ''log: 50%'' = None"
  by code_simp+

end
