(* ===== verification/Subproc.thy ===== *)
theory Subproc
  imports Siril_Runner
begin

text \<open>
  The lines of an external tool (\<open>server/subproc.py\<close>): the patterns searched in a line, the handler that turns lines into
  the progress of a node, and a run with cancellation. The tool is a function of its arguments and the entries of its
  directory. Lines are ASCII.
\<close>

section \<open>Patterns\<close>

definition is_word :: "char \<Rightarrow> bool" where
  "is_word c = (is_digit c \<or> c = CHR ''_'' \<or> (let n = of_char c :: nat in 65 \<le> n \<and> n \<le> 90 \<or> 97 \<le> n \<and> n \<le> 122))"

text \<open>\<open>re.search\<close>: the first position at which the rest matches; \<open>p\<close> is told whether a word starts there (\<open>\b\<close> before a word character).\<close>

fun search_from :: "bool \<Rightarrow> (bool \<Rightarrow> string \<Rightarrow> 'a option) \<Rightarrow> string \<Rightarrow> 'a option" where
  "search_from boundary p [] = p boundary []"
| "search_from boundary p (c # s) =
     (case p boundary (c # s) of Some a \<Rightarrow> Some a | None \<Rightarrow> search_from (\<not> is_word c) p s)"

definition search :: "(bool \<Rightarrow> string \<Rightarrow> 'a option) \<Rightarrow> string \<Rightarrow> 'a option" where
  "search p s = search_from True p s"

definition skip_space :: "string \<Rightarrow> string" where
  "skip_space s = dropWhile is_space s"

text \<open>\<open>\b(\d{1,3})\s*%\s*\|\<close>\<close>

definition tqdm_at :: "bool \<Rightarrow> string \<Rightarrow> rat option" where
  "tqdm_at boundary s =
     (let ds = takeWhile is_digit s; r = skip_space (dropWhile is_digit s)
      in if boundary \<and> 1 \<le> length ds \<and> length ds \<le> 3 \<and> starts_with ''%'' r \<and> starts_with ''|'' (skip_space (drop 1 r))
         then Some (of_nat (digits_value 0 ds)) else None)"

text \<open>\<open>\b(\d{1,3}(?:\.\d+)?)\s*%\<close>\<close>

definition pct_at :: "bool \<Rightarrow> string \<Rightarrow> rat option" where
  "pct_at boundary s =
     (let ds = takeWhile is_digit s; r = dropWhile is_digit s;
          fs = (if starts_with ''.'' r then takeWhile is_digit (drop 1 r) else []);
          r' = (if fs = [] then r else dropWhile is_digit (drop 1 r))
      in if boundary \<and> 1 \<le> length ds \<and> length ds \<le> 3 \<and> starts_with ''%'' (skip_space r')
         then Some (decimal ds fs) else None)"

definition number_at :: "string \<Rightarrow> (nat \<times> string) option" where
  "number_at s =
     (let ds = takeWhile is_digit s in if ds = [] then None else Some (digits_value 0 ds, dropWhile is_digit s))"

text \<open>\<open>\b(\d+)\s*(?:of|/)\s*(\d+)\b\<close>, in any case\<close>

definition x_of_n_at :: "bool \<Rightarrow> string \<Rightarrow> (nat \<times> nat) option" where
  "x_of_n_at boundary s =
     (case if boundary then number_at s else None of
        None \<Rightarrow> None
      | Some (k, r) \<Rightarrow>
          (let r1 = skip_space r;
               r2 = (if starts_with ''of'' (lower r1) then Some (drop 2 r1)
                     else if starts_with ''/'' r1 then Some (drop 1 r1) else None)
           in case r2 of
                None \<Rightarrow> None
              | Some r3 \<Rightarrow>
                  (case number_at (skip_space r3) of
                     None \<Rightarrow> None
                   | Some (n, rest) \<Rightarrow> if rest = [] \<or> \<not> is_word (hd rest) then Some (k, n) else None)))"

text \<open>\<open>total\s+iterations?\s*[=:]\s*(\d+)\<close>, in any case\<close>

definition total_iter_at :: "bool \<Rightarrow> string \<Rightarrow> nat option" where
  "total_iter_at boundary s =
     (if starts_with ''total'' (lower s) then
        (let r = drop 5 s; r1 = skip_space r
         in if r1 = r \<or> \<not> starts_with ''iteration'' (lower r1) then None
            else let r2 = drop 9 r1; r3 = skip_space (if starts_with ''s'' (lower r2) then drop 1 r2 else r2)
              in if starts_with ''='' r3 \<or> starts_with '':'' r3 then map_option fst (number_at (skip_space (drop 1 r3)))
                 else None)
      else None)"

text \<open>\<open>\biteration\s*[:#]?\s*(\d+)\<close>, in any case\<close>

definition iter_at :: "bool \<Rightarrow> string \<Rightarrow> nat option" where
  "iter_at boundary s =
     (if boundary \<and> starts_with ''iteration'' (lower s) then
        (let r = skip_space (drop 9 s)
         in map_option fst (number_at (skip_space (if starts_with '':'' r \<or> starts_with ''#'' r then drop 1 r else r))))
      else None)"

section \<open>The handler\<close>

record line_state =
  ls_last_frac :: rat
  ls_total_iters :: "nat option"

record line_band =
  lb_low :: rat
  lb_high :: rat
  lb_heartbeat_lines :: nat

definition report :: "line_band \<Rightarrow> rat \<Rightarrow> line_state \<Rightarrow> line_state" where
  "report b part st =
     (let width = lb_high b - lb_low b;
          scaled = max (lb_low b) (min (lb_high b) (lb_low b + max 0 (min 1 part) * width))
      in if scaled < ls_last_frac st then st else st\<lparr>ls_last_frac := scaled\<rparr>)"

definition heartbeat_cap :: "line_band \<Rightarrow> rat" where
  "heartbeat_cap b = lb_low b + (lb_high b - lb_low b) * (4 / 5)"

definition heartbeat :: "line_band \<Rightarrow> line_state \<Rightarrow> line_state" where
  "heartbeat b st =
     (let step = (lb_high b - lb_low b) / of_nat (max (lb_heartbeat_lines b) 1);
          nudge = min (ls_last_frac st + step) (heartbeat_cap b)
      in if ls_last_frac st < nudge then st\<lparr>ls_last_frac := nudge\<rparr> else st)"

definition note_total :: "string \<Rightarrow> line_state \<Rightarrow> line_state" where
  "note_total row st = (case search total_iter_at row of None \<Rightarrow> st | Some n \<Rightarrow> st\<lparr>ls_total_iters := Some n\<rparr>)"

text \<open>The fraction a line states, by the first pattern that applies.\<close>

definition stated_fraction :: "nat option \<Rightarrow> string \<Rightarrow> rat option" where
  "stated_fraction iters row =
     (case search tqdm_at row of
        Some pct \<Rightarrow> Some (pct / 100)
      | None \<Rightarrow>
          (let pct = search pct_at row
           in if pct \<noteq> None \<and> the pct / 100 \<le> 1 then Some (the pct / 100)
              else (let it = search iter_at row
                in if it \<noteq> None \<and> iters \<noteq> None \<and> iters \<noteq> Some 0 then Some (of_nat (the it) / of_nat (max (the iters) 1))
                   else (case search x_of_n_at row of
                       None \<Rightarrow> None
                     | Some (k, n) \<Rightarrow> if 0 < n then Some (of_nat k / of_nat n) else None))))"

definition line_step :: "line_band \<Rightarrow> string \<Rightarrow> line_state \<Rightarrow> line_state" where
  "line_step b row st0 =
     (let st = note_total row st0
      in case stated_fraction (ls_total_iters st) row of Some part \<Rightarrow> report b part st | None \<Rightarrow> heartbeat b st)"

text \<open>Blank lines say nothing; every other line is a call with the state's fraction.\<close>

fun handle_tool_lines :: "line_band \<Rightarrow> string \<Rightarrow> line_state \<Rightarrow> string list \<Rightarrow> (rat \<times> string) list" where
  "handle_tool_lines b prefix st [] = []"
| "handle_tool_lines b prefix st (row # rows) =
     (if strip row = [] then handle_tool_lines b prefix st rows
      else (let st' = line_step b row st in (ls_last_frac st', prefix @ strip row) # handle_tool_lines b prefix st' rows))"

definition line_progress_handler :: "rat \<Rightarrow> rat \<Rightarrow> string \<Rightarrow> string list \<Rightarrow> (rat \<times> string) list" where
  "line_progress_handler low high prefix =
     handle_tool_lines \<lparr>lb_low = low, lb_high = high, lb_heartbeat_lines = 60\<rparr> prefix
       \<lparr>ls_last_frac = low, ls_total_iters = None\<rparr>"

section \<open>A run\<close>

record 'c tool_result =
  tr_code :: int
  tr_lines :: "string list"
  tr_dir :: "'c listing"

text \<open>None: the program cannot be started.\<close>

type_synonym 'c tool = "string list \<Rightarrow> 'c listing \<Rightarrow> 'c tool_result option"

text \<open>\<open>cancel\<close>: whether the event is set when the run starts and when the tool has ended. A tool that does not start raises.\<close>

definition run_streamed ::
  "'c tool \<Rightarrow> bool \<times> bool \<Rightarrow> string list \<Rightarrow> 'c listing \<Rightarrow> (string list \<Rightarrow> node_call list) \<Rightarrow> 'c tool_result act" where
  "run_streamed tool cancel argv files on_line =
     (if fst cancel then act_raise Siril_Cancelled
      else case tool argv files of
        None \<Rightarrow> act_raise (Missing_Input (hd argv))
      | Some r \<Rightarrow> act_bind (act_calls (on_line (tr_lines r)))
          (\<lambda>_. if snd cancel then act_raise Siril_Cancelled else act_return r))"

section \<open>The bar of a tool\<close>

lemma report_bounds:
  assumes "lb_low b \<le> lb_high b" "lb_low b \<le> ls_last_frac st" "ls_last_frac st \<le> lb_high b"
  shows "ls_last_frac st \<le> ls_last_frac (report b part st) \<and> ls_last_frac (report b part st) \<le> lb_high b"
  using assms by (auto simp: report_def Let_def)

lemma heartbeat_bounds:
  assumes "lb_low b \<le> lb_high b" "ls_last_frac st \<le> lb_high b"
  shows "ls_last_frac st \<le> ls_last_frac (heartbeat b st) \<and> ls_last_frac (heartbeat b st) \<le> lb_high b"
proof -
  have "heartbeat_cap b \<le> lb_high b" using assms(1) by (simp add: heartbeat_cap_def field_simps)
  then show ?thesis using assms by (auto simp: heartbeat_def Let_def min_def)
qed

lemma note_total_frac [simp]: "ls_last_frac (note_total row st) = ls_last_frac st"
  by (simp add: note_total_def split: option.split)

lemma line_step_bounds:
  assumes "lb_low b \<le> lb_high b" "lb_low b \<le> ls_last_frac st" "ls_last_frac st \<le> lb_high b"
  shows "ls_last_frac st \<le> ls_last_frac (line_step b row st) \<and> ls_last_frac (line_step b row st) \<le> lb_high b"
  using assms report_bounds [of b "note_total row st"] heartbeat_bounds [of b "note_total row st"]
  by (simp add: line_step_def Let_def split: option.split)

lemma handle_tool_lines_monotone:
  assumes "lb_low b \<le> lb_high b" "lb_low b \<le> ls_last_frac st" "ls_last_frac st \<le> lb_high b"
  shows "sorted (map fst (handle_tool_lines b prefix st rows))
    \<and> (\<forall>p \<in> set (handle_tool_lines b prefix st rows). ls_last_frac st \<le> fst p \<and> fst p \<le> lb_high b)"
  using assms(2,3)
proof (induction rows arbitrary: st)
  case (Cons row rows)
  note step = line_step_bounds [OF assms(1) Cons.prems, of row]
  show ?case
  proof (cases "strip row = []")
    case True
    then show ?thesis using Cons by simp
  next
    case False
    have ih: "sorted (map fst (handle_tool_lines b prefix (line_step b row st) rows))
        \<and> (\<forall>p \<in> set (handle_tool_lines b prefix (line_step b row st) rows).
            ls_last_frac (line_step b row st) \<le> fst p \<and> fst p \<le> lb_high b)"
      by (rule Cons.IH) (use step Cons.prems in simp_all)
    then show ?thesis using False step by (fastforce simp: Let_def)
  qed
qed simp

text \<open>The calls of a tool's run stay in the band and never go back.\<close>

lemma line_progress_monotone:
  assumes "low \<le> high"
  shows "sorted (map fst (line_progress_handler low high prefix rows))
    \<and> (\<forall>p \<in> set (line_progress_handler low high prefix rows). low \<le> fst p \<and> fst p \<le> high)"
  using handle_tool_lines_monotone [of "\<lparr>lb_low = low, lb_high = high, lb_heartbeat_lines = 60\<rparr>"
      "\<lparr>ls_last_frac = low, ls_total_iters = None\<rparr>"] assms
  by (simp add: line_progress_handler_def)

text \<open>Lines that state nothing never take the bar past four fifths of the band.\<close>

lemma heartbeat_capped:
  "ls_last_frac (heartbeat b st) \<le> max (ls_last_frac st) (heartbeat_cap b)"
  by (auto simp: heartbeat_def Let_def)

lemma line_patterns:
  "stated_fraction None '' 42%|####   | 13/32 [00:12]'' = Some (42 / 100)"
  "stated_fraction None ''Progress: 12.5 %'' = Some (1 / 8)"
  "stated_fraction (Some 32) ''Iteration: 8'' = Some (1 / 4)"
  "stated_fraction None ''Tile 7 OF 14.'' = Some (1 / 2)"
  "stated_fraction None ''loading model 7of'' = None"
  "search total_iter_at ''INFO Total iterations = 32'' = Some 32"
  by code_simp+

end
