(* ===== verification/Calibrate.thy ===== *)
theory Calibrate
  imports Siril_Runner
begin

text \<open>
  \<open>nodes/basic/calibrate.py\<close>: the node that applies master darks, flats and bias to a sequence. With
  more than one dark every light is routed to the closest dark of its exposure and gain, and Siril runs once
  per group. FITS files are arguments: the header of a file, Python's \<open>float()\<close> and \<open>int()\<close> on a header
  value, and the parts of a container. The runtime hands the node an empty output directory.
\<close>

section \<open>Parameters and metadata\<close>

record calibrate_params =
  cp_input_basename :: string
  cp_fitseq :: bool
  cp_cfa :: bool
  cp_cosmetic :: bool
  cp_equalize_cfa :: bool
  cp_debayer :: bool
  cp_exclude_uncalibratable :: bool
  cp_dark_bins :: "json list"

record fits_meta =
  fm_path :: string
  fm_exptime :: "rat option"
  fm_gain :: "int option"
  fm_ccd_temp :: "rat option"

type_synonym 'v header = "(string, 'v) dict"

text \<open>
  \<open>fx_header\<close>: the primary header, None when the file does not open. \<open>fx_hdus\<close>: the parts of a container,
  each with whether it has data and its header.
\<close>

record 'v fits =
  fx_header :: "string \<Rightarrow> 'v header option"
  fx_float :: "'v \<Rightarrow> rat option"
  fx_int :: "'v \<Rightarrow> int option"
  fx_hdus :: "string \<Rightarrow> (bool \<times> 'v header) list"

definition FALLBACK_TEMP_C :: rat where
  "FALLBACK_TEMP_C = 5"

definition read_temp :: "('v \<Rightarrow> rat option) \<Rightarrow> 'v header \<Rightarrow> rat option" where
  "read_temp to_float hdr =
     (case find (has_key hdr) [''DET-TEMP'', ''CCD-TEMP'', ''CCDTEMP''] of
        None \<Rightarrow> None
      | Some key \<Rightarrow> Option.bind (map_of hdr key) to_float)"

text \<open>A value that is no number raises.\<close>

definition read_number :: "('v \<Rightarrow> 'n option) \<Rightarrow> 'v header \<Rightarrow> string \<Rightarrow> siril_error + 'n option" where
  "read_number conv hdr key =
     (case map_of hdr key of
        None \<Rightarrow> Inr None
      | Some v \<Rightarrow> (case conv v of None \<Rightarrow> Inl (Bad_Header key) | Some n \<Rightarrow> Inr (Some n)))"

definition read_fits_meta :: "'v fits \<Rightarrow> string \<Rightarrow> siril_error + fits_meta" where
  "read_fits_meta fx path =
     (case fx_header fx path of
        None \<Rightarrow> Inl (Bad_Header path)
      | Some hdr \<Rightarrow>
          rbind (read_number (fx_float fx) hdr ''EXPTIME'') (\<lambda>e.
          rbind (read_number (fx_int fx) hdr ''GAIN'') (\<lambda>g.
          Inr \<lparr>fm_path = path, fm_exptime = e, fm_gain = g, fm_ccd_temp = read_temp (fx_float fx) hdr\<rparr>)))"

section \<open>The pool of darks\<close>

text \<open>
  The metadata the builder threads through: an entry is a mapping with a path; its numbers are what JSON
  gives back, null as None. An entry without a path raises a KeyError.
\<close>

definition entry_field :: "json \<Rightarrow> string \<Rightarrow> json option" where
  "entry_field e k = (case e of JDict d \<Rightarrow> map_of d k | _ \<Rightarrow> None)"

definition json_rat :: "json option \<Rightarrow> rat option" where
  "json_rat v = (case v of Some (JFloat (Fin x)) \<Rightarrow> Some x | Some (JInt i) \<Rightarrow> Some (of_int i) | _ \<Rightarrow> None)"

definition json_int :: "json option \<Rightarrow> int option" where
  "json_int v = (case v of Some (JInt i) \<Rightarrow> Some i | _ \<Rightarrow> None)"

definition entry_path :: "json \<Rightarrow> siril_error + string" where
  "entry_path e = (case entry_field e ''path'' of Some (JStr p) \<Rightarrow> Inr p | _ \<Rightarrow> Inl (Bad_Header ''path''))"

definition entry_meta :: "string \<Rightarrow> json \<Rightarrow> fits_meta" where
  "entry_meta path e =
     \<lparr>fm_path = path, fm_exptime = json_rat (entry_field e ''exptime''), fm_gain = json_int (entry_field e ''gain''),
      fm_ccd_temp = json_rat (entry_field e ''ccd_temp'')\<rparr>"

definition bins_by_path :: "json list \<Rightarrow> siril_error + (string, json) dict" where
  "bins_by_path bins = fold_res (\<lambda>e out. rbind (entry_path e) (\<lambda>p. Inr (dput p e out))) bins []"

fun map_res :: "('a \<Rightarrow> 'e + 'b) \<Rightarrow> 'a list \<Rightarrow> 'e + 'b list" where
  "map_res f [] = Inr []"
| "map_res f (x # xs) = rbind (f x) (\<lambda>y. rbind (map_res f xs) (\<lambda>ys. Inr (y # ys)))"

definition build_dark_pool :: "'v fits \<Rightarrow> ref list \<Rightarrow> json list \<Rightarrow> siril_error + fits_meta list" where
  "build_dark_pool fx dark_refs dark_bins =
     (if dark_bins = [] then map_res (\<lambda>r. read_fits_meta fx (r_path r)) dark_refs
      else rbind (bins_by_path dark_bins) (\<lambda>by_path.
        map_res (\<lambda>r. case map_of by_path (r_path r) of
            None \<Rightarrow> read_fits_meta fx (r_path r)
          | Some e \<Rightarrow> Inr (entry_meta (r_path r) e)) dark_refs))"

section \<open>Routing\<close>

definition serves :: "fits_meta \<Rightarrow> fits_meta \<Rightarrow> bool" where
  "serves light d =
     (case (fm_exptime d, fm_exptime light) of
        (Some de, Some le) \<Rightarrow> \<bar>de - le\<bar> < 1 / 1000
          \<and> (fm_gain d = None \<or> fm_gain light = None \<or> fm_gain d = fm_gain light)
      | _ \<Rightarrow> False)"

text \<open>The key of \<open>min\<close>: the distance in temperature, infinite (the first component) for a dark without one.\<close>

definition dark_distance :: "rat \<Rightarrow> fits_meta \<Rightarrow> nat \<times> rat" where
  "dark_distance lt d = (case fm_ccd_temp d of None \<Rightarrow> (1, 0) | Some t \<Rightarrow> (0, \<bar>t - lt\<bar>))"

definition pick_dark :: "fits_meta \<Rightarrow> fits_meta list \<Rightarrow> fits_meta option" where
  "pick_dark light pool =
     (case filter (serves light) pool of
        [] \<Rightarrow> None
      | d # ds \<Rightarrow> (case fm_ccd_temp light of None \<Rightarrow> Some d | Some lt \<Rightarrow> py_min (dark_distance lt) (d # ds)))"

type_synonym groups = "(string option, string list) dict"

definition add_to :: "'k \<Rightarrow> 'v \<Rightarrow> ('k, 'v list) dict \<Rightarrow> ('k, 'v list) dict" where
  "add_to k v d = dput k ((case map_of d k of None \<Rightarrow> [] | Some vs \<Rightarrow> vs) @ [v]) d"

definition route_light ::
  "fits_meta list \<Rightarrow> fits_meta \<Rightarrow> groups \<times> (string, rat list) dict \<Rightarrow> groups \<times> (string, rat list) dict" where
  "route_light pool lm = (\<lambda>(groups, deltas).
     let chosen = pick_dark lm pool
     in (add_to (map_option fm_path chosen) (fm_path lm) groups,
         case (chosen, Option.bind chosen fm_ccd_temp, fm_ccd_temp lm) of
           (Some d, Some dt, Some lt) \<Rightarrow> add_to (fm_path d) \<bar>dt - lt\<bar> deltas
         | _ \<Rightarrow> deltas))"

definition route_lights :: "fits_meta list \<Rightarrow> fits_meta list \<Rightarrow> groups \<times> (string, rat list) dict" where
  "route_lights pool lights = fold (route_light pool) lights ([], [])"

section \<open>Warnings\<close>

text \<open>The formatted texts and the rounding to two digits are Python's.\<close>

record calibrate_texts =
  ct_fallback :: "string \<Rightarrow> rat \<Rightarrow> string"
  ct_round2 :: "rat \<Rightarrow> rat"
  ct_dropped :: "nat \<Rightarrow> string"
  ct_uncalibrated :: "nat \<Rightarrow> string"
  ct_group :: "nat \<Rightarrow> nat \<Rightarrow> nat \<Rightarrow> string option \<Rightarrow> string"
  ct_wrote :: "string \<Rightarrow> string"
  ct_wrote_groups :: "nat \<Rightarrow> nat \<Rightarrow> string"

definition list_max :: "rat list \<Rightarrow> rat" where
  "list_max xs = (case py_max id xs of None \<Rightarrow> 0 | Some m \<Rightarrow> m)"

definition fallback_warnings :: "calibrate_texts \<Rightarrow> (string, rat list) dict \<Rightarrow> node_call list" where
  "fallback_warnings tx deltas =
     concat (map (\<lambda>(dark, ds). if FALLBACK_TEMP_C < list_max ds then
        [Warn_Call ''fallback'' (ct_fallback tx (name_of dark) (list_max ds))
           (Some [(''dark'', JStr (name_of dark)), (''max_delta_c'', JFloat (Fin (ct_round2 tx (list_max ds)))),
                  (''tolerance_c'', JFloat (Fin FALLBACK_TEMP_C))])] else []) deltas)"

definition settle_uncalibratable :: "calibrate_texts \<Rightarrow> bool \<Rightarrow> groups \<Rightarrow> groups act" where
  "settle_uncalibratable tx exclude groups =
     (let n = (case map_of groups None of None \<Rightarrow> 0 | Some fs \<Rightarrow> length fs)
      in if has_key groups None \<and> exclude then
           ([Warn_Call ''partial'' (ct_dropped tx n) (Some [(''dropped'', JInt (int n))])], Inr (dpop None groups))
         else if 0 < n then
           ([Warn_Call ''partial'' (ct_uncalibrated tx n) (Some [(''uncalibrated'', JInt (int n))])], Inr groups)
         else act_return groups)"

section \<open>One group\<close>

definition pad :: "nat \<Rightarrow> nat \<Rightarrow> string" where
  "pad w n = replicate (w - length (show_nat n)) (CHR ''0'') @ show_nat n"

definition frame_name :: "string \<Rightarrow> nat \<Rightarrow> string" where
  "frame_name basename i = basename @ ''_'' @ pad 5 i @ ''.fit''"

definition scoped_progress :: "nat \<Rightarrow> nat \<Rightarrow> nat \<Rightarrow> rat \<Rightarrow> rat \<Rightarrow> rat \<Rightarrow> rat" where
  "scoped_progress base_done amount all lo hi part =
     (let span = hi - lo;
          width = (if 0 < all then of_nat amount / of_nat all * span else 0);
          base = (if 0 < all then lo + of_nat base_done / of_nat all * span else lo);
          clamped = (if part < 0 then 0 else if 1 < part then 1 else part)
      in base + clamped * width)"

definition calibrate_opts ::
  "(string \<Rightarrow> string) \<Rightarrow> calibrate_params \<Rightarrow> string option \<Rightarrow> string option \<Rightarrow> string option \<Rightarrow> string list" where
  "calibrate_opts resolve ps dark flat bias =
     (case dark of None \<Rightarrow> [] | Some p \<Rightarrow> [''-dark='' @ quote (resolve p)])
     @ (case flat of None \<Rightarrow> [] | Some p \<Rightarrow> [''-flat='' @ quote (resolve p)])
     @ (case bias of None \<Rightarrow> [] | Some p \<Rightarrow> [''-bias='' @ quote (resolve p)])
     @ (if cp_cfa ps then [''-cfa''] else [])
     @ (if cp_cosmetic ps \<and> dark \<noteq> None then [''-cc=dark''] else [])
     @ (if cp_equalize_cfa ps \<and> cp_cfa ps then [''-equalize_cfa''] else [])
     @ (if cp_debayer ps then [''-debayer''] else [])"

definition calibrate_commands :: "(string \<Rightarrow> string) \<Rightarrow> string \<Rightarrow> string \<Rightarrow> string list \<Rightarrow> string list" where
  "calibrate_commands resolve dir basename opts =
     [''cd '' @ quote (resolve dir), ''calibrate '' @ basename @ '' '' @ join '' '' opts]"

text \<open>The links of one group, numbered from 1 in the order of the frames' names.\<close>

definition group_links :: "(string \<Rightarrow> string) \<Rightarrow> string \<Rightarrow> string list \<Rightarrow> 'c listing" where
  "group_links resolve basename frames =
     fold (\<lambda>(i, src) out. dput (frame_name basename i) (Link (resolve src)) out)
       (enumerate 1 (sort_key name_of frames)) []"

definition run_group_calibrate ::
  "(string \<Rightarrow> string) \<Rightarrow> 'c siril \<Rightarrow> bool \<times> bool \<Rightarrow> (rat \<Rightarrow> rat) \<Rightarrow> string \<Rightarrow> string list \<Rightarrow> string option
   \<Rightarrow> calibrate_params \<Rightarrow> string option \<Rightarrow> string option \<Rightarrow> (string \<times> 'c seq_file) list act" where
  "run_group_calibrate resolve siril cancel rescale group_dir frames dark ps flat bias =
     (let basename = cp_input_basename ps; files = group_links resolve basename frames
      in act_bind (siril_run siril cancel
            (calibrate_commands resolve group_dir basename (calibrate_opts resolve ps dark flat bias)) group_dir files
            (\<lambda>ls. progress_calls (map (\<lambda>(f, m). (rescale f, m)) (progress_handler (1 / 5) (19 / 20) 1 '''' ls)))) (\<lambda>r.
         act_bind (check_exit r) (\<lambda>r.
           let outputs = frames_of (''pp_'' @ basename) (sr_dir r)
           in if outputs = [] then act_raise (Missing_Output (''pp_'' @ basename))
              else act_bind (act_lift (drop_staged (dkeys files) (sr_dir r))) (\<lambda>_.
                act_return (map (\<lambda>name. (name, the (map_of (sr_dir r) name))) outputs)))))"

section \<open>The node\<close>

record ('c, 'v) calibrate_env =
  ca_resolve :: "string \<Rightarrow> string"
  ca_siril :: "'c siril"
  ca_cancel :: "nat \<Rightarrow> bool \<times> bool"
  ca_fits :: "'v fits"
  ca_listing :: "string \<Rightarrow> 'c listing option"
  ca_texts :: calibrate_texts

text \<open>At most one dark. Run number 0 of Siril.\<close>

definition run_single ::
  "('c, 'v) calibrate_env \<Rightarrow> string \<Rightarrow> string \<Rightarrow> string option \<Rightarrow> string option \<Rightarrow> string option \<Rightarrow> calibrate_params
   \<Rightarrow> 'c listing act" where
  "run_single ca seq_in seq_out dark flat bias ps =
     (let opts = calibrate_opts (ca_resolve ca) ps dark flat bias @ (if cp_fitseq ps then [''-fitseq''] else []);
          basename = cp_input_basename ps; out_basename = ''pp_'' @ basename;
          commands = calibrate_commands (ca_resolve ca) seq_out basename opts
      in act_bind (act_calls [Progress_Call (1 / 5) ''calibrate: running siril on sequence'']) (\<lambda>_.
         act_bind
           (if cp_fitseq ps then
              run_siril_on_sequence (ca_resolve ca) (ca_siril ca) (ca_cancel ca 0) seq_in (ca_listing ca seq_in) seq_out []
                commands basename out_basename True 1
            else case ca_listing ca seq_in of
              None \<Rightarrow> act_raise (Missing_Input seq_in)
            | Some files \<Rightarrow>
                act_bind (act_lift (stage_sequence (ca_resolve ca) seq_in files seq_out [] basename False)) (\<lambda>(out, staged).
                if staged = [] then act_raise (Missing_Input basename)
                else
                  let n_input = length (filter (\<lambda>name. suffix_of name \<in> {''.fit'', ''.fits''}) staged)
                  in act_bind (siril_run (ca_siril ca) (ca_cancel ca 0) commands seq_out out
                        (progress_calls \<circ> progress_handler (1 / 5) (19 / 20) 1 '''')) (\<lambda>r.
                     act_bind (check_exit r) (\<lambda>r.
                       let frames = frames_of out_basename (sr_dir r)
                       in if frames = [] then act_raise (Missing_Output out_basename)
                          else if length frames \<noteq> n_input then act_raise (Wrong_Count n_input (length frames))
                          else act_bind (act_lift (drop_staged staged (sr_dir r))) (\<lambda>out2.
                            act_return (show_nat (length frames) @ '' frames'', out2))))))
         (\<lambda>(wrote, out). act_bind (act_calls [Progress_Call 1 (ct_wrote (ca_texts ca) wrote)]) (\<lambda>_. act_return out))))"

text \<open>The lights of a run over several darks: their paths, and how to read their headers.\<close>

definition extract_fitseq :: "'v fits \<Rightarrow> string \<Rightarrow> string \<Rightarrow> string \<Rightarrow> (string \<times> 'v header) list" where
  "extract_fitseq fx path scratch basename =
     map (\<lambda>(i, hdr). (child scratch (frame_name basename i), hdr))
       (enumerate 1 (map snd (filter fst (fx_hdus fx path))))"

definition find_lights ::
  "('c, 'v) calibrate_env \<Rightarrow> string \<Rightarrow> string \<Rightarrow> calibrate_params \<Rightarrow> siril_error + (string \<times> 'v header option) list" where
  "find_lights ca seq_in out_dir ps =
     (let basename = cp_input_basename ps; files = ca_listing ca seq_in
      in if cp_fitseq ps then
           (if (case files of None \<Rightarrow> False | Some fs \<Rightarrow> has_key fs (basename @ ''.fit'')) then
              Inr (map (\<lambda>(p, h). (p, Some h))
                 (extract_fitseq (ca_fits ca) (child seq_in (basename @ ''.fit'')) (child out_dir ''_extracted'') basename))
            else Inl (Missing_Input (basename @ ''.fit'')))
         else case files of
           None \<Rightarrow> Inl (Missing_Input seq_in)
         | Some fs \<Rightarrow> Inr (map (\<lambda>name. let p = child seq_in name in (p, fx_header (ca_fits ca) p)) (frames_of basename fs)))"

definition light_meta :: "'v fits \<Rightarrow> string \<times> 'v header option \<Rightarrow> siril_error + fits_meta" where
  "light_meta fx = (\<lambda>(path, hdr). read_fits_meta (fx\<lparr>fx_header := (\<lambda>_. hdr)\<rparr>) path)"

definition PROGRESS_LO :: rat where
  "PROGRESS_LO = 1 / 20"

definition PROGRESS_HI :: rat where
  "PROGRESS_HI = 19 / 20"

text \<open>Moving a group's outputs into the sequence, numbered on; the amount of frames so far.\<close>

definition move_outputs :: "string \<Rightarrow> (string \<times> 'c seq_file) list \<Rightarrow> nat \<times> 'c listing \<Rightarrow> nat \<times> 'c listing" where
  "move_outputs basename outputs st =
     fold (\<lambda>(name, f) (finished, out). (finished + 1, dput (frame_name (''pp_'' @ basename) (finished + 1)) f out)) outputs st"

fun run_groups ::
  "('c, 'v) calibrate_env \<Rightarrow> string \<Rightarrow> calibrate_params \<Rightarrow> string option \<Rightarrow> string option \<Rightarrow> nat \<Rightarrow> nat
   \<Rightarrow> (nat \<times> string option \<times> string list) list \<Rightarrow> nat \<times> 'c listing \<Rightarrow> (nat \<times> 'c listing) act" where
  "run_groups ca out_dir ps flat bias amount all [] st = act_return st"
| "run_groups ca out_dir ps flat bias amount all ((i, dark, frames) # gs) (finished, out) =
     act_bind (act_calls [Progress_Call (PROGRESS_LO + (PROGRESS_HI - PROGRESS_LO) * (of_nat finished / of_nat (max all 1)))
         (ct_group (ca_texts ca) i amount (length frames) (map_option name_of dark))]) (\<lambda>_.
     act_bind (run_group_calibrate (ca_resolve ca) (ca_siril ca) (ca_cancel ca i)
         (scoped_progress finished (length frames) all PROGRESS_LO PROGRESS_HI)
         (child out_dir (''_group_'' @ pad 3 i)) frames dark ps flat bias) (\<lambda>outputs.
     run_groups ca out_dir ps flat bias amount all gs (move_outputs (cp_input_basename ps) outputs (finished, out))))"

definition run_multi ::
  "('c, 'v) calibrate_env \<Rightarrow> string \<Rightarrow> string \<Rightarrow> ref list \<Rightarrow> string option \<Rightarrow> string option \<Rightarrow> calibrate_params
   \<Rightarrow> 'c listing act" where
  "run_multi ca seq_in out_dir dark_refs flat bias ps =
     act_bind (act_calls [Progress_Call (1 / 50) ''calibrate: reading frame headers'']) (\<lambda>_.
     act_bind (act_lift (find_lights ca seq_in out_dir ps)) (\<lambda>lights.
     if lights = [] then act_raise (Missing_Input (cp_input_basename ps))
     else act_bind (act_lift (map_res (light_meta (ca_fits ca)) lights)) (\<lambda>metas.
     act_bind (act_lift (build_dark_pool (ca_fits ca) dark_refs (cp_dark_bins ps))) (\<lambda>pool.
     let (groups, deltas) = route_lights pool metas
     in act_bind (act_calls (fallback_warnings (ca_texts ca) deltas)) (\<lambda>_.
        act_bind (settle_uncalibratable (ca_texts ca) (cp_exclude_uncalibratable ps) groups) (\<lambda>groups.
        if groups = [] then act_raise Nothing_Left
        else
          act_bind (run_groups ca out_dir ps flat bias (length groups) (sum_list (map (length \<circ> snd) groups))
            (enumerate 1 groups) (0, [])) (\<lambda>(finished, out).
          act_bind (act_calls [Progress_Call 1 (ct_wrote_groups (ca_texts ca) finished (length groups))]) (\<lambda>_.
          act_return out))))))))"

definition ref_list :: "node_input option \<Rightarrow> ref list" where
  "ref_list v = (case v of None \<Rightarrow> [] | Some (One r) \<Rightarrow> [r] | Some (Many rs) \<Rightarrow> rs)"

definition one_ref :: "node_input option \<Rightarrow> ref option" where
  "one_ref v = (case v of Some (One r) \<Rightarrow> Some r | _ \<Rightarrow> None)"

text \<open>\<open>CalibrateNode.run\<close>: the ref of the sequence and the entries of its directory.\<close>

definition calibrate_run ::
  "('c, 'v) calibrate_env \<Rightarrow> (string, node_input) dict \<Rightarrow> calibrate_params \<Rightarrow> string \<Rightarrow> (ref \<times> 'c listing) act" where
  "calibrate_run ca inputs ps out_dir =
     (case one_ref (map_of inputs ''sequence'') of
        None \<Rightarrow> act_raise (Missing_Input ''sequence'')
      | Some seq_in \<Rightarrow>
          let seq_out = child out_dir ''sequence'';
              darks = ref_list (map_of inputs ''dark'');
              flat = map_option r_path (one_ref (map_of inputs ''flat''));
              bias = map_option r_path (one_ref (map_of inputs ''bias''))
          in act_bind
               (case darks of
                  [] \<Rightarrow> run_single ca (r_path seq_in) seq_out None flat bias ps
                | [d] \<Rightarrow> run_single ca (r_path seq_in) seq_out (Some (r_path d)) flat bias ps
                | _ \<Rightarrow> run_multi ca (r_path seq_in) out_dir darks flat bias ps)
               (\<lambda>out. act_return (seq_ref seq_out, out)))"

section \<open>Frame names\<close>

lemma digits_value_zeros: "digits_value 0 (replicate k (CHR ''0'') @ s) = digits_value 0 s"
  by (induction k) simp_all

lemma digits_value_pad: "digits_value 0 (pad w n) = n"
  by (simp only: pad_def digits_value_zeros digits_value_show_nat)

lemma frame_name_inj [simp]: "frame_name b i = frame_name b j \<longleftrightarrow> i = j"
proof
  assume "frame_name b i = frame_name b j"
  then have "pad 5 i = pad 5 j" by (simp add: frame_name_def)
  then show "i = j" by (metis digits_value_pad)
qed simp

lemma dput_new: "k \<notin> set (dkeys d) \<Longrightarrow> dput k v d = d @ [(k, v)]"
  by (induction d) auto

definition numbered :: "string \<Rightarrow> nat \<Rightarrow> string list" where
  "numbered b n = map (frame_name b) [1 ..< Suc n]"

lemma numbered_Suc: "numbered b (Suc n) = numbered b n @ [frame_name b (Suc n)]"
  by (simp add: numbered_def)

lemma not_numbered [simp]: "frame_name b (Suc n) \<notin> set (numbered b n)"
  by (auto simp: numbered_def)

lemma move_outputs_numbered:
  assumes "dkeys out = numbered (''pp_'' @ b) n" "move_outputs b outputs (n, out) = (n', out')"
  shows "n' = n + length outputs \<and> dkeys out' = numbered (''pp_'' @ b) n'"
  using assms
proof (induction outputs arbitrary: n out)
  case (Cons o1 os)
  obtain name f where o1: "o1 = (name, f)" by (cases o1)
  let ?out = "dput (frame_name (''pp_'' @ b) (Suc n)) f out"
  have keys: "dkeys ?out = numbered (''pp_'' @ b) (Suc n)"
    using Cons.prems(1) not_numbered [of "''pp_'' @ b" n] by (subst dput_new) (simp_all add: numbered_Suc)
  have "move_outputs b os (Suc n, ?out) = (n', out')" using Cons.prems(2) by (simp add: move_outputs_def o1)
  from Cons.IH [OF keys this] show ?case by simp
qed (simp add: move_outputs_def)

lemma length_group_links: "length (group_links resolve b frames) = length frames"
proof -
  have "length (fold (\<lambda>(i, src) out. dput (frame_name b i) (Link (resolve src)) out) (enumerate k xs) out)
      = length out + length xs" if "\<forall>i. k \<le> i \<longrightarrow> frame_name b i \<notin> set (dkeys out)" for k xs and out :: "'c listing"
    using that
  proof (induction xs arbitrary: k out)
    case (Cons x xs)
    have "frame_name b k \<notin> set (dkeys out)" using Cons.prems by simp
    then have d: "dput (frame_name b k) (Link (resolve x)) out = out @ [(frame_name b k, Link (resolve x))]"
      by (rule dput_new)
    have "\<forall>i. Suc k \<le> i \<longrightarrow> frame_name b i \<notin> set (dkeys (out @ [(frame_name b k, Link (resolve x))]))"
      using Cons.prems by auto
    from Cons.IH [OF this] show ?case by (simp add: d)
  qed simp
  from this [of 1 "[]" "sort_key name_of frames"] show ?thesis by (simp add: group_links_def)
qed

section \<open>Routing is exact\<close>

lemma map_of_add_to: "map_of (add_to k v d) k' =
    (if k' = k then Some ((case map_of d k of None \<Rightarrow> [] | Some vs \<Rightarrow> vs) @ [v]) else map_of d k')"
  by (simp add: add_to_def)

lemma wf_add_to: "wf_dict d \<Longrightarrow> wf_dict (add_to k v d)"
  by (simp add: add_to_def)

lemma fold_add_to:
  "map_of (fold (\<lambda>x. add_to (f x) (g x)) xs d) k =
     (if filter (\<lambda>x. f x = k) xs = [] then map_of d k
      else Some ((case map_of d k of None \<Rightarrow> [] | Some vs \<Rightarrow> vs) @ map g (filter (\<lambda>x. f x = k) xs)))"
  by (induction xs arbitrary: d) (auto simp: map_of_add_to)

definition key_of_light :: "fits_meta list \<Rightarrow> fits_meta \<Rightarrow> string option" where
  "key_of_light pool lm = map_option fm_path (pick_dark lm pool)"

lemma fst_route: "fst (fold (route_light pool) lights (groups, deltas))
    = fold (\<lambda>lm. add_to (key_of_light pool lm) (fm_path lm)) lights groups"
proof (induction lights arbitrary: groups deltas)
  case (Cons lm lights)
  obtain d where "route_light pool lm (groups, deltas) = (add_to (key_of_light pool lm) (fm_path lm) groups, d)"
    by (simp add: route_light_def key_of_light_def Let_def)
  then show ?case using Cons by simp
qed simp

lemma map_of_route:
  "map_of (fst (route_lights pool lights)) key =
     (if filter (\<lambda>lm. key_of_light pool lm = key) lights = [] then None
      else Some (map fm_path (filter (\<lambda>lm. key_of_light pool lm = key) lights)))"
  unfolding route_lights_def fst_route fold_add_to by simp

lemma wf_route: "wf_dict (fst (route_lights pool lights))"
proof -
  have "wf_dict d \<Longrightarrow> wf_dict (fold (\<lambda>lm. add_to (key_of_light pool lm) (fm_path lm)) lights d)" for d
    by (induction lights arbitrary: d) (simp_all add: wf_add_to)
  then show ?thesis by (simp add: route_lights_def fst_route)
qed

lemma pick_dark_None: "pick_dark lm pool = None \<longleftrightarrow> (\<nexists>d. d \<in> set pool \<and> serves lm d)"
proof (cases "filter (serves lm) pool")
  case Nil
  then show ?thesis by (auto simp: pick_dark_def filter_empty_conv)
next
  case (Cons d ds)
  then have "d \<in> set (filter (serves lm) pool)" by simp
  then have "d \<in> set pool \<and> serves lm d" by simp
  then show ?thesis using Cons by (auto simp: pick_dark_def split: option.splits)
qed

lemma pick_dark_Some:
  assumes "pick_dark lm pool = Some d"
  shows "d \<in> set pool" "serves lm d"
    and "fm_ccd_temp lm = Some lt \<Longrightarrow> d' \<in> set pool \<Longrightarrow> serves lm d' \<Longrightarrow> dark_distance lt d \<le> dark_distance lt d'"
proof -
  let ?same = "filter (serves lm) pool"
  from assms obtain e es where same: "?same = e # es"
    by (cases ?same) (auto simp: pick_dark_def)
  have d: "d \<in> set ?same" if "fm_ccd_temp lm = Some lt" for lt
    using assms that py_min_in [of "dark_distance lt" "e # es" d] same by (simp add: pick_dark_def)
  have "d \<in> set ?same" using assms same d by (cases "fm_ccd_temp lm") (auto simp: pick_dark_def)
  then show "d \<in> set pool" "serves lm d" by auto
  show "dark_distance lt d \<le> dark_distance lt d'"
    if "fm_ccd_temp lm = Some lt" "d' \<in> set pool" "serves lm d'" for lt d'
  proof -
    have "d' \<in> set (e # es)" using that(2,3) same [symmetric] by simp
    moreover have "py_min (dark_distance lt) (e # es) = Some d" using assms that(1) same by (simp add: pick_dark_def)
    ultimately show ?thesis by (metis py_min_le)
  qed
qed

text \<open>
  C24: the routing of lights to darks. Each group holds, in their order, exactly the lights whose chosen dark has the
  group's path, and the group without a dark those no dark serves. The dark chosen for a light is one
  of its exposure (within a millisecond) and gain and, if the light has a temperature, none that serves it
  is nearer; a light is left without a dark only if no dark in the pool serves it.
\<close>

theorem lights_routed_to_nearest_dark:
  "map_of (fst (route_lights pool lights)) key =
     (if filter (\<lambda>l. map_option fm_path (pick_dark l pool) = key) lights = [] then None
      else Some (map fm_path (filter (\<lambda>l. map_option fm_path (pick_dark l pool) = key) lights)))
   \<and> (case pick_dark light pool of
        None \<Rightarrow> (\<nexists>d. d \<in> set pool \<and> serves light d)
      | Some d \<Rightarrow> d \<in> set pool \<and> serves light d
          \<and> (\<forall>d' \<in> set pool. \<forall>lt. fm_ccd_temp light = Some lt \<longrightarrow> serves light d' \<longrightarrow> dark_distance lt d \<le> dark_distance lt d'))"
proof (rule conjI, goal_cases)
  case 1
  show ?case by (simp add: map_of_route key_of_light_def)
next
  case 2
  show ?case
  proof (cases "pick_dark light pool")
    case None
    then have "\<nexists>d. d \<in> set pool \<and> serves light d" by (rule iffD1 [OF pick_dark_None])
    then show ?thesis unfolding None option.case by blast
  next
    case (Some d)
    then show ?thesis using pick_dark_Some [OF Some] by auto
  qed
qed

section \<open>Every light becomes one frame\<close>

definition lights_in :: "groups \<Rightarrow> nat" where
  "lights_in groups = sum_list (map (length \<circ> snd) groups)"

lemma lights_in_simps [simp]: "lights_in [] = 0" "lights_in ((k, fs) # gs) = length fs + lights_in gs"
  by (simp_all add: lights_in_def)

lemma lights_in_dput:
  "wf_dict gs \<Longrightarrow> lights_in (dput k fs gs) + (case map_of gs k of None \<Rightarrow> 0 | Some old \<Rightarrow> length old) = lights_in gs + length fs"
proof (induction gs)
  case (Cons g gs)
  then show ?case by (cases g) (auto simp: map_of_eq_None_iff split: option.splits)
qed simp

lemma lights_in_add_to: "wf_dict gs \<Longrightarrow> lights_in (add_to k v gs) = Suc (lights_in gs)"
  using lights_in_dput [of gs k "(case map_of gs k of None \<Rightarrow> [] | Some vs \<Rightarrow> vs) @ [v]"]
  by (cases "map_of gs k") (simp_all add: add_to_def)

lemma lights_in_route: "lights_in (fst (route_lights pool lights)) = length lights"
proof -
  have "wf_dict gs \<Longrightarrow> lights_in (fold (\<lambda>lm. add_to (key_of_light pool lm) (fm_path lm)) lights gs) = lights_in gs + length lights" for gs
    by (induction lights arbitrary: gs) (simp_all add: lights_in_add_to wf_add_to)
  then show ?thesis by (simp add: route_lights_def fst_route)
qed

lemma lights_in_dpop: "wf_dict gs \<Longrightarrow> lights_in (dpop k gs) = lights_in gs - (case map_of gs k of None \<Rightarrow> 0 | Some old \<Rightarrow> length old)"
proof (induction gs)
  case (Cons g gs)
  obtain k' fs where g: "g = (k', fs)" by (cases g)
  show ?case
  proof (cases "k' = k")
    case True
    have "dpop k gs = gs" using Cons.prems g True by (simp add: delete_conv')
    then show ?thesis using g True by simp
  next
    case False
    have "(case map_of gs k of None \<Rightarrow> 0 | Some old \<Rightarrow> length old) \<le> lights_in gs"
    proof (cases "map_of gs k")
      case (Some old)
      then have "(k, old) \<in> set gs" by (rule map_of_SomeD)
      then show ?thesis using Some unfolding lights_in_def by (force intro: member_le_sum_list)
    qed simp
    then show ?thesis using Cons g False by simp
  qed
qed simp

text \<open>What the node relies on Siril for: a successful calibrate leaves one prefixed frame per frame it was given.\<close>

definition one_frame_each :: "string \<Rightarrow> 'c siril \<Rightarrow> bool" where
  "one_frame_each b siril =
     (\<forall>ssf dir files. sr_code (siril ssf dir files) = 0
        \<longrightarrow> length (frames_of (''pp_'' @ b) (sr_dir (siril ssf dir files))) = length files)"

lemma siril_run_Inr:
  assumes "siril_run siril cancel commands dir files on_log = (cs, Inr r)"
  shows "r = siril (compose_ssf commands ''1.4.0'') dir files" "cs = on_log (sr_lines r)"
  using assms by (auto simp: siril_run_def Let_def act_raise_def act_bind_def act_calls_def act_return_def split: if_splits)

lemma check_exit_Inr: "check_exit r = (cs, Inr r') \<longleftrightarrow> cs = [] \<and> r' = r \<and> sr_code r = 0"
  by (auto simp: check_exit_def act_return_def act_raise_def)

lemma run_group_outputs:
  assumes "run_group_calibrate resolve siril cancel rescale dir frames dark ps flat bias = (cs, Inr outputs)"
    and "one_frame_each (cp_input_basename ps) siril"
  shows "length outputs = length frames"
proof -
  let ?b = "cp_input_basename ps"
  let ?files = "group_links resolve ?b frames"
  from assms(1) obtain cs1 r where r: "siril_run siril cancel
        (calibrate_commands resolve dir ?b (calibrate_opts resolve ps dark flat bias)) dir ?files
        (\<lambda>ls. progress_calls (map (\<lambda>(f, m). (rescale f, m)) (progress_handler (1 / 5) (19 / 20) 1 '''' ls))) = (cs1, Inr r)"
      "sr_code r = 0" "outputs = map (\<lambda>name. (name, the (map_of (sr_dir r) name))) (frames_of (''pp_'' @ ?b) (sr_dir r))"
    by (auto simp: run_group_calibrate_def Let_def act_bind_Inr check_exit_Inr act_raise_def act_return_def split: if_splits)
  show ?thesis
    using assms(2) r(2,3) siril_run_Inr(1) [OF r(1)] by (simp add: one_frame_each_def length_group_links)
qed

lemma run_groups_numbered:
  assumes "run_groups ca out_dir ps flat bias amount all gs (n, out) = (cs, Inr (n', out'))"
    and "one_frame_each (cp_input_basename ps) (ca_siril ca)" "dkeys out = numbered (''pp_'' @ cp_input_basename ps) n"
  shows "n' = n + sum_list (map (\<lambda>(i, dark, frames). length frames) gs)
    \<and> dkeys out' = numbered (''pp_'' @ cp_input_basename ps) n'"
  using assms(1,3)
proof (induction gs arbitrary: n out cs)
  case Nil
  then show ?case by (simp add: act_return_def)
next
  case (Cons g gs)
  obtain i dark frames where g: "g = (i, dark, frames)" by (cases g)
  from Cons.prems(1) obtain cs1 outputs cs2 where
    o: "run_group_calibrate (ca_resolve ca) (ca_siril ca) (ca_cancel ca i)
         (scoped_progress n (length frames) all PROGRESS_LO PROGRESS_HI)
         (child out_dir (''_group_'' @ pad 3 i)) frames dark ps flat bias = (cs1, Inr outputs)"
    "run_groups ca out_dir ps flat bias amount all gs (move_outputs (cp_input_basename ps) outputs (n, out)) = (cs2, Inr (n', out'))"
    by (auto simp: g act_bind_Inr)
  obtain n1 out1 where m: "move_outputs (cp_input_basename ps) outputs (n, out) = (n1, out1)" by (cases "move_outputs (cp_input_basename ps) outputs (n, out)")
  from move_outputs_numbered [OF Cons.prems(2) m] run_group_outputs [OF o(1) assms(2)]
  have n1: "n1 = n + length frames" "dkeys out1 = numbered (''pp_'' @ cp_input_basename ps) n1" by simp_all
  from Cons.IH [OF _ n1(2)] o(2) m show ?case by (simp add: g n1(1))
qed

lemma settle_Inr:
  assumes "settle_uncalibratable tx exclude groups = (cs, Inr groups')" "wf_dict groups"
  shows "groups' = (if exclude then dpop None groups else groups)"
  using assms by (auto simp: settle_uncalibratable_def Let_def act_return_def has_key_def delete_conv' map_of_eq_None_iff split: if_splits)

lemma enumerate_lengths: "sum_list (map (\<lambda>(i, dark, frames). length frames) (enumerate k groups)) = lights_in groups"
proof (induction groups arbitrary: k)
  case (Cons g gs)
  then show ?case by (cases g) simp
qed simp

lemma run_multi_Inr:
  assumes "run_multi ca seq_in out_dir dark_refs flat bias ps = (cs, Inr out)"
  obtains lights metas pool groups cs1 cs2 cs3 n where
    "find_lights ca seq_in out_dir ps = Inr lights" "map_res (light_meta (ca_fits ca)) lights = Inr metas"
    "build_dark_pool (ca_fits ca) dark_refs (cp_dark_bins ps) = Inr pool"
    "settle_uncalibratable (ca_texts ca) (cp_exclude_uncalibratable ps) (fst (route_lights pool metas)) = (cs2, Inr groups)"
    "run_groups ca out_dir ps flat bias (length groups) (lights_in groups) (enumerate 1 groups) (0, []) = (cs3, Inr (n, out))"
    "cs = Progress_Call (1 / 50) ''calibrate: reading frame headers''
       # fallback_warnings (ca_texts ca) (snd (route_lights pool metas)) @ cs2 @ cs3
       @ [Progress_Call 1 (ct_wrote_groups (ca_texts ca) n (length groups))]"
  using assms
proof -
  have "\<exists>lights metas pool groups cs2 cs3 n. find_lights ca seq_in out_dir ps = Inr lights
      \<and> map_res (light_meta (ca_fits ca)) lights = Inr metas
      \<and> build_dark_pool (ca_fits ca) dark_refs (cp_dark_bins ps) = Inr pool
      \<and> settle_uncalibratable (ca_texts ca) (cp_exclude_uncalibratable ps) (fst (route_lights pool metas)) = (cs2, Inr groups)
      \<and> run_groups ca out_dir ps flat bias (length groups) (lights_in groups) (enumerate 1 groups) (0, []) = (cs3, Inr (n, out))
      \<and> cs = Progress_Call (1 / 50) ''calibrate: reading frame headers''
         # fallback_warnings (ca_texts ca) (snd (route_lights pool metas)) @ cs2 @ cs3
         @ [Progress_Call 1 (ct_wrote_groups (ca_texts ca) n (length groups))]"
    using assms
    apply (simp add: run_multi_def act_bind_Inr act_lift_Inr act_calls_Inr act_return_Inr act_guard_Inr case_prod_beta Let_def
        flip: lights_in_def)
    apply (elim exE conjE)
    apply (intro exI conjI)
    apply assumption+
    apply simp
    done
  then show thesis using that by blast
qed

lemma lights_in_settled:
  assumes "settle_uncalibratable tx exclude (fst (route_lights pool metas)) = (cs, Inr groups)"
  shows "lights_in groups = length (filter (\<lambda>l. exclude \<longrightarrow> pick_dark l pool \<noteq> None) metas)"
proof -
  let ?gs = "fst (route_lights pool metas)"
  have g: "groups = (if exclude then dpop None ?gs else ?gs)" by (rule settle_Inr [OF assms wf_route])
  have none: "(case map_of ?gs None of None \<Rightarrow> 0 | Some old \<Rightarrow> length old) = length (filter (\<lambda>l. pick_dark l pool = None) metas)"
    by (simp add: map_of_route key_of_light_def)
  have "length (filter (\<lambda>l. pick_dark l pool = None) metas) + length (filter (\<lambda>l. pick_dark l pool \<noteq> None) metas) = length metas"
    by (rule sum_length_filter_compl)
  then show ?thesis
    using lights_in_dpop [OF wf_route, of None pool metas] none by (auto simp: g lights_in_route)
qed

text \<open>
  C21: what a run over several darks leaves. If Siril's calibrate gives one frame per frame, the sequence consists of
  frames numbered from 1 without a gap, as many as there are lights, or with \<open>exclude_uncalibratable\<close>
  as many as have a dark: no light is lost between the groups.
\<close>

theorem calibrated_frames_numbered:
  assumes "run_multi ca seq_in out_dir dark_refs flat bias ps = (cs, Inr out)"
    and "one_frame_each (cp_input_basename ps) (ca_siril ca)"
  shows "\<exists>lights metas pool. find_lights ca seq_in out_dir ps = Inr lights
    \<and> map_res (light_meta (ca_fits ca)) lights = Inr metas
    \<and> build_dark_pool (ca_fits ca) dark_refs (cp_dark_bins ps) = Inr pool
    \<and> map fst out = map (frame_name (''pp_'' @ cp_input_basename ps))
        [1 ..< Suc (length (filter (\<lambda>l. cp_exclude_uncalibratable ps \<longrightarrow> pick_dark l pool \<noteq> None) metas))]"
proof -
  from assms(1) obtain lights metas pool groups cs2 cs3 n where run:
    "find_lights ca seq_in out_dir ps = Inr lights" "map_res (light_meta (ca_fits ca)) lights = Inr metas"
    "build_dark_pool (ca_fits ca) dark_refs (cp_dark_bins ps) = Inr pool"
    "settle_uncalibratable (ca_texts ca) (cp_exclude_uncalibratable ps) (fst (route_lights pool metas)) = (cs2, Inr groups)"
    "run_groups ca out_dir ps flat bias (length groups) (lights_in groups) (enumerate 1 groups) (0, []) = (cs3, Inr (n, out))"
    by (rule run_multi_Inr)
  have "n = lights_in groups \<and> dkeys out = numbered (''pp_'' @ cp_input_basename ps) n"
    using run_groups_numbered [OF run(5) assms(2)] by (simp add: numbered_def enumerate_lengths)
  then show ?thesis using run(1-3) by (auto simp: lights_in_settled [OF run(4)] numbered_def)
qed

section \<open>Progress\<close>

definition fractions :: "node_call list \<Rightarrow> rat list" where
  "fractions cs = List.map_filter (\<lambda>c. case c of Progress_Call f _ \<Rightarrow> Some f | _ \<Rightarrow> None) cs"

lemma fractions_simps [simp]:
  "fractions [] = []" "fractions (Progress_Call f m # cs) = f # fractions cs" "fractions (Warn_Call k m d # cs) = fractions cs"
  "fractions (cs @ cs') = fractions cs @ fractions cs'" "fractions (progress_calls ps) = map fst ps"
  by (simp_all add: fractions_def List.map_filter_def progress_calls_def split: node_call.splits) (induction ps; auto)

lemma fractions_warnings [simp]: "fractions (fallback_warnings tx deltas) = []"
  by (induction deltas) (auto simp: fallback_warnings_def)

lemma fractions_settle [simp]: "fractions (fst (settle_uncalibratable tx exclude groups)) = []"
  by (simp add: settle_uncalibratable_def Let_def act_return_def)

lemma scoped_progress_bounds:
  assumes "n + k \<le> all" "lo \<le> hi"
  shows "lo + of_nat n / of_nat all * (hi - lo) \<le> scoped_progress n k all lo hi p"
    "scoped_progress n k all lo hi p \<le> lo + of_nat (n + k) / of_nat all * (hi - lo)"
    "p \<le> q \<Longrightarrow> scoped_progress n k all lo hi p \<le> scoped_progress n k all lo hi q"
proof -
  define w where "w = of_nat k / of_nat all * (hi - lo)"
  have w: "0 \<le> w" using assms by (simp add: w_def)
  have sp: "scoped_progress n k all lo hi p = lo + of_nat n / of_nat all * (hi - lo) + max 0 (min p 1) * w" for p
    using assms(1) by (auto simp: scoped_progress_def Let_def w_def)
  have c: "0 \<le> max 0 (min p 1) * w" "max 0 (min p 1) * w \<le> 1 * w" for p :: rat
    using w mult_right_mono [of "max 0 (min p 1)" 1 w] by simp_all
  show "lo + of_nat n / of_nat all * (hi - lo) \<le> scoped_progress n k all lo hi p"
    using c(1) by (simp add: sp)
  show "scoped_progress n k all lo hi p \<le> lo + of_nat (n + k) / of_nat all * (hi - lo)"
    using c(2) [of p] by (simp add: sp w_def field_simps add_divide_distrib)
  show "scoped_progress n k all lo hi p \<le> scoped_progress n k all lo hi q" if "p \<le> q"
    using that w by (auto simp: sp intro!: mult_right_mono)
qed

lemma fst_act [simp]: "fst (act_return a) = []" "fst (act_raise e) = []" "fst (act_lift x) = []" "fst (check_exit r) = []"
  by (simp_all add: act_return_def act_raise_def act_lift_def check_exit_def)

lemma run_group_fractions:
  "\<exists>ls. fractions (fst (run_group_calibrate resolve siril cancel rescale dir frames dark ps flat bias)) = []
     \<or> fractions (fst (run_group_calibrate resolve siril cancel rescale dir frames dark ps flat bias))
       = map rescale (map fst (progress_handler (1 / 5) (19 / 20) 1 '''' ls))"
proof -
  have s: "\<exists>ls. fst (siril_run siril cancel cmds dir files on_log) = [] \<or> fst (siril_run siril cancel cmds dir files on_log) = on_log ls"
    for siril :: "'a siril" and cmds dir files on_log
    by (auto simp: siril_run_def Let_def act_bind_calls)
  let ?run = "siril_run siril cancel
      (calibrate_commands resolve dir (cp_input_basename ps) (calibrate_opts resolve ps dark flat bias)) dir
      (group_links resolve (cp_input_basename ps) frames)
      (\<lambda>ls. progress_calls (map (\<lambda>(f, m). (rescale f, m)) (progress_handler (1 / 5) (19 / 20) 1 '''' ls)))"
  have "fst (run_group_calibrate resolve siril cancel rescale dir frames dark ps flat bias) = fst ?run"
    by (simp add: run_group_calibrate_def Let_def act_bind_calls if_distrib [of fst] split: sum.splits)
  moreover obtain ls where "fst ?run = [] \<or>
      fst ?run = progress_calls (map (\<lambda>(f, m). (rescale f, m)) (progress_handler (1 / 5) (19 / 20) 1 '''' ls))"
    using s by blast
  moreover have "map fst (map (\<lambda>(f, m). (rescale f, m)) ps) = map rescale (map fst ps)" for ps :: "(rat \<times> string) list"
    by (simp add: case_prod_beta)
  ultimately show ?thesis by (metis fractions_simps(1,5))
qed

lemma sorted_mono_map:
  fixes f :: "'a :: linorder \<Rightarrow> 'b :: linorder"
  shows "sorted xs \<Longrightarrow> (\<And>x y. x \<le> y \<Longrightarrow> f x \<le> f y) \<Longrightarrow> sorted (map f xs)"
  by (induction xs) auto

lemma group_fractions_bounds:
  assumes "n + k \<le> all"
    and fs: "fs = fractions (fst (run_group_calibrate resolve siril cancel
      (scoped_progress n k all PROGRESS_LO PROGRESS_HI) dir frames dark ps flat bias))"
  shows "sorted fs \<and> (\<forall>f \<in> set fs. PROGRESS_LO + of_nat n / of_nat all * (PROGRESS_HI - PROGRESS_LO) \<le> f
      \<and> f \<le> PROGRESS_LO + of_nat (n + k) / of_nat all * (PROGRESS_HI - PROGRESS_LO))"
proof -
  have lohi: "PROGRESS_LO \<le> PROGRESS_HI" by (simp add: PROGRESS_LO_def PROGRESS_HI_def)
  note b = scoped_progress_bounds [OF assms(1) lohi]
  obtain ls where "fs = [] \<or> fs = map (scoped_progress n k all PROGRESS_LO PROGRESS_HI)
      (map fst (progress_handler (1 / 5) (19 / 20) 1 '''' ls))"
    unfolding fs using run_group_fractions by blast
  moreover have "sorted (map (scoped_progress n k all PROGRESS_LO PROGRESS_HI)
      (map fst (progress_handler (1 / 5) (19 / 20) 1 '''' ls)))"
    by (rule sorted_mono_map [OF progress_handler_monotone(1)]) (simp_all add: b(3))
  ultimately show ?thesis using b(1,2) by auto
qed

definition bar_at :: "nat \<Rightarrow> nat \<Rightarrow> rat" where
  "bar_at n all = PROGRESS_LO + of_nat n / of_nat all * (PROGRESS_HI - PROGRESS_LO)"

lemma bar_at_le: "n \<le> all \<Longrightarrow> bar_at n all \<le> PROGRESS_HI" "m \<le> n \<Longrightarrow> bar_at m all \<le> bar_at n all"
    "PROGRESS_LO \<le> bar_at n all"
proof -
  have d: "0 \<le> PROGRESS_HI - PROGRESS_LO" by (simp add: PROGRESS_LO_def PROGRESS_HI_def)
  show "bar_at m all \<le> bar_at n all" if "m \<le> n"
    using that d by (simp add: bar_at_def mult_right_mono divide_right_mono)
  show "PROGRESS_LO \<le> bar_at n all" using d by (simp add: bar_at_def)
  show "bar_at n all \<le> PROGRESS_HI" if "n \<le> all"
  proof -
    have "(of_nat n / of_nat all :: rat) \<le> 1" using that by (cases "all = 0") (simp_all add: divide_le_eq_1)
    then have "of_nat n / of_nat all * (PROGRESS_HI - PROGRESS_LO) \<le> 1 * (PROGRESS_HI - PROGRESS_LO)"
      using d by (rule mult_right_mono)
    then show ?thesis by (simp add: bar_at_def)
  qed
qed

lemma start_bar: "n \<le> all \<Longrightarrow> PROGRESS_LO + (PROGRESS_HI - PROGRESS_LO) * (of_nat n / of_nat (max all 1)) = bar_at n all"
proof (cases "all = 0")
  case False
  then have "max all 1 = all" by simp
  then show ?thesis by (simp add: bar_at_def)
qed (simp add: bar_at_def)

lemma run_groups_fractions:
  assumes "one_frame_each (cp_input_basename ps) (ca_siril ca)"
    and "n + sum_list (map (\<lambda>(i, dark, frames). length frames) gs) \<le> all"
    and "dkeys out = numbered (''pp_'' @ cp_input_basename ps) n"
  shows "sorted (fractions (fst (run_groups ca out_dir ps flat bias amount all gs (n, out))))
    \<and> (\<forall>f \<in> set (fractions (fst (run_groups ca out_dir ps flat bias amount all gs (n, out)))).
         bar_at n all \<le> f \<and> f \<le> PROGRESS_HI)"
  using assms(2,3)
proof (induction gs arbitrary: n out)
  case (Cons g gs)
  obtain i dark frames where g: "g = (i, dark, frames)" by (cases g)
  let ?k = "length frames"
  let ?group = "run_group_calibrate (ca_resolve ca) (ca_siril ca) (ca_cancel ca i)
         (scoped_progress n ?k all PROGRESS_LO PROGRESS_HI)
         (child out_dir (''_group_'' @ pad 3 i)) frames dark ps flat bias"
  have k: "n + ?k \<le> all" using Cons.prems(1) g by simp
  let ?rest = "case snd ?group of Inl e \<Rightarrow> [] | Inr outputs \<Rightarrow>
      fractions (fst (run_groups ca out_dir ps flat bias amount all gs (move_outputs (cp_input_basename ps) outputs (n, out))))"
  have eq: "fractions (fst (run_groups ca out_dir ps flat bias amount all (g # gs) (n, out)))
      = bar_at n all # fractions (fst ?group) @ ?rest"
    using k start_bar [of n all] by (simp add: g act_bind_calls act_calls_def split: sum.splits)
  have first: "sorted (fractions (fst ?group)) \<and> (\<forall>f \<in> set (fractions (fst ?group)). bar_at n all \<le> f \<and> f \<le> bar_at (n + ?k) all)"
    using group_fractions_bounds [OF k refl] unfolding bar_at_def by blast
  have "sorted ?rest \<and> (\<forall>f \<in> set ?rest. bar_at (n + ?k) all \<le> f \<and> f \<le> PROGRESS_HI)"
  proof (cases "snd ?group")
    case (Inr outputs)
    obtain n1 out1 where m: "move_outputs (cp_input_basename ps) outputs (n, out) = (n1, out1)"
      by (cases "move_outputs (cp_input_basename ps) outputs (n, out)")
    have "?group = (fst ?group, Inr outputs)" using Inr by (metis prod.collapse)
    then have "length outputs = ?k" using run_group_outputs assms(1) by blast
    then have n1: "n1 = n + ?k" "dkeys out1 = numbered (''pp_'' @ cp_input_basename ps) n1"
      using move_outputs_numbered [OF Cons.prems(2) m] by simp_all
    have "n1 + sum_list (map (\<lambda>(i, dark, frames). length frames) gs) \<le> all" using Cons.prems(1) by (simp add: g n1(1))
    from Cons.IH [OF this n1(2)] show ?thesis unfolding Inr sum.case m n1(1) .
  qed simp
  then show ?case
    unfolding eq using first bar_at_le(1) [OF k] bar_at_le(1) [of n all] bar_at_le(2) [of n "n + ?k" all] k
    by (auto simp: sorted_append intro: order_trans)
qed (simp add: act_return_def)

lemma snd_act [simp]: "snd (act_return a) = Inr a" "snd (act_raise e) = Inl e" "snd (act_lift x) = x"
  by (simp_all add: act_return_def act_raise_def act_lift_def)

lemma settle_some: "\<exists>gs. snd (settle_uncalibratable tx exclude groups) = Inr gs"
  by (simp add: settle_uncalibratable_def Let_def)

lemma run_multi_fractions:
  "\<exists>gs. fractions (fst (run_multi ca seq_in out_dir dark_refs flat bias ps))
        \<in> {[1 / 50], 1 / 50 # fractions (fst (run_groups ca out_dir ps flat bias (length gs) (lights_in gs) (enumerate 1 gs) (0, []))),
           1 / 50 # fractions (fst (run_groups ca out_dir ps flat bias (length gs) (lights_in gs) (enumerate 1 gs) (0, []))) @ [1]}
      \<and> (case snd (run_multi ca seq_in out_dir dark_refs flat bias ps) of Inl e \<Rightarrow> True
         | Inr out \<Rightarrow> fractions (fst (run_multi ca seq_in out_dir dark_refs flat bias ps))
             = 1 / 50 # fractions (fst (run_groups ca out_dir ps flat bias (length gs) (lights_in gs) (enumerate 1 gs) (0, []))) @ [1])"
proof -
  note steps = run_multi_def act_bind_calls act_bind_snd Let_def case_prod_beta
  consider lights where "find_lights ca seq_in out_dir ps = Inr lights" "lights \<noteq> []"
    | "\<exists>e. find_lights ca seq_in out_dir ps = Inl e \<or> find_lights ca seq_in out_dir ps = Inr []"
    by (cases "find_lights ca seq_in out_dir ps") auto
  then show ?thesis
  proof cases
    case lights: 1
    show ?thesis
    proof (cases "map_res (light_meta (ca_fits ca)) lights")
      case (Inr metas)
      note metas = this
      show ?thesis
      proof (cases "build_dark_pool (ca_fits ca) dark_refs (cp_dark_bins ps)")
        case (Inr pool)
        let ?settle = "settle_uncalibratable (ca_texts ca) (cp_exclude_uncalibratable ps) (fst (route_lights pool metas))"
        obtain gs where gs: "snd ?settle = Inr gs"
          using settle_some [of "ca_texts ca"] by blast
        show ?thesis
          by (rule exI [of _ gs], cases "snd (run_groups ca out_dir ps flat bias (length gs) (lights_in gs) (enumerate 1 gs) (0, []))")
             (simp_all add: steps lights metas Inr gs act_calls_def lights_in_def)
      qed (simp add: steps lights metas act_calls_def)
    qed (simp add: steps lights act_calls_def)
  qed (auto simp: steps act_calls_def)
qed

text \<open>
  The progress bar. Whatever Siril prints and however the run ends, the fractions a run over several darks reports never
  decrease, although Siril starts each group at nought, and they lie between 0 and 1; a run that succeeds
  ends at 1.
\<close>

theorem calibrate_progress_monotone:
  assumes "one_frame_each (cp_input_basename ps) (ca_siril ca)"
  shows "sorted (fractions (fst (run_multi ca seq_in out_dir dark_refs flat bias ps)))
    \<and> set (fractions (fst (run_multi ca seq_in out_dir dark_refs flat bias ps))) \<subseteq> {0 .. 1}
    \<and> (case snd (run_multi ca seq_in out_dir dark_refs flat bias ps) of Inl e \<Rightarrow> True
       | Inr out \<Rightarrow> last (fractions (fst (run_multi ca seq_in out_dir dark_refs flat bias ps))) = 1)"
proof -
  let ?run = "run_multi ca seq_in out_dir dark_refs flat bias ps"
  let ?groups = "\<lambda>gs. run_groups ca out_dir ps flat bias (length gs) (lights_in gs) (enumerate 1 gs) (0, [])"
  have head: "\<exists>gs. fractions (fst ?run) \<in> {[1 / 50], 1 / 50 # fractions (fst (?groups gs)), 1 / 50 # fractions (fst (?groups gs)) @ [1]}
      \<and> (case snd ?run of Inl e \<Rightarrow> True | Inr out \<Rightarrow> fractions (fst ?run) = 1 / 50 # fractions (fst (?groups gs)) @ [1])"
    by (rule run_multi_fractions)
  then obtain gs where gs: "fractions (fst ?run) \<in> {[1 / 50], 1 / 50 # fractions (fst (?groups gs)), 1 / 50 # fractions (fst (?groups gs)) @ [1]}"
      "case snd ?run of Inl e \<Rightarrow> True | Inr out \<Rightarrow> fractions (fst ?run) = 1 / 50 # fractions (fst (?groups gs)) @ [1]"
    by blast
  have "sorted (fractions (fst (?groups gs))) \<and> (\<forall>f \<in> set (fractions (fst (?groups gs))). bar_at 0 (lights_in gs) \<le> f \<and> f \<le> PROGRESS_HI)"
    by (rule run_groups_fractions [OF assms]) (simp_all add: enumerate_lengths numbered_def)
  then have g: "sorted (fractions (fst (?groups gs)))" "\<forall>f \<in> set (fractions (fst (?groups gs))). 1 / 20 \<le> f \<and> f \<le> 19 / 20"
    by (simp_all add: bar_at_def PROGRESS_LO_def PROGRESS_HI_def)
  define F where "F = fractions (fst (?groups gs))"
  have F: "sorted F" "\<forall>f \<in> set F. 0 \<le> f \<and> 1 / 50 \<le> f \<and> f \<le> 1"
  proof -
    show "sorted F" using g(1) by (simp only: F_def)
    show "\<forall>f \<in> set F. 0 \<le> f \<and> 1 / 50 \<le> f \<and> f \<le> 1"
    proof
      fix f assume "f \<in> set F"
      then have "1 / 20 \<le> f \<and> f \<le> 19 / 20" using g(2) by (simp only: F_def)
      then show "0 \<le> f \<and> 1 / 50 \<le> f \<and> f \<le> 1" by simp
    qed
  qed
  have "sorted (1 / 50 # F @ [1])" "set (1 / 50 # F @ [1]) \<subseteq> {0 .. 1}" "sorted (1 / 50 # F)"
    using F by (auto simp: sorted_append)
  then have "sorted (fractions (fst ?run)) \<and> set (fractions (fst ?run)) \<subseteq> {0 .. 1}"
    using gs(1) unfolding F_def [symmetric] by (elim insertE emptyE) auto
  moreover have "case snd ?run of Inl e \<Rightarrow> True | Inr out \<Rightarrow> last (fractions (fst ?run)) = 1"
    using gs(2) by (cases "snd ?run") simp_all
  ultimately show ?thesis by blast
qed

section \<open>Darks of a built job\<close>

lemma bins_of_metas:
  assumes "list_all2 meta_for rs metas"
  shows "\<exists>d. fold_res (\<lambda>e out. rbind (entry_path e) (\<lambda>p. Inr (dput p e out))) metas d0 = Inr d
    \<and> (\<forall>k. has_key d0 k \<or> k \<in> r_path ` set rs \<longrightarrow> has_key d k)"
  using assms
proof (induction arbitrary: d0 rule: list_all2_induct)
  case (Cons r rs m metas)
  have p: "entry_path m = Inr (r_path r)" using Cons(1) by (auto simp: meta_for_def entry_path_def entry_field_def)
  from Cons(3) [of "dput (r_path r) m d0"] obtain d where
    "fold_res (\<lambda>e out. rbind (entry_path e) (\<lambda>p. Inr (dput p e out))) metas (dput (r_path r) m d0) = Inr d"
    "\<forall>k. has_key (dput (r_path r) m d0) k \<or> k \<in> r_path ` set rs \<longrightarrow> has_key d k"
    by blast
  then show ?case using p by auto
qed simp

lemma map_res_total: "(\<And>x. x \<in> set xs \<Longrightarrow> f x = Inr (g x)) \<Longrightarrow> map_res f xs = Inr (map g xs)"
  by (induction xs) simp_all

text \<open>
  what the job builder and the calibration node agree on. For a node that got a list of darks from the
  builder, the pool is built from the metadata in its overrides alone: it has one entry per dark, in the
  order of the refs, and no FITS header is read, whatever the files hold.
\<close>

theorem built_darks_need_no_headers:
  assumes "build_from_sessions reg resolve digest home ct masters matches session_ids t calibration fs = Inr (job, fs')"
    and "map_of (j_inputs job) (nid @ ''.dark'') = Some (Many rs)" "rs \<noteq> []"
  shows "\<exists>ps metas pool. map_of (j_param_overrides job) nid = Some ps
    \<and> map_of ps ''dark_bins'' = Some (JList metas)
    \<and> (\<forall>fx :: 'v fits. build_dark_pool fx rs metas = Inr pool) \<and> map fm_path pool = map r_path rs"
proof -
  from built_job_aligned [OF assms(1)] assms(2) obtain ps metas where
    ps: "map_of (j_param_overrides job) nid = Some ps" "map_of ps ''dark_bins'' = Some (JList metas)"
      "list_all2 meta_for rs metas"
    unfolding darks_aligned_def fst_conv snd_conv by blast
  from bins_of_metas [OF ps(3), of "[]"] obtain d where
    d: "bins_by_path metas = Inr d" "\<forall>k. k \<in> r_path ` set rs \<longrightarrow> has_key d k"
    unfolding bins_by_path_def by blast
  let ?pool = "map (\<lambda>r. entry_meta (r_path r) (the (map_of d (r_path r)))) rs"
  have "metas \<noteq> []" using ps(3) assms(3) by auto
  moreover have "map_res (\<lambda>r. case map_of d (r_path r) of None \<Rightarrow> read_fits_meta fx (r_path r)
      | Some e \<Rightarrow> Inr (entry_meta (r_path r) e)) rs = Inr ?pool" for fx :: "'v fits"
    by (rule map_res_total) (use d(2) in \<open>force simp: has_key_def\<close>)
  ultimately have "\<forall>fx :: 'v fits. build_dark_pool fx rs metas = Inr ?pool" by (simp add: build_dark_pool_def d(1))
  moreover have "map fm_path ?pool = map r_path rs" by (simp add: entry_meta_def)
  ultimately show ?thesis using ps(1,2) by blast
qed

section \<open>Two darks\<close>

text \<open>A Siril that calibrates: one frame per frame, a progress line in between.\<close>

definition demo_siril :: "unit siril" where
  "demo_siril ssf dir files =
     \<lparr>sr_code = 0, sr_lines = [''log: start'', ''progress: x, 50%''],
      sr_dir = map (\<lambda>i. (frame_name ''pp_light'' i, Data ())) [1 ..< Suc (length files)]\<rparr>"

lemma suffix_of_fit: "s \<noteq> [] \<Longrightarrow> suffix_of (s @ ''.fit'') = ''.fit''"
  by (cases s) (simp_all add: suffix_of_def)

lemma is_frame_of_frame_name: "is_frame_of b (frame_name b i)"
proof -
  have "suffix_of ((b @ ''_'' @ pad 5 i) @ ''.fit'') = ''.fit''" by (rule suffix_of_fit) simp
  moreover have "starts_with (b @ ''_'') ((b @ ''_'') @ pad 5 i @ ''.fit'')" by (rule starts_with_append)
  ultimately show ?thesis by (simp add: is_frame_of_def frame_name_def)
qed

lemma demo_siril_frames: "one_frame_each ''light'' demo_siril"
proof -
  have "filter (is_frame_of ''pp_light'') (map (frame_name ''pp_light'') js) = map (frame_name ''pp_light'') js" for js
    by (simp add: filter_id_conv is_frame_of_frame_name)
  then have "length (frames_of ''pp_light'' (map (\<lambda>i. (frame_name ''pp_light'' i, Data ())) js)) = length js" for js
    by (simp add: frames_of_def comp_def)
  then show ?thesis by (simp add: one_frame_each_def demo_siril_def del: upt_Suc)
qed

definition demo_params :: calibrate_params where
  "demo_params = \<lparr>cp_input_basename = ''light'', cp_fitseq = False, cp_cfa = True, cp_cosmetic = True,
     cp_equalize_cfa = True, cp_debayer = True, cp_exclude_uncalibratable = True, cp_dark_bins = []\<rparr>"

text \<open>The second light has an exposure no dark has; the third is colder.\<close>

definition demo_header :: "string \<Rightarrow> rat header option" where
  "demo_header = map_of
     [(''/s/light_00001.fit'', [(''EXPTIME'', 15), (''CCD-TEMP'', 20)]), (''/s/light_00002.fit'', [(''EXPTIME'', 60)]),
      (''/s/light_00003.fit'', [(''EXPTIME'', 15), (''CCD-TEMP'', 9)]),
      (''/d/warm'', [(''EXPTIME'', 15), (''CCD-TEMP'', 21)]), (''/d/cold'', [(''EXPTIME'', 15), (''CCD-TEMP'', 2)])]"

definition demo_calibrate :: "(unit, rat) calibrate_env" where
  "demo_calibrate =
     \<lparr>ca_resolve = id, ca_siril = demo_siril, ca_cancel = (\<lambda>_. (False, False)),
      ca_fits = \<lparr>fx_header = demo_header, fx_float = Some, fx_int = (\<lambda>x. Some \<lfloor>x\<rfloor>), fx_hdus = (\<lambda>_. [])\<rparr>,
      ca_listing = (\<lambda>d. if d = ''/s'' then Some (map (\<lambda>i. (frame_name ''light'' i, Data ())) [3, 1, 2]) else None),
      ca_texts = \<lparr>ct_fallback = (\<lambda>_ _. ''''), ct_round2 = id, ct_dropped = show_nat, ct_uncalibrated = show_nat,
        ct_group = (\<lambda>_ _ _ _. ''''), ct_wrote = id, ct_wrote_groups = (\<lambda>_ _. '''')\<rparr>\<rparr>"

abbreviation demo_multi :: "unit listing act" where
  "demo_multi \<equiv> run_multi demo_calibrate ''/s'' ''/o''
     [ext_ref ''dark'' ''/d/warm'' MASTER_FITS, ext_ref ''dark'' ''/d/cold'' MASTER_FITS] None None demo_params"

lemma demo_multi_result:
  obtains cs out where "demo_multi = (cs, Inr out)" "map fst out = [''pp_light_00001.fit'', ''pp_light_00002.fit'']"
proof -
  have r: "map_sum id (map fst) (snd demo_multi) = Inr [''pp_light_00001.fit'', ''pp_light_00002.fit'']"
    by code_simp
  then obtain out where "snd demo_multi = Inr out" "map fst out = [''pp_light_00001.fit'', ''pp_light_00002.fit'']"
    by (cases "snd demo_multi") simp_all
  then show thesis using that by (metis prod.collapse)
qed

lemma calibrated_frames_numbered_witness:
  "\<exists>cs out. demo_multi = (cs, Inr out) \<and> map fst out = [''pp_light_00001.fit'', ''pp_light_00002.fit'']
     \<and> (\<exists>n. map fst out = map (frame_name ''pp_light'') [1 ..< Suc n])"
proof -
  obtain cs out where r: "demo_multi = (cs, Inr out)" "map fst out = [''pp_light_00001.fit'', ''pp_light_00002.fit'']"
    by (rule demo_multi_result)
  have "one_frame_each (cp_input_basename demo_params) (ca_siril demo_calibrate)"
    using demo_siril_frames by (simp add: demo_params_def demo_calibrate_def)
  from calibrated_frames_numbered [OF r(1) this]
  have "\<exists>n. map fst out = map (frame_name ''pp_light'') [1 ..< Suc n]" by (auto simp: demo_params_def)
  then show ?thesis by (intro exI [of _ cs] exI [of _ out] conjI r)
qed

lemma calibrate_progress_monotone_witness:
  "\<exists>cs out. demo_multi = (cs, Inr out) \<and> sorted (fractions cs) \<and> last (fractions cs) = 1"
proof -
  obtain cs out where r: "demo_multi = (cs, Inr out)" by (rule demo_multi_result)
  have s: "one_frame_each (cp_input_basename demo_params) (ca_siril demo_calibrate)"
    using demo_siril_frames by (simp add: demo_params_def demo_calibrate_def)
  show ?thesis
    using calibrate_progress_monotone [OF s, of "''/s''" "''/o''"
        "[ext_ref ''dark'' ''/d/warm'' MASTER_FITS, ext_ref ''dark'' ''/d/cold'' MASTER_FITS]" None None] r
    by simp
qed

definition demo_dark_meta :: "string \<Rightarrow> rat option \<Rightarrow> fits_meta" where
  "demo_dark_meta p t = \<lparr>fm_path = p, fm_exptime = Some 15, fm_gain = None, fm_ccd_temp = t\<rparr>"

text \<open>A light at 9 degrees goes to the dark at 2, not to the one at 21 or the one without a temperature.\<close>

lemma lights_routed_to_nearest_dark_witness:
  "map_of (fst (route_lights [demo_dark_meta ''w'' (Some 21), demo_dark_meta ''x'' None, demo_dark_meta ''c'' (Some 2)]
      [demo_dark_meta ''l'' (Some 9)])) (Some ''c'') = Some [''l'']"
proof -
  let ?pool = "[demo_dark_meta ''w'' (Some 21), demo_dark_meta ''x'' None, demo_dark_meta ''c'' (Some 2)]"
  let ?light = "demo_dark_meta ''l'' (Some 9)"
  have p: "map_option fm_path (pick_dark ?light ?pool) = Some ''c''" by code_simp
  show ?thesis
    using lights_routed_to_nearest_dark [of ?pool "[?light]" "Some ''c''" ?light] p
    by (simp add: demo_dark_meta_def)
qed

lemma built_darks_need_no_headers_witness:
  "\<exists>job fs' ps metas pool. stack_build [] = Inr (job, fs') \<and> map_of (j_param_overrides job) ''calibrate'' = Some ps
     \<and> map_of ps ''dark_bins'' = Some (JList metas)
     \<and> build_dark_pool (ca_fits demo_calibrate) [ext_ref ''dark'' ''/m'' MASTER_FITS] metas = Inr pool \<and> map fm_path pool = [''/m'']"
proof -
  obtain job fs' where b: "stack_build [] = Inr (job, fs')"
    "j_inputs job = [(''convert.lights'', One (ext_ref ''lights'' ''/h/lights_stage/7,9'' SEQUENCE_FITS)),
       (''calibrate.dark'', Many [ext_ref ''dark'' ''/m'' MASTER_FITS])]"
    by (rule stack_build)
  have m: "map_of (j_inputs job) (''calibrate'' @ ''.dark'') = Some (Many [ext_ref ''dark'' ''/m'' MASTER_FITS])"
    by (simp add: b(2))
  from built_darks_need_no_headers [OF b(1) m, where 'v = rat] obtain ps metas pool where
    o: "map_of (j_param_overrides job) ''calibrate'' = Some ps" "map_of ps ''dark_bins'' = Some (JList metas)"
      "\<forall>fx :: rat fits. build_dark_pool fx [ext_ref ''dark'' ''/m'' MASTER_FITS] metas = Inr pool" "map fm_path pool = [''/m'']"
    by auto
  show ?thesis
    by (intro exI [of _ job] exI [of _ fs'] exI [of _ ps] exI [of _ metas] exI [of _ pool] conjI b(1) o(1,2,4) spec [OF o(3)])
qed

end
