(* ===== verification/Seq_Nodes.thy ===== *)
theory Seq_Nodes
  imports Calibrate
begin

text \<open>
  The other nodes of the sequence pipeline: \<open>nodes/basic/convert_lights.py\<close>, \<open>seq_resample.py\<close>, \<open>seq_offset.py\<close>,
  \<open>seq_bg_extract.py\<close>, \<open>seq_register.py\<close> and \<open>seq_stack.py\<close>, with the estimates of \<open>nodes/_storage_estimate.py\<close>. Each node
  starts in the empty directory the cache reserved for it; its value is the listing of the directory its ref names
  (of its whole directory for the stack). Siril, the file system's resolution of links and the contents of files
  are arguments; \<open>show\<close> is Python's text of a float. The log is not modelled.
\<close>

section \<open>Storage estimates\<close>

definition SIRIL_OUTPUT_BPS_FLOAT32 :: int where
  "SIRIL_OUTPUT_BPS_FLOAT32 = 4"

text \<open>The FITS files below a directory, in the order they are found: size, and BITPIX when the header is readable.\<close>

type_synonym fits_files = "(nat \<times> int option) list"

definition sample_fits_bitpix :: "fits_files \<Rightarrow> int option" where
  "sample_fits_bitpix files = (case List.map_filter snd files of [] \<Rightarrow> None | b # _ \<Rightarrow> Some (abs b))"

definition seq_total_bytes :: "fits_files \<Rightarrow> nat" where
  "seq_total_bytes files = sum_list (map fst files)"

definition estimate_sequence_output_bytes :: "fits_files option \<Rightarrow> rat \<Rightarrow> int \<Rightarrow> int option" where
  "estimate_sequence_output_bytes input_dir scale output_bps =
     (case input_dir of
        None \<Rightarrow> None
      | Some files \<Rightarrow>
          let total_in = seq_total_bytes files
          in if total_in = 0 then None
             else (case sample_fits_bitpix files of
               None \<Rightarrow> None
             | Some bitpix \<Rightarrow>
                 let in_bps = bitpix div 8
                 in if in_bps \<le> 0 then None
                    else Some (trunc (of_nat total_in * (of_int output_bps / of_int in_bps) * (scale * scale)))))"

definition calibrate_estimate :: "fits_files option option \<Rightarrow> int option" where
  "calibrate_estimate sequence =
     (case sequence of None \<Rightarrow> None | Some input_dir \<Rightarrow> estimate_sequence_output_bytes input_dir 1 SIRIL_OUTPUT_BPS_FLOAT32)"

definition measure_actual_bytes :: "nat list option \<Rightarrow> nat" where
  "measure_actual_bytes sizes = (case sizes of None \<Rightarrow> 0 | Some ns \<Rightarrow> sum_list ns)"

section \<open>Converting the lights\<close>

record convert_params =
  vp_basename :: string
  vp_debayer :: bool
  vp_fitseq :: bool

text \<open>
  What \<open>_is_complete_fits\<close> learns of a file: its size (None when stat fails) and its header (None when it cannot be read):
  NAXIS, and with it BITPIX, the axes and the offset of the data.
\<close>

record fits_probe =
  fp_size :: "int option"
  fp_header :: "(int \<times> int \<times> int list \<times> int) option"

definition padded_bytes :: "int \<Rightarrow> int" where
  "padded_bytes n = ((n + 2879) div 2880) * 2880"

definition expected_size :: "int \<times> int \<times> int list \<times> int \<Rightarrow> int" where
  "expected_size = (\<lambda>(naxis, bitpix, dims, data_offset).
     data_offset + padded_bytes (fold (\<lambda>d n. n * d) dims (abs bitpix div 8)))"

definition is_complete_fits :: "fits_probe \<Rightarrow> bool" where
  "is_complete_fits p =
     (case fp_size p of
        None \<Rightarrow> False
      | Some actual \<Rightarrow>
          if actual = 0 then False
          else (case fp_header p of
            None \<Rightarrow> False
          | Some h \<Rightarrow> if fst h < 2 then True else \<not> actual < expected_size h))"

definition is_input_fits :: "string \<times> 'c seq_file \<Rightarrow> bool" where
  "is_input_fits = (\<lambda>(name, f).
     f \<noteq> Sub_Dir \<and> lower (suffix_of name) \<in> {''.fit'', ''.fits''}
     \<and> \<not> (starts_with ''stacked-'' name \<or> starts_with ''img_'' name))"

definition iter_input_fits :: "'c listing \<Rightarrow> string list" where
  "iter_input_fits files = sort (map fst (filter is_input_fits files))"

definition stage_links :: "(string \<Rightarrow> string) \<Rightarrow> string \<Rightarrow> string list \<Rightarrow> siril_error + 'c listing" where
  "stage_links resolve src names =
     fold_res (\<lambda>name out. put_symlink name (resolve (child src name)) out) names []"

text \<open>A Siril whose script names another directory for its output: the second component is that directory's listing.\<close>

type_synonym 'c siril_out = "string \<Rightarrow> string \<Rightarrow> 'c listing \<Rightarrow> 'c siril_result \<times> 'c listing"

definition siril_of :: "'c siril_out \<Rightarrow> 'c siril" where
  "siril_of so ssf dir files = fst (so ssf dir files)"

definition out_of :: "'c siril_out \<Rightarrow> string list \<Rightarrow> string \<Rightarrow> 'c listing \<Rightarrow> 'c listing" where
  "out_of so commands dir files = snd (so (compose_ssf commands ''1.4.0'') dir files)"

definition convert_commands :: "(string \<Rightarrow> string) \<Rightarrow> string \<Rightarrow> string \<Rightarrow> convert_params \<Rightarrow> string list" where
  "convert_commands resolve staging seq_dir ps =
     [''cd '' @ quote (resolve staging),
      ''convert '' @ vp_basename ps @ '' '' @
        join '' '' ([''-out='' @ resolve seq_dir] @ (if vp_fitseq ps then [''-fitseq''] else [])
          @ (if vp_debayer ps then [''-debayer''] else []))]"

definition convert_lights ::
  "(string \<Rightarrow> string) \<Rightarrow> 'c siril_out \<Rightarrow> bool \<times> bool \<Rightarrow> (string \<Rightarrow> fits_probe) \<Rightarrow> string \<Rightarrow> 'c listing option
   \<Rightarrow> string \<Rightarrow> convert_params \<Rightarrow> 'c listing act" where
  "convert_lights resolve so cancel probe src files out_dir ps =
     (case files of
        None \<Rightarrow> act_raise (Missing_Input src)
      | Some fs \<Rightarrow>
          let candidates = iter_input_fits fs;
              fits_files = filter (\<lambda>name. is_complete_fits (probe (child src name))) candidates;
              skipped = length candidates - length fits_files;
              staging = child out_dir ''_inputs''; seq_dir = child out_dir ''sequence''
          in if candidates = [] then act_raise (Missing_Input src)
             else if fits_files = [] then act_raise Nothing_Left
             else act_bind (act_calls [Progress_Call (1 / 20)
                    (''convert_lights: staging '' @ show_nat (length fits_files) @ '' frames'' @
                     (if skipped = 0 then '''' else '' ('' @ show_nat skipped @ '' corrupt skipped)''))]) (\<lambda>_.
                  act_bind (act_lift (stage_links resolve src fits_files)) (\<lambda>staged.
                  act_bind (act_calls [Progress_Call (1 / 5) ''convert_lights: invoking siril'']) (\<lambda>_.
                  let commands = convert_commands resolve staging seq_dir ps
                  in act_bind (siril_run (siril_of so) cancel commands staging staged
                       (progress_calls \<circ> progress_handler (1 / 5) (19 / 20) 1 '''')) (\<lambda>r.
                     act_bind (check_exit r) (\<lambda>r.
                       let out = out_of so commands staging staged; frames = frames_of (vp_basename ps) out;
                           container = vp_basename ps @ ''.fit''
                       in act_bind
                            (if vp_fitseq ps then
                               (if has_key out container then act_return container else act_raise (Missing_Output container))
                             else if frames = [] then act_raise (Missing_Output (vp_basename ps))
                             else if length frames \<noteq> length fits_files then act_raise (Wrong_Count (length fits_files) (length frames))
                             else act_return (show_nat (length frames) @ '' frames + '' @ vp_basename ps @ ''_conversion.txt'')) (\<lambda>wrote.
                          act_bind (act_calls [Progress_Call 1 (''convert_lights: wrote '' @ wrote)]) (\<lambda>_. act_return out))))))))"

section \<open>Resampling\<close>

text \<open>The names of the parameters are their fields; \<open>[A-Za-z0-9_]+\<close> of bounded length is the pattern of every basename.\<close>

definition basename_char :: "char \<Rightarrow> bool" where
  "basename_char c =
     (let n = of_char c :: nat in 48 \<le> n \<and> n \<le> 57 \<or> 65 \<le> n \<and> n \<le> 90 \<or> 97 \<le> n \<and> n \<le> 122 \<or> n = 95)"

definition valid_basename :: "nat \<Rightarrow> string \<Rightarrow> bool" where
  "valid_basename max_length s = (1 \<le> length s \<and> length s \<le> max_length \<and> list_all basename_char s)"

record resample_params =
  rp_input_basename :: string
  rp_fitseq :: bool
  rp_enabled :: bool
  rp_interp :: string

definition valid_resample :: "resample_params \<Rightarrow> bool" where
  "valid_resample ps =
     (valid_basename 64 (rp_input_basename ps)
      \<and> rp_interp ps \<in> {''nearest'', ''bilinear'', ''cubic'', ''lanczos2'', ''lanczos3'', ''area'', ''nogrid''})"

definition resample_estimate :: "fits_files option \<Rightarrow> resample_params \<Rightarrow> int option" where
  "resample_estimate input_dir ps =
     (if \<not> rp_enabled ps then Some 0 else estimate_sequence_output_bytes input_dir (1 / 2) SIRIL_OUTPUT_BPS_FLOAT32)"

text \<open>The frames of a sequence among the entries of its directory, in the order of their names.\<close>

definition is_source :: "string \<Rightarrow> string \<times> 'c seq_file \<Rightarrow> bool" where
  "is_source basename = (\<lambda>(name, f). f \<noteq> Sub_Dir \<and> is_frame_of basename name)"

definition input_frames :: "string \<Rightarrow> 'c listing \<Rightarrow> string list" where
  "input_frames basename files = sort (map fst (filter (is_source basename) files))"

text \<open>A hard link or a copy: the bytes a path leads to, under another name. \<open>content\<close> follows links.\<close>

definition link_or_copy ::
  "(string \<Rightarrow> 'c) \<Rightarrow> string \<Rightarrow> 'c listing \<Rightarrow> string \<Rightarrow> string \<Rightarrow> 'c listing \<Rightarrow> siril_error + 'c listing" where
  "link_or_copy content src files name dst out =
     (if map_of files name = Some Sub_Dir \<or> map_of out dst = Some Sub_Dir then Inl (Not_Unlinked dst)
      else Inr (dput dst (Data (content (child src name))) (dpop dst out)))"

definition seq_lines :: "string \<Rightarrow> nat \<Rightarrow> string list" where
  "seq_lines out_basename n =
     [''#Siril sequence file. Contains list of images, selection, registration data and statistics'',
      ''#S '' @ [CHR 0x27] @ ''sequence_name'' @ [CHR 0x27] @
        '' start_index nb_images nb_selected fixed_len reference_image version variable_size fz_flag drizzle'',
      ''S '' @ [CHR 0x27] @ out_basename @ ''_'' @ [CHR 0x27] @ '' 1 '' @ show_nat n @ '' '' @ show_nat n @ '' 5 -1 6 0 0 0'',
      ''L -1''] @ map (\<lambda>i. ''I '' @ show_nat (i + 1) @ '' 1'') [0 ..< n]"

definition passthrough_calls :: "nat \<Rightarrow> nat \<Rightarrow> node_call list" where
  "passthrough_calls n i =
     (if i mod 25 = 0 \<or> i = n - 1
      then [Progress_Call (1 / 20 + 17 / 20 * of_nat (i + 1) / of_nat n)
              (''seq_resample: full passthrough '' @ show_nat (i + 1) @ ''/'' @ show_nat n)]
      else [])"

fun passthrough_frames ::
  "(string \<Rightarrow> 'c) \<Rightarrow> string \<Rightarrow> 'c listing \<Rightarrow> string \<Rightarrow> string \<Rightarrow> nat \<Rightarrow> (nat \<times> string) list \<Rightarrow> 'c listing \<Rightarrow> 'c listing act" where
  "passthrough_frames content src files in_basename out_basename n [] out = act_return out"
| "passthrough_frames content src files in_basename out_basename n ((i, name) # rest) out =
     act_bind (act_lift (link_or_copy content src files name (out_basename @ drop (length in_basename) name) out)) (\<lambda>out.
     act_bind (act_calls (passthrough_calls n i)) (\<lambda>_.
     passthrough_frames content src files in_basename out_basename n rest out))"

text \<open>The summary and the entries of \<open>seq_out\<close>; \<open>text_file\<close> makes a file of a text.\<close>

definition passthrough_link ::
  "(string \<Rightarrow> 'c) \<Rightarrow> (string \<Rightarrow> 'c) \<Rightarrow> string \<Rightarrow> 'c listing \<Rightarrow> string \<Rightarrow> string \<Rightarrow> bool \<Rightarrow> (string \<times> 'c listing) act" where
  "passthrough_link content text_file src files in_basename out_basename fitseq =
     (if fitseq then
        (let name = in_basename @ ''.fit''; dst = out_basename @ ''.fit''
         in if \<not> has_key files name then act_raise (Missing_Input name)
            else act_bind (act_lift (link_or_copy content src files name dst [])) (\<lambda>out.
              act_bind (act_calls [Progress_Call 1 (''seq_resample: full passthrough -> '' @ dst)]) (\<lambda>_. act_return (dst, out))))
      else
        let sources = input_frames in_basename files; n = length sources
        in if sources = [] then act_raise (Missing_Input in_basename)
           else act_bind (passthrough_frames content src files in_basename out_basename n (enumerate 0 sources) []) (\<lambda>out.
             act_return (show_nat n @ '' frames (full passthrough)'',
               dput (out_basename @ ''_.seq'') (Data (text_file (join [CHR 0x0A] (seq_lines out_basename n) @ [CHR 0x0A]))) out)))"

text \<open>What the nodes below take from their surroundings.\<close>

record 'c seq_env =
  sq_resolve :: "string \<Rightarrow> string"
  sq_siril :: "'c siril"
  sq_cancel :: "bool \<times> bool"
  sq_listing :: "string \<Rightarrow> 'c listing option"
  sq_content :: "string \<Rightarrow> 'c"
  sq_text_file :: "string \<Rightarrow> 'c"
  sq_show :: "rat \<Rightarrow> string"

text \<open>The last steps of every such node.\<close>

definition finish_sequence :: "string \<Rightarrow> string \<Rightarrow> string \<times> 'c listing \<Rightarrow> (ref \<times> 'c listing) act" where
  "finish_sequence node_name seq_out = (\<lambda>(wrote, out).
     act_bind (act_calls [Progress_Call 1 (node_name @ '': wrote '' @ wrote)]) (\<lambda>_. act_return (seq_ref seq_out, out)))"

definition resample_commands :: "'c seq_env \<Rightarrow> string \<Rightarrow> resample_params \<Rightarrow> string list" where
  "resample_commands sq seq_out ps =
     [''cd '' @ quote (sq_resolve sq seq_out),
      ''seqresample '' @ rp_input_basename ps @ '' -scale=0.5 -interp='' @ rp_interp ps @ '' -prefix=rs_'']"

definition seq_resample :: "'c seq_env \<Rightarrow> string \<Rightarrow> resample_params \<Rightarrow> string \<Rightarrow> (ref \<times> 'c listing) act" where
  "seq_resample sq seq_in ps out_dir =
     (let seq_out = child out_dir ''sequence''; out_basename = ''rs_'' @ rp_input_basename ps
      in case sq_listing sq seq_in of
        None \<Rightarrow> act_raise (Missing_Input seq_in)
      | Some files \<Rightarrow>
          act_bind
            (if \<not> rp_enabled ps then
               passthrough_link (sq_content sq) (sq_text_file sq) seq_in files (rp_input_basename ps) out_basename (rp_fitseq ps)
             else act_bind (act_calls [Progress_Call (1 / 5) ''seq_resample: draft (scale=0.5)'']) (\<lambda>_.
               run_siril_on_sequence (sq_resolve sq) (sq_siril sq) (sq_cancel sq) seq_in (Some files) seq_out []
                 (resample_commands sq seq_out ps) (rp_input_basename ps) out_basename (rp_fitseq ps) 1))
            (finish_sequence ''seq_resample'' seq_out))"

section \<open>The pedestal\<close>

record offset_params =
  op_input_basename :: string
  op_fitseq :: bool
  op_pedestal :: rat

definition valid_offset :: "offset_params \<Rightarrow> bool" where
  "valid_offset ps = (valid_basename 64 (op_input_basename ps) \<and> 0 \<le> op_pedestal ps \<and> op_pedestal ps \<le> 1)"

text \<open>An HDU: its data, if it has any, and its history; the rest is \<open>'h\<close>. \<open>add32\<close> is the sum in single precision.\<close>

record ('p, 'h) hdu =
  hd_data :: "'p option"
  hd_history :: "string list"
  hd_rest :: 'h

record ('c, 'p, 'h) fits_io =
  io_open :: "'c \<Rightarrow> ('p, 'h) hdu list option"
  io_write :: "('p, 'h) hdu list \<Rightarrow> 'c"
  io_add32 :: "rat \<Rightarrow> 'p \<Rightarrow> 'p"
  io_show_g :: "rat \<Rightarrow> string"

definition offset_hdu :: "('c, 'p, 'h) fits_io \<Rightarrow> rat \<Rightarrow> ('p, 'h) hdu \<Rightarrow> ('p, 'h) hdu" where
  "offset_hdu io pedestal h =
     (case hd_data h of
        None \<Rightarrow> h
      | Some d \<Rightarrow> h\<lparr>hd_data := Some (io_add32 io pedestal d),
                     hd_history := hd_history h @ [''astrolab.seq_offset: pedestal='' @ io_show_g io pedestal @ '' added'']\<rparr>)"

definition write_offset :: "('c, 'p, 'h) fits_io \<Rightarrow> rat \<Rightarrow> string \<Rightarrow> 'c \<Rightarrow> siril_error + 'c" where
  "write_offset io pedestal name c =
     (case io_open io c of
        None \<Rightarrow> Inl (Bad_Header name)
      | Some hdus \<Rightarrow> Inr (io_write io (map (offset_hdu io pedestal) hdus)))"

definition offset_frame ::
  "('c, 'p, 'h) fits_io \<Rightarrow> 'c seq_env \<Rightarrow> string \<Rightarrow> 'c listing \<Rightarrow> rat \<Rightarrow> string \<Rightarrow> 'c listing \<Rightarrow> siril_error + 'c listing" where
  "offset_frame io sq src files pedestal name out =
     (if pedestal = 0 then link_or_copy (sq_content sq) src files name name out
      else if map_of files name = Some Sub_Dir then Inl (Bad_Header name)
      else rbind (write_offset io pedestal name (sq_content sq (child src name)))
        (\<lambda>c. Inr (dput name (Data c) out)))"

definition offset_calls :: "nat \<Rightarrow> nat \<Rightarrow> node_call list" where
  "offset_calls n i =
     (if i mod 10 = 0 \<or> i = n - 1
      then [Progress_Call (1 / 20 + 9 / 10 * of_nat (i + 1) / of_nat n)
              (''seq_offset: wrote '' @ show_nat (i + 1) @ ''/'' @ show_nat n)]
      else [])"

text \<open>\<open>cancelled i\<close>: the event is set when frame \<open>i\<close> is about to be written.\<close>

fun offset_frames ::
  "('c, 'p, 'h) fits_io \<Rightarrow> 'c seq_env \<Rightarrow> (nat \<Rightarrow> bool) \<Rightarrow> string \<Rightarrow> 'c listing \<Rightarrow> rat \<Rightarrow> nat \<Rightarrow> (nat \<times> string) list
   \<Rightarrow> 'c listing \<Rightarrow> 'c listing act" where
  "offset_frames io sq cancelled src files pedestal n [] out = act_return out"
| "offset_frames io sq cancelled src files pedestal n ((i, name) # rest) out =
     (if cancelled i then act_raise Siril_Cancelled
      else act_bind (act_lift (offset_frame io sq src files pedestal name out)) (\<lambda>out.
        act_bind (act_calls (offset_calls n i)) (\<lambda>_.
        offset_frames io sq cancelled src files pedestal n rest out)))"

definition copy_index :: "'c seq_env \<Rightarrow> string \<Rightarrow> 'c listing \<Rightarrow> string \<Rightarrow> 'c listing \<Rightarrow> siril_error + 'c listing" where
  "copy_index sq src files name out =
     (if has_key files name then link_or_copy (sq_content sq) src files name name out else Inr out)"

definition apply_offset ::
  "('c, 'p, 'h) fits_io \<Rightarrow> 'c seq_env \<Rightarrow> (nat \<Rightarrow> bool) \<Rightarrow> string \<Rightarrow> 'c listing \<Rightarrow> offset_params \<Rightarrow> (string \<times> 'c listing) act" where
  "apply_offset io sq cancelled src files ps =
     (let basename = op_input_basename ps
      in if op_fitseq ps then
           (let name = basename @ ''.fit''
            in if \<not> has_key files name then act_raise (Missing_Input name)
               else act_bind (act_lift (offset_frame io sq src files (op_pedestal ps) name [])) (\<lambda>out. act_return (name, out)))
         else
           let sources = input_frames basename files; n = length sources
           in if sources = [] then act_raise (Missing_Input basename)
              else act_bind (offset_frames io sq cancelled src files (op_pedestal ps) n (enumerate 0 sources) []) (\<lambda>out.
                act_bind (act_lift (fold_res (copy_index sq src files) [basename @ ''_.seq'', basename @ ''.seq''] out)) (\<lambda>out.
                act_return (show_nat n @ '' frames'', out))))"

definition seq_offset ::
  "('c, 'p, 'h) fits_io \<Rightarrow> 'c seq_env \<Rightarrow> (nat \<Rightarrow> bool) \<Rightarrow> string \<Rightarrow> offset_params \<Rightarrow> string \<Rightarrow> (ref \<times> 'c listing) act" where
  "seq_offset io sq cancelled seq_in ps out_dir =
     (case sq_listing sq seq_in of
        None \<Rightarrow> act_raise (Missing_Input seq_in)
      | Some files \<Rightarrow>
          act_bind (apply_offset io sq cancelled seq_in files ps) (finish_sequence ''seq_offset'' (child out_dir ''sequence'')))"

section \<open>Subtracting the background\<close>

record bg_params =
  bp_input_basename :: string
  bp_fitseq :: bool
  bp_degree :: nat
  bp_samples :: nat

definition valid_bg :: "bg_params \<Rightarrow> bool" where
  "valid_bg ps =
     (valid_basename 64 (bp_input_basename ps) \<and> 1 \<le> bp_degree ps \<and> bp_degree ps \<le> 4 \<and> 4 \<le> bp_samples ps \<and> bp_samples ps \<le> 50)"

definition bg_commands :: "'c seq_env \<Rightarrow> string \<Rightarrow> bg_params \<Rightarrow> string list" where
  "bg_commands sq seq_out ps =
     [''cd '' @ quote (sq_resolve sq seq_out),
      ''seqsubsky '' @ bp_input_basename ps @ '' '' @ show_nat (bp_degree ps) @ '' -samples='' @ show_nat (bp_samples ps)]"

definition seq_bg_extract :: "'c seq_env \<Rightarrow> string \<Rightarrow> bg_params \<Rightarrow> string \<Rightarrow> (ref \<times> 'c listing) act" where
  "seq_bg_extract sq seq_in ps out_dir =
     (let seq_out = child out_dir ''sequence''
      in act_bind (act_calls [Progress_Call (1 / 5) ''seq_bg_extract: subtracting background'']) (\<lambda>_.
         act_bind
           (run_siril_on_sequence (sq_resolve sq) (sq_siril sq) (sq_cancel sq) seq_in (sq_listing sq seq_in) seq_out []
              (bg_commands sq seq_out ps) (bp_input_basename ps) (''bkg_'' @ bp_input_basename ps) (bp_fitseq ps) 1)
           (finish_sequence ''seq_bg_extract'' seq_out)))"

section \<open>Registration\<close>

datatype register_method = Platesolve | Star

record register_params =
  gp_input_basename :: string
  gp_fitseq :: bool
  gp_method :: register_method
  gp_distortion :: bool
  gp_two_pass :: bool
  gp_transform :: string
  gp_min_pairs :: nat
  gp_framing :: string
  gp_kernel :: string
  gp_filter_fwhm :: "rat option"
  gp_filter_round :: "rat option"
  gp_drizzle :: bool
  gp_drizzle_scale :: nat
  gp_drizzle_dropsize :: rat

definition fraction :: "rat option \<Rightarrow> bool" where
  "fraction x = (case x of None \<Rightarrow> True | Some f \<Rightarrow> 0 \<le> f \<and> f \<le> 1)"

definition valid_register :: "register_params \<Rightarrow> bool" where
  "valid_register ps =
     (valid_basename 64 (gp_input_basename ps)
      \<and> gp_transform ps \<in> {''homography'', ''affine'', ''similarity'', ''shift''}
      \<and> 4 \<le> gp_min_pairs ps \<and> gp_min_pairs ps \<le> 200
      \<and> gp_framing ps \<in> {''max'', ''min'', ''cog'', ''first'', ''none''}
      \<and> gp_kernel ps \<in> {''square'', ''nearest'', ''cubic'', ''lanczos2'', ''lanczos3''}
      \<and> fraction (gp_filter_fwhm ps) \<and> fraction (gp_filter_round ps)
      \<and> gp_drizzle_scale ps \<in> {1, 2, 3} \<and> 1 / 10 \<le> gp_drizzle_dropsize ps \<and> gp_drizzle_dropsize ps \<le> 1)"

definition register_estimate :: "fits_files option \<Rightarrow> register_params \<Rightarrow> int option" where
  "register_estimate input_dir ps =
     estimate_sequence_output_bytes input_dir (if gp_drizzle ps then of_nat (gp_drizzle_scale ps) else 1) SIRIL_OUTPUT_BPS_FLOAT32"

definition flag :: "bool \<Rightarrow> string \<Rightarrow> string list" where
  "flag b s = (if b then [s] else [])"

definition apply_opts :: "(rat \<Rightarrow> string) \<Rightarrow> register_params \<Rightarrow> string list" where
  "apply_opts show ps =
     [''-framing='' @ gp_framing ps, ''-kernel='' @ gp_kernel ps]
     @ (case gp_filter_fwhm ps of None \<Rightarrow> [] | Some f \<Rightarrow> [''-filter-fwhm='' @ show f])
     @ (case gp_filter_round ps of None \<Rightarrow> [] | Some f \<Rightarrow> [''-filter-round='' @ show f])
     @ (if gp_drizzle ps
        then [''-drizzle'', ''-scale='' @ show_nat (gp_drizzle_scale ps), ''-pixfrac='' @ show (gp_drizzle_dropsize ps)] else [])"

definition rstrip :: "string \<Rightarrow> string" where
  "rstrip s = rev (dropWhile is_space (rev s))"

definition align_commands :: "(rat \<Rightarrow> string) \<Rightarrow> register_params \<Rightarrow> string list" where
  "align_commands show ps =
     (let basename = gp_input_basename ps;
          applied = rstrip (''seqapplyreg '' @ basename @ '' '' @ join '' '' (apply_opts show ps))
      in case gp_method ps of
        Platesolve \<Rightarrow>
          [''seqplatesolve '' @ basename @ '' '' @
             join '' '' ([''-nocache'', ''-force''] @ flag (gp_distortion ps) ''-disto=ps_distortion''), applied]
      | Star \<Rightarrow>
          [''register '' @ basename @ '' '' @
             join '' '' ([''-transf='' @ gp_transform ps, ''-minpairs='' @ show_nat (gp_min_pairs ps)]
               @ flag (gp_two_pass ps) ''-2pass''), applied])"

definition register_message :: "register_method \<Rightarrow> string" where
  "register_message m =
     (case m of Platesolve \<Rightarrow> ''seq_register: plate-solving sequence'' | Star \<Rightarrow> ''seq_register: star-aligning sequence'')"

definition seq_register :: "'c seq_env \<Rightarrow> string \<Rightarrow> register_params \<Rightarrow> string \<Rightarrow> (ref \<times> 'c listing) act" where
  "seq_register sq seq_in ps out_dir =
     (let seq_out = child out_dir ''sequence''
      in act_bind (act_calls [Progress_Call (1 / 5) (register_message (gp_method ps))]) (\<lambda>_.
         act_bind
           (run_siril_on_sequence (sq_resolve sq) (sq_siril sq) (sq_cancel sq) seq_in (sq_listing sq seq_in) seq_out []
              ((''cd '' @ quote (sq_resolve sq seq_out)) # align_commands (sq_show sq) ps)
              (gp_input_basename ps) (''r_'' @ gp_input_basename ps) (gp_fitseq ps) 2)
           (finish_sequence ''seq_register'' seq_out)))"

section \<open>Stacking\<close>

datatype stack_method = Rej | Mean | Median | Stack_Min | Stack_Max | Stack_Sum

definition method_name :: "stack_method \<Rightarrow> string" where
  "method_name m = (case m of Rej \<Rightarrow> ''rej'' | Mean \<Rightarrow> ''mean'' | Median \<Rightarrow> ''median''
     | Stack_Min \<Rightarrow> ''min'' | Stack_Max \<Rightarrow> ''max'' | Stack_Sum \<Rightarrow> ''sum'')"

record stack_params =
  kp_input_basename :: string
  kp_fitseq :: bool
  kp_method :: stack_method
  kp_sigma_low :: rat
  kp_sigma_high :: rat
  kp_rejection_type :: string
  kp_norm :: string
  kp_output_norm :: bool
  kp_weight_from_quality :: bool
  kp_rgb_equal :: bool
  kp_maximize :: bool
  kp_filter_included :: bool

definition valid_stack :: "stack_params \<Rightarrow> bool" where
  "valid_stack ps =
     (valid_basename 64 (kp_input_basename ps)
      \<and> 0 < kp_sigma_low ps \<and> kp_sigma_low ps \<le> 10 \<and> 0 < kp_sigma_high ps \<and> kp_sigma_high ps \<le> 10
      \<and> kp_rejection_type ps \<in> {''w'', ''s'', ''p'', ''l'', ''m'', ''n''}
      \<and> kp_norm ps \<in> {''no'', ''add'', ''addscale'', ''mul'', ''mulscale''})"

definition stack_parts :: "(rat \<Rightarrow> string) \<Rightarrow> stack_params \<Rightarrow> string \<Rightarrow> string list" where
  "stack_parts show ps out_image =
     [''stack '' @ kp_input_basename ps @ '' '' @ method_name (kp_method ps)]
     @ (if kp_method ps = Rej
        then [kp_rejection_type ps, show (kp_sigma_low ps) @ '' '' @ show (kp_sigma_high ps), ''-norm='' @ kp_norm ps]
        else if kp_method ps \<in> {Mean, Median} then [''-norm='' @ kp_norm ps] else [])
     @ flag (kp_output_norm ps) ''-output_norm'' @ flag (kp_rgb_equal ps) ''-rgb_equal'' @ flag (kp_maximize ps) ''-maximize''
     @ flag (kp_filter_included ps) ''-filter-included'' @ flag (kp_weight_from_quality ps) ''-weight=wfwhm''
     @ [''-out='' @ quote out_image]"

definition stack_commands :: "'c seq_env \<Rightarrow> string \<Rightarrow> string \<Rightarrow> stack_params \<Rightarrow> string list" where
  "stack_commands sq work_dir out_image ps =
     [''cd '' @ quote (sq_resolve sq work_dir), join '' '' (stack_parts (sq_show sq) ps (sq_resolve sq out_image))]"

definition image_ref :: "string \<Rightarrow> ref" where
  "image_ref path = \<lparr>r_node_hash = '''', r_port = ''image'', r_path = path, r_type = IMAGE_FITS, r_display_ready = False\<rparr>"

text \<open>The entries of \<open>out_dir\<close>: what Siril wrote beside the working directory, and that directory when something is left in it.\<close>

definition seq_stack ::
  "'c seq_env \<Rightarrow> 'c siril_out \<Rightarrow> string \<Rightarrow> stack_params \<Rightarrow> string \<Rightarrow> (ref \<times> 'c listing) act" where
  "seq_stack sq so seq_in ps out_dir =
     (case sq_listing sq seq_in of
        None \<Rightarrow> act_raise (Missing_Input seq_in)
      | Some files \<Rightarrow>
          let work_dir = child out_dir ''_stack''; out_image = child out_dir ''image.fit''
          in act_bind (act_lift (stage_sequence (sq_resolve sq) seq_in files work_dir [] (kp_input_basename ps) (kp_fitseq ps)))
               (\<lambda>(work, staged).
             if staged = [] then act_raise (Missing_Input (kp_input_basename ps))
             else act_bind (act_calls [Progress_Call (1 / 5) (''seq_stack: stacking ('' @ method_name (kp_method ps) @ '')'')]) (\<lambda>_.
               let commands = stack_commands sq work_dir out_image ps
               in act_bind (siril_run (siril_of so) (sq_cancel sq) commands work_dir work
                    (progress_calls \<circ> progress_handler (1 / 5) (19 / 20) 1 '''')) (\<lambda>r.
                  act_bind (check_exit r) (\<lambda>r.
                    let out = out_of so commands work_dir work
                    in if \<not> has_key out ''image.fit'' then act_raise (Missing_Output ''image.fit'')
                       else act_bind (act_lift (drop_staged staged (sr_dir r))) (\<lambda>left_over.
                         act_bind (act_calls [Progress_Call 1 ''seq_stack: wrote image.fit'']) (\<lambda>_.
                         act_return (image_ref out_image,
                           if left_over = [] then out else dput ''_stack'' Sub_Dir out))))))))"

section \<open>What passes through\<close>

lemma suffix_of_nonempty:
  assumes "suffix_of name = s" "s \<noteq> ''''"
  obtains x where "name = x @ s" "x \<noteq> []" "hd s = CHR ''.''"
proof -
  let ?after = "takeWhile (\<lambda>c. c \<noteq> CHR ''.'') (rev name)" and ?rest = "dropWhile (\<lambda>c. c \<noteq> CHR ''.'') (rev name)"
  have s: "\<not> length ?rest \<le> 1" "s = CHR ''.'' # rev ?after"
    using assms by (auto simp: suffix_of_def Let_def split: if_splits)
  then obtain c r where rest: "?rest = c # r" "r \<noteq> []" by (cases ?rest; cases "tl ?rest") auto
  then have "c = CHR ''.''" using hd_dropWhile [of "\<lambda>c. c \<noteq> CHR ''.''" "rev name"] by simp
  then have "rev name = ?after @ CHR ''.'' # r" using rest takeWhile_dropWhile_id [of "\<lambda>c. c \<noteq> CHR ''.''" "rev name"] by simp
  then have "rev (rev name) = rev (?after @ CHR ''.'' # r)" by (rule arg_cong)
  then have "name = rev r @ s" using s by simp
  then show ?thesis using that [of "rev r"] rest s by simp
qed

lemma suffix_of_append:
  assumes "x \<noteq> []" "CHR ''.'' \<notin> set s" "s \<noteq> []"
  shows "suffix_of (x @ CHR ''.'' # s) = CHR ''.'' # s"
proof -
  have "takeWhile (\<lambda>c. c \<noteq> CHR ''.'') (rev s @ CHR ''.'' # rev x) = rev s" "dropWhile (\<lambda>c. c \<noteq> CHR ''.'') (rev s @ CHR ''.'' # rev x) = CHR ''.'' # rev x"
    using assms by (subst takeWhile_append2 dropWhile_append2; force)+
  then show ?thesis using assms by (simp add: suffix_of_def)
qed

text \<open>A frame keeps its suffix under another basename.\<close>

definition renamed :: "string \<Rightarrow> string \<Rightarrow> string \<Rightarrow> string" where
  "renamed b b' name = b' @ drop (length b) name"

lemma is_frame_ofE:
  assumes "is_frame_of b name"
  obtains y s where "name = b @ ''_'' @ y @ CHR ''.'' # s" "s = ''fit'' \<or> s = ''fits''"
proof -
  obtain r where name: "name = b @ ''_'' @ r" and s: "suffix_of name \<in> {''.fit'', ''.fits''}"
    using assms by (auto simp: is_frame_of_def elim: starts_withE)
  obtain x where x: "name = x @ suffix_of name" using suffix_of_nonempty [OF refl] s by (metis insertE list.distinct(1) singletonD)
  then obtain t where t: "name = x @ CHR ''.'' # t" "t = ''fit'' \<or> t = ''fits''" using s by auto
  then have "(b @ ''_'') @ r = x @ CHR ''.'' # t" using name by simp
  then consider us where "r = us @ CHR ''.'' # t" | us where "us \<noteq> []" "CHR ''.'' # t = us @ r" "b @ ''_'' = x @ us"
    unfolding append_eq_append_conv2 by (metis append.right_neutral append_Nil)
  then show ?thesis
  proof cases
    case 1
    then show ?thesis using that [of us t] name t by simp
  next
    case 2
    then have "last us = CHR ''_''" by (metis last_appendR last_snoc)
    then have "CHR ''_'' \<in> set (CHR ''.'' # t)" using 2(1,2) by (metis Un_iff last_in_set set_append)
    then show ?thesis using t(2) by auto
  qed
qed

lemma is_frame_of_build:
  "s = ''fit'' \<or> s = ''fits'' \<Longrightarrow> is_frame_of b (b @ ''_'' @ y @ CHR ''.'' # s)"
  using suffix_of_append [of "b @ ''_'' @ y" s] starts_with_append [of "b @ ''_''" "y @ CHR ''.'' # s"]
  by (auto simp: is_frame_of_def)

lemma renamed_frame: "is_frame_of b name \<Longrightarrow> is_frame_of b' (renamed b b' name)"
  using is_frame_of_build [of _ b'] by (auto elim!: is_frame_ofE simp: renamed_def)

lemma frame_has_base: "is_frame_of b name \<Longrightarrow> name = b @ drop (length b) name"
  by (erule is_frame_ofE) simp

lemma renamed_eq: "is_frame_of b x \<Longrightarrow> is_frame_of b y \<Longrightarrow> renamed b b' x = renamed b b' y \<longleftrightarrow> x = y"
  by (metis frame_has_base renamed_def same_append_eq)

lemma append_le_append: "b @ x \<le> b @ y \<longleftrightarrow> x \<le> (y :: string)"
  by (induction b) auto

lemma renamed_mono: "is_frame_of b x \<Longrightarrow> is_frame_of b y \<Longrightarrow> x \<le> y \<Longrightarrow> renamed b b' x \<le> renamed b b' y"
  by (metis frame_has_base renamed_def append_le_append)

lemma is_frame_of_index: "\<not> is_frame_of b (b @ ''_.seq'')"
proof -
  have "suffix_of ((b @ ''_'') @ CHR ''.'' # ''seq'') = ''.seq''" by (rule suffix_of_append) simp_all
  then show ?thesis by (simp add: is_frame_of_def)
qed

text \<open>The frames of a sequence under a new basename, with the bytes their paths lead to.\<close>

definition carried :: "(string \<Rightarrow> string) \<Rightarrow> (string \<Rightarrow> 'c) \<Rightarrow> string \<Rightarrow> string list \<Rightarrow> 'c listing" where
  "carried f content src names = map (\<lambda>name. (f name, Data (content (child src name)))) names"

lemma dkeys_carried [simp]: "dkeys (carried f content src names) = map f names"
  by (simp add: carried_def comp_def)

lemma map_of_carried:
  "inj_on f (set names) \<Longrightarrow> name \<in> set names \<Longrightarrow> map_of (carried f content src names) (f name) = Some (Data (content (child src name)))"
  by (induction names) (auto simp: carried_def inj_on_def)

lemma input_frames_frame: "name \<in> set (input_frames b files) \<Longrightarrow> is_frame_of b name"
  by (auto simp: input_frames_def is_source_def)

lemma input_frames_distinct: "wf_dict files \<Longrightarrow> distinct (input_frames b files)"
  by (simp add: input_frames_def distinct_map_filter)

lemma sorted_input_frames: "sorted (input_frames b files)"
  by (simp add: input_frames_def)

lemma passthrough_frames_out:
  assumes "passthrough_frames content src files b b' n ns out = (cs, Inr out')"
    and "distinct (map (renamed b b' \<circ> snd) ns)" "set (map (renamed b b' \<circ> snd) ns) \<inter> set (dkeys out) = {}"
  shows "out' = out @ carried (renamed b b') content src (map snd ns)"
  using assms
proof (induction ns arbitrary: out cs)
  case Nil
  then show ?case by (simp add: act_iff carried_def)
next
  case (Cons p ns)
  obtain i name where p: "p = (i, name)" by (cases p)
  obtain out1 cs2 where one: "link_or_copy content src files name (renamed b b' name) out = Inr out1"
    and rest: "passthrough_frames content src files b b' n ns out1 = (cs2, Inr out')"
    using Cons.prems(1) by (auto simp: p act_iff renamed_def)
  have "out1 = out @ [(renamed b b' name, Data (content (child src name)))]"
    using one Cons.prems(3) by (auto simp: link_or_copy_def p dput_new delete_id split: if_splits)
  moreover have "out' = out1 @ carried (renamed b b') content src (map snd ns)"
    by (rule Cons.IH [OF rest]) (use Cons.prems(2,3) calculation p in auto)
  ultimately show ?case by (simp add: carried_def p)
qed

lemma input_frames_only:
  assumes "wf_dict out" "\<And>name f. (name, f) \<in> set out \<Longrightarrow> is_source b (name, f) \<longleftrightarrow> name \<in> set names"
    and "sorted names" "distinct names" "set names \<subseteq> set (dkeys out)"
  shows "input_frames b out = names"
proof (rule sorted_distinct_set_unique)
  show "set (input_frames b out) = set names" using assms(2,5) by (fastforce simp: input_frames_def)
qed (use assms in \<open>simp_all add: input_frames_def distinct_map_filter\<close>)

lemma inj_renamed: "inj_on (renamed b b') (set (input_frames b files))"
  by (rule inj_onI) (simp add: renamed_eq input_frames_frame)

lemma index_not_renamed: "b' @ ''_.seq'' \<notin> renamed b b' ` set (input_frames b files)"
proof
  assume "b' @ ''_.seq'' \<in> renamed b b' ` set (input_frames b files)"
  then obtain name where "b' @ ''_.seq'' = renamed b b' name" "name \<in> set (input_frames b files)" by (rule imageE)
  then have "is_frame_of b' (b' @ ''_.seq'')" by (simp only: renamed_frame input_frames_frame)
  then show False by (simp add: is_frame_of_index)
qed

lemma passthrough_link_out:
  assumes "passthrough_link content text_file src files b b' False = (cs, Inr (wrote, out))" "wf_dict files"
  obtains c where "out = carried (renamed b b') content src (input_frames b files) @ [(b' @ ''_.seq'', Data c)]"
proof -
  let ?ns = "input_frames b files"
  obtain cs1 out1 where run: "passthrough_frames content src files b b' (length ?ns) (enumerate 0 ?ns) [] = (cs1, Inr out1)"
    and out: "out = dput (b' @ ''_.seq'') (Data (text_file (join [CHR 0x0A] (seq_lines b' (length ?ns)) @ [CHR 0x0A]))) out1"
    using assms(1) by (auto simp: passthrough_link_def Let_def act_iff)
  have snds: "map snd (enumerate 0 ?ns) = ?ns" by (simp add: enumerate_eq_zip)
  have "distinct (map (renamed b b') ?ns)"
    using input_frames_distinct [OF assms(2)] by (simp add: distinct_map inj_renamed)
  then have out1: "out1 = carried (renamed b b') content src ?ns"
    using passthrough_frames_out [OF run] by (simp add: snds flip: map_map)
  have "b' @ ''_.seq'' \<notin> set (dkeys out1)"
    using index_not_renamed [of b' b files] by (simp add: out1)
  then show ?thesis using that out out1 by (simp add: dput_new)
qed

lemma carried_sources:
  assumes "inj_on f (set names)" "\<And>name. name \<in> set names \<Longrightarrow> is_frame_of b (f name)"
    and "(name, e) \<in> set (carried f content src names @ [(b @ ''_.seq'', Data c)])"
  shows "is_source b (name, e) \<longleftrightarrow> name \<in> f ` set names"
  using assms is_frame_of_index [of b] by (auto simp: carried_def is_source_def)

lemma passthrough_link_frames:
  assumes "passthrough_link content text_file src files b b' False = (cs, Inr (wrote, out))" "wf_dict files"
  shows "input_frames b' out = map (renamed b b') (input_frames b files)"
    and "name \<in> set (input_frames b files) \<Longrightarrow> map_of out (renamed b b' name) = Some (Data (content (child src name)))"
    and "wf_dict out"
proof -
  let ?ns = "input_frames b files" and ?f = "renamed b b'"
  obtain c where out: "out = carried ?f content src ?ns @ [(b' @ ''_.seq'', Data c)]"
    using passthrough_link_out [OF assms] .
  note inj = inj_renamed [of b b' files]
  have frame: "is_frame_of b' (?f name)" if "name \<in> set ?ns" for name
    using renamed_frame input_frames_frame that by metis
  note fresh = index_not_renamed [of b' b files]
  show wf: "wf_dict out"
    using fresh input_frames_distinct [OF assms(2), of b] by (simp add: out distinct_map inj)
  show "input_frames b' out = map ?f ?ns"
  proof (rule input_frames_only [OF wf])
    show "sorted (map ?f ?ns)"
      unfolding sorted_map
      by (rule sorted_wrt_mono_rel [OF _ sorted_input_frames [of b files]]) (simp add: renamed_mono input_frames_frame)
    show "distinct (map ?f ?ns)" using input_frames_distinct [OF assms(2), of b] by (simp add: distinct_map inj)
    show "is_source b' (name, e) \<longleftrightarrow> name \<in> set (map ?f ?ns)" if "(name, e) \<in> set out" for name e
      using carried_sources [OF inj frame] that out by simp
  qed (auto simp: out)
  show "name \<in> set ?ns \<Longrightarrow> map_of out (?f name) = Some (Data (content (child src name)))"
    using map_of_carried [OF inj, of name content src] by (simp add: out map_add_def)
qed

text \<open>The content the pedestal step gives a frame.\<close>

definition offset_content :: "('c, 'p, 'h) fits_io \<Rightarrow> rat \<Rightarrow> 'c \<Rightarrow> 'c option" where
  "offset_content io pedestal c =
     (if pedestal = 0 then Some c else map_option (\<lambda>hdus. io_write io (map (offset_hdu io pedestal) hdus)) (io_open io c))"

definition offset_done :: "('c, 'p, 'h) fits_io \<Rightarrow> rat \<Rightarrow> 'c \<Rightarrow> 'c listing \<Rightarrow> string \<Rightarrow> bool" where
  "offset_done io pedestal c out name \<longleftrightarrow> (\<exists>c'. offset_content io pedestal c = Some c' \<and> map_of out name = Some (Data c'))"

lemma offset_frame_out:
  assumes "offset_frame io sq src files pedestal name out = Inr out'" "name \<notin> set (dkeys out)"
  obtains c where "offset_content io pedestal (sq_content sq (child src name)) = Some c" "out' = out @ [(name, Data c)]"
  using assms
  by (auto simp: offset_frame_def offset_content_def link_or_copy_def write_offset_def dput_new delete_id
      split: if_splits option.splits)

lemma offset_frames_out:
  assumes "offset_frames io sq cancelled src files pedestal n ns out = (cs, Inr out')"
    and "distinct (map snd ns)" "set (map snd ns) \<inter> set (dkeys out) = {}"
  shows "\<exists>new. out' = out @ new \<and> dkeys new = map snd ns
    \<and> (\<forall>name \<in> set (map snd ns). offset_done io pedestal (sq_content sq (child src name)) new name)"
  using assms
proof (induction ns arbitrary: out cs)
  case Nil
  then show ?case by (simp add: act_iff)
next
  case (Cons p ns)
  obtain i name where p: "p = (i, name)" by (cases p)
  obtain out1 cs2 where one: "offset_frame io sq src files pedestal name out = Inr out1"
    and rest: "offset_frames io sq cancelled src files pedestal n ns out1 = (cs2, Inr out')"
    using Cons.prems(1) by (auto simp: p act_iff)
  obtain c where c: "offset_content io pedestal (sq_content sq (child src name)) = Some c" "out1 = out @ [(name, Data c)]"
    using offset_frame_out [OF one] Cons.prems(3) p by auto
  obtain new where new: "out' = out1 @ new" "dkeys new = map snd ns"
    "\<forall>name \<in> set (map snd ns). offset_done io pedestal (sq_content sq (child src name)) new name"
    using Cons.IH [OF rest] Cons.prems(2,3) c(2) p by auto
  have "\<forall>k \<in> set (map snd (p # ns)). offset_done io pedestal (sq_content sq (child src k)) ((name, Data c) # new) k"
    using new(3) c(1) Cons.prems(2) by (auto simp: p offset_done_def)
  then show ?case using new(1,2) c(2) p by (intro exI [of _ "(name, Data c) # new"]) simp
qed

lemma copy_index_out:
  assumes "copy_index sq src files name out = Inr out'" "name \<notin> set (dkeys out)"
  obtains new where "out' = out @ new" "set (dkeys new) \<subseteq> {name}" "length new \<le> 1"
  using assms by (auto simp: copy_index_def link_or_copy_def dput_new delete_id split: if_splits)

lemma is_frame_of_alias: "\<not> is_frame_of b (b @ ''.seq'')"
  by (auto simp: is_frame_of_def elim!: starts_withE)

lemma apply_offset_out:
  assumes "apply_offset io sq cancelled src files ps = (cs, Inr (wrote, out))" "\<not> op_fitseq ps" "wf_dict files"
  obtains new idx where "out = new @ idx" "dkeys new = input_frames (op_input_basename ps) files" "wf_dict idx"
    "set (dkeys idx) \<subseteq> {op_input_basename ps @ ''_.seq'', op_input_basename ps @ ''.seq''}"
    "\<And>name. name \<in> set (dkeys new) \<Longrightarrow> offset_done io (op_pedestal ps) (sq_content sq (child src name)) new name"
proof -
  let ?b = "op_input_basename ps"
  let ?ns = "input_frames ?b files"
  obtain cs1 out1 where run: "offset_frames io sq cancelled src files (op_pedestal ps) (length ?ns) (enumerate 0 ?ns) [] = (cs1, Inr out1)"
    and index: "fold_res (copy_index sq src files) [?b @ ''_.seq'', ?b @ ''.seq''] out1 = Inr out"
    using assms(1,2) by (auto simp: apply_offset_def Let_def act_iff)
  have new: "dkeys out1 = ?ns" "\<forall>name \<in> set ?ns. offset_done io (op_pedestal ps) (sq_content sq (child src name)) out1 name"
    using offset_frames_out [OF run] input_frames_distinct [OF assms(3)] by (auto simp: enumerate_eq_zip)
  have fresh: "?b @ ''_.seq'' \<notin> set (dkeys out1)" "?b @ ''.seq'' \<notin> set (dkeys out1)"
    using input_frames_frame [of _ ?b files] is_frame_of_index [of ?b] is_frame_of_alias [of ?b] new(1) by auto
  obtain out2 where first: "copy_index sq src files (?b @ ''_.seq'') out1 = Inr out2"
    and second: "copy_index sq src files (?b @ ''.seq'') out2 = Inr out"
    using index by (auto simp: rbind_eq_Inr)
  obtain i1 where i1: "out2 = out1 @ i1" "set (dkeys i1) \<subseteq> {?b @ ''_.seq''}" "length i1 \<le> 1"
    using copy_index_out [OF first fresh(1)] .
  have "?b @ ''.seq'' \<notin> set (dkeys out2)" using i1 fresh(2) by auto
  then obtain i2 where i2: "out = out2 @ i2" "set (dkeys i2) \<subseteq> {?b @ ''.seq''}" "length i2 \<le> 1"
    using copy_index_out [OF second] by auto
  have "wf_dict (i1 @ i2)"
    using i1(2,3) i2(2,3) by (cases i1; cases i2) auto
  moreover have "set (dkeys (i1 @ i2)) \<subseteq> {?b @ ''_.seq'', ?b @ ''.seq''}"
    using i1(2) i2(2) unfolding map_append set_append by blast
  ultimately show ?thesis using that [of out1 "i1 @ i2"] new i1(1) i2(1) by simp
qed

lemma apply_offset_frames:
  assumes "apply_offset io sq cancelled src files ps = (cs, Inr (wrote, out))" "\<not> op_fitseq ps" "wf_dict files"
  shows "input_frames (op_input_basename ps) out = input_frames (op_input_basename ps) files"
    and "name \<in> set (input_frames (op_input_basename ps) files) \<Longrightarrow>
      offset_done io (op_pedestal ps) (sq_content sq (child src name)) out name"
proof -
  let ?b = "op_input_basename ps"
  let ?ns = "input_frames ?b files"
  obtain new idx where out: "out = new @ idx" "dkeys new = ?ns" "wf_dict idx" "set (dkeys idx) \<subseteq> {?b @ ''_.seq'', ?b @ ''.seq''}"
    and content: "\<And>name. name \<in> set (dkeys new) \<Longrightarrow> offset_done io (op_pedestal ps) (sq_content sq (child src name)) new name"
    using apply_offset_out [OF assms] by blast
  have idx: "\<not> is_frame_of ?b name" if "name \<in> set (dkeys idx)" for name
    using that out(4) is_frame_of_index [of ?b] is_frame_of_alias [of ?b] by blast
  have disjoint: "set (dkeys new) \<inter> set (dkeys idx) = {}"
    using idx input_frames_frame unfolding out(2) by blast
  have wf: "wf_dict out"
    using out(3) disjoint input_frames_distinct [OF assms(3), of ?b] unfolding out(1) map_append out(2) by simp
  have new: "is_source ?b (name, f)" if "(name, f) \<in> set new" for name f
  proof -
    have key: "name \<in> set (dkeys new)" using that by force
    have "wf_dict new" using input_frames_distinct [OF assms(3), of ?b] by (simp only: out(2))
    then have "map_of new name = Some f" using that by (rule map_of_is_SomeI)
    then have "f \<noteq> Sub_Dir" using content [OF key] by (auto simp: offset_done_def)
    then show ?thesis using key input_frames_frame unfolding out(2) by (simp add: is_source_def)
  qed
  show "input_frames ?b out = ?ns"
  proof (rule input_frames_only [OF wf _ sorted_input_frames input_frames_distinct [OF assms(3)]])
    fix name f assume mem: "(name, f) \<in> set out"
    show "is_source ?b (name, f) \<longleftrightarrow> name \<in> set ?ns"
    proof (cases "(name, f) \<in> set new")
      case True
      then have "name \<in> set (dkeys new)" by force
      then show ?thesis using new [OF True] by (simp add: out(2))
    next
      case False
      then have "name \<in> set (dkeys idx)" using mem out(1) by force
      then have "\<not> is_frame_of ?b name" by (rule idx)
      then show ?thesis using input_frames_frame by (auto simp: is_source_def)
    qed
  next
    show "set ?ns \<subseteq> set (dkeys out)" by (simp add: out(1) flip: out(2))
  qed
  show "name \<in> set ?ns \<Longrightarrow> offset_done io (op_pedestal ps) (sq_content sq (child src name)) out name"
    using content [of name] disjoint unfolding out(2)
    by (auto simp: offset_done_def out(1) map_add_def map_of_eq_None_iff [THEN iffD2] disjoint_iff split: option.split dest: map_of_SomeD)
qed

lemma finish_sequence_Inr:
  "finish_sequence node_name seq_out p = (cs, Inr (r, out)) \<Longrightarrow> r = seq_ref seq_out \<and> snd p = out"
  by (cases p) (auto simp: finish_sequence_def act_iff)

lemma seq_resample_frames:
  assumes "seq_resample sq seq_in ps out_dir = (cs, Inr (r, out))" "\<not> rp_enabled ps" "\<not> rp_fitseq ps"
    and "sq_listing sq seq_in = Some files" "wf_dict files"
  shows "input_frames (''rs_'' @ rp_input_basename ps) out
      = map (renamed (rp_input_basename ps) (''rs_'' @ rp_input_basename ps)) (input_frames (rp_input_basename ps) files)"
    and "name \<in> set (input_frames (rp_input_basename ps) files) \<Longrightarrow>
      map_of out (renamed (rp_input_basename ps) (''rs_'' @ rp_input_basename ps) name) = Some (Data (sq_content sq (child seq_in name)))"
    and "wf_dict out"
proof -
  let ?b = "rp_input_basename ps"
  obtain cs1 cs2 p where run: "passthrough_link (sq_content sq) (sq_text_file sq) seq_in files ?b (''rs_'' @ ?b) False = (cs1, Inr p)"
    and finish: "finish_sequence ''seq_resample'' (child out_dir ''sequence'') p = (cs2, Inr (r, out))"
    using assms by (auto simp: seq_resample_def Let_def act_iff)
  obtain wrote where p: "p = (wrote, out)" using finish_sequence_Inr [OF finish] by (cases p) simp
  note frames = passthrough_link_frames [OF run [unfolded p] assms(5)]
  show "input_frames (''rs_'' @ ?b) out = map (renamed ?b (''rs_'' @ ?b)) (input_frames ?b files)" "wf_dict out"
    by (rule frames)+
  show "name \<in> set (input_frames ?b files) \<Longrightarrow> map_of out (renamed ?b (''rs_'' @ ?b) name) = Some (Data (sq_content sq (child seq_in name)))"
    by (rule frames(2))
qed

lemma seq_offset_frames:
  assumes "seq_offset io sq cancelled seq_in ps out_dir = (cs, Inr (r, out))" "\<not> op_fitseq ps"
    and "sq_listing sq seq_in = Some files" "wf_dict files"
  shows "input_frames (op_input_basename ps) out = input_frames (op_input_basename ps) files"
    and "name \<in> set (input_frames (op_input_basename ps) files) \<Longrightarrow>
      offset_done io (op_pedestal ps) (sq_content sq (child seq_in name)) out name"
proof -
  obtain cs1 cs2 p where run: "apply_offset io sq cancelled seq_in files ps = (cs1, Inr p)"
    and finish: "finish_sequence ''seq_offset'' (child out_dir ''sequence'') p = (cs2, Inr (r, out))"
    using assms(1,3) by (auto simp: seq_offset_def act_iff)
  obtain wrote where p: "p = (wrote, out)" using finish_sequence_Inr [OF finish] by (cases p) simp
  note frames = apply_offset_frames [OF run [unfolded p] assms(2,4)]
  show "input_frames (op_input_basename ps) out = input_frames (op_input_basename ps) files" by (rule frames)
  show "name \<in> set (input_frames (op_input_basename ps) files) \<Longrightarrow>
      offset_done io (op_pedestal ps) (sq_content sq (child seq_in name)) out name" by (rule frames(2))
qed

text \<open>
  C33: With draft mode off the resampling and the pedestal step together hand on exactly the frames of the calibrated
  sequence, in their order and under the new basename, each with the content of the original plus the pedestal.
\<close>

theorem frames_pass_to_background:
  assumes "seq_resample sq seq_in ps d1 = (cs1, Inr (r1, out1))" "\<not> rp_enabled ps" "\<not> rp_fitseq ps"
    and "sq_listing sq seq_in = Some files" "wf_dict files"
    and "seq_offset io sq2 cancelled (r_path r1) qs d2 = (cs2, Inr (r2, out2))" "\<not> op_fitseq qs"
    and "op_input_basename qs = ''rs_'' @ rp_input_basename ps"
    and "sq_listing sq2 (r_path r1) = Some out1"
    and "\<And>name c. map_of out1 name = Some (Data c) \<Longrightarrow> sq_content sq2 (child (r_path r1) name) = c"
  shows "input_frames (op_input_basename qs) out2
      = map (renamed (rp_input_basename ps) (op_input_basename qs)) (input_frames (rp_input_basename ps) files)
    \<and> (\<forall>name \<in> set (input_frames (rp_input_basename ps) files).
        offset_done io (op_pedestal qs) (sq_content sq (child seq_in name)) out2
          (renamed (rp_input_basename ps) (op_input_basename qs) name))"
proof -
  let ?b = "rp_input_basename ps"
  note one = seq_resample_frames [OF assms(1-5)]
  note two = seq_offset_frames [OF assms(6,7,9) one(3), unfolded assms(8) one(1)]
  have "offset_done io (op_pedestal qs) (sq_content sq (child seq_in name)) out2 (renamed ?b (''rs_'' @ ?b) name)"
    if "name \<in> set (input_frames ?b files)" for name
  proof -
    have "offset_done io (op_pedestal qs) (sq_content sq2 (child (r_path r1) (renamed ?b (''rs_'' @ ?b) name))) out2
        (renamed ?b (''rs_'' @ ?b) name)"
      by (rule two(2)) (use that in simp)
    then show ?thesis by (simp only: assms(10) [OF one(2) [OF that]])
  qed
  then show ?thesis using two(1) by (simp add: assms(8))
qed

text \<open>Two frames, the second cut out of the numbering, a stack beside them and no index.\<close>

definition demo_seq :: "(string \<Rightarrow> int) \<Rightarrow> int listing \<Rightarrow> int seq_env" where
  "demo_seq content files =
     \<lparr>sq_resolve = id, sq_siril = (\<lambda>_ _ fs. \<lparr>sr_code = 1, sr_lines = [], sr_dir = fs\<rparr>), sq_cancel = (False, False),
      sq_listing = (\<lambda>_. Some files), sq_content = content, sq_text_file = (\<lambda>t. int (length t)), sq_show = (\<lambda>_. ''x'')\<rparr>"

definition demo_io :: "(int, int, unit) fits_io" where
  "demo_io = \<lparr>io_open = (\<lambda>c. Some [\<lparr>hd_data = Some c, hd_history = [], hd_rest = ()\<rparr>]),
     io_write = (\<lambda>hs. sum_list (map (\<lambda>h. case hd_data h of None \<Rightarrow> 0 | Some d \<Rightarrow> d) hs)),
     io_add32 = (\<lambda>p d. d + \<lfloor>p * 100\<rfloor>), io_show_g = (\<lambda>_. ''0.01'')\<rparr>"

definition demo_frames :: "int listing" where
  "demo_frames = [(''light_00003.fit'', Data 7), (''light_00001.fit'', Link ''/far''), (''stack.fit'', Data 9)]"

definition demo_passed :: "int listing" where
  "demo_passed = [(''rs_light_00001.fit'', Data 14), (''rs_light_00003.fit'', Data 14), (''rs_light_.seq'', Data 258)]"

definition demo_resample_params :: resample_params where
  "demo_resample_params = \<lparr>rp_input_basename = ''light'', rp_fitseq = False, rp_enabled = False, rp_interp = ''cubic''\<rparr>"

definition demo_offset_params :: offset_params where
  "demo_offset_params = \<lparr>op_input_basename = ''rs_light'', op_fitseq = False, op_pedestal = 1 / 100\<rparr>"

definition demo_lifted :: "int listing" where
  "demo_lifted = [(''rs_light_00001.fit'', Data 15), (''rs_light_00003.fit'', Data 15), (''rs_light_.seq'', Data 258)]"

abbreviation demo_first :: "int seq_env" where
  "demo_first \<equiv> demo_seq (\<lambda>p. int (length p) - 5) demo_frames"

abbreviation demo_second :: "int seq_env" where
  "demo_second \<equiv> demo_seq (\<lambda>p. case map_of demo_passed (drop 12 p) of Some (Data c) \<Rightarrow> c | _ \<Rightarrow> 0) demo_passed"

lemma demo_resample_run:
  "snd (seq_resample demo_first ''/in'' demo_resample_params ''/a'') = Inr (seq_ref ''/a/sequence'', demo_passed)"
  by code_simp

lemma demo_offset_run:
  "snd (seq_offset demo_io demo_second (\<lambda>_. False) ''/a/sequence'' demo_offset_params ''/b'')
    = Inr (seq_ref ''/b/sequence'', demo_lifted)"
  by code_simp

lemma demo_input: "input_frames ''light'' demo_frames = [''light_00001.fit'', ''light_00003.fit'']"
  by code_simp

theorem frames_pass_to_background_witness:
  "input_frames ''rs_light'' demo_lifted
    = [''rs_light_00001.fit'', ''rs_light_00003.fit'']
  \<and> offset_done demo_io (1 / 100) 14
      demo_lifted ''rs_light_00001.fit''"
proof -
  obtain cs1 where one: "seq_resample demo_first ''/in'' demo_resample_params ''/a'' = (cs1, Inr (seq_ref ''/a/sequence'', demo_passed))"
    using demo_resample_run by (metis prod.collapse)
  obtain cs2 where two: "seq_offset demo_io demo_second (\<lambda>_. False) (r_path (seq_ref ''/a/sequence'')) demo_offset_params ''/b''
      = (cs2, Inr (seq_ref ''/b/sequence'', demo_lifted))"
    using demo_offset_run by (metis prod.collapse seq_ref_def ref.select_convs(3))
  have keys: "op_input_basename demo_offset_params = ''rs_light''" "rp_input_basename demo_resample_params = ''light''"
    "op_pedestal demo_offset_params = 1 / 100" "\<not> rp_enabled demo_resample_params" "\<not> rp_fitseq demo_resample_params"
    "\<not> op_fitseq demo_offset_params" by (simp_all add: demo_offset_params_def demo_resample_params_def)
  have content: "sq_content demo_second (child (r_path (seq_ref ''/a/sequence'')) name) = c" if "map_of demo_passed name = Some (Data c)" for name c
    using that by (simp add: demo_seq_def seq_ref_def child_def)
  have rest: "sq_listing demo_first ''/in'' = Some demo_frames" "wf_dict demo_frames"
    "op_input_basename demo_offset_params = ''rs_'' @ rp_input_basename demo_resample_params"
    "sq_listing demo_second (r_path (seq_ref ''/a/sequence'')) = Some demo_passed"
    by (simp_all add: demo_seq_def keys demo_frames_def)
  note both = frames_pass_to_background [OF one keys(4,5) rest(1,2) two keys(6) rest(3,4) content, unfolded keys demo_input]
  have "sq_content demo_first (child ''/in'' ''light_00001.fit'') = 14" by (simp add: demo_seq_def child_def)
  then show ?thesis using both by (simp add: renamed_def)
qed

section \<open>What the runs of Siril leave\<close>

lemma convert_lights_frames:
  assumes "convert_lights resolve so cancel probe src (Some fs) out_dir ps = (cs, Inr out)" "\<not> vp_fitseq ps"
  shows "length (frames_of (vp_basename ps) out)
      = length (filter (\<lambda>name. is_complete_fits (probe (child src name))) (iter_input_fits fs))"
  using assms by (auto simp: convert_lights_def Let_def act_iff split: if_splits)

lemma seq_stack_image:
  assumes "seq_stack sq so seq_in ps out_dir = (cs, Inr (r, out))"
  shows "has_key out ''image.fit'' \<and> r = image_ref (child out_dir ''image.fit'')"
proof (cases "sq_listing sq seq_in")
  case None
  then show ?thesis using assms by (simp add: seq_stack_def act_raise_def)
next
  case (Some files)
  then show ?thesis using assms by (auto simp: seq_stack_def Let_def act_iff split: prod.splits)
qed

lemma drop_staged_out: "drop_staged staged d = Inr d' \<Longrightarrow> d' = filter (\<lambda>(name, f). name \<notin> set staged) d"
proof (induction staged arbitrary: d)
  case (Cons name staged)
  then have "d' = filter (\<lambda>(k, f). k \<notin> set staged) (dpop name d)"
    by (auto simp: drop_staged_def rbind_eq_Inr split: if_splits)
  then show ?case by (auto simp: AList.delete_eq intro: filter_cong)
qed (simp add: drop_staged_def)

lemma stage_frames_out:
  assumes "fold_res (stage_frame resolve seq_in) names (out, st) = Inr (out', st')"
  shows "st' = st @ names \<and> (\<forall>k. map_of out' k = (if k \<in> set names then Some (Link (resolve (child seq_in k))) else map_of out k))"
  using assms
proof (induction names arbitrary: out st)
  case (Cons name names)
  obtain out1 where one: "put_symlink name (resolve (child seq_in name)) out = Inr out1"
    and rest: "fold_res (stage_frame resolve seq_in) names (out1, st @ [name]) = Inr (out', st')"
    using Cons.prems by (auto simp: rbind_eq_Inr stage_frame_def [of _ _ name])
  have "map_of out1 k = (if k = name then Some (Link (resolve (child seq_in k))) else map_of out k)" for k
    using one by (auto simp: put_symlink_def split: if_splits)
  then show ?case using Cons.IH [OF rest] by auto
qed simp

text \<open>Siril works on links to the input's own files.\<close>

lemma stage_sequence_links:
  assumes "stage_sequence resolve seq_in files seq_out [] b False = Inr (out, staged)"
  shows "(name, f) \<in> set files \<Longrightarrow> staged_name b f name \<Longrightarrow>
    name \<in> set staged \<and> map_of out name = Some (Link (resolve (child seq_in name)))"
proof -
  assume mem: "(name, f) \<in> set files" "staged_name b f name"
  let ?ns = "sort (map fst (filter (\<lambda>(name, f). staged_name b f name) files))"
  obtain out1 st1 where run: "fold_res (stage_frame resolve seq_in) ?ns ([], []) = Inr (out1, st1)"
    and final: "(out, staged) = (out1, st1) \<or> (out, staged) = (dput (b @ ''.seq'') (Link (resolve (child seq_out (b @ ''_.seq'')))) out1, st1 @ [b @ ''.seq''])"
    using assms by (auto simp: stage_sequence_def rbind_eq_Inr Let_def split: if_splits prod.splits)
  have "name \<in> set ?ns" using mem by force
  moreover have "name \<noteq> b @ ''.seq''" using mem(2) by (auto simp: staged_name_def elim!: starts_withE)
  ultimately show ?thesis using stage_frames_out [OF run] final by (elim disjE) simp_all
qed

text \<open>None of them is left beside the output of the background or the registration step.\<close>

lemma run_siril_drops_links:
  assumes "run_siril_on_sequence resolve siril cancel seq_in (Some files) seq_out [] commands b b' False phases = (cs, Inr (wrote, out))"
    and "(name, f) \<in> set files" "staged_name b f name"
  shows "\<not> has_key out name"
proof -
  obtain out1 staged d where stage: "stage_sequence resolve seq_in files seq_out [] b False = Inr (out1, staged)"
    and drop: "drop_staged staged d = Inr out"
    using assms(1) by (auto simp: run_siril_on_sequence_def Let_def act_iff split: prod.splits if_splits)
  have "name \<in> set staged" using stage_sequence_links [OF stage assms(2,3)] by simp
  then show ?thesis by (auto simp: drop_staged_out [OF drop] has_key_iff)
qed

lemma seq_register_drops_links:
  assumes "seq_register sq seq_in ps out_dir = (cs, Inr (r, out))" "\<not> gp_fitseq ps" "sq_listing sq seq_in = Some files"
    and "(name, f) \<in> set files" "staged_name (gp_input_basename ps) f name"
  shows "\<not> has_key out name"
proof -
  obtain cs1 p cs2 where run: "run_siril_on_sequence (sq_resolve sq) (sq_siril sq) (sq_cancel sq) seq_in (Some files)
      (child out_dir ''sequence'') [] ((''cd '' @ quote (sq_resolve sq (child out_dir ''sequence''))) # align_commands (sq_show sq) ps)
      (gp_input_basename ps) (''r_'' @ gp_input_basename ps) False 2 = (cs1, Inr p)"
    and finish: "finish_sequence ''seq_register'' (child out_dir ''sequence'') p = (cs2, Inr (r, out))"
    using assms(1-3) by (auto simp: seq_register_def Let_def act_iff)
  obtain wrote where p: "p = (wrote, out)" using finish_sequence_Inr [OF finish] by (cases p) simp
  show ?thesis by (rule run_siril_drops_links [OF run [unfolded p] assms(4,5)])
qed

section \<open>Findings\<close>

text \<open>With a blank in the path of the output the script of the conversion gives Siril one word too many; the stack's does not.\<close>

lemma convert_output_not_quoted:
  "convert_commands id ''/my data/_inputs'' ''/my data/sequence'' \<lparr>vp_basename = ''light'', vp_debayer = False, vp_fitseq = False\<rparr>
    = [''cd '' @ [CHR 0x22] @ ''/my data/_inputs'' @ [CHR 0x22], ''convert light -out=/my data/sequence'']"
  by code_simp

text \<open>The index written for frames 1 and 3 names the frames 1 and 2.\<close>

lemma passthrough_index_renumbers:
  "drop 2 (seq_lines ''rs_light'' (length (input_frames ''light'' demo_frames)))
    = [''S '' @ [CHR 0x27] @ ''rs_light_'' @ [CHR 0x27] @ '' 1 2 2 5 -1 6 0 0 0'', ''L -1'', ''I 1 1'', ''I 2 1'']
  \<and> map fst demo_passed = [''rs_light_00001.fit'', ''rs_light_00003.fit'', ''rs_light_.seq'']"
  by code_simp

end
