(* ===== verification/Canonical.thy ===== *)
theory Canonical
  imports Node_Model
begin

text \<open>
  \<open>server/canonical.py\<close>: canonical form of parameters, their JSON text and the cache key of a
  node execution. SHA-256 is a parameter \<open>sha256\<close> of \<open>node_hash\<close>; what is hashed, the
  concatenation of all \<open>h.update\<close> arguments, is \<open>node_preimage\<close>. The shortest decimal text of
  a finite float (Python's \<open>float.__repr__\<close>) is the parameter \<open>fr\<close>. Strings are UTF-8 bytes.
\<close>

section \<open>Canonical values\<close>

definition DEFAULT_FLOAT_PRECISION :: int where
  "DEFAULT_FLOAT_PRECISION = 6"

definition HASH_PRECISION_KEY :: string where
  "HASH_PRECISION_KEY = ''hash_precision''"

text \<open>Python's \<open>round(x, p)\<close>: to the nearest multiple of \<open>10 ^ -p\<close>, ties to even.\<close>

definition round_half_even :: "rat \<Rightarrow> int" where
  "round_half_even y =
     (let f = \<lfloor>y\<rfloor>; r = y - of_int f in
      if r < 1 / 2 then f else if 1 / 2 < r then f + 1 else if even f then f else f + 1)"

definition pow10 :: "int \<Rightarrow> rat" where
  "pow10 p = (if 0 \<le> p then 10 ^ nat p else 1 / 10 ^ nat (- p))"

definition round_dec :: "int \<Rightarrow> rat \<Rightarrow> rat" where
  "round_dec p x = of_int (round_half_even (x * pow10 p)) / pow10 p"

fun py_round :: "pyfloat \<Rightarrow> int \<Rightarrow> pyfloat" where
  "py_round (Fin x) p =
     (let r = round_dec p x in if r = 0 \<and> x < 0 then Neg_Zero else Fin r)"
| "py_round v p = v"

definition is_zero :: "pyfloat \<Rightarrow> bool" where
  "is_zero v = (v = Fin 0 \<or> v = Neg_Zero)"

definition round_float :: "pyfloat \<Rightarrow> int \<Rightarrow> pyfloat" where
  "round_float value precision =
     (if value = NaN then NaN
      else let rounded = py_round value precision in
        if is_zero rounded then Fin 0 else rounded)"

text \<open>\<open>isinstance(precision, int)\<close> also holds of a bool.\<close>

fun json_as_int :: "json \<Rightarrow> int option" where
  "json_as_int (JInt n) = Some n"
| "json_as_int (JBool b) = Some (of_bool b)"
| "json_as_int _ = None"

fun field_precisions :: "(string, params option) dict \<Rightarrow> (string, int) dict" where
  "field_precisions [] = []"
| "field_precisions ((name, extra) # fs) =
     (case extra of
        None \<Rightarrow> field_precisions fs
      | Some d \<Rightarrow>
          (case Option.bind (map_of d HASH_PRECISION_KEY) json_as_int of
             None \<Rightarrow> field_precisions fs
           | Some p \<Rightarrow> (name, p) # field_precisions fs))"

definition precision_for :: "(string, int) dict \<Rightarrow> string option \<Rightarrow> int" where
  "precision_for precisions field_name =
     (case field_name of
        None \<Rightarrow> DEFAULT_FLOAT_PRECISION
      | Some f \<Rightarrow> (case map_of precisions f of None \<Rightarrow> DEFAULT_FLOAT_PRECISION | Some p \<Rightarrow> p))"

function canonical_value :: "(string, int) dict \<Rightarrow> string option \<Rightarrow> json \<Rightarrow> json" where
  "canonical_value pr fn (JModel d) =
     JDict (map (\<lambda>(k, v). (k, canonical_value pr (Some k) v)) (sort_key fst d))"
| "canonical_value pr fn (JDict d) =
     JDict (map (\<lambda>(k, v). (k, canonical_value pr (Some k) v)) (sort_key fst d))"
| "canonical_value pr fn (JList xs) = JList (map (canonical_value pr None) xs)"
| "canonical_value pr fn (JBool b) = JBool b"
| "canonical_value pr fn (JInt n) = JInt n"
| "canonical_value pr fn (JFloat x) = JFloat (round_float x (precision_for pr fn))"
| "canonical_value pr fn (JStr s) = JStr s"
| "canonical_value pr fn JNull = JNull"
  by pat_completeness auto
termination
  by (relation "measure (\<lambda>(pr, fn, v). size v)")
     (auto simp: json_size_dict json_size_dict_char size_list_estimation' less_Suc_eq_le)

section \<open>JSON text\<close>

definition hex_digit :: "nat \<Rightarrow> char" where
  "hex_digit d = (if d < 10 then char_of (48 + d) else char_of (87 + d))"

definition escape_char :: "char \<Rightarrow> string" where
  "escape_char c =
     (if c = CHR 0x22 then [CHR 0x5C, c]
      else if c = CHR 0x5C then [c, c]
      else if c = CHR 0x08 then [CHR 0x5C, CHR ''b'']
      else if c = CHR 0x09 then [CHR 0x5C, CHR ''t'']
      else if c = CHR 0x0A then [CHR 0x5C, CHR ''n'']
      else if c = CHR 0x0C then [CHR 0x5C, CHR ''f'']
      else if c = CHR 0x0D then [CHR 0x5C, CHR ''r'']
      else if (of_char c :: nat) < 32 then
        [CHR 0x5C, CHR ''u'', CHR ''0'', CHR ''0'',
         hex_digit (of_char c div 16), hex_digit (of_char c mod 16)]
      else [c])"

definition quote_string :: "string \<Rightarrow> string" where
  "quote_string s = [CHR 0x22] @ concat (map escape_char s) @ [CHR 0x22]"

function json_text :: "(rat \<Rightarrow> string) \<Rightarrow> json \<Rightarrow> string" where
  "json_text fr JNull = ''null''"
| "json_text fr (JBool b) = (if b then ''true'' else ''false'')"
| "json_text fr (JInt n) = show_int n"
| "json_text fr (JFloat x) =
     (case x of Fin q \<Rightarrow> fr q | Neg_Zero \<Rightarrow> ''-0.0'' | NaN \<Rightarrow> ''NaN''
      | Pos_Inf \<Rightarrow> ''Infinity'' | Neg_Inf \<Rightarrow> ''-Infinity'')"
| "json_text fr (JStr s) = quote_string s"
| "json_text fr (JList xs) = ''['' @ join '','' (map (json_text fr) xs) @ '']''"
| "json_text fr (JDict d) =
     ''{'' @ join '','' (map (\<lambda>(k, v). quote_string k @ '':'' @ json_text fr v) d) @ ''}''"
| "json_text fr (JModel d) =
     ''{'' @ join '','' (map (\<lambda>(k, v). quote_string k @ '':'' @ json_text fr v) d) @ ''}''"
  by pat_completeness auto
termination
  by (relation "measure (\<lambda>(fr, v). size v)")
     (auto simp: json_size_dict json_size_dict_char size_list_estimation' less_Suc_eq_le)

text \<open>\<open>allow_nan=False\<close>: NaN or an infinity anywhere in the value raises a ValueError.\<close>

function json_finite :: "json \<Rightarrow> bool" where
  "json_finite (JFloat x) = (case x of Fin q \<Rightarrow> True | Neg_Zero \<Rightarrow> True | _ \<Rightarrow> False)"
| "json_finite (JList xs) = list_all json_finite xs"
| "json_finite (JDict d) = list_all (\<lambda>(k, v). json_finite v) d"
| "json_finite (JModel d) = list_all (\<lambda>(k, v). json_finite v) d"
| "json_finite JNull = True"
| "json_finite (JBool b) = True"
| "json_finite (JInt n) = True"
| "json_finite (JStr s) = True"
  by pat_completeness auto
termination
  by (relation "measure size")
     (auto simp: json_size_dict json_size_dict_char size_list_estimation' less_Suc_eq_le)

datatype hash_error = Non_Finite_Float

definition canonical_json ::
  "(rat \<Rightarrow> string) \<Rightarrow> (string, params option) dict \<Rightarrow> params \<Rightarrow> hash_error + string" where
  "canonical_json fr flds payload =
     (let c = canonical_value (field_precisions flds) None (JDict payload)
      in if json_finite c then Inr (json_text fr c) else Inl Non_Finite_Float)"

section \<open>The node hash\<close>

definition encode_ref :: "ref \<Rightarrow> string" where
  "encode_ref r =
     r_node_hash r @ ''/'' @ r_port r
     @ (if r_node_hash r = ''ext'' then ''@'' @ r_path r else '''')"

definition ref_key :: "ref \<Rightarrow> string \<times> string \<times> string" where
  "ref_key r = (r_node_hash r, r_port r, r_path r)"

fun encode_input :: "node_input \<Rightarrow> string" where
  "encode_input (One r) = encode_ref r"
| "encode_input (Many rs) =
     ''['' @ join '','' (map encode_ref (sort_key ref_key rs)) @ '']''"

definition encode_inputs :: "(string, node_input) dict \<Rightarrow> string" where
  "encode_inputs inputs =
     concat (map (\<lambda>(port, v). port @ ''='' @ encode_input v @ '';'') (sort_key fst inputs))"

definition encode_extra :: "(string, string) dict \<Rightarrow> string" where
  "encode_extra extra =
     (if extra = [] then ''''
      else CHR 0x00 # ''extra=''
        @ concat (map (\<lambda>(k, v). k @ ''='' @ v @ '';'') (sort_key fst extra)))"

definition node_preimage ::
  "string \<Rightarrow> int \<Rightarrow> (string, node_input) dict \<Rightarrow> string \<Rightarrow> (string, string) dict \<Rightarrow> string" where
  "node_preimage nid version inputs params_text extra =
     ''id='' @ nid
     @ CHR 0x00 # ''v='' @ show_int version
     @ CHR 0x00 # ''inputs='' @ encode_inputs inputs
     @ CHR 0x00 # ''params='' @ params_text
     @ encode_extra extra"

definition node_hash ::
  "(string \<Rightarrow> string) \<Rightarrow> (rat \<Rightarrow> string) \<Rightarrow> string \<Rightarrow> int \<Rightarrow> (string, node_input) dict
   \<Rightarrow> (string, params option) dict \<Rightarrow> params \<Rightarrow> (string, string) dict \<Rightarrow> hash_error + string" where
  "node_hash sha256 fr nid version inputs flds payload extra =
     rbind (canonical_json fr flds payload)
       (\<lambda>text. Inr (sha256 (node_preimage nid version inputs text extra)))"

section \<open>Canonical form: idempotence and insensitivity to dict order\<close>

lemma round_half_even_of_int [simp]: "round_half_even (of_int i) = i"
  by (simp add: round_half_even_def)

lemma pow10_pos: "0 < pow10 p"
  by (simp add: pow10_def)

lemma round_dec_idem [simp]: "round_dec p (round_dec p x) = round_dec p x"
  using pow10_pos [of p] by (simp add: round_dec_def)

lemma round_dec_0 [simp]: "round_dec p 0 = 0"
  using round_half_even_of_int [of 0] by (simp add: round_dec_def)

lemma round_float_idem [simp]: "round_float (round_float v p) p = round_float v p"
  by (cases v) (auto simp: round_float_def is_zero_def Let_def)

lemma sort_key_fst_map_sorted [simp]:
  "sort_key fst (map (\<lambda>(k, v). (k, f k v)) (sort_key fst d)) = map (\<lambda>(k, v). (k, f k v)) (sort_key fst d)"
proof (rule sort_key_id_if_sorted)
  have "map fst (map (\<lambda>(k, v). (k, f k v)) (sort_key fst d)) = map fst (sort_key fst d)"
    by auto
  then show "sorted (map fst (map (\<lambda>(k, v). (k, f k v)) (sort_key fst d)))"
    by (simp only: sorted_sort_key)
qed

text \<open>
  canonicalising is idempotent: a canonical value is its own canonical form, for every
  precision table and field name.
\<close>

theorem canonical_value_idempotent:
  "canonical_value pr fn (canonical_value pr fn v) = canonical_value pr fn v"
  by (induction pr fn v rule: canonical_value.induct) auto

text \<open>\<open>reorders v w\<close>: w is v with the keys of its dicts, at any depth, in another order.\<close>

inductive reorders :: "json \<Rightarrow> json \<Rightarrow> bool" where
  reorders_refl: "reorders v v"
| reorders_list: "list_all2 reorders xs ys \<Longrightarrow> reorders (JList xs) (JList ys)"
| reorders_dict: "wf_dict d \<Longrightarrow> wf_dict e \<Longrightarrow> set (dkeys d) = set (dkeys e) \<Longrightarrow>
    (\<And>k v w. map_of d k = Some v \<Longrightarrow> map_of e k = Some w \<Longrightarrow> reorders v w) \<Longrightarrow>
    reorders (JDict d) (JDict e)"

lemma canonical_value_reorders:
  "reorders v w \<Longrightarrow> canonical_value pr fn v = canonical_value pr fn w"
proof (induction arbitrary: fn rule: reorders.induct)
  case (reorders_list xs ys)
  then have "map (canonical_value pr None) xs = map (canonical_value pr None) ys"
    by (induction rule: list_all2_induct) auto
  then show ?case by simp
next
  case (reorders_dict d e)
  then show ?case by (auto intro!: sort_key_map_pairs_cong)
qed simp

section \<open>The hash ignores discovery order and the cache location\<close>

lemma canonical_json_reorders:
  "reorders (JDict d) (JDict e) \<Longrightarrow> canonical_json fr flds d = canonical_json fr flds e"
  by (simp only: canonical_json_def canonical_value_reorders [of "JDict d" "JDict e"])

text \<open>
  An input that may have been discovered in another order, or whose internal refs live under
  another cache root: refs correspond one to one, agree on (hash, port), and on the path when
  they are external.
\<close>

definition ref_ident :: "ref \<Rightarrow> string \<times> string \<times> string" where
  "ref_ident r = (r_node_hash r, r_port r, if r_node_hash r = ''ext'' then r_path r else '''')"

fun same_input :: "node_input \<Rightarrow> node_input \<Rightarrow> bool" where
  "same_input (One r) (One s) = (ref_ident r = ref_ident s)"
| "same_input (Many rs) (Many ss) = (mset (map ref_ident rs) = mset (map ref_ident ss))"
| "same_input _ _ = False"

definition encode_ident :: "string \<times> string \<times> string \<Rightarrow> string" where
  "encode_ident = (\<lambda>(h, p, x). h @ ''/'' @ p @ (if h = ''ext'' then ''@'' @ x else ''''))"

lemma encode_ref_ident: "encode_ref r = encode_ident (ref_ident r)"
  by (simp add: encode_ref_def encode_ident_def ref_ident_def)

lemma sorted_ref_ident: "sorted (map ref_ident (sort_key ref_key rs))"
proof -
  have mono: "ref_key r \<le> ref_key s \<Longrightarrow> ref_ident r \<le> ref_ident s" for r s
    by (auto simp: ref_key_def ref_ident_def less_eq_prod_def less_prod_def)
  have "sorted_wrt (\<lambda>r s. ref_key r \<le> ref_key s) (sort_key ref_key rs)"
    using sorted_sort_key [of ref_key rs] by (simp add: sorted_map)
  then have "sorted_wrt (\<lambda>r s. ref_ident r \<le> ref_ident s) (sort_key ref_key rs)"
    by (rule sorted_wrt_mono_rel [rotated]) (rule mono)
  then show ?thesis by (simp add: sorted_map)
qed

lemma encode_refs_ident: "map encode_ref (sort_key ref_key rs) = map encode_ident (sort (map ref_ident rs))"
proof -
  have "map ref_ident (sort_key ref_key rs) = sort (map ref_ident rs)"
    by (rule properties_for_sort [symmetric]) (simp_all add: sorted_ref_ident)
  moreover have "map encode_ref (sort_key ref_key rs) = map encode_ident (map ref_ident (sort_key ref_key rs))"
    by (simp add: encode_ref_ident)
  ultimately show ?thesis by (simp only:)
qed

lemma encode_input_same: "same_input v w \<Longrightarrow> encode_input v = encode_input w"
proof (induction v w rule: same_input.induct)
  case (1 r s)
  then show ?case by (simp add: encode_ref_ident)
next
  case (2 rs ss)
  then have "sort (map ref_ident rs) = sort (map ref_ident ss)"
    by (intro properties_for_sort) simp_all
  then show ?case by (simp add: encode_refs_ident)
qed simp_all

lemma encode_inputs_pairs:
  "encode_inputs inputs = concat (map (\<lambda>(port, s). port @ ''='' @ s @ '';'')
     (map (\<lambda>(port, v). (port, encode_input v)) (sort_key fst inputs)))"
  by (simp add: encode_inputs_def case_prod_beta' comp_def)

text \<open>
  C16: the cache key is a function of what the node computes: neither the order of the keys of the
  params (at any depth), nor the order of the input ports, nor the order in which the refs of a
  list port were discovered, nor the cache location of internal refs changes it.
\<close>

theorem node_hash_order_and_location_free:
  assumes params: "reorders (JDict payload) (JDict payload')"
    and wf: "wf_dict inputs" "wf_dict inputs'"
    and ports: "set (dkeys inputs) = set (dkeys inputs')"
    and same: "\<And>port v w. map_of inputs port = Some v \<Longrightarrow> map_of inputs' port = Some w \<Longrightarrow> same_input v w"
  shows "node_hash sha256 fr nid ver inputs flds payload extra
       = node_hash sha256 fr nid ver inputs' flds payload' extra"
proof -
  have "map (\<lambda>(port, v). (port, encode_input v)) (sort_key fst inputs)
      = map (\<lambda>(port, v). (port, encode_input v)) (sort_key fst inputs')"
    by (rule sort_key_map_pairs_cong [OF wf ports]) (rule encode_input_same, rule same)
  then have "encode_inputs inputs = encode_inputs inputs'"
    by (simp only: encode_inputs_pairs)
  then show ?thesis
    using canonical_json_reorders [OF params] by (simp add: node_hash_def node_preimage_def)
qed

section \<open>The hashed text determines its parts\<close>













definition dark_ref :: "string \<Rightarrow> ref" where
  "dark_ref path = \<lparr>r_node_hash = ''ext'', r_port = ''dark'', r_path = path, r_type = MASTER_FITS,
     r_display_ready = False\<rparr>"

text \<open>
  what the separators do not protect. A comma is legal in a path, and refs of a list port are
  joined by commas without quoting: the list of two masters \<open>/a\<close> and \<open>/b\<close> and the list of one
  master at the path \<open>/a,ext/dark@/b\<close> are different inputs with the same cache key.
\<close>

theorem node_hash_list_separator_collision:
  "node_hash sha256 fr nid ver [(''dark'', Many [dark_ref ''/a'', dark_ref ''/b''])] flds payload extra
   = node_hash sha256 fr nid ver [(''dark'', Many [dark_ref ''/a,ext/dark@/b''])] flds payload extra
   \<and> Many [dark_ref ''/a'', dark_ref ''/b''] \<noteq> Many [dark_ref ''/a,ext/dark@/b'']"
proof -
  have le: "ref_key (dark_ref ''/a'') \<le> ref_key (dark_ref ''/b'')"
    by (simp add: ref_key_def dark_ref_def less_eq_prod_def)
  have "encode_input (Many [dark_ref ''/a'', dark_ref ''/b'']) = encode_input (Many [dark_ref ''/a,ext/dark@/b''])"
    using le by (simp add: encode_ref_def dark_ref_def)
  then show ?thesis by (simp add: node_hash_def node_preimage_def encode_inputs_def)
qed

text \<open>
  a declared precision reaches nested values. The docstring of \<open>canonical_value\<close> says
  precisions apply at the top level only; the recursion passes the table on, so a key of a nested
  dict that happens to carry the name of a top-level field is rounded with that field's precision,
  at every depth, while floats inside a list fall back to the default.
\<close>

theorem nested_dict_uses_field_precision:
  assumes "map_of pr k = Some p"
  shows "canonical_value pr fn (JDict [(outer, JDict [(k, JFloat x)])])
           = JDict [(outer, JDict [(k, JFloat (round_float x p))])]
    \<and> canonical_value pr fn (JDict [(k, JList [JFloat x])])
           = JDict [(k, JList [JFloat (round_float x DEFAULT_FLOAT_PRECISION)])]"
  using assms by (simp_all add: precision_for_def)

section \<open>Instances\<close>

theorem node_hash_order_and_location_free_witness:
  "node_hash id (\<lambda>_. ''q'') ''n'' 1 [(''a'', One (dark_ref ''/x'')), (''b'', Many [dark_ref ''/a'', dark_ref ''/b''])]
     [] [(''p'', JInt 1), (''q'', JInt 2)] []
   = node_hash id (\<lambda>_. ''q'') ''n'' 1 [(''b'', Many [dark_ref ''/b'', dark_ref ''/a'']), (''a'', One (dark_ref ''/x''))]
     [] [(''q'', JInt 2), (''p'', JInt 1)] []"
  by (rule node_hash_order_and_location_free)
     (auto intro!: reorders_dict reorders_refl simp: add_mset_commute split: if_splits)


theorem nested_dict_uses_field_precision_witness:
  "canonical_value [(''x'', 2)] None (JDict [(''o'', JDict [(''x'', JFloat (Fin (1 / 3)))])])
   = JDict [(''o'', JDict [(''x'', JFloat (round_float (Fin (1 / 3)) 2))])]
   \<and> canonical_value [(''x'', 2)] None (JDict [(''x'', JList [JFloat (Fin (1 / 3))])])
   = JDict [(''x'', JList [JFloat (round_float (Fin (1 / 3)) DEFAULT_FLOAT_PRECISION)])]"
  by (rule nested_dict_uses_field_precision) simp

end
