(* ===== verification/Crop.thy ===== *)
theory Crop
  imports Seq_Nodes Canonical
begin

text \<open>
  Images as the nodes after the stack see them, and the node \<open>nodes/basic/crop.py\<close>: its parameters with their
  validator, the box of a user, the box of the signal, the cut and the shift of the reference pixel. A pixel is a
  rational, None when it is not finite. Reading and writing FITS files is left to the caller: a file is the list of its
  HDUs, data (if any) with the header; arrays are rows of rows, as their shape says. The dash in messages is written \<open>-\<close>.
\<close>

section \<open>Images\<close>

type_synonym pixel = "rat option"

datatype 'p image = Plane "'p list list" | Cube "'p list list list" | Other_Rank nat

datatype layout = Mono | Chw | Hwc

definition dim0 :: "'a list list \<Rightarrow> nat" where
  "dim0 xs = length xs"

definition dim1 :: "'a list list \<Rightarrow> nat" where
  "dim1 xs = (case xs of [] \<Rightarrow> 0 | x # _ \<Rightarrow> length x)"

definition dim2 :: "'a list list list \<Rightarrow> nat" where
  "dim2 xs = (case xs of [] \<Rightarrow> 0 | x # _ \<Rightarrow> dim1 x)"

definition layout_of :: "'p image \<Rightarrow> layout option" where
  "layout_of im =
     (case im of
        Plane _ \<Rightarrow> Some Mono
      | Cube xs \<Rightarrow> if dim0 xs \<in> {3, 4} then Some Chw else if dim2 xs \<in> {3, 4} then Some Hwc else None
      | Other_Rank _ \<Rightarrow> None)"

text \<open>Arrays are rectangular.\<close>

definition rect :: "nat \<Rightarrow> nat \<Rightarrow> 'a list list \<Rightarrow> bool" where
  "rect h w rows = (length rows = h \<and> list_all (\<lambda>row. length row = w) rows)"

fun wf_image :: "'p image \<Rightarrow> bool" where
  "wf_image (Plane rows) = rect (dim0 rows) (dim1 rows) rows"
| "wf_image (Cube xs) = (rect (dim0 xs) (dim1 xs) xs \<and> list_all (rect (dim1 xs) (dim2 xs)) xs)"
| "wf_image (Other_Rank _) = True"

text \<open>\<open>_read_fits\<close>: the first HDU with data. There is a primary HDU.\<close>

type_synonym ('d, 'h) hdus = "('d option \<times> 'h) list"

fun first_data :: "('d, 'h) hdus \<Rightarrow> ('d \<times> 'h) option" where
  "first_data [] = None"
| "first_data ((Some d, h) # _) = Some (d, h)"
| "first_data ((None, h) # rest) = first_data rest"

section \<open>Boxes\<close>

record crop_params =
  xp_enabled :: bool
  xp_x :: rat
  xp_y :: rat
  xp_width :: rat
  xp_height :: rat
  xp_threshold :: rat
  xp_padding :: int

definition unit_range :: "rat \<Rightarrow> bool" where
  "unit_range v = (0 \<le> v \<and> v \<le> 1)"

definition valid_crop :: "crop_params \<Rightarrow> bool" where
  "valid_crop ps =
     (list_all unit_range [xp_x ps, xp_y ps, xp_width ps, xp_height ps, xp_threshold ps]
      \<and> 0 \<le> xp_padding ps \<and> xp_padding ps \<le> 512)"

text \<open>The validator; both tests look at the box as given.\<close>

definition check_box :: "crop_params \<Rightarrow> crop_params" where
  "check_box ps =
     (if 0 < xp_width ps then
        ps\<lparr>xp_width := (if xp_x ps + xp_width ps > 1 + 1 / 1000000 then max (1 / 1000) (1 - xp_x ps) else xp_width ps),
           xp_height := (if xp_y ps + xp_height ps > 1 + 1 / 1000000 then max (1 / 1000) (1 - xp_y ps) else xp_height ps)\<rparr>
      else ps)"

text \<open>Column, row, width, height.\<close>

type_synonym box = "int \<times> int \<times> int \<times> int"

definition spatial_shape :: "'p image \<Rightarrow> (nat \<times> nat) option" where
  "spatial_shape im =
     (case layout_of im of
        None \<Rightarrow> None
      | Some lay \<Rightarrow> Some (case im of
            Plane rows \<Rightarrow> (dim0 rows, dim1 rows)
          | Cube xs \<Rightarrow> if lay = Chw then (dim1 xs, dim2 xs) else (dim0 xs, dim1 xs)
          | Other_Rank _ \<Rightarrow> (0, 0)))"

definition user_box :: "crop_params \<Rightarrow> int \<Rightarrow> int \<Rightarrow> box" where
  "user_box ps full_h full_w =
     (let x = max 0 (min (full_w - 1) (round_half_even (xp_x ps * of_int full_w)));
          y = max 0 (min (full_h - 1) (round_half_even (xp_y ps * of_int full_h)));
          w = max 1 (min (full_w - x) (round_half_even (xp_width ps * of_int full_w)));
          h = max 1 (min (full_h - y) (round_half_even (xp_height ps * of_int full_h)))
      in (x, y, w, h))"

definition above :: "rat \<Rightarrow> pixel \<Rightarrow> bool" where
  "above threshold p = (case p of None \<Rightarrow> False | Some v \<Rightarrow> threshold < v)"

definition signal_mask :: "rat \<Rightarrow> pixel image \<Rightarrow> bool list list" where
  "signal_mask threshold im =
     (case im of
        Plane rows \<Rightarrow> map (map (above threshold)) rows
      | Cube xs \<Rightarrow>
          if layout_of im = Some Chw then
            map (\<lambda>r. map (\<lambda>c. list_ex (\<lambda>plane. above threshold (plane ! r ! c)) xs) [0 ..< dim2 xs]) [0 ..< dim1 xs]
          else map (map (list_ex (above threshold))) xs
      | Other_Rank _ \<Rightarrow> [])"

definition signal_rows :: "bool list list \<Rightarrow> nat list" where
  "signal_rows on = filter (\<lambda>r. list_ex id (on ! r)) [0 ..< length on]"

definition signal_cols :: "bool list list \<Rightarrow> nat list" where
  "signal_cols on = filter (\<lambda>c. list_ex (\<lambda>row. row ! c) on) [0 ..< dim1 on]"

definition bbox_of_mask :: "bool list list \<Rightarrow> box" where
  "bbox_of_mask on =
     (if \<not> list_ex (list_ex id) on then (0, 0, 0, 0)
      else let rows = signal_rows on; cols = signal_cols on;
               y = int (hd rows); ymax = int (last rows); x = int (hd cols); xmax = int (last cols)
        in (x, y, xmax - x + 1, ymax - y + 1))"

definition bbox_of_signal :: "rat \<Rightarrow> pixel image \<Rightarrow> box option" where
  "bbox_of_signal threshold im = (if layout_of im = None then None else Some (bbox_of_mask (signal_mask threshold im)))"

definition pad_box :: "int \<Rightarrow> int \<Rightarrow> int \<Rightarrow> box \<Rightarrow> box" where
  "pad_box p full_h full_w = (\<lambda>(x, y, w, h).
     if 0 < p then
       (let x = max 0 (x - p); y = max 0 (y - p)
        in (x, y, min (full_w - x) (w + 2 * p), min (full_h - y) (h + 2 * p)))
     else (x, y, w, h))"

section \<open>The node\<close>

definition cut :: "int \<Rightarrow> int \<Rightarrow> 'a list \<Rightarrow> 'a list" where
  "cut start n xs = take (nat n) (drop (nat start) xs)"

definition cut_rect :: "box \<Rightarrow> 'a list list \<Rightarrow> 'a list list" where
  "cut_rect = (\<lambda>(x, y, w, h) rows. map (cut x w) (cut y h rows))"

definition slice_spatial :: "'p image \<Rightarrow> box \<Rightarrow> 'p image" where
  "slice_spatial im box =
     (case im of
       Plane rows \<Rightarrow> Plane (cut_rect box rows)
     | Cube xs \<Rightarrow> if layout_of im = Some Chw then Cube (map (cut_rect box) xs) else Cube (cut_rect box xs)
     | Other_Rank n \<Rightarrow> Other_Rank n)"

text \<open>Header values that are no numbers stay.\<close>

definition shift_key :: "('v \<Rightarrow> rat option) \<Rightarrow> (rat \<Rightarrow> 'v) \<Rightarrow> string \<Rightarrow> int \<Rightarrow> (string, 'v) dict \<Rightarrow> (string, 'v) dict" where
  "shift_key to_float of_float key off header =
     (case map_of header key of
        None \<Rightarrow> header
      | Some v \<Rightarrow> (case to_float v of None \<Rightarrow> header | Some f \<Rightarrow> dput key (of_float (f - of_int off)) header))"

definition show_int :: "int \<Rightarrow> string" where
  "show_int i = (if i < 0 then CHR ''-'' # show_nat (nat (- i)) else show_nat (nat i))"

definition shown_size :: "int \<Rightarrow> int \<Rightarrow> string" where
  "shown_size w h = show_int w @ ''x'' @ show_int h"

type_synonym ('p, 'v) fits_image = "'p image \<times> (string, 'v) dict"

definition keep_image :: "string \<Rightarrow> string \<Rightarrow> ('p, 'v) fits_image \<Rightarrow> ('p, 'v) fits_image act" where
  "keep_image before after im = act_bind (act_calls [Progress_Call (9 / 10) before, Progress_Call 1 after]) (\<lambda>_. act_return im)"

definition crop_to ::
  "('v \<Rightarrow> rat option) \<Rightarrow> (rat \<Rightarrow> 'v) \<Rightarrow> string \<Rightarrow> box \<Rightarrow> ('p, 'v) fits_image \<Rightarrow> ('p, 'v) fits_image act" where
  "crop_to to_float of_float message box im =
     (case box of (x, y, w, h) \<Rightarrow>
        act_bind (act_calls [Progress_Call (4 / 5) message, Progress_Call 1 ''crop: done'']) (\<lambda>_.
        act_return (slice_spatial (fst im) box,
          shift_key to_float of_float ''CRPIX2'' y (shift_key to_float of_float ''CRPIX1'' x (snd im)))))"

definition crop_image ::
  "('v \<Rightarrow> rat option) \<Rightarrow> (rat \<Rightarrow> 'v) \<Rightarrow> crop_params \<Rightarrow> (pixel, 'v) fits_image \<Rightarrow> (pixel, 'v) fits_image act" where
  "crop_image to_float of_float ps im =
     (if \<not> xp_enabled ps then keep_image ''crop: disabled - passing through'' ''crop: wrote pass-through'' im
      else case spatial_shape (fst im) of
        None \<Rightarrow> act_raise (Bad_Header ''shape'')
      | Some (fh, fw) \<Rightarrow>
          let full_h = int fh; full_w = int fw
          in if 0 < xp_width ps then
               (case user_box ps full_h full_w of (x, y, w, h) \<Rightarrow>
                  if x = 0 \<and> y = 0 \<and> w = full_w \<and> h = full_h
                  then keep_image ''crop: full-frame user box - passing through'' ''crop: done'' im
                  else crop_to to_float of_float
                    (''crop: user box '' @ shown_size full_w full_h @ '' -> '' @ shown_size w h) (x, y, w, h) im)
             else act_bind (act_calls [Progress_Call (3 / 10) ''crop: auto-detecting signal bbox'']) (\<lambda>_.
               case bbox_of_signal (xp_threshold ps) (fst im) of
                 None \<Rightarrow> act_raise (Bad_Header ''shape'')
               | Some (x0, y0, w0, h0) \<Rightarrow>
                   if w0 \<le> 0 \<or> h0 \<le> 0 then keep_image ''crop: no signal detected, passing through'' ''crop: wrote pass-through'' im
                   else (case pad_box (xp_padding ps) full_h full_w (x0, y0, w0, h0) of (x, y, w, h) \<Rightarrow>
                     if x = 0 \<and> y = 0 \<and> w = full_w \<and> h = full_h
                     then keep_image (''crop: nothing to trim ('' @ shown_size full_w full_h @ '')'') ''crop: wrote pass-through'' im
                     else crop_to to_float of_float
                       (''crop: auto-trim '' @ shown_size full_w full_h @ '' -> '' @ shown_size w h
                         @ '' (trimmed '' @ shown_size (full_w - w) (full_h - h) @ '')'') (x, y, w, h) im)))"

text \<open>\<open>hdus = None\<close>: the input file does not exist.\<close>

definition crop_run ::
  "('v \<Rightarrow> rat option) \<Rightarrow> (rat \<Rightarrow> 'v) \<Rightarrow> (pixel image, (string, 'v) dict) hdus option \<Rightarrow> string \<Rightarrow> crop_params \<Rightarrow> string
   \<Rightarrow> (ref \<times> (pixel, 'v) fits_image) act" where
  "crop_run to_float of_float hdus src ps out_dir =
     (case hdus of
        None \<Rightarrow> act_raise (Missing_Input src)
      | Some hs \<Rightarrow>
          act_bind (act_calls [Progress_Call (1 / 10) ''crop: reading FITS'']) (\<lambda>_.
          case first_data hs of
            None \<Rightarrow> act_raise (Bad_Header src)
          | Some im \<Rightarrow> act_bind (crop_image to_float of_float ps im) (\<lambda>out.
              act_return (image_ref (child out_dir ''image.fit''), out))))"

section \<open>Boxes stay inside and keep the signal\<close>

fun inside :: "nat \<Rightarrow> nat \<Rightarrow> box \<Rightarrow> bool" where
  "inside fh fw (x, y, w, h) \<longleftrightarrow> 0 \<le> x \<and> 0 \<le> y \<and> 1 \<le> w \<and> 1 \<le> h \<and> x + w \<le> int fw \<and> y + h \<le> int fh"

fun in_box :: "box \<Rightarrow> nat \<Rightarrow> nat \<Rightarrow> bool" where
  "in_box (x, y, w, h) r c \<longleftrightarrow> x \<le> int c \<and> int c < x + w \<and> y \<le> int r \<and> int r < y + h"

lemma clamp_span:
  "1 \<le> n \<Longrightarrow> max 0 (min (n - 1) p) + max 1 (min (n - max 0 (min (n - 1) p)) q) \<le> (n :: int)"
  by (simp add: max_def min_def)

lemma user_box_inside: "1 \<le> fh \<Longrightarrow> 1 \<le> fw \<Longrightarrow> inside fh fw (user_box ps (int fh) (int fw))"
  using clamp_span [of "int fw"] clamp_span [of "int fh"] by (simp add: user_box_def Let_def)

lemma pad_box_inside:
  assumes "inside fh fw b" "0 \<le> p"
  shows "inside fh fw (pad_box p (int fh) (int fw) b) \<and> (\<forall>r c. in_box b r c \<longrightarrow> in_box (pad_box p (int fh) (int fw) b) r c)"
proof -
  obtain x y w h where b: "b = (x, y, w, h)" by (cases b)
  show ?thesis using assms by (auto simp: b pad_box_def Let_def)
qed

lemma rect_nth: "rect h w rows \<Longrightarrow> r < h \<Longrightarrow> length (rows ! r) = w"
  by (simp add: rect_def list_all_length)

lemma rect_dim1: "rect h w rows \<Longrightarrow> 0 < h \<Longrightarrow> dim1 rows = w"
  by (cases rows) (auto simp: rect_def dim1_def)

text \<open>The box of a mask: inside, around everything that is set, and every side touches something set.\<close>

lemma filter_upt_bounds:
  assumes "r < n" "P r"
  shows "hd (filter P [0 ..< n]) \<le> r" "r \<le> last (filter P [0 ..< n])" "last (filter P [0 ..< n]) < n"
    "P (hd (filter P [0 ..< n]))" "P (last (filter P [0 ..< n]))"
proof -
  let ?xs = "filter P [0 ..< n]"
  have mem: "r \<in> set ?xs" using assms by simp
  then have ne: "?xs \<noteq> []" by (metis empty_iff empty_set)
  have sorted: "sorted ?xs" by (rule sorted_wrt_filter) simp
  show "hd ?xs \<le> r" using mem sorted ne by (cases ?xs) auto
  show "r \<le> last ?xs" using mem sorted ne by (cases ?xs rule: rev_cases) (auto simp: sorted_append)
  show "last ?xs < n" "P (hd ?xs)" "P (last ?xs)"
    using last_in_set [OF ne] hd_in_set [OF ne] unfolding set_filter by auto
qed

lemma bbox_of_mask_covers:
  assumes rect: "rect h w on" and set: "r < h" "c < w" "on ! r ! c"
  shows "inside h w (bbox_of_mask on) \<and> in_box (bbox_of_mask on) r c"
proof -
  have len: "length on = h" "dim1 on = w" using rect set(1) rect_dim1 [OF rect] by (simp_all add: rect_def)
  have row: "list_ex id (on ! r)" using set rect_nth [OF rect set(1)] by (auto simp: list_ex_length)
  have col: "list_ex (\<lambda>row. row ! c) on" using set len(1) by (auto simp: list_ex_length)
  have any: "list_ex (list_ex id) on" using row set(1) len(1) by (auto simp: list_ex_length)
  note rows = filter_upt_bounds [of r h "\<lambda>r. list_ex id (on ! r)", OF set(1) row]
  note cols = filter_upt_bounds [of c w "\<lambda>c. list_ex (\<lambda>row. row ! c) on", OF set(2) col]
  show ?thesis
    using rows(1-3) cols(1-3) any by (simp add: bbox_of_mask_def signal_rows_def signal_cols_def len Let_def)
qed

lemma bbox_of_mask_tight:
  assumes "rect h w on" "r < h" "c < w" "on ! r ! c" "bbox_of_mask on = (x, y, bw, bh)"
  shows "(\<exists>c < w. on ! nat y ! c) \<and> (\<exists>c < w. on ! nat (y + bh - 1) ! c)
    \<and> (\<exists>r < h. on ! r ! nat x) \<and> (\<exists>r < h. on ! r ! nat (x + bw - 1))"
proof -
  have len: "length on = h" "dim1 on = w" using assms(1,2) rect_dim1 [OF assms(1)] by (simp_all add: rect_def)
  have row: "list_ex id (on ! r)" using assms rect_nth [OF assms(1,2)] by (auto simp: list_ex_length)
  have col: "list_ex (\<lambda>row. row ! c) on" using assms(2,4) len(1) by (auto simp: list_ex_length)
  have any: "list_ex (list_ex id) on" using row assms(2) len(1) by (auto simp: list_ex_length)
  note rows = filter_upt_bounds [of r h "\<lambda>r. list_ex id (on ! r)", OF assms(2) row]
  note cols = filter_upt_bounds [of c w "\<lambda>c. list_ex (\<lambda>row. row ! c) on", OF assms(3) col]
  have box: "nat y = hd (signal_rows on)" "nat (y + bh - 1) = last (signal_rows on)"
    "nat x = hd (signal_cols on)" "nat (x + bw - 1) = last (signal_cols on)"
    using assms(5) any by (auto simp: bbox_of_mask_def Let_def)
  have in_row: "\<exists>c < w. on ! r' ! c" if "r' < h" "list_ex id (on ! r')" for r'
    using that rect_nth [OF assms(1) that(1)] by (auto simp: list_ex_length)
  have in_col: "\<exists>r < h. on ! r ! c'" if "list_ex (\<lambda>row. row ! c') on" for c'
    using that len(1) by (auto simp: list_ex_length)
  show ?thesis
    using in_row [of "hd (signal_rows on)"] in_row [of "last (signal_rows on)"] in_col [of "hd (signal_cols on)"]
      in_col [of "last (signal_cols on)"] rows cols
    unfolding box by (simp add: signal_rows_def signal_cols_def len)
qed

text \<open>The channels of a pixel, read by the layout the image had before the cut.\<close>

definition pixel_at :: "layout \<Rightarrow> 'p image \<Rightarrow> nat \<Rightarrow> nat \<Rightarrow> 'p list" where
  "pixel_at lay im r c =
     (case im of
        Plane rows \<Rightarrow> [rows ! r ! c]
      | Cube xs \<Rightarrow> if lay = Chw then map (\<lambda>plane. plane ! r ! c) xs else xs ! r ! c
      | Other_Rank _ \<Rightarrow> [])"

definition has_signal :: "layout \<Rightarrow> rat \<Rightarrow> pixel image \<Rightarrow> nat \<Rightarrow> nat \<Rightarrow> bool" where
  "has_signal lay t im r c = list_ex (above t) (pixel_at lay im r c)"

lemma signal_mask_nth:
  assumes "layout_of im = Some lay" "spatial_shape im = Some (h, w)" "wf_image im"
  shows "rect h w (signal_mask t im) \<and> (\<forall>r < h. \<forall>c < w. signal_mask t im ! r ! c = has_signal lay t im r c)"
proof (cases im)
  case (Plane rows)
  then show ?thesis using assms
    by (auto simp: spatial_shape_def layout_of_def signal_mask_def has_signal_def pixel_at_def rect_def list_all_length)
next
  case (Cube xs)
  show ?thesis
  proof (cases "lay = Chw")
    case True
    then show ?thesis using assms Cube
      by (simp add: spatial_shape_def signal_mask_def has_signal_def pixel_at_def rect_def list_all_length list_ex_iff)
  next
    case False
    then have hw: "h = dim0 xs" "w = dim1 xs" using assms(1,2) Cube by (auto simp: spatial_shape_def)
    have row: "length (xs ! r) = w" if "r < h" for r using assms(3) Cube hw that by (simp add: rect_def list_all_length)
    show ?thesis using assms(1,3) Cube False hw row
      by (auto simp: signal_mask_def has_signal_def pixel_at_def rect_def list_all_length)
  qed
next
  case (Other_Rank n)
  then show ?thesis using assms by (simp add: layout_of_def)
qed

lemma length_cut: "0 \<le> s \<Longrightarrow> s + n \<le> int (length xs) \<Longrightarrow> 0 \<le> n \<Longrightarrow> length (cut s n xs) = nat n"
  by (simp add: cut_def)

lemma cut_nth: "0 \<le> s \<Longrightarrow> s + n \<le> int (length xs) \<Longrightarrow> s \<le> int i \<Longrightarrow> int i < s + n \<Longrightarrow> cut s n xs ! (i - nat s) = xs ! i"
  by (simp add: cut_def nat_le_iff)

lemma cut_all: "cut 0 (int (length xs)) xs = xs"
  by (simp add: cut_def)

lemma set_cut: "set (cut s n xs) \<subseteq> set xs"
  by (auto simp: cut_def dest!: in_set_takeD in_set_dropD)

lemma cut_rect_nth:
  assumes "rect fh fw rows" "inside fh fw (x, y, w, h)" "in_box (x, y, w, h) r c"
  shows "cut_rect (x, y, w, h) rows ! (r - nat y) ! (c - nat x) = rows ! r ! c"
proof -
  have r: "r < fh" "r - nat y < nat h" using assms(2,3) by auto
  have len: "length rows = fh" "length (rows ! r) = fw" using assms(1) r(1) by (simp_all add: rect_def list_all_length)
  have "length (cut y h rows) = nat h" using assms(2) len(1) by (simp add: length_cut)
  then show ?thesis
    using assms(2,3) r len by (simp add: cut_rect_def cut_nth)
qed

lemma rect_cut_rect:
  assumes "rect fh fw rows" "inside fh fw (x, y, w, h)"
  shows "rect (nat h) (nat w) (cut_rect (x, y, w, h) rows)"
  using assms set_cut [of y h rows]
  by (auto simp: rect_def cut_rect_def length_cut list_all_iff subset_iff)

lemma cut_rect_all: "rect fh fw rows \<Longrightarrow> cut_rect (0, 0, int fw, int fh) rows = rows"
  using cut_all [of rows] by (auto simp: cut_rect_def rect_def list_all_iff cut_def intro!: map_idI)

lemma wf_shape:
  assumes "wf_image im" "layout_of im = Some lay" "spatial_shape im = Some (fh, fw)"
  shows "case im of Plane rows \<Rightarrow> rect fh fw rows
    | Cube xs \<Rightarrow> if lay = Chw then list_all (rect fh fw) xs else rect fh fw xs | Other_Rank _ \<Rightarrow> False"
  using assms by (cases im) (auto simp: spatial_shape_def layout_of_def)

lemma slice_spatial_pixel:
  assumes "wf_image im" "layout_of im = Some lay" "spatial_shape im = Some (fh, fw)"
    and "inside fh fw (x, y, w, h)" "in_box (x, y, w, h) r c"
  shows "pixel_at lay (slice_spatial im (x, y, w, h)) (r - nat y) (c - nat x) = pixel_at lay im r c"
  using wf_shape [OF assms(1-3)] assms(2)
  by (cases im) (auto simp: cut_rect_nth [OF _ assms(4,5)] pixel_at_def slice_spatial_def list_all_iff split: if_splits)

lemma slice_spatial_all:
  assumes "wf_image im" "layout_of im = Some lay" "spatial_shape im = Some (fh, fw)"
  shows "slice_spatial im (0, 0, int fw, int fh) = im"
  using wf_shape [OF assms] assms(2)
  by (cases im) (auto simp: cut_rect_all [of fh fw] slice_spatial_def list_all_iff intro!: map_idI split: if_splits)

text \<open>The box the node cuts, the whole frame when it passes the image through.\<close>

definition crop_box :: "crop_params \<Rightarrow> pixel image \<Rightarrow> nat \<Rightarrow> nat \<Rightarrow> box" where
  "crop_box ps im fh fw =
     (if \<not> xp_enabled ps then (0, 0, int fw, int fh)
      else if 0 < xp_width ps then user_box ps (int fh) (int fw)
      else case bbox_of_mask (signal_mask (xp_threshold ps) im) of (x, y, w, h) \<Rightarrow>
        if w \<le> 0 \<or> h \<le> 0 then (0, 0, int fw, int fh) else pad_box (xp_padding ps) (int fh) (int fw) (x, y, w, h))"

lemma keep_image_snd: "snd (keep_image a b im) = Inr im"
  by (simp add: keep_image_def act_bind_def act_calls_def act_return_def)

lemma crop_to_snd: "snd (crop_to tf off m box im) = Inr (p, hdr) \<Longrightarrow> p = slice_spatial (fst im) box"
  by (cases box) (simp add: crop_to_def act_bind_def act_calls_def act_return_def)

lemma crop_image_cuts:
  assumes "crop_image tf off ps (im, hdr) = (cs, Inr (im', hdr'))" "wf_image im"
    and lay: "layout_of im = Some lay" and shape: "spatial_shape im = Some (fh, fw)"
  shows "im' = slice_spatial im (crop_box ps im fh fw)"
proof -
  note all = slice_spatial_all [OF assms(2) lay shape]
  have run: "snd (crop_image tf off ps (im, hdr)) = Inr (im', hdr')" using assms(1) by simp
  show ?thesis
    using run lay shape all
    by (auto simp: crop_image_def crop_box_def keep_image_snd act_bind_snd bbox_of_signal_def Let_def
        split: if_splits prod.splits dest!: crop_to_snd)
qed

lemma crop_box_inside:
  assumes "layout_of im = Some lay" "spatial_shape im = Some (fh, fw)" "wf_image im" "1 \<le> fh" "1 \<le> fw" "0 \<le> xp_padding ps"
  shows "inside fh fw (crop_box ps im fh fw)"
proof -
  let ?on = "signal_mask (xp_threshold ps) im"
  have rect: "rect fh fw ?on" using signal_mask_nth [OF assms(1-3)] by blast
  have bbox: "inside fh fw (bbox_of_mask ?on)" if "bbox_of_mask ?on = (x, y, w, h)" "\<not> (w \<le> 0 \<or> h \<le> 0)" for x y w h
  proof -
    have "list_ex (list_ex id) ?on" using that by (auto simp: bbox_of_mask_def split: if_splits)
    then obtain r c where "r < fh" "c < fw" "?on ! r ! c"
      using rect rect_nth [OF rect] by (auto simp: list_ex_length rect_def)
    then show ?thesis using bbox_of_mask_covers [OF rect] by blast
  qed
  show ?thesis
    using user_box_inside [OF assms(4,5), of ps] bbox pad_box_inside [OF _ assms(6), of fh fw] assms(4,5)
    by (auto simp: crop_box_def split: prod.splits)
qed

text \<open>
  C34: The crop stays inside the frame and is never empty, and the automatic trim loses no signal: every pixel with a
  channel above the threshold is in the box, where the output has it unchanged; without padding each side of the box
  touches such a pixel.
\<close>

theorem crop_keeps_signal:
  assumes "crop_image tf off ps (im, hdr) = (cs, Inr (im', hdr'))" "wf_image im"
    and "layout_of im = Some lay" "spatial_shape im = Some (fh, fw)" "1 \<le> fh" "1 \<le> fw" "0 \<le> xp_padding ps"
    and "crop_box ps im fh fw = (x, y, w, h)"
  shows "inside fh fw (x, y, w, h) \<and> im' = slice_spatial im (x, y, w, h)
    \<and> (xp_enabled ps \<longrightarrow> xp_width ps = 0 \<longrightarrow> (\<forall>r < fh. \<forall>c < fw. has_signal lay (xp_threshold ps) im r c \<longrightarrow>
        in_box (x, y, w, h) r c \<and> pixel_at lay im' (r - nat y) (c - nat x) = pixel_at lay im r c
        \<and> (xp_padding ps = 0 \<longrightarrow>
            (\<exists>c' < fw. has_signal lay (xp_threshold ps) im (nat y) c')
            \<and> (\<exists>c' < fw. has_signal lay (xp_threshold ps) im (nat (y + h - 1)) c')
            \<and> (\<exists>r' < fh. has_signal lay (xp_threshold ps) im r' (nat x))
            \<and> (\<exists>r' < fh. has_signal lay (xp_threshold ps) im r' (nat (x + w - 1))))))"
proof (intro conjI impI allI)
  let ?on = "signal_mask (xp_threshold ps) im" and ?P = "has_signal lay (xp_threshold ps) im"
  have rect: "rect fh fw ?on" and on: "?on ! r ! c = ?P r c" if "r < fh" "c < fw" for r c
    using signal_mask_nth [OF assms(3,4,2), of "xp_threshold ps"] that by auto
  show inside: "inside fh fw (x, y, w, h)" using crop_box_inside [OF assms(3,4,2,5-7)] assms(8) by simp
  show cut: "im' = slice_spatial im (x, y, w, h)" using crop_image_cuts [OF assms(1-4)] assms(8) by simp
  fix r c assume auto: "xp_enabled ps" "xp_width ps = 0" and rc: "r < fh" "c < fw" "?P r c"
  have set: "?on ! r ! c" using on rc by simp
  note covers = bbox_of_mask_covers [OF rect [OF rc(1,2)] rc(1,2) set]
  obtain x0 y0 w0 h0 where b: "bbox_of_mask ?on = (x0, y0, w0, h0)" by (cases "bbox_of_mask ?on")
  have box: "(x, y, w, h) = pad_box (xp_padding ps) (int fh) (int fw) (x0, y0, w0, h0)"
    using assms(8) auto covers b by (simp add: crop_box_def)
  show mem: "in_box (x, y, w, h) r c" using pad_box_inside [of fh fw "bbox_of_mask ?on", OF _ assms(7)] covers b box by simp
  show "pixel_at lay im' (r - nat y) (c - nat x) = pixel_at lay im r c"
    using slice_spatial_pixel [OF assms(2-4) inside mem] cut by simp
  assume "xp_padding ps = 0"
  then have "bbox_of_mask ?on = (x, y, w, h)" using box b by (simp add: pad_box_def)
  note tight = bbox_of_mask_tight [OF rect [OF rc(1,2)] rc(1,2) set this]
  have "nat y < fh" "nat (y + h - 1) < fh" "nat x < fw" "nat (x + w - 1) < fw" using inside by auto
  then show "\<exists>c' < fw. ?P (nat y) c'" "\<exists>c' < fw. ?P (nat (y + h - 1)) c'"
    "\<exists>r' < fh. ?P r' (nat x)" "\<exists>r' < fh. ?P r' (nat (x + w - 1))"
    using tight on by auto
qed

text \<open>A frame of four rows and five columns; the last column is not finite.\<close>

definition demo_image :: "pixel image" where
  "demo_image = Plane
     [[Some 0, Some 0, Some 0, Some 0, None],
      [Some 0, Some 0, Some (1 / 2), Some 0, None],
      [Some 0, Some (1 / 5), Some 0, Some 0, None],
      [Some 0, Some 0, Some 0, Some 0, None]]"

definition demo_crop :: "int \<Rightarrow> crop_params" where
  "demo_crop p = \<lparr>xp_enabled = True, xp_x = 0, xp_y = 0, xp_width = 0, xp_height = 0, xp_threshold = 1 / 1000, xp_padding = p\<rparr>"

lemma demo_crop_run:
  "snd (crop_image Some id (demo_crop 0) (demo_image, [(''CRPIX1'', 3), (''CRPIX2'', 2)]))
    = Inr (Plane [[Some 0, Some (1 / 2)], [Some (1 / 5), Some 0]], [(''CRPIX1'', 2), (''CRPIX2'', 1)])"
  by code_simp

theorem crop_keeps_signal_witness:
  "inside 4 5 (1, 1, 2, 2) \<and> (\<exists>c' < 5. has_signal Mono (1 / 1000) demo_image 2 c')"
proof -
  obtain cs where run: "crop_image Some id (demo_crop 0) (demo_image, [(''CRPIX1'', 3), (''CRPIX2'', 2)])
      = (cs, Inr (Plane [[Some 0, Some (1 / 2)], [Some (1 / 5), Some 0]], [(''CRPIX1'', 2), (''CRPIX2'', 1)]))"
    using demo_crop_run by (metis prod.collapse)
  have im: "wf_image demo_image" "layout_of demo_image = Some Mono" "spatial_shape demo_image = Some (4, 5)"
    "crop_box (demo_crop 0) demo_image 4 5 = (1, 1, 2, 2)" "has_signal Mono (1 / 1000) demo_image 1 2"
    by code_simp+
  have ps: "xp_padding (demo_crop 0) = 0" "xp_enabled (demo_crop 0)" "xp_width (demo_crop 0) = 0"
    "xp_threshold (demo_crop 0) = 1 / 1000" by (simp_all add: demo_crop_def)
  have all: "inside 4 5 (1, 1, 2, 2)" "\<forall>r < 4. \<forall>c < 5. has_signal Mono (1 / 1000) demo_image r c \<longrightarrow>
      (\<exists>c' < 5. has_signal Mono (1 / 1000) demo_image 2 c')"
    using crop_keeps_signal [OF run im(1-3) _ _ _ im(4)] by (simp_all add: ps)
  then show ?thesis using im(5) all(2) [rule_format, of 1 2] by simp
qed

section \<open>Findings\<close>

text \<open>A margin cut short on one side is added on the other: three pixels are asked for and five come.\<close>

lemma padding_moves_to_far_side: "pad_box 3 100 100 (1, 50, 10, 10) = (0, 47, 16, 16)"
  by code_simp

text \<open>A user's box without a height is not taken for automatic: the result is one row.\<close>

lemma zero_height_cuts_one_row:
  "user_box (check_box ((demo_crop 0)\<lparr>xp_x := 1 / 4, xp_width := 1 / 2\<rparr>)) 100 100 = (25, 0, 50, 1)"
  by code_simp

end
