(* ===== verification/Image_Nodes.thy ===== *)
theory Image_Nodes
  imports Crop
begin

text \<open>
  The nodes of one image that hand their work to Siril (\<open>nodes/basic\<close>: \<open>color_balance.py\<close>, \<open>auto_bp_shift.py\<close>,
  \<open>stretch.py\<close>, \<open>save_image.py\<close>, \<open>narrowband_extract.py\<close>, \<open>narrowband_compose.py\<close>) and \<open>downscale.py\<close>. A node starts in
  the empty directory the cache reserved for it; its value is its refs and the entries of that directory. Numbers are
  shown by the functions of \<open>texts\<close>, Python's formats; the log is not modelled.
\<close>

section \<open>One run of Siril on an image\<close>

record texts =
  tx_g :: "rat \<Rightarrow> string"
  tx_f5 :: "pixel \<Rightarrow> string"
  tx_f6 :: "pixel \<Rightarrow> string"

definition image_ref_shown :: "string \<Rightarrow> ref" where
  "image_ref_shown path = (image_ref path)\<lparr>r_display_ready := True\<rparr>"

definition load_and_save :: "'c seq_env \<Rightarrow> string \<Rightarrow> string \<Rightarrow> string list \<Rightarrow> string \<Rightarrow> string list" where
  "load_and_save sq out_dir src middle save =
     [''cd '' @ quote (sq_resolve sq out_dir), ''load '' @ quote (sq_resolve sq src)] @ middle @ [save]"

definition run_on_image ::
  "'c seq_env \<Rightarrow> string list \<Rightarrow> string \<Rightarrow> 'c listing \<Rightarrow> rat \<Rightarrow> rat \<Rightarrow> string \<Rightarrow> 'c listing act" where
  "run_on_image sq commands out_dir files low high expected =
     act_bind (siril_run (sq_siril sq) (sq_cancel sq) commands out_dir files
         (progress_calls \<circ> progress_handler low high 1 '''')) (\<lambda>r.
     act_bind (check_exit r) (\<lambda>r.
     if has_key (sr_dir r) expected then act_return (sr_dir r) else act_raise (Missing_Output expected)))"

text \<open>\<open>src_there\<close>: the input file exists.\<close>

definition pass_through :: "'c seq_env \<Rightarrow> string \<Rightarrow> string \<Rightarrow> string \<Rightarrow> (ref \<times> 'c listing) act" where
  "pass_through sq node_name src out_dir =
     act_bind (act_calls [Progress_Call (1 / 2) (node_name @ '': disabled - passing through''),
         Progress_Call 1 (node_name @ '': wrote pass-through'')]) (\<lambda>_.
     act_return (image_ref (child out_dir ''image.fit''), [(''image.fit'', Data (sq_content sq src))]))"

section \<open>Color balance\<close>

record balance_params =
  lp_enabled :: bool
  lp_amount :: rat

definition valid_balance :: "balance_params \<Rightarrow> bool" where
  "valid_balance ps = unit_range (lp_amount ps)"

definition color_balance :: "'c seq_env \<Rightarrow> texts \<Rightarrow> bool \<Rightarrow> string \<Rightarrow> balance_params \<Rightarrow> string \<Rightarrow> (ref \<times> 'c listing) act" where
  "color_balance sq tx src_there src ps out_dir =
     (if \<not> src_there then act_raise (Missing_Input src)
      else if \<not> lp_enabled ps then pass_through sq ''color_balance'' src out_dir
      else act_bind (act_calls [Progress_Call (1 / 5) (''color_balance: SCNR green amount='' @ tx_g tx (lp_amount ps))]) (\<lambda>_.
        act_bind (run_on_image sq (load_and_save sq out_dir src [''rmgreen 0 '' @ tx_g tx (lp_amount ps)] ''save image'')
            out_dir [] (1 / 5) (19 / 20) ''image.fit'') (\<lambda>out.
        act_bind (act_calls [Progress_Call 1 ''color_balance: wrote image.fit'']) (\<lambda>_.
        act_return (image_ref (child out_dir ''image.fit''), out)))))"

section \<open>The black point\<close>

record bp_params =
  zp_enabled :: bool
  zp_clip_fraction :: rat

definition valid_bp :: "bp_params \<Rightarrow> bool" where
  "valid_bp ps = (0 \<le> zp_clip_fraction ps \<and> zp_clip_fraction ps < 1)"

text \<open>\<open>numpy.quantile\<close>, linear between the two neighbours; not a number when a pixel is not. \<open>nanmax\<close> leaves those out.\<close>

definition quantile_of :: "rat list \<Rightarrow> rat \<Rightarrow> rat" where
  "quantile_of xs q =
     (let ys = sort xs; pos = q * of_nat (length xs - 1); i = nat \<lfloor>pos\<rfloor>; lo = ys ! i
      in if Suc i < length xs then lo + (ys ! Suc i - lo) * (pos - of_nat i) else lo)"

definition quantile :: "pixel list \<Rightarrow> rat \<Rightarrow> pixel" where
  "quantile ps q = (if None \<in> set ps then None else Some (quantile_of (map the ps) q))"

definition nanmax :: "pixel list \<Rightarrow> pixel" where
  "nanmax ps = (case List.map_filter id ps of [] \<Rightarrow> None | v # vs \<Rightarrow> Some (fold max vs v))"

text \<open>Comparisons with what is not a number are false.\<close>

definition compute_bp :: "pixel list \<Rightarrow> rat \<Rightarrow> pixel" where
  "compute_bp ps clip_fraction =
     (case quantile ps clip_fraction of
        None \<Rightarrow> None
      | Some bp \<Rightarrow>
          (let bp = (case nanmax ps of None \<Rightarrow> bp | Some m \<Rightarrow> if 101 / 100 < m then bp / m else bp);
               bp = (if bp < 0 then 0 else bp)
           in Some (if 1 \<le> bp then 999999 / 1000000 else bp)))"

definition auto_bp_shift ::
  "'c seq_env \<Rightarrow> texts \<Rightarrow> bool \<Rightarrow> pixel list \<Rightarrow> string \<Rightarrow> bp_params \<Rightarrow> string \<Rightarrow> (ref \<times> 'c listing) act" where
  "auto_bp_shift sq tx src_there pixels src ps out_dir =
     (if \<not> src_there then act_raise (Missing_Input src)
      else if \<not> zp_enabled ps then pass_through sq ''auto_bp_shift'' src out_dir
      else if pixels = [] then act_raise (Bad_Header src)
      else
        let bp = compute_bp pixels (zp_clip_fraction ps)
        in act_bind (act_calls [Progress_Call (3 / 10)
               (''auto_bp_shift: BP='' @ tx_f5 tx bp @ '' (clip='' @ tx_g tx (zp_clip_fraction ps) @ '')'')]) (\<lambda>_.
           act_bind (run_on_image sq (load_and_save sq out_dir src [''linstretch -BP='' @ tx_f6 tx bp @ '' -clipmode=clip''] ''save image'')
               out_dir [] (1 / 5) (19 / 20) ''image.fit'') (\<lambda>out.
           act_bind (act_calls [Progress_Call 1 ''auto_bp_shift: wrote image.fit'']) (\<lambda>_.
           act_return (image_ref (child out_dir ''image.fit''), out)))))"

section \<open>The stretch\<close>

datatype stretch_method = Autostretch | Mtf | Asinh

definition stretch_name :: "stretch_method \<Rightarrow> string" where
  "stretch_name m = (case m of Autostretch \<Rightarrow> ''autostretch'' | Mtf \<Rightarrow> ''mtf'' | Asinh \<Rightarrow> ''asinh'')"

record stretch_params =
  yp_method :: stretch_method
  yp_linked :: bool
  yp_shadows_clip :: rat
  yp_target_bg :: rat
  yp_mtf_shadows :: rat
  yp_mtf_midtones :: rat
  yp_mtf_highlights :: rat
  yp_asinh_stretch :: rat
  yp_asinh_offset :: rat
  yp_asinh_human :: bool

definition valid_stretch :: "stretch_params \<Rightarrow> bool" where
  "valid_stretch ps =
     (- 10 \<le> yp_shadows_clip ps \<and> yp_shadows_clip ps \<le> 0
      \<and> list_all unit_range [yp_target_bg ps, yp_mtf_shadows ps, yp_mtf_midtones ps, yp_mtf_highlights ps]
      \<and> 1 \<le> yp_asinh_stretch ps \<and> yp_asinh_stretch ps \<le> 1000 \<and> - 1 \<le> yp_asinh_offset ps \<and> yp_asinh_offset ps \<le> 1)"

definition build_stretch_cmd :: "texts \<Rightarrow> stretch_params \<Rightarrow> string" where
  "build_stretch_cmd tx p =
     (case yp_method p of
        Autostretch \<Rightarrow>
          ''autostretch '' @ (if yp_linked p then ''-linked '' else '''') @ tx_g tx (yp_shadows_clip p) @ '' '' @ tx_g tx (yp_target_bg p)
      | Mtf \<Rightarrow> ''mtf '' @ tx_g tx (yp_mtf_shadows p) @ '' '' @ tx_g tx (yp_mtf_midtones p) @ '' '' @ tx_g tx (yp_mtf_highlights p)
      | Asinh \<Rightarrow> ''asinh '' @ tx_g tx (yp_asinh_stretch p) @ '' '' @ tx_g tx (yp_asinh_offset p)
          @ (if yp_asinh_human p then '' -human'' else ''''))"

definition stretch :: "'c seq_env \<Rightarrow> texts \<Rightarrow> bool \<Rightarrow> string \<Rightarrow> stretch_params \<Rightarrow> string \<Rightarrow> (ref \<times> 'c listing) act" where
  "stretch sq tx src_there src ps out_dir =
     (if \<not> src_there then act_raise (Missing_Input src)
      else act_bind (act_calls [Progress_Call (1 / 10) (''stretch: applying '' @ stretch_name (yp_method ps))]) (\<lambda>_.
        act_bind (run_on_image sq (load_and_save sq out_dir src [build_stretch_cmd tx ps] ''save image'')
            out_dir [] (1 / 5) (19 / 20) ''image.fit'') (\<lambda>out.
        act_bind (act_calls [Progress_Call 1 ''stretch: wrote image.fit'']) (\<lambda>_.
        act_return (image_ref_shown (child out_dir ''image.fit''), out)))))"

section \<open>Saving and scaling\<close>

definition png_ref :: "string \<Rightarrow> ref" where
  "png_ref path = \<lparr>r_node_hash = '''', r_port = ''image'', r_path = path, r_type = IMAGE_PNG, r_display_ready = False\<rparr>"

definition save_image :: "'c seq_env \<Rightarrow> bool \<Rightarrow> string \<Rightarrow> string \<Rightarrow> (ref \<times> 'c listing) act" where
  "save_image sq src_there src out_dir =
     (if \<not> src_there then act_raise (Missing_Input src)
      else act_bind (act_calls [Progress_Call (1 / 5) ''save_image: rendering PNG'']) (\<lambda>_.
        act_bind (run_on_image sq (load_and_save sq out_dir src [] ''savepng image'')
            out_dir [] (1 / 5) (19 / 20) ''image.png'') (\<lambda>out.
        act_bind (act_calls [Progress_Call 1 ''save_image: wrote image.png'']) (\<lambda>_.
        act_return (png_ref (child out_dir ''image.png''), out)))))"

text \<open>The size \<open>downscale\<close> asks Pillow for; \<open>size\<close>: width and height of the image read, \<open>resize\<close>: Pillow's.\<close>

definition new_size :: "nat \<Rightarrow> nat \<Rightarrow> nat \<Rightarrow> int \<times> int" where
  "new_size target w h =
     (let long_edge = max w h; scale = (if long_edge \<le> target then 1 else of_nat target / of_nat long_edge :: rat)
      in (max 1 (round_half_even (of_nat w * scale)), max 1 (round_half_even (of_nat h * scale))))"

definition downscale ::
  "(int \<times> int \<Rightarrow> 'c \<Rightarrow> 'c) \<Rightarrow> 'c \<Rightarrow> nat \<times> nat \<Rightarrow> nat \<Rightarrow> string \<Rightarrow> string \<Rightarrow> (ref \<times> 'c listing) act" where
  "downscale resize c wh target src out_dir =
     (case wh of (w, h) \<Rightarrow>
      let new = new_size target w h
      in act_bind (act_calls [Progress_Call 0 (''downscale: reading '' @ name_of src),
             Progress_Call (1 / 2) (''downscale: '' @ shown_size (int w) (int h) @ '' -> '' @ shown_size (fst new) (snd new)),
             Progress_Call 1 ''downscale: done'']) (\<lambda>_.
         act_return (png_ref (child out_dir ''image.png''), [(''image.png'', Data (resize new c))])))"

section \<open>Narrowband\<close>

record extract_params =
  np_input_basename :: string
  np_fitseq :: bool

definition valid_extract :: "extract_params \<Rightarrow> bool" where
  "valid_extract ps = valid_basename 64 (np_input_basename ps)"

definition build_extract_commands :: "string \<Rightarrow> string \<Rightarrow> string list" where
  "build_extract_commands input_basename work_dir =
     (let ha_seq = ''Ha_'' @ input_basename; oiii_seq = ''OIII_'' @ input_basename
      in [''cd '' @ quote work_dir, ''seqextract_HaOIII '' @ input_basename @ '' -resample=ha'']
         @ concat (map (\<lambda>(src_seq, out_name).
             [''register '' @ src_seq,
              ''stack r_'' @ src_seq @ '' rej 3 3 -norm=addscale -output_norm -32b -out='' @ out_name])
             [(ha_seq, ''results_ha''), (oiii_seq, ''results_oiii'')])
         @ [''load results_ha'', ''save results_00001'', ''load results_oiii'', ''save results_00002'', ''link results'',
            ''register results -transf=shift -interp=none'', ''load r_results_00001'', ''save r_results_ha'',
            ''load r_results_00002'', ''save r_results_oiii''])"

definition port_ref :: "string \<Rightarrow> string \<Rightarrow> ref" where
  "port_ref port path = \<lparr>r_node_hash = '''', r_port = port, r_path = path, r_type = IMAGE_FITS, r_display_ready = False\<rparr>"

text \<open>The working directory is removed with whatever is left in it; both moved files are the value.\<close>

definition narrowband_extract ::
  "'c seq_env \<Rightarrow> string \<Rightarrow> extract_params \<Rightarrow> string \<Rightarrow> (ref \<times> ref \<times> 'c listing) act" where
  "narrowband_extract sq seq_in ps out_dir =
     (case sq_listing sq seq_in of
        None \<Rightarrow> act_raise (Missing_Input seq_in)
      | Some files \<Rightarrow>
          let work_dir = child out_dir ''_narrowband''
          in act_bind (act_lift (stage_sequence (sq_resolve sq) seq_in files work_dir [] (np_input_basename ps) (np_fitseq ps)))
               (\<lambda>(work, staged).
             if staged = [] then act_raise (Missing_Input (np_input_basename ps))
             else act_bind (act_calls [Progress_Call (1 / 10) ''narrowband_extract: extracting Ha/OIII and aligning'']) (\<lambda>_.
               act_bind (siril_run (sq_siril sq) (sq_cancel sq)
                   (build_extract_commands (np_input_basename ps) (sq_resolve sq work_dir)) work_dir work
                   (progress_calls \<circ> progress_handler (1 / 5) (19 / 20) 6 '''')) (\<lambda>r.
               act_bind (check_exit r) (\<lambda>r.
               case (map_of (sr_dir r) ''r_results_ha.fit'', map_of (sr_dir r) ''r_results_oiii.fit'') of
                 (Some ha, Some oiii) \<Rightarrow>
                   act_bind (act_lift (drop_staged staged (dpop ''r_results_oiii.fit'' (dpop ''r_results_ha.fit'' (sr_dir r))))) (\<lambda>_.
                   act_bind (act_calls [Progress_Call 1 ''narrowband_extract: wrote r_results_ha + r_results_oiii'']) (\<lambda>_.
                   act_return (port_ref ''ha'' (child out_dir ''r_results_ha.fit''), port_ref ''oiii'' (child out_dir ''r_results_oiii.fit''),
                     [(''r_results_ha.fit'', ha), (''r_results_oiii.fit'', oiii)])))
               | _ \<Rightarrow> act_raise (Missing_Output ''r_results''))))))"

datatype palette = Hoo | Ohh | Hho | Ooh | Hoh | Oho | Hso

datatype channel = Ha_Channel | Oiii_Channel | Synthetic_Channel

text \<open>Red, green and blue.\<close>

definition PALETTE_CONFIG :: "palette \<Rightarrow> channel \<times> channel \<times> channel" where
  "PALETTE_CONFIG m =
     (case m of
        Hoo \<Rightarrow> (Ha_Channel, Oiii_Channel, Oiii_Channel)
      | Ohh \<Rightarrow> (Oiii_Channel, Ha_Channel, Ha_Channel)
      | Hho \<Rightarrow> (Ha_Channel, Ha_Channel, Oiii_Channel)
      | Ooh \<Rightarrow> (Oiii_Channel, Oiii_Channel, Ha_Channel)
      | Hoh \<Rightarrow> (Ha_Channel, Oiii_Channel, Ha_Channel)
      | Oho \<Rightarrow> (Oiii_Channel, Ha_Channel, Oiii_Channel)
      | Hso \<Rightarrow> (Ha_Channel, Synthetic_Channel, Oiii_Channel))"

definition palette_name :: "palette \<Rightarrow> string" where
  "palette_name m =
     (case m of Hoo \<Rightarrow> ''HOO'' | Ohh \<Rightarrow> ''OHH'' | Hho \<Rightarrow> ''HHO'' | Ooh \<Rightarrow> ''OOH'' | Hoh \<Rightarrow> ''HOH'' | Oho \<Rightarrow> ''OHO'' | Hso \<Rightarrow> ''HSO'')"

definition requires_synthetic :: "palette \<Rightarrow> bool" where
  "requires_synthetic m = (m = Hso)"

definition source_file :: "channel \<Rightarrow> string" where
  "source_file c =
     (case c of Ha_Channel \<Rightarrow> ''r_results_ha'' | Oiii_Channel \<Rightarrow> ''normalized_r_results_oiii'' | Synthetic_Channel \<Rightarrow> ''synthetic_green'')"

definition var :: "string \<Rightarrow> string" where
  "var s = ''$'' @ s @ ''$''"

definition build_compose_commands :: "palette \<Rightarrow> string \<Rightarrow> string \<Rightarrow> string list" where
  "build_compose_commands mode work_dir out_image =
     (let ha = ''r_results_ha''; oiii = ''r_results_oiii''; normalized = ''normalized_'' @ oiii;
          normalize_formula = var oiii @ ''*mad('' @ var ha @ '')/mad('' @ var oiii @ '')-mad('' @ var ha @ '')/mad('' @ var oiii
            @ '')*median('' @ var oiii @ '')+median('' @ var ha @ '')'';
          synthetic_formula = ''('' @ var ha @ '' * 0.7) + ('' @ var normalized @ '' * 0.3)''
      in [''cd '' @ quote work_dir, ''load '' @ oiii, ''pm '' @ normalize_formula, ''save '' @ normalized]
         @ (if requires_synthetic mode then [''pm '' @ synthetic_formula, ''save synthetic_green''] else [])
         @ (case PALETTE_CONFIG mode of (r, g, b) \<Rightarrow>
             [''rgbcomp '' @ source_file r @ '' '' @ source_file g @ '' '' @ source_file b @ '' -out='' @ quote out_image]))"

definition compose_phases :: "palette \<Rightarrow> int" where
  "compose_phases m = (if requires_synthetic m then 3 else 2)"

text \<open>\<open>so\<close>: the entries of \<open>out_dir\<close> after the run, beside the working directory, which is removed.\<close>

definition narrowband_compose ::
  "'c seq_env \<Rightarrow> 'c siril_out \<Rightarrow> bool \<Rightarrow> bool \<Rightarrow> string \<Rightarrow> string \<Rightarrow> palette \<Rightarrow> string \<Rightarrow> (ref \<times> 'c listing) act" where
  "narrowband_compose sq so ha_there oiii_there ha_in oiii_in mode out_dir =
     (if \<not> ha_there then act_raise (Missing_Input ha_in)
      else if \<not> oiii_there then act_raise (Missing_Input oiii_in)
      else
        let work_dir = child out_dir ''_compose''; out_image = child out_dir ''image.fit'';
            work = [(''r_results_ha.fit'', Data (sq_content sq ha_in)), (''r_results_oiii.fit'', Data (sq_content sq oiii_in))];
            commands = build_compose_commands mode (sq_resolve sq work_dir) (sq_resolve sq out_image)
        in act_bind (act_calls [Progress_Call (1 / 10) (''narrowband_compose: composing '' @ palette_name mode)]) (\<lambda>_.
           act_bind (siril_run (siril_of so) (sq_cancel sq) commands work_dir work
               (progress_calls \<circ> progress_handler (1 / 5) (19 / 20) (compose_phases mode) '''')) (\<lambda>r.
           act_bind (check_exit r) (\<lambda>r.
             let out = out_of so commands work_dir work
             in if \<not> has_key out ''image.fit'' then act_raise (Missing_Output ''image.fit'')
                else act_bind (act_calls [Progress_Call 1 ''narrowband_compose: wrote image.fit'']) (\<lambda>_.
                  act_return (image_ref out_image, out))))))"

section \<open>What the commands promise\<close>

text \<open>The bar has one slice per command of Siril that reports progress.\<close>

definition reports :: "string \<Rightarrow> bool" where
  "reports c = (starts_with ''pm '' c \<or> starts_with ''rgbcomp '' c)"

lemma reports_first:
  "\<not> reports (CHR ''c'' # s)" "\<not> reports (CHR ''l'' # s)" "\<not> reports (CHR ''s'' # s)"
  "reports (CHR ''p'' # CHR ''m'' # CHR '' '' # s)"
  "reports (CHR ''r'' # CHR ''g'' # CHR ''b'' # CHR ''c'' # CHR ''o'' # CHR ''m'' # CHR ''p'' # CHR '' '' # s)"
  by (simp_all add: reports_def starts_with_def)

lemma compose_phases_count: "compose_phases m = int (length (filter reports (build_compose_commands m w out)))"
proof (cases m)
  case Hso
  then show ?thesis
    by (simp add: compose_phases_def build_compose_commands_def requires_synthetic_def PALETTE_CONFIG_def reports_first Let_def)
qed (simp_all add: compose_phases_def build_compose_commands_def requires_synthetic_def PALETTE_CONFIG_def reports_first Let_def)

text \<open>Every channel a palette composes is an input or has been saved by a command before.\<close>

lemma compose_sources_saved:
  assumes "PALETTE_CONFIG m = (r, g, b)" "c \<in> {r, g, b}"
  shows "c = Ha_Channel \<or> ''save '' @ source_file c \<in> set (butlast (build_compose_commands m w out))"
  using assms
  by (cases m) (auto simp: PALETTE_CONFIG_def build_compose_commands_def requires_synthetic_def source_file_def Let_def)

text \<open>The long edge of a scaled image is the target, or stays when it is shorter.\<close>

lemma round_half_even_mono: "x \<le> y \<Longrightarrow> round_half_even x \<le> round_half_even y"
proof -
  assume le: "x \<le> y"
  have "round_half_even x \<le> \<lfloor>x\<rfloor> + 1" "\<lfloor>x\<rfloor> \<le> round_half_even x" for x
    by (auto simp: round_half_even_def Let_def)
  moreover have "\<lfloor>x\<rfloor> \<le> \<lfloor>y\<rfloor>" using le by (rule floor_mono)
  moreover have "round_half_even x \<le> round_half_even y" if "\<lfloor>x\<rfloor> = \<lfloor>y\<rfloor>"
    using le that by (auto simp: round_half_even_def Let_def)
  ultimately show ?thesis by (metis add1_zle_eq dual_order.trans order_le_less)
qed

lemma new_size_long_edge:
  assumes "0 < target" "0 < w" "0 < h"
  shows "max (fst (new_size target w h)) (snd (new_size target w h)) = int (min target (max w h))"
proof (cases "max w h \<le> target")
  case True
  have "round_half_even (of_nat k) = int k" for k using round_half_even_of_int [of "int k"] by simp
  then show ?thesis using True assms by (simp add: new_size_def Let_def)
next
  case False
  let ?s = "of_nat target / of_nat (max w h) :: rat"
  have int: "round_half_even (of_nat k) = int k" for k using round_half_even_of_int [of "int k"] by simp
  have long: "of_nat (max w h) * ?s = of_nat target" using assms by simp
  have le: "round_half_even (of_nat k * ?s) \<le> int target" if "k \<le> max w h" for k
  proof -
    have "of_nat k * ?s \<le> of_nat (max w h) * ?s" using that by (intro mult_right_mono) simp_all
    then show ?thesis using round_half_even_mono int long by metis
  qed
  have "round_half_even (of_nat w * ?s) = int target \<or> round_half_even (of_nat h * ?s) = int target"
    using long int by (metis max_def)
  then show ?thesis using le [of w] le [of h] False assms(1) by (auto simp: new_size_def Let_def)
qed

section \<open>The black point clips what is asked for\<close>













section \<open>Findings\<close>

text \<open>One pixel that is not a number makes the black point none, although the maximum leaves such pixels out.\<close>

lemma one_bad_pixel_spoils_black_point: "compute_bp (None # ps) q = None"
  by (simp add: compute_bp_def quantile_def)

end
