(* ===== verification/Ai_Nodes.thy ===== *)
theory Ai_Nodes
  imports Subproc Image_Nodes
begin

text \<open>
  The nodes around the external AI tools (\<open>nodes/basic\<close>: \<open>graxpert.py\<close>, \<open>starnet_extract.py\<close>, \<open>starnet_replace.py\<close>,
  \<open>starnet_recombine.py\<close>). The pixels of a stretched image are finite rationals and the sums of single precision are exact;
  a FITS file is its HDUs, a TIFF file its numbers. Arrays of different shapes do not combine: numpy's broadcasting is left
  out, and arrays of other ranks than two and three carry no pixels. The tools, Siril and the file system's resolution of paths are arguments.
\<close>

section \<open>Arithmetic on images\<close>

fun map_image :: "('p \<Rightarrow> 'q) \<Rightarrow> 'p image \<Rightarrow> 'q image" where
  "map_image f (Plane rows) = Plane (map (map f) rows)"
| "map_image f (Cube xs) = Cube (map (map (map f)) xs)"
| "map_image f (Other_Rank n) = Other_Rank n"

fun shape_of :: "'p image \<Rightarrow> nat list" where
  "shape_of (Plane rows) = [dim0 rows, dim1 rows]"
| "shape_of (Cube xs) = [dim0 xs, dim1 xs, dim2 xs]"
| "shape_of (Other_Rank n) = [n]"

fun zip_image :: "('p \<Rightarrow> 'q \<Rightarrow> 'r) \<Rightarrow> 'p image \<Rightarrow> 'q image \<Rightarrow> 'r image" where
  "zip_image f (Plane a) (Plane b) = Plane (map2 (map2 f) a b)"
| "zip_image f (Cube a) (Cube b) = Cube (map2 (map2 (map2 f)) a b)"
| "zip_image f (Other_Rank n) _ = Other_Rank n"
| "zip_image f _ _ = Other_Rank 0"

type_synonym 'h fits_file = "(rat image, 'h) hdus"

definition write_image :: "rat image \<Rightarrow> 'h \<Rightarrow> 'h fits_file" where
  "write_image im h = [(Some im, h)]"

definition read_fits :: "string \<Rightarrow> 'h fits_file \<Rightarrow> siril_error + rat image \<times> 'h" where
  "read_fits src hdus = (case first_data hdus of None \<Rightarrow> Inl (Bad_Header src) | Some x \<Rightarrow> Inr x)"

section \<open>Finding the tools\<close>

record tool_host =
  th_override :: "string option"
  th_expanduser :: "string \<Rightarrow> string"
  th_is_file :: "string \<Rightarrow> bool"
  th_home :: string
  th_which :: "string \<Rightarrow> string option"

definition locate_binary :: "tool_host \<Rightarrow> string \<Rightarrow> string list \<Rightarrow> string option" where
  "locate_binary h rel names =
     (if th_override h \<noteq> None \<and> th_override h \<noteq> Some '''' then
        (let p = th_expanduser h (the (th_override h)) in if th_is_file h p then Some p else None)
      else if th_is_file h (child (th_home h) rel) then Some (child (th_home h) rel)
      else first_some (th_which h) names)"

section \<open>StarNet: numbers and axes\<close>

definition clip01 :: "rat \<Rightarrow> rat" where
  "clip01 v = max 0 (min 1 v)"

definition to_u16 :: "rat \<Rightarrow> nat" where
  "to_u16 v = nat (trunc (clip01 v * 65535 + 1 / 2))"

definition of_u16 :: "nat \<Rightarrow> rat" where
  "of_u16 n = of_nat n / 65535"

definition chw_to_hwc :: "'a list list list \<Rightarrow> 'a list list list" where
  "chw_to_hwc xs = map (\<lambda>r. map (\<lambda>c. map (\<lambda>plane. plane ! r ! c) xs) [0 ..< dim2 xs]) [0 ..< dim1 xs]"

definition hwc_to_chw :: "'a list list list \<Rightarrow> 'a list list list" where
  "hwc_to_chw xs = map (\<lambda>k. map (map (\<lambda>px. px ! k)) xs) [0 ..< dim2 xs]"

definition fits_to_tiff :: "rat image \<Rightarrow> siril_error + nat image \<times> layout" where
  "fits_to_tiff im =
     (case layout_of im of
        None \<Rightarrow> Inl (Bad_Header ''shape'')
      | Some lay \<Rightarrow> Inr (map_image to_u16 (case im of Cube xs \<Rightarrow> if lay = Chw then Cube (chw_to_hwc xs) else im | _ \<Rightarrow> im), lay))"

definition mean_of :: "rat list \<Rightarrow> rat" where
  "mean_of xs = sum_list xs / of_nat (length xs)"

definition tiff_to_fits :: "nat image \<Rightarrow> layout \<Rightarrow> rat image" where
  "tiff_to_fits tiff lay =
     (let out = map_image of_u16 tiff
      in case out of
        Cube xs \<Rightarrow> if lay = Chw then Cube (hwc_to_chw xs) else if lay = Mono then Plane (map (map mean_of) xs) else out
      | _ \<Rightarrow> out)"

section \<open>StarNet: taking the stars out\<close>

record starnet_params =
  ep_enabled :: bool
  ep_stride :: nat

definition valid_starnet :: "starnet_params \<Rightarrow> bool" where
  "valid_starnet ps = (64 \<le> ep_stride ps \<and> ep_stride ps \<le> 512)"

definition library_path :: "string \<Rightarrow> string \<Rightarrow> string" where
  "library_path dir prev = (if prev = '''' then dir else dir @ '':'' @ prev)"

definition shown_ref :: "string \<Rightarrow> string \<Rightarrow> ref" where
  "shown_ref port path = (port_ref port path)\<lparr>r_display_ready := True\<rparr>"

type_synonym 'h layers = "(ref \<times> 'h fits_file) \<times> (ref \<times> 'h fits_file)"

definition two_layers :: "string \<Rightarrow> 'h fits_file \<Rightarrow> 'h fits_file \<Rightarrow> 'h layers" where
  "two_layers out_dir starless stars =
     ((shown_ref ''starless'' (child out_dir ''starless.fit''), starless), (shown_ref ''stars'' (child out_dir ''stars.fit''), stars))"

text \<open>The part of a pixel that is not starless.\<close>

definition stars_of :: "rat \<Rightarrow> rat \<Rightarrow> rat" where
  "stars_of d a = max 0 (d - a)"

definition starnet_argv :: "(string \<Rightarrow> string) \<Rightarrow> string \<Rightarrow> string \<Rightarrow> nat \<Rightarrow> string list" where
  "starnet_argv resolve binary out_dir stride =
     [binary, resolve (child out_dir ''input.tif''), resolve (child out_dir ''starless.tif''), show_nat stride]"

definition finish_layers ::
  "rat image \<Rightarrow> 'h \<Rightarrow> layout \<Rightarrow> string \<Rightarrow> nat image tool_result \<Rightarrow> 'h layers act" where
  "finish_layers im h lay out_dir r =
     (if tr_code r \<noteq> 0 then act_raise (Siril_Exited (tr_code r))
     else case map_of (tr_dir r) ''starless.tif'' of
       Some (Data t) \<Rightarrow>
         act_bind (act_calls [Progress_Call (17 / 20) ''starnet_extract: TIFF -> FITS'']) (\<lambda>_.
         let starless = tiff_to_fits t lay
         in act_bind (act_calls [Progress_Call (19 / 20) ''starnet_extract: deriving stars layer'']) (\<lambda>_.
            if shape_of im \<noteq> shape_of starless then act_raise (Bad_Header ''shape'')
            else act_bind (act_calls [Progress_Call 1 ''starnet_extract: done'']) (\<lambda>_.
              act_return (two_layers out_dir (write_image starless h) (write_image (zip_image stars_of im starless) h)))))
     | _ \<Rightarrow> act_raise (Missing_Output ''starless.tif''))"

definition separate ::
  "(string \<Rightarrow> string) \<Rightarrow> (string \<Rightarrow> nat image tool) \<Rightarrow> bool \<times> bool \<Rightarrow> string \<Rightarrow> string \<Rightarrow> rat image \<Rightarrow> 'h \<Rightarrow> starnet_params \<Rightarrow> string
   \<Rightarrow> 'h layers act" where
  "separate resolve starnet cancel prev_lib binary im h ps out_dir =
     act_bind (act_calls [Progress_Call (1 / 10) ''starnet_extract: FITS -> TIFF'']) (\<lambda>_.
     act_bind (act_lift (fits_to_tiff im)) (\<lambda>(tiff, lay).
     act_bind (act_calls [Progress_Call (1 / 5) ''starnet_extract: running starnet++'']) (\<lambda>_.
     act_bind (run_streamed (starnet (library_path (resolve (parent_of binary)) prev_lib)) cancel
         (starnet_argv resolve binary out_dir (ep_stride ps)) [(''input.tif'', Data tiff)]
         (progress_calls \<circ> line_progress_handler (1 / 5) (17 / 20) ''starnet++: '')) (\<lambda>r.
     finish_layers im h lay out_dir r))))"

definition starnet_extract ::
  "(string \<Rightarrow> string) \<Rightarrow> (string \<Rightarrow> nat image tool) \<Rightarrow> tool_host \<Rightarrow> string \<Rightarrow> bool \<times> bool \<Rightarrow> string \<Rightarrow> 'h fits_file option
   \<Rightarrow> starnet_params \<Rightarrow> string \<Rightarrow> 'h layers act" where
  "starnet_extract resolve starnet host prev_lib cancel src file ps out_dir =
     (case file of
        None \<Rightarrow> act_raise (Missing_Input src)
      | Some hdus \<Rightarrow>
          act_bind (act_calls [Progress_Call (1 / 20) ''starnet_extract: reading input'']) (\<lambda>_.
          act_bind (act_lift (read_fits src hdus)) (\<lambda>(im, h).
          if \<not> ep_enabled ps then
            act_bind (act_calls [Progress_Call (7 / 10) ''starnet_extract: disabled - pass-through + zero stars'',
                Progress_Call 1 ''starnet_extract: pass-through'']) (\<lambda>_.
            act_return (two_layers out_dir (write_image im h) (write_image (map_image (\<lambda>_. 0) im) h)))
          else case locate_binary host ''tools/starnet/starnet++'' [''starnet++'', ''starnet''] of
            None \<Rightarrow> act_raise (Missing_Input ''starnet++'')
          | Some binary \<Rightarrow> separate resolve starnet cancel prev_lib binary im h ps out_dir)))"

section \<open>StarNet: the layers back together\<close>






section \<open>StarNet: stars made anew\<close>

text \<open>The node has a parameter \<open>profile\<close> beside \<open>enabled\<close>; see the findings.\<close>

record replace_params =
  qp_enabled :: bool
  qp_profile :: string

definition replace_commands :: "(string \<Rightarrow> string) \<Rightarrow> string \<Rightarrow> replace_params \<Rightarrow> string list" where
  "replace_commands resolve out_dir ps =
     [''cd '' @ quote (resolve out_dir), ''load '' @ quote (resolve (child out_dir ''_recon.fit'')), ''findstar'', ''synthstar'',
      ''save _synth_full'']"

definition drop_files :: "string list \<Rightarrow> 'c listing \<Rightarrow> 'c listing" where
  "drop_files names files = fold dpop names files"

definition replace_stars ::
  "'h fits_file seq_env \<Rightarrow> rat image \<Rightarrow> 'h \<Rightarrow> rat image \<Rightarrow> replace_params \<Rightarrow> string \<Rightarrow> (ref \<times> 'h fits_file listing) act" where
  "replace_stars sq a h b ps out_dir =
     (if shape_of a \<noteq> shape_of b then act_raise (Bad_Header ''shape'')
      else act_bind (act_calls [Progress_Call (3 / 10) ''starnet_replace: running siril findstar+synthstar'']) (\<lambda>_.
        act_bind (run_on_image sq (replace_commands (sq_resolve sq) out_dir ps) out_dir
            [(''_recon.fit'', Data (write_image (zip_image (+) a b) h))] (3 / 10) (17 / 20) ''_synth_full.fit'') (\<lambda>out.
        act_bind (act_calls [Progress_Call (9 / 10) ''starnet_replace: deriving synthetic stars layer'']) (\<lambda>_.
        case map_of out ''_synth_full.fit'' of
          Some (Data f) \<Rightarrow>
            act_bind (act_lift (read_fits ''_synth_full.fit'' f)) (\<lambda>(s, h').
            if shape_of s \<noteq> shape_of a then act_raise (Bad_Header ''shape'')
            else act_bind (act_calls [Progress_Call 1 ''starnet_replace: done'']) (\<lambda>_.
              act_return (image_ref_shown (child out_dir ''image.fit''),
                drop_files [''_recon.fit'', ''_synth_full.fit'']
                  (dput ''image.fit'' (Data (write_image (zip_image stars_of s a) h')) out))))
        | _ \<Rightarrow> act_raise (Bad_Header ''_synth_full.fit'')))))"

definition starnet_replace ::
  "'h fits_file seq_env \<Rightarrow> string \<Rightarrow> string \<Rightarrow> 'h fits_file option \<Rightarrow> 'h fits_file option \<Rightarrow> replace_params \<Rightarrow> string
   \<Rightarrow> (ref \<times> 'h fits_file listing) act" where
  "starnet_replace sq starless_src stars_src starless stars ps out_dir =
     (case (starless, stars) of
        (None, _) \<Rightarrow> act_raise (Missing_Input starless_src)
      | (Some _, None) \<Rightarrow> act_raise (Missing_Input stars_src)
      | (Some f1, Some f2) \<Rightarrow>
          if \<not> qp_enabled ps then
            act_bind (act_calls [Progress_Call (9 / 10) ''starnet_replace: disabled - passing through stars'']) (\<lambda>_.
            act_bind (act_lift (read_fits stars_src f2)) (\<lambda>(b, h).
            act_bind (act_calls [Progress_Call 1 ''starnet_replace: pass-through'']) (\<lambda>_.
            act_return (image_ref_shown (child out_dir ''image.fit''), [(''image.fit'', Data (write_image b h))]))))
          else act_bind (act_calls [Progress_Call (1 / 10) ''starnet_replace: reconstructing original'']) (\<lambda>_.
            act_bind (act_lift (read_fits starless_src f1)) (\<lambda>(a, h).
            act_bind (act_lift (read_fits stars_src f2)) (\<lambda>(b, _).
            replace_stars sq a h b ps out_dir))))"

section \<open>GraXpert\<close>

datatype graxpert_mode = Bg_Extract | Denoise

record graxpert_params =
  wp_enabled :: bool
  wp_mode :: graxpert_mode
  wp_smoothing :: rat
  wp_correction :: string
  wp_strength :: rat
  wp_use_gpu :: bool

definition valid_graxpert :: "graxpert_params \<Rightarrow> bool" where
  "valid_graxpert ps =
     (unit_range (wp_smoothing ps) \<and> unit_range (wp_strength ps) \<and> wp_correction ps \<in> {''Subtraction'', ''Division''})"

definition mode_name :: "graxpert_mode \<Rightarrow> string" where
  "mode_name m = (case m of Bg_Extract \<Rightarrow> ''bg_extract'' | Denoise \<Rightarrow> ''denoise'')"

definition graxpert_argv :: "(rat \<Rightarrow> string) \<Rightarrow> string \<Rightarrow> string \<Rightarrow> graxpert_params \<Rightarrow> string list" where
  "graxpert_argv show_g binary out_dir ps =
     [binary, ''-cli'', ''-cmd'', (case wp_mode ps of Bg_Extract \<Rightarrow> ''background-extraction'' | Denoise \<Rightarrow> ''denoising''),
      child out_dir ''input.fit'', ''-output'', child out_dir ''image.fit'']
     @ (case wp_mode ps of
          Bg_Extract \<Rightarrow> [''-correction'', wp_correction ps, ''-smoothing'', show_g (wp_smoothing ps)]
        | Denoise \<Rightarrow> [''-strength'', show_g (wp_strength ps)])
     @ [''-gpu'', if wp_use_gpu ps then ''true'' else ''false'']"

text \<open>The names \<open>image*.fit*\<close> matches.\<close>

definition image_glob :: "string \<Rightarrow> bool" where
  "image_glob name =
     (starts_with ''image'' name \<and> list_ex (\<lambda>k. starts_with ''.fit'' (drop k name)) [5 ..< length name])"

text \<open>The output under the name asked for, or the first name that looks like it, renamed.\<close>

definition settle_output :: "'c listing \<Rightarrow> siril_error + 'c listing" where
  "settle_output files =
     (if has_key files ''image.fit'' then Inr files
      else case sort (filter (\<lambda>name. image_glob name \<and> name \<noteq> ''input.fit'') (dkeys files)) of
        [] \<Rightarrow> Inl (Missing_Output ''image.fit'')
      | name # _ \<Rightarrow> Inr (dput ''image.fit'' (the (map_of files name)) (dpop name files)))"

definition graxpert ::
  "(rat \<Rightarrow> string) \<Rightarrow> 'h fits_file tool \<Rightarrow> tool_host \<Rightarrow> bool \<times> bool \<Rightarrow> string \<Rightarrow> 'h fits_file option \<Rightarrow> graxpert_params \<Rightarrow> string
   \<Rightarrow> (ref \<times> 'h fits_file listing) act" where
  "graxpert show_g tool host cancel src file ps out_dir =
     (case file of
        None \<Rightarrow> act_raise (Missing_Input src)
      | Some hdus \<Rightarrow>
          if \<not> wp_enabled ps then
            act_bind (act_calls [Progress_Call (9 / 10) ''graxpert: disabled - passing through'']) (\<lambda>_.
            act_bind (act_lift (read_fits src hdus)) (\<lambda>(im, h).
            act_bind (act_calls [Progress_Call 1 ''graxpert: wrote pass-through'']) (\<lambda>_.
            act_return (shown_ref ''image'' (child out_dir ''image.fit''), [(''image.fit'', Data (write_image im h))]))))
          else case locate_binary host ''tools/graxpert/graxpert'' [''graxpert'', ''GraXpert''] of
            None \<Rightarrow> act_raise (Missing_Input ''graxpert'')
          | Some binary \<Rightarrow>
              act_bind (act_lift (read_fits src hdus)) (\<lambda>(im, h).
              act_bind (act_calls [Progress_Call (1 / 10) (''graxpert: running '' @ mode_name (wp_mode ps))]) (\<lambda>_.
              act_bind (run_streamed tool cancel (graxpert_argv show_g binary out_dir ps) [(''input.fit'', Data (write_image im h))]
                  (progress_calls \<circ> line_progress_handler (3 / 20) (19 / 20) (''graxpert '' @ mode_name (wp_mode ps) @ '': ''))) (\<lambda>r.
              if tr_code r \<noteq> 0 then act_raise (Siril_Exited (tr_code r))
              else act_bind (act_lift (settle_output (tr_dir r))) (\<lambda>out.
                act_bind (act_calls [Progress_Call 1 ''graxpert: wrote image.fit'']) (\<lambda>_.
                act_return (shown_ref ''image'' (child out_dir ''image.fit''), dpop ''input.fit'' out)))))))"

section \<open>What taking apart and putting together gives\<close>



lemma add_stars [simp]: "a + stars_of d a = max d a"
  by (simp add: stars_of_def max_def)









text \<open>A tool that halves every number of a two-by-two image.\<close>

definition demo_starnet :: "string \<Rightarrow> nat image tool" where
  "demo_starnet libs argv files =
     Some \<lparr>tr_code = 0, tr_lines = [''Total iterations = 4'', ''Iteration: 1'', ''done''],
       tr_dir = (case map_of files ''input.tif'' of
          Some (Data t) \<Rightarrow> files @ [(''starless.tif'', Data (map_image (\<lambda>n. n div 2) t))] | _ \<Rightarrow> files)\<rparr>"

definition demo_tool_host :: tool_host where
  "demo_tool_host = \<lparr>th_override = None, th_expanduser = id, th_is_file = (\<lambda>_. True), th_home = ''/h'', th_which = (\<lambda>_. None)\<rparr>"

definition demo_stretched :: "unit fits_file" where
  "demo_stretched = [(None, ()), (Some (Plane [[0, 4 / 65535], [2 / 65535, - 1 / 2]]), ())]"

definition demo_starnet_params :: starnet_params where
  "demo_starnet_params = \<lparr>ep_enabled = True, ep_stride = 256\<rparr>"

abbreviation demo_extraction :: "unit layers act" where
  "demo_extraction \<equiv> starnet_extract id demo_starnet demo_tool_host [] (False, False) ''/in'' (Some demo_stretched) demo_starnet_params ''/o''"



lemma demo_extraction_calls:
  "map (\<lambda>c. case c of Progress_Call f m \<Rightarrow> f | _ \<Rightarrow> 0) (fst demo_extraction)
    = [1 / 20, 1 / 10, 1 / 5, 253 / 1200, 1 / 5 + 13 / 80, 1 / 5 + 13 / 80 + 13 / 1200, 17 / 20, 19 / 20, 1]"
  by code_simp




section \<open>Numbers and axes come back\<close>

lemma to_u16_floor: "to_u16 v = nat \<lfloor>clip01 v * 65535 + 1 / 2\<rfloor>"
proof -
  have "0 \<le> clip01 v" by (simp add: clip01_def)
  then have "\<not> clip01 v * 65535 + 1 / 2 < 0" by linarith
  then show ?thesis by (simp add: to_u16_def trunc_def)
qed

lemma to_u16_range: "to_u16 v \<le> 65535"
proof -
  have "clip01 v \<le> 1" by (simp add: clip01_def)
  then have "\<lfloor>clip01 v * 65535 + 1 / 2\<rfloor> < 65536" by (simp add: floor_less_iff)
  then show ?thesis unfolding to_u16_floor by linarith
qed

text \<open>Writing and reading a number of the unit range is off by half a step at most.\<close>

lemma u16_roundtrip:
  assumes "0 \<le> v" "v \<le> 1"
  shows "\<bar>of_u16 (to_u16 v) - v\<bar> \<le> 1 / 131070"
proof -
  let ?x = "v * 65535 + 1 / 2"
  have c: "clip01 v = v" using assms by (simp add: clip01_def)
  have "0 \<le> ?x" using assms by simp
  then have "of_nat (to_u16 v) = (of_int \<lfloor>?x\<rfloor> :: rat)" by (simp add: to_u16_floor c)
  then have "of_u16 (to_u16 v) * 65535 = of_int \<lfloor>?x\<rfloor>" by (simp add: of_u16_def)
  moreover note floor_correct [of ?x]
  ultimately show ?thesis unfolding abs_le_iff by (intro conjI; linarith)
qed

text \<open>Channels first, channels last, channels first.\<close>

lemma axes_roundtrip:
  assumes "wf_image (Cube xs)" "0 < dim1 xs" "0 < dim2 xs"
  shows "hwc_to_chw (chw_to_hwc xs) = xs"
proof -
  have shape: "dim2 (chw_to_hwc xs) = length xs"
    using assms(2,3) by (simp add: chw_to_hwc_def upt_conv_Cons) (simp add: dim2_def dim1_def)
  have plane: "length plane = dim1 xs \<and> (\<forall>row \<in> set plane. length row = dim2 xs)" if "plane \<in> set xs" for plane
    using assms(1) that by (simp add: rect_def list_all_iff)
  have "map (map (\<lambda>px. px ! k)) (chw_to_hwc xs) = xs ! k" if k: "k < length xs" for k
  proof -
    have "length (xs ! k) = dim1 xs" "\<And>r. r < dim1 xs \<Longrightarrow> length (xs ! k ! r) = dim2 xs"
      using plane [OF nth_mem [OF k]] by auto
    then show ?thesis
      using k by (auto simp: chw_to_hwc_def intro!: nth_equalityI)
  qed
  then show ?thesis unfolding hwc_to_chw_def shape by (intro nth_equalityI) simp_all
qed

section \<open>Findings\<close>

text \<open>The shape of the stars that is chosen never reaches Siril.\<close>

lemma profile_not_used:
  "replace_commands resolve out_dir ps = replace_commands resolve out_dir (ps\<lparr>qp_profile := p\<rparr>)"
  by (simp add: replace_commands_def)

end
