(* ===== verification/Siril_Binary.thy ===== *)
theory Siril_Binary
  imports Siril_Runner
begin

text \<open>
  Which Siril the nodes run: the version patterns, the search of \<open>find_siril\<close> and the version that enters the cache
  keys, \<open>get_siril_version\<close> of \<open>server/siril.py\<close>. The host is a record: the environment variable, the
  file system and the search path as functions, and the answer of a binary to \<open>--version\<close>. File names are ASCII
  without line feed.
\<close>

section \<open>Versions in names\<close>

type_synonym version = "nat \<times> nat \<times> nat"

text \<open>\<open>(\d+)\.(\d+)(?:\.(\d+))?\<close> at the front of a text, and the rest. Giving digits back cannot help: the next character is one.\<close>

definition take_number :: "string \<Rightarrow> (nat \<times> string) option" where
  "take_number s =
     (let ds = takeWhile is_digit s in if ds = [] then None else Some (digits_value 0 ds, dropWhile is_digit s))"

definition take_dot_number :: "string \<Rightarrow> (nat \<times> string) option" where
  "take_dot_number s = (case s of c # r \<Rightarrow> if c = CHR ''.'' then take_number r else None | [] \<Rightarrow> None)"

definition match_version :: "string \<Rightarrow> (version \<times> string) option" where
  "match_version s =
     (case take_number s of
        None \<Rightarrow> None
      | Some (major, r1) \<Rightarrow>
          (case take_dot_number r1 of
             None \<Rightarrow> None
           | Some (minor, r2) \<Rightarrow>
               (case take_dot_number r2 of
                  None \<Rightarrow> Some ((major, minor, 0), r2)
                | Some (patch, r3) \<Rightarrow> Some ((major, minor, patch), r3))))"

fun parse_version :: "string \<Rightarrow> version option" where
  "parse_version [] = None"
| "parse_version (c # s) = (case match_version (c # s) of Some (v, _) \<Rightarrow> Some v | None \<Rightarrow> parse_version s)"

text \<open>\<open>-x86_64.*\.AppImage$\<close>; before it, a suffix \<open>[~-]\S+\<close> may stand.\<close>

definition image_tail :: "string \<Rightarrow> bool" where
  "image_tail s = (starts_with ''-x86_64'' s \<and> ends_with ''.AppImage'' (drop 7 s))"

definition suffixed_tail :: "string \<Rightarrow> bool" where
  "suffixed_tail s =
     (case s of
        c # r \<Rightarrow> c \<in> {CHR ''~'', CHR ''-''}
          \<and> list_ex (\<lambda>k. 1 \<le> k \<and> list_all (Not \<circ> is_space) (take k r) \<and> image_tail (drop k r)) [0 ..< Suc (length r)]
      | [] \<Rightarrow> False)"

definition appimage_version :: "string \<Rightarrow> version option" where
  "appimage_version name =
     (if starts_with ''Siril-'' name then
        (case match_version (drop 6 name) of
           Some (v, r) \<Rightarrow> if image_tail r \<or> suffixed_tail r then Some v else None
         | None \<Rightarrow> None)
      else None)"

section \<open>The search\<close>

definition MIN_VERSION :: "nat \<times> nat" where
  "MIN_VERSION = (1, 4)"

definition recent :: "version \<Rightarrow> bool" where
  "recent = (\<lambda>(major, minor, patch). MIN_VERSION \<le> (major, minor))"

datatype siril_source = From_Env | From_Appdir | From_Appimage | From_System

record siril_binary =
  sb_path :: string
  sb_version :: "version option"
  sb_source :: siril_source
  sb_args_prefix :: "string list"

text \<open>What \<open>--version\<close> gives: the output on both channels, or an exception.\<close>

datatype probe = Printed string string | Probe_Failed | Not_Started

datatype find_error = Siril_Not_Found | Host_Error

record siril_host =
  sh_override :: "string option"
  sh_expanduser :: "string \<Rightarrow> string"
  sh_exists :: "string \<Rightarrow> bool"
  sh_home :: string
  sh_iterdir :: "string \<Rightarrow> string list"
  sh_is_file :: "string \<Rightarrow> bool"
  sh_is_dir :: "string \<Rightarrow> bool"
  sh_which :: "string \<Rightarrow> string option"
  sh_probe :: "string \<Rightarrow> probe"

text \<open>Sorted by version, reversed; equal versions keep their order.\<close>

definition newest_first :: "(version \<times> string) list \<Rightarrow> (version \<times> string) list" where
  "newest_first xs = rev (sort_key fst (rev xs))"

definition candidates ::
  "siril_host \<Rightarrow> string list \<Rightarrow> (string \<Rightarrow> string \<Rightarrow> (version \<times> string) option) \<Rightarrow> (version \<times> string) list" where
  "candidates h homes pick =
     newest_first (concat (map (\<lambda>home. if sh_exists h home then List.map_filter (pick home) (sh_iterdir h home) else []) homes))"

definition candidate_appimages :: "siril_host \<Rightarrow> (version \<times> string) list" where
  "candidate_appimages h =
     candidates h [child (sh_home h) ''Downloads'', child (sh_home h) ''Applications'']
       (\<lambda>home name. if sh_is_file h (child home name)
          then map_option (\<lambda>v. (v, child home name)) (appimage_version name) else None)"

definition candidate_appdirs :: "siril_host \<Rightarrow> (version \<times> string) list" where
  "candidate_appdirs h =
     candidates h [child (sh_home h) ''Applications'', child (child (sh_home h) ''.local'') ''share'']
       (\<lambda>home name. let apprun = child (child home name) ''AppRun'' in
          if sh_is_dir h (child home name) \<and> sh_exists h apprun
          then Some (case parse_version name of Some v \<Rightarrow> v | None \<Rightarrow> (0, 0, 0), apprun) else None)"

definition find_system :: "siril_host \<Rightarrow> find_error + siril_binary" where
  "find_system h =
     (case (case sh_which h ''siril-cli'' of Some p \<Rightarrow> Some p | None \<Rightarrow> sh_which h ''siril'') of
        None \<Rightarrow> Inl Siril_Not_Found
      | Some path \<Rightarrow>
          (case sh_probe h path of
             Not_Started \<Rightarrow> Inl Host_Error
           | Probe_Failed \<Rightarrow> Inl Siril_Not_Found
           | Printed out err \<Rightarrow>
               let ver = (case parse_version out of Some v \<Rightarrow> Some v | None \<Rightarrow> parse_version err)
               in if (case ver of Some v \<Rightarrow> \<not> recent v | None \<Rightarrow> False) then Inl Siril_Not_Found
                  else Inr \<lparr>sb_path = path, sb_version = ver, sb_source = From_System, sb_args_prefix = []\<rparr>))"

definition find_siril :: "siril_host \<Rightarrow> find_error + siril_binary" where
  "find_siril h =
     (if sh_override h \<noteq> None \<and> sh_override h \<noteq> Some '''' then
        (let path = sh_expanduser h (the (sh_override h))
         in if \<not> sh_exists h path then Inl Siril_Not_Found
            else Inr \<lparr>sb_path = path, sb_version = None, sb_source = From_Env,
              sb_args_prefix = (if name_of path = ''AppRun'' then [''siril-cli''] else [])\<rparr>)
      else case find (recent \<circ> fst) (candidate_appdirs h) of
        Some (v, apprun) \<Rightarrow>
          Inr \<lparr>sb_path = apprun, sb_version = Some v, sb_source = From_Appdir, sb_args_prefix = [''siril-cli'']\<rparr>
      | None \<Rightarrow>
          (case find (recent \<circ> fst) (candidate_appimages h) of
             Some (v, app) \<Rightarrow>
               Inr \<lparr>sb_path = app, sb_version = Some v, sb_source = From_Appimage, sb_args_prefix = [''siril-cli'']\<rparr>
           | None \<Rightarrow> find_system h))"

text \<open>The version that enters the cache keys. The state is what the process has resolved, None before the first call.\<close>

definition version_text :: "find_error + siril_binary \<Rightarrow> string" where
  "version_text r =
     (case r of
        Inr b \<Rightarrow> (case sb_version b of
          Some (major, minor, patch) \<Rightarrow> join ''.'' [show_nat major, show_nat minor, show_nat patch] | None \<Rightarrow> '''')
      | Inl _ \<Rightarrow> '''')"

definition get_siril_version :: "siril_host \<Rightarrow> string option \<Rightarrow> string \<times> string option" where
  "get_siril_version h resolved =
     (case resolved of
        Some v \<Rightarrow> (v, Some v)
      | None \<Rightarrow> let v = version_text (find_siril h) in (v, Some v))"

section \<open>What is found\<close>

lemma set_newest_first [simp]: "set (newest_first xs) = set xs"
  by (simp add: newest_first_def)

lemma newest_first_sorted: "sorted_wrt (\<lambda>x y. fst y \<le> fst x) (newest_first xs)"
  using sorted_sort_key [of fst "rev xs"] unfolding newest_first_def sorted_wrt_rev sorted_map .

lemma find_newest:
  assumes "find P (newest_first xs) = Some x"
  shows "x \<in> set xs \<and> P x \<and> (\<forall>y \<in> set xs. P y \<longrightarrow> fst y \<le> fst x)"
proof -
  obtain i where i: "i < length (newest_first xs)" "P (newest_first xs ! i)" "x = newest_first xs ! i"
      "\<forall>j < i. \<not> P (newest_first xs ! j)"
    using assms by (auto simp: find_Some_iff)
  have "fst y \<le> fst x" if y: "y \<in> set xs" "P y" for y
  proof -
    obtain k where k: "k < length (newest_first xs)" "y = newest_first xs ! k" using y(1) by (metis in_set_conv_nth set_newest_first)
    then have "i \<le> k" using i(4) y(2) by (meson not_le)
    then show ?thesis
      using sorted_wrt_nth_less [OF newest_first_sorted, of i k xs] i(3) k by (cases "i = k") auto
  qed
  then show ?thesis using i nth_mem [OF i(1)] by simp
qed

lemma candidates_newest:
  assumes "find P (candidates h homes pick) = Some x"
  shows "x \<in> set (candidates h homes pick) \<and> P x \<and> (\<forall>y \<in> set (candidates h homes pick). P y \<longrightarrow> fst y \<le> fst x)"
  using find_newest [OF assms [unfolded candidates_def]] by (simp add: candidates_def)

lemma appdirs_newest:
  "find P (candidate_appdirs h) = Some x \<Longrightarrow>
    x \<in> set (candidate_appdirs h) \<and> P x \<and> (\<forall>y \<in> set (candidate_appdirs h). P y \<longrightarrow> fst y \<le> fst x)"
  unfolding candidate_appdirs_def by (rule candidates_newest)

lemma appimages_newest:
  "find P (candidate_appimages h) = Some x \<Longrightarrow>
    x \<in> set (candidate_appimages h) \<and> P x \<and> (\<forall>y \<in> set (candidate_appimages h). P y \<longrightarrow> fst y \<le> fst x)"
  unfolding candidate_appimages_def by (rule candidates_newest)

text \<open>What the search promises of a binary it found.\<close>

fun chosen_well :: "siril_host \<Rightarrow> siril_binary \<Rightarrow> siril_source \<Rightarrow> bool" where
  "chosen_well h b From_Env \<longleftrightarrow> sb_version b = None \<and> (\<exists>p. sh_override h = Some p \<and> sb_path b = sh_expanduser h p)"
| "chosen_well h b From_Appdir \<longleftrightarrow>
     (\<exists>v. sb_version b = Some v \<and> recent v \<and> (v, sb_path b) \<in> set (candidate_appdirs h)
        \<and> (\<forall>(v', p) \<in> set (candidate_appdirs h). v' \<le> v))"
| "chosen_well h b From_Appimage \<longleftrightarrow>
     (\<exists>v. sb_version b = Some v \<and> recent v \<and> (v, sb_path b) \<in> set (candidate_appimages h)
        \<and> (\<forall>(v', p) \<in> set (candidate_appimages h). v' \<le> v))
     \<and> (\<forall>(v, p) \<in> set (candidate_appdirs h). \<not> recent v)"
| "chosen_well h b From_System \<longleftrightarrow>
     (\<forall>v. sb_version b = Some v \<longrightarrow> recent v)
     \<and> (\<forall>(v, p) \<in> set (candidate_appdirs h) \<union> set (candidate_appimages h). \<not> recent v)"

lemma recent_upward: "recent v \<Longrightarrow> v \<le> v' \<Longrightarrow> recent v'"
  by (cases v; cases v') (auto simp: recent_def MIN_VERSION_def)

lemma newest_of_all:
  assumes "\<forall>y \<in> S. recent (fst y) \<longrightarrow> fst y \<le> v" "recent v"
  shows "\<forall>(v', p) \<in> S. v' \<le> v"
proof clarify
  fix v1 v2 v3 p assume mem: "((v1, v2, v3), p) \<in> S"
  show "(v1, v2, v3) \<le> v"
    using mem assms recent_upward [OF assms(2), of "(v1, v2, v3)"] by (cases "v \<le> (v1, v2, v3)") auto
qed

text \<open>
  A Siril that is found without the override is recent where its version is known, the newest of its kind, and of
  the first kind that has a recent one: an unpacked directory before an image before the search path.
\<close>

theorem find_siril_chooses_well:
  assumes "find_siril h = Inr b"
  shows "chosen_well h b (sb_source b)"
proof (cases "sh_override h \<noteq> None \<and> sh_override h \<noteq> Some ''''")
  case True
  then show ?thesis using assms by (auto simp: find_siril_def Let_def split: if_splits)
next
  case False
  note env = False
  show ?thesis
  proof (cases "find (recent \<circ> fst) (candidate_appdirs h)")
    case (Some x)
    obtain v p where x: "x = (v, p)" by (cases x)
    note best = appdirs_newest [OF Some, unfolded x comp_def fst_conv]
    have b: "b = \<lparr>sb_path = p, sb_version = Some v, sb_source = From_Appdir, sb_args_prefix = [''siril-cli'']\<rparr>"
      using assms env Some x by (auto simp: find_siril_def)
    then show ?thesis using best newest_of_all [of "set (candidate_appdirs h)" v] by simp
  next
    case None
    note dirs = None
    then have none: "\<forall>(v, p) \<in> set (candidate_appdirs h). \<not> recent v" by (auto simp: find_None_iff)
    show ?thesis
    proof (cases "find (recent \<circ> fst) (candidate_appimages h)")
      case (Some x)
      obtain v p where x: "x = (v, p)" by (cases x)
      note best = appimages_newest [OF Some, unfolded x comp_def fst_conv]
      have b: "b = \<lparr>sb_path = p, sb_version = Some v, sb_source = From_Appimage, sb_args_prefix = [''siril-cli'']\<rparr>"
        using assms env dirs Some x by (auto simp: find_siril_def)
      then show ?thesis using best newest_of_all [of "set (candidate_appimages h)" v] none by simp
    next
      case None
      then have none': "\<forall>(v, p) \<in> set (candidate_appimages h). \<not> recent v" by (auto simp: find_None_iff)
      have "find_system h = Inr b" using assms env dirs None by (auto simp: find_siril_def)
      then have "sb_source b = From_System \<and> (\<forall>v. sb_version b = Some v \<longrightarrow> recent v)"
        by (auto simp: find_system_def Let_def split: option.splits probe.splits if_splits)
      then show ?thesis using none none' by auto
    qed
  qed
qed

text \<open>A host with an image of Siril in the downloads, two unpacked ones and another program's directory.\<close>

definition demo_host :: "string list \<Rightarrow> siril_host" where
  "demo_host share =
     \<lparr>sh_override = None, sh_expanduser = id, sh_exists = (\<lambda>_. True), sh_home = ''/h'',
      sh_iterdir = (\<lambda>d. if d = ''/h/Downloads'' then [''Siril-1.4.3-x86_64.AppImage'', ''Siril-1.5.0~beta1-x86_64-x.AppImage'']
         else if d = ''/h/Applications'' then [''Siril-1.4.1.AppDir'', ''Siril-1.4.2.AppDir'']
         else if d = ''/h/.local/share'' then share else []),
      sh_is_file = (\<lambda>p. ends_with ''.AppImage'' p), sh_is_dir = (\<lambda>p. \<not> ends_with ''.AppImage'' p),
      sh_which = (\<lambda>_. Some ''/usr/bin/siril''), sh_probe = (\<lambda>_. Printed ''siril 1.2.1'' '''')\<rparr>"

lemma demo_host_finds:
  "find_siril (demo_host []) = Inr \<lparr>sb_path = ''/h/Applications/Siril-1.4.2.AppDir/AppRun'', sb_version = Some (1, 4, 2),
     sb_source = From_Appdir, sb_args_prefix = [''siril-cli'']\<rparr>"
  by code_simp

theorem find_siril_chooses_well_witness:
  "chosen_well (demo_host []) \<lparr>sb_path = ''/h/Applications/Siril-1.4.2.AppDir/AppRun'', sb_version = Some (1, 4, 2),
     sb_source = From_Appdir, sb_args_prefix = [''siril-cli'']\<rparr> From_Appdir"
  using find_siril_chooses_well [OF demo_host_finds] by (simp only: siril_binary.select_convs)

text \<open>The tag of a pre-release is read over.\<close>

lemma appimage_versions:
  "map snd (candidate_appimages (demo_host []))
    = [''/h/Downloads/Siril-1.5.0~beta1-x86_64-x.AppImage'', ''/h/Downloads/Siril-1.4.3-x86_64.AppImage'']
  \<and> appimage_version ''Siril-1.4-x86_64.AppImage'' = Some (1, 4, 0) \<and> appimage_version ''Siril-1.4.3-arm.AppImage'' = None"
  by code_simp

text \<open>The version in the keys is the first one the process saw, whatever is installed since.\<close>

lemma version_sticks:
  "get_siril_version h resolved = (v, resolved') \<Longrightarrow> get_siril_version h' resolved' = (v, resolved')"
  by (auto simp: get_siril_version_def Let_def split: option.splits)

section \<open>Findings\<close>

text \<open>Any program's unpacked directory with a higher number in its name is taken for Siril.\<close>

lemma foreign_appdir_chosen:
  "map_sum id sb_path (find_siril (demo_host [''digiKam-8.2.0'']))
    = Inr ''/h/.local/share/digiKam-8.2.0/AppRun''"
  by code_simp

text \<open>A Siril on the search path whose probe fails is not trusted.\<close>

lemma failed_probe_rejects:
  "sh_which h ''siril-cli'' = Some p \<Longrightarrow> sh_probe h p = Probe_Failed \<Longrightarrow> find_system h = Inl Siril_Not_Found"
  by (simp add: find_system_def)

text \<open>Behind the override every Siril has the same version in the cache keys.\<close>

lemma override_hides_version:
  "sh_override h = Some p \<Longrightarrow> p \<noteq> '''' \<Longrightarrow> get_siril_version h None = ('''', Some '''')"
  by (auto simp: get_siril_version_def find_siril_def version_text_def Let_def)

end
