(* ===== verification/Classify.thy ===== *)
theory Classify
  imports Job_Builder Py_Text
begin

text \<open>
  What the scanner decides from a header and a path alone: \<open>catalog/classify.py\<close> (scope and image type),
  \<open>adapters/dwarf3.py\<close> (the metadata the Dwarf 3 encodes in file names), \<open>filter_aliases.py\<close>, the pure parts of
  \<open>fits_reader.py\<close> and \<open>common_names.py\<close>. Header values are JSON values; Python's \<open>str\<close>, \<open>float\<close> and \<open>int\<close> on them,
  and the text SQLite stores for a number in a text column, are arguments. Names are ASCII.
\<close>

datatype scan_error =
    Not_Text string
  | Bad_Number string
  | Not_A_Directory string
  | Cluster_Failed sessions_error
  | Match_Failed match_error

text \<open>\<open>pv_float\<close> and \<open>pv_int\<close> are None where Python raises TypeError or ValueError.\<close>

record py_values =
  pv_str :: "json \<Rightarrow> string"
  pv_float :: "json \<Rightarrow> rat option"
  pv_int :: "json \<Rightarrow> int option"
  pv_column :: "json \<Rightarrow> string"

type_synonym fits_header = "(string, json) dict"

section \<open>Headers\<close>

definition HEADER_KEYS_TO_KEEP :: "string list" where
  "HEADER_KEYS_TO_KEEP =
     [''OBJECT'', ''DATE-OBS'', ''EXPTIME'', ''EXPOSURE'', ''GAIN'', ''FILTER'', ''CAMERA'', ''INSTRUME'', ''TELESCOP'',
      ''ORIGIN'', ''CREATOR'', ''SWCREATE'', ''XBINNING'', ''YBINNING'', ''XPIXSZ'', ''YPIXSZ'', ''FOCALLEN'', ''DET-TEMP'',
      ''CCD-TEMP'', ''SET-TEMP'', ''RA'', ''DEC'', ''BAYERPAT'', ''IMAGETYP'', ''NAXIS1'', ''NAXIS2'', ''STACKCNT'', ''PROGRAM'']"

definition strip_value :: "json \<Rightarrow> json" where
  "strip_value v = (case v of JStr s \<Rightarrow> JStr (strip s) | _ \<Rightarrow> v)"

definition read_primary_header :: "fits_header \<Rightarrow> fits_header" where
  "read_primary_header raw =
     List.map_filter (\<lambda>key. map_option (\<lambda>v. (key, strip_value v)) (map_of raw key)) HEADER_KEYS_TO_KEEP"

text \<open>The suffix \<open>\<s>*\(\d+\)\s*$\<close> of a text whose white space is collapsed.\<close>

definition drop_panel :: "string \<Rightarrow> string" where
  "drop_panel s =
     (case rev s of
        c # r \<Rightarrow>
          (if c = CHR '')'' then
             (case run_of is_digit r of
                Some (_, d # q) \<Rightarrow> if d = CHR ''('' then rev (dropWhile is_space q) else s
              | _ \<Rightarrow> s)
           else s)
      | [] \<Rightarrow> s)"

definition normalize_target :: "string \<Rightarrow> string" where
  "normalize_target name = strip (drop_panel (join '' '' (split_words name)))"

section \<open>Filter names\<close>

definition filter_key :: "string \<Rightarrow> string" where
  "filter_key name = lower (filter (\<lambda>c. \<not> (is_space c \<or> c = CHR ''_'' \<or> c = CHR ''-'')) name)"

definition ALIASES :: "(string, string list) dict" where
  "ALIASES = [(''HaOIII'', [''HaOIII'', ''HaO3'', ''Duo'', ''Duo-Band''])]"

definition alias_table :: "(string, string) dict" where
  "alias_table = fold (\<lambda>(canonical, names) d. fold (\<lambda>n d. dput (filter_key n) canonical d) names d) ALIASES []"

definition canonicalize :: "string option \<Rightarrow> string option" where
  "canonicalize name =
     (case name of
        None \<Rightarrow> None
      | Some n \<Rightarrow>
          let stripped = strip n
          in if stripped = '''' then None
             else (case map_of alias_table (filter_key stripped) of Some c \<Rightarrow> Some c | None \<Rightarrow> Some stripped))"

section \<open>Common names\<close>

text \<open>The bundled table without its comments, whose keys start with an underscore.\<close>

definition names_table :: "(string, string) dict \<Rightarrow> (string, string) dict" where
  "names_table raw = filter (\<lambda>(k, v). \<not> starts_with ''_'' k) raw"

definition normalize_name :: "string \<Rightarrow> string" where
  "normalize_name name = join '' '' (split_words name)"

fun spaced_lookup :: "(string, string) dict \<Rightarrow> string \<Rightarrow> string list \<Rightarrow> string option" where
  "spaced_lookup table canonical [] = None"
| "spaced_lookup table canonical (p # ps) =
     (if starts_with p canonical then
        (let after = drop (length p) canonical; rest = dropWhile is_space after
         in if rest \<noteq> [] \<and> rest \<noteq> after then spaced_lookup table canonical ps
            else (case map_of table (strip (p @ '' '' @ rest)) of
                Some n \<Rightarrow> Some n
              | None \<Rightarrow> spaced_lookup table canonical ps))
      else spaced_lookup table canonical ps)"

definition lookup_common :: "(string, string) dict \<Rightarrow> string option \<Rightarrow> string option" where
  "lookup_common raw name =
     (case name of
        None \<Rightarrow> None
      | Some n \<Rightarrow>
          if n = '''' then None
          else let table = names_table raw; canonical = normalize_name n
            in (case map_of table canonical of
                  Some c \<Rightarrow> Some c
                | None \<Rightarrow> spaced_lookup table canonical [''M'', ''C'', ''NGC'', ''IC'', ''B'', ''Sh2-'']))"

section \<open>Scope and image type\<close>

datatype image_type = LIGHT | DARK | FLAT | BIAS

record classified =
  cf_scope_id :: string
  cf_image_type :: image_type
  cf_failed :: bool

definition hstr :: "py_values \<Rightarrow> fits_header \<Rightarrow> string \<Rightarrow> string" where
  "hstr pv header key =
     (case map_of header key of
        None \<Rightarrow> ''''
      | Some JNull \<Rightarrow> ''''
      | Some (JStr s) \<Rightarrow> strip s
      | Some v \<Rightarrow> strip (pv_str pv v))"

definition detect_scope :: "py_values \<Rightarrow> fits_header \<Rightarrow> string option" where
  "detect_scope pv header =
     (let telescop = hstr pv header ''TELESCOP''; origin = hstr pv header ''ORIGIN'';
          creator = hstr pv header ''CREATOR''; instrume = hstr pv header ''INSTRUME''; swcreate = hstr pv header ''SWCREATE''
      in if starts_with ''DWARFIII'' (upper telescop) \<or> starts_with ''DWARFLAB'' (upper origin) then Some ''dwarf3''
         else if starts_with ''zwo seestar'' (lower creator) then Some ''seestar''
         else if starts_with ''seestar'' (lower instrume) then Some ''seestar''
         else if starts_with ''zwo asiair'' (lower creator) then Some ''asiair''
         else if starts_with ''n.i.n.a.'' (lower swcreate) then Some ''nina''
         else None)"

definition IMAGETYP_ALIASES :: "(string, image_type) dict" where
  "IMAGETYP_ALIASES =
     [(''light'', LIGHT), (''light frame'', LIGHT), (''lights'', LIGHT), (''dark'', DARK), (''dark frame'', DARK),
      (''darks'', DARK), (''flat'', FLAT), (''flat frame'', FLAT), (''flats'', FLAT), (''bias'', BIAS),
      (''bias frame'', BIAS), (''biases'', BIAS), (''offset'', BIAS)]"

fun path_parts :: "string \<Rightarrow> string list" where
  "path_parts [] = [[]]"
| "path_parts (c # s) =
     (if c = CHR ''/'' then [] # path_parts s else (c # hd (path_parts s)) # tl (path_parts s))"

definition detect_image_type :: "py_values \<Rightarrow> fits_header \<Rightarrow> string \<Rightarrow> string \<Rightarrow> image_type option" where
  "detect_image_type pv header path scope_id =
     (let raw = lower (hstr pv header ''IMAGETYP'')
      in if raw \<noteq> '''' then map_of IMAGETYP_ALIASES raw
         else if scope_id = ''dwarf3'' then
           (let parts = map lower (path_parts path)
            in if ''cali_frame'' \<in> set parts then None
               else if ''dwarf_dark'' \<in> set parts then Some DARK
               else Some LIGHT)
         else None)"

definition is_derived_frame :: "py_values \<Rightarrow> fits_header \<Rightarrow> bool" where
  "is_derived_frame pv header =
     ((case map_of header ''STACKCNT'' of
         None \<Rightarrow> False
       | Some v \<Rightarrow> (case pv_int pv v of None \<Rightarrow> False | Some n \<Rightarrow> 2 \<le> n))
      \<or> starts_with ''siril'' (lower (hstr pv header ''PROGRAM'')))"

definition SKIP_SUFFIXES :: "string list" where
  "SKIP_SUFFIXES = [''.png'', ''.tif'', ''.tiff'', ''.jpg'', ''.jpeg'']"

definition SKIP_FILENAME_PREFIXES :: "string list" where
  "SKIP_FILENAME_PREFIXES = [''stacked-'', ''img_'']"

definition classify :: "py_values \<Rightarrow> fits_header \<Rightarrow> string \<Rightarrow> classified option" where
  "classify pv header path =
     (let name = name_of path
      in if lower (suffix_of name) \<in> set SKIP_SUFFIXES then None
         else if list_ex (\<lambda>p. starts_with p name) SKIP_FILENAME_PREFIXES then None
         else if is_derived_frame pv header then None
         else case detect_scope pv header of
           None \<Rightarrow> None
         | Some scope_id \<Rightarrow>
             (case detect_image_type pv header path scope_id of
                None \<Rightarrow> None
              | Some t \<Rightarrow> Some \<lparr>cf_scope_id = scope_id, cf_image_type = t, cf_failed = starts_with ''failed_'' name\<rparr>))"

section \<open>Names of Dwarf 3 files\<close>

record discovered =
  dm_path :: string
  dm_kind :: string
  dm_source :: string
  dm_camera :: "string option"
  dm_instrument :: "string option"
  dm_filter :: "string option"
  dm_exptime :: "rat option"
  dm_gain :: "int option"
  dm_binning :: "int option"
  dm_ccd_temp :: "rat option"
  dm_stack_count :: "int option"

text \<open>\<open>float\<close> on a run of digits and dots, \<open>int\<close> on a run of digits.\<close>

definition float_text :: "string \<Rightarrow> rat option" where
  "float_text s =
     (let ds = takeWhile is_digit s; r = dropWhile is_digit s
      in case r of
           [] \<Rightarrow> if ds = [] then None else Some (decimal ds [])
         | c # fs \<Rightarrow> if c = CHR ''.'' \<and> list_all is_digit fs \<and> (ds \<noteq> [] \<or> fs \<noteq> []) then Some (decimal ds fs) else None)"

definition int_text :: "string \<Rightarrow> int" where
  "int_text s = int (digits_value 0 s)"

definition exposure_char :: "char \<Rightarrow> bool" where
  "exposure_char c = (is_digit c \<or> c = CHR ''.'')"

text \<open>\<open>-?\d+(?:\.\d+)?\<close> before a letter: the number and the rest.\<close>

definition signed_decimal :: "string \<Rightarrow> (rat \<times> string) option" where
  "signed_decimal s =
     (let neg = starts_with ''-'' s
      in case run_of is_digit (if neg then drop 1 s else s) of
           None \<Rightarrow> None
         | Some (ds, r) \<Rightarrow>
             let sign = (\<lambda>x. if neg then - x else x)
             in (case Option.bind (lit ''.'' r) (run_of is_digit) of
                   Some (fs, r') \<Rightarrow> Some (sign (decimal ds fs), r')
                 | None \<Rightarrow> Some (sign (decimal ds []), r)))"

text \<open>\<open>$\<close> also holds before a newline that ends the text.\<close>

definition ends_in :: "string list \<Rightarrow> string \<Rightarrow> bool" where
  "ends_in suffixes s = (s \<in> set suffixes \<union> set (map (\<lambda>x. x @ [CHR 0x0A]) suffixes))"

definition parse_dark_name :: "string \<Rightarrow> (string \<times> string \<times> string \<times> rat \<times> string) option" where
  "parse_dark_name name =
     Option.bind (lit ''dark_exp_'' name) (\<lambda>s. Option.bind (run_of exposure_char s) (\<lambda>(e, s).
     Option.bind (lit ''_gain_'' s) (\<lambda>s. Option.bind (run_of is_digit s) (\<lambda>(g, s).
     Option.bind (lit ''_bin_'' s) (\<lambda>s. Option.bind (run_of is_digit s) (\<lambda>(b, s).
     Option.bind (lit ''_'' s) (\<lambda>s. Option.bind (signed_decimal s) (\<lambda>(t, s).
     Option.bind (lit ''C_stack_'' s) (\<lambda>s. Option.bind (run_of is_digit s) (\<lambda>(n, s).
     if ends_in [''.fits'', ''.png''] s then Some (e, g, b, t, n) else None))))))))))"

definition parse_flat_name :: "string \<Rightarrow> (string \<times> string \<times> string) option" where
  "parse_flat_name name =
     Option.bind (lit ''flat_gain_'' name) (\<lambda>s. Option.bind (run_of is_digit s) (\<lambda>(g, s).
     Option.bind (lit ''_bin_'' s) (\<lambda>s. Option.bind (run_of is_digit s) (\<lambda>(b, s).
     Option.bind (lit ''_ir_'' s) (\<lambda>s. Option.bind (run_of is_digit s) (\<lambda>(ir, s).
     if ends_in [''.fits'', ''.png''] s then Some (g, b, ir) else None))))))"

definition parse_bias_name :: "string \<Rightarrow> (string \<times> string) option" where
  "parse_bias_name name =
     Option.bind (lit ''bias_gain_'' name) (\<lambda>s. Option.bind (run_of is_digit s) (\<lambda>(g, s).
     Option.bind (lit ''_bin_'' s) (\<lambda>s. Option.bind (run_of is_digit s) (\<lambda>(b, s).
     if ends_in [''.fits'', ''.png''] s then Some (g, b) else None))))"

definition FLAT_IR_TO_FILTER :: "(int, string) dict" where
  "FLAT_IR_TO_FILTER = [(0, ''VIS''), (1, ''Astro''), (2, ''Duo'')]"

definition CAM_FROM_DIR :: "(string, string) dict" where
  "CAM_FROM_DIR = [(''cam_0'', ''TELE''), (''cam_1'', ''WIDE'')]"

definition factory_master :: "string \<Rightarrow> string \<Rightarrow> string option \<Rightarrow> discovered" where
  "factory_master path kind camera =
     \<lparr>dm_path = path, dm_kind = kind, dm_source = ''factory'', dm_camera = camera, dm_instrument = Some ''DWARFIII'',
      dm_filter = None, dm_exptime = None, dm_gain = None, dm_binning = None, dm_ccd_temp = None, dm_stack_count = None\<rparr>"

definition parse_master :: "string \<Rightarrow> string \<Rightarrow> string option \<Rightarrow> scan_error + discovered option" where
  "parse_master path kind camera =
     (let m = factory_master path kind camera
      in if kind = ''dark'' then
           (case parse_dark_name (name_of path) of
              None \<Rightarrow> Inr None
            | Some (e, g, b, t, n) \<Rightarrow>
                (case float_text e of
                   None \<Rightarrow> Inl (Bad_Number e)
                 | Some x \<Rightarrow> Inr (Some (m\<lparr>dm_exptime := Some x, dm_gain := Some (int_text g), dm_binning := Some (int_text b),
                     dm_ccd_temp := Some t, dm_stack_count := Some (int_text n)\<rparr>))))
         else if kind = ''flat'' then
           (case parse_flat_name (name_of path) of
              None \<Rightarrow> Inr None
            | Some (g, b, ir) \<Rightarrow>
                Inr (Some (m\<lparr>dm_filter := map_of FLAT_IR_TO_FILTER (int_text ir), dm_binning := Some (int_text b)\<rparr>)))
         else if kind = ''bias'' then
           (case parse_bias_name (name_of path) of
              None \<Rightarrow> Inr None
            | Some (g, b) \<Rightarrow> Inr (Some (m\<lparr>dm_binning := Some (int_text b)\<rparr>)))
         else Inr None)"

text \<open>\<open>\d{n}\<close>: exactly that many digits.\<close>

definition digits_of :: "nat \<Rightarrow> string \<Rightarrow> (string \<times> string) option" where
  "digits_of n s = (if n \<le> length s \<and> list_all is_digit (take n s) then Some (take n s, drop n s) else None)"

definition parse_user_dark ::
  "string \<Rightarrow> (string \<times> string \<times> string \<times> string \<times> string \<times> rat) option" where
  "parse_user_dark name =
     Option.bind (lit ''raw_'' name) (\<lambda>s. Option.bind (run_of exposure_char s) (\<lambda>(e, s).
     Option.bind (lit ''s_'' s) (\<lambda>s. Option.bind (run_of is_digit s) (\<lambda>(g, s).
     Option.bind (lit ''_'' s) (\<lambda>s. Option.bind (run_of is_digit s) (\<lambda>(idx, s).
     Option.bind (lit ''_'' s) (\<lambda>s. Option.bind (digits_of 8 s) (\<lambda>(date, s).
     Option.bind (lit ''-'' s) (\<lambda>s. Option.bind (digits_of 6 s) (\<lambda>(hms, s). Option.bind (digits_of 3 s) (\<lambda>(ms, s).
     Option.bind (lit ''_'' s) (\<lambda>s. Option.bind (signed_decimal s) (\<lambda>(t, s).
     if ends_in [''C.fits''] s then Some (e, g, date, hms, ms, t) else None)))))))))))))"

definition iso_date :: "string \<Rightarrow> string \<Rightarrow> string \<Rightarrow> string" where
  "iso_date date hms ms =
     take 4 date @ ''-'' @ take 2 (drop 4 date) @ ''-'' @ take 2 (drop 6 date) @ ''T''
     @ take 2 hms @ '':'' @ take 2 (drop 2 hms) @ '':'' @ take 2 (drop 4 hms) @ ''.'' @ ms"

definition put_missing :: "string \<Rightarrow> json \<Rightarrow> fits_header \<Rightarrow> fits_header" where
  "put_missing key v hdr = (if has_key hdr key then hdr else dput key v hdr)"

definition enrich_dark_header :: "fits_header \<Rightarrow> string \<Rightarrow> scan_error + fits_header" where
  "enrich_dark_header header path =
     (let out = fold dpop [''OBJECT'', ''RA'', ''DEC'', ''FILTER''] header
      in case parse_user_dark (name_of path) of
           None \<Rightarrow> Inr out
         | Some (e, g, date, hms, ms, t) \<Rightarrow>
             rbind (if has_key out ''EXPTIME'' then Inr out
                    else case float_text e of
                      None \<Rightarrow> Inl (Bad_Number e)
                    | Some x \<Rightarrow> Inr (dput ''EXPTIME'' (JFloat (Fin x)) out)) (\<lambda>out.
             let out = put_missing ''DATE-OBS'' (JStr (iso_date date hms ms)) (put_missing ''GAIN'' (JInt (int_text g)) out)
             in Inr (if has_key out ''CCD-TEMP'' \<or> has_key out ''DET-TEMP'' then out
                     else dput ''CCD-TEMP'' (JFloat (Fin t)) out)))"

section \<open>White space collapses\<close>

lemma strip_id: "s = [] \<or> \<not> is_space (hd s) \<and> \<not> is_space (last s) \<Longrightarrow> strip s = s"
proof -
  have d: "dropWhile is_space xs = xs" if "xs = [] \<or> \<not> is_space (hd xs)" for xs using that by (cases xs) simp_all
  assume "s = [] \<or> \<not> is_space (hd s) \<and> \<not> is_space (last s)"
  then have "dropWhile is_space s = s" "dropWhile is_space (rev s) = rev s" by (auto intro!: d simp: hd_rev)
  then show ?thesis by (simp add: strip_def)
qed

lemma split_words_space: "is_space c \<Longrightarrow> split_words (c # s) = split_words s"
  by (subst (1 2) split_words.simps) simp

lemma split_words_blank [simp]: "split_words [] = []"
  by (simp add: split_words.simps)

lemma split_words_word:
  assumes "w \<noteq> []" "\<forall>c \<in> set w. \<not> is_space c" "s = [] \<or> is_space (hd s)"
  shows "split_words (w @ s) = w # split_words s"
proof -
  obtain c r where w: "w = c # r" "\<not> is_space c" using assms(1,2) by (cases w) auto
  have "takeWhile (Not \<circ> is_space) s = []" "dropWhile (Not \<circ> is_space) s = s" using assms(3) by (cases s; simp)+
  then have t: "takeWhile (Not \<circ> is_space) (w @ s) = w" "dropWhile (Not \<circ> is_space) (w @ s) = s"
    using assms(2) by (simp_all add: takeWhile_append2 dropWhile_append2)
  have d: "dropWhile is_space (w @ s) = w @ s" using w by simp
  show ?thesis by (subst split_words.simps) (simp only: Let_def d t assms(1) append_is_Nil_conv if_False simp_thms)
qed

text \<open>Every text is blank, starts with white space, or starts with a word.\<close>

lemma split_words_cases:
  obtains "s = []" | c r where "s = c # r" "is_space c"
    | w r where "s = w @ r" "w \<noteq> []" "\<forall>c \<in> set w. \<not> is_space c" "r = [] \<or> is_space (hd r)"
proof -
  let ?w = "takeWhile (Not \<circ> is_space) s" and ?r = "dropWhile (Not \<circ> is_space) s"
  have s: "s = ?w @ ?r" by simp
  have w: "\<forall>c \<in> set ?w. \<not> is_space c" by (auto dest: set_takeWhileD)
  have r: "?r = [] \<or> is_space (hd ?r)" by (metis comp_apply hd_dropWhile)
  show thesis
  proof (cases "?w = []")
    case True
    then have "s = [] \<or> (\<exists>c r. s = c # r \<and> is_space c)" by (cases s) (auto split: if_splits)
    then show thesis using that(1,2) by blast
  next
    case False
    show thesis by (rule that(3) [OF s False w r])
  qed
qed

lemma split_words_induct [case_names blank space word]:
  assumes "P []" "\<And>c s. is_space c \<Longrightarrow> P s \<Longrightarrow> P (c # s)"
    "\<And>w s. w \<noteq> [] \<Longrightarrow> \<forall>c \<in> set w. \<not> is_space c \<Longrightarrow> s = [] \<or> is_space (hd s) \<Longrightarrow> P s \<Longrightarrow> P (w @ s)"
  shows "P s"
proof (induction s rule: measure_induct_rule [of length])
  case (less s)
  show ?case
  proof (cases s rule: split_words_cases)
    case 1
    then show ?thesis using assms(1) by simp
  next
    case (2 c r)
    then show ?thesis using assms(2) less by simp
  next
    case (3 w r)
    have "P (w @ r)" using 3(1,2) by (intro assms(3) 3(2-4) less) simp
    then show ?thesis by (simp only: 3(1))
  qed
qed

lemma words_are_words: "w \<in> set (split_words s) \<Longrightarrow> w \<noteq> [] \<and> (\<forall>c \<in> set w. \<not> is_space c)"
  by (induction s rule: split_words_induct) (auto simp: split_words_space split_words_word)

definition blank_end :: "string \<Rightarrow> bool" where
  "blank_end s = (s = [] \<or> is_space (last s))"

lemma split_words_append:
  assumes "t \<noteq> []" "\<forall>c \<in> set t. \<not> is_space c"
  shows "split_words (s @ t) =
    (if blank_end s then split_words s @ [t] else butlast (split_words s) @ [last (split_words s) @ t])"
proof (induction s rule: split_words_induct)
  case blank
  show ?case using split_words_word [OF assms, of "[]"] by (simp add: blank_end_def)
next
  case (space c s)
  have "blank_end (c # s) = blank_end s" using space(1) by (simp add: blank_end_def)
  then show ?case using space by (simp add: split_words_space)
next
  case (word w s)
  show ?case
  proof (cases "s = []")
    case True
    have "\<not> blank_end w" using word(1,2) by (auto simp: blank_end_def)
    moreover have "split_words (w @ t) = [w @ t]" "split_words w = [w]"
      using split_words_word [of "w @ t" "[]"] split_words_word [of w "[]"] word(1,2) assms by auto
    ultimately show ?thesis by (simp add: True)
  next
    case False
    then have h: "s @ t = [] \<or> is_space (hd (s @ t))" using word(3) by simp
    have "split_words (w @ s @ t) = w # split_words (s @ t)" by (rule split_words_word [OF word(1,2) h])
    moreover have "blank_end (w @ s) = blank_end s" using False by (simp add: blank_end_def)
    moreover have "split_words s \<noteq> [] \<or> blank_end s"
    proof (rule ccontr)
      assume n: "\<not> (split_words s \<noteq> [] \<or> blank_end s)"
      have "split_words s = [] \<Longrightarrow> blank_end s" for s
        by (induction s rule: split_words_induct) (auto simp: blank_end_def split_words_space split_words_word)
      then show False using n by blast
    qed
    ultimately show ?thesis using word(4) split_words_word [OF word(1-3)] by auto
  qed
qed

lemma join_words_ends:
  assumes "\<forall>w \<in> set ws. w \<noteq> [] \<and> (\<forall>c \<in> set w. \<not> is_space c)"
  shows "join '' '' ws = [] \<or> \<not> is_space (hd (join '' '' ws)) \<and> \<not> is_space (last (join '' '' ws))"
  using assms
proof (induction "'' ''" ws rule: join.induct)
  case (3 x y ys)
  then have "join '' '' (y # ys) \<noteq> []" by (cases ys) auto
  then show ?case using 3 by (cases x) auto
qed auto

lemma join_snoc: "ws \<noteq> [] \<Longrightarrow> join sep (ws @ [w]) = join sep ws @ sep @ w"
  by (induction sep ws rule: join.induct) (auto simp: neq_Nil_conv)

lemma join_extend_last: "ws \<noteq> [] \<Longrightarrow> join sep (butlast ws @ [last ws @ t]) = join sep ws @ t"
  by (induction sep ws rule: join.induct) (auto simp: neq_Nil_conv Cons_eq_append_conv append_eq_Cons_conv)


definition words :: "string \<Rightarrow> string" where
  "words name = join '' '' (split_words name)"

lemma words_ends: "words name = [] \<or> \<not> is_space (hd (words name)) \<and> \<not> is_space (last (words name))"
  unfolding words_def by (rule join_words_ends) (use words_are_words in blast)

lemma strip_words: "strip (words name) = words name"
  by (rule strip_id) (rule words_ends)

lemma not_blank_end_words: "\<not> blank_end s \<Longrightarrow> split_words s \<noteq> []"
proof -
  have "split_words s = [] \<Longrightarrow> blank_end s"
    by (induction s rule: split_words_induct) (auto simp: blank_end_def split_words_space split_words_word)
  then show "\<not> blank_end s \<Longrightarrow> split_words s \<noteq> []" by blast
qed

lemma words_append:
  assumes "t \<noteq> []" "\<forall>c \<in> set t. \<not> is_space c"
  obtains sp where "words (name @ t) = words name @ sp @ t" "\<forall>c \<in> set sp. is_space c"
proof (cases "blank_end name")
  case True
  then have w: "words (name @ t) = join '' '' (split_words name @ [t])" by (simp add: words_def split_words_append [OF assms])
  show thesis
  proof (cases "split_words name = []")
    case True
    then show ?thesis using w by (intro that [of "[]"]) (simp_all add: words_def)
  next
    case False
    then show ?thesis using w by (intro that [of "'' ''"]) (simp_all add: join_snoc words_def is_space_def)
  qed
next
  case False
  show thesis
    by (rule that [of "[]"])
      (simp_all add: words_def split_words_append [OF assms] False join_extend_last [OF not_blank_end_words [OF False]])
qed

lemma split_words_trailing: "split_words (s @ '' '') = split_words s"
proof (induction s rule: split_words_induct)
  case blank
  show ?case using split_words_space [of "CHR '' ''" "[]"] by (simp add: is_space_def)
next
  case (space c s)
  then show ?case by (simp add: split_words_space)
next
  case (word w s)
  have "s @ '' '' = [] \<or> is_space (hd (s @ '' ''))" using word(3) by (cases s) (simp_all add: is_space_def)
  from split_words_word [OF word(1,2) this] show ?case by (simp only: append_assoc word(4) split_words_word [OF word(1-3)])
qed

lemma digit_no_space: "is_digit c \<Longrightarrow> \<not> is_space c"
  by (auto simp: is_space_def is_digit_def less_eq_char_def)

definition panel :: "nat \<Rightarrow> string" where
  "panel n = ''('' @ show_nat n @ '')''"

lemma drop_panel_panel:
  assumes "\<forall>c \<in> set sp. is_space c" "s = [] \<or> \<not> is_space (last s)"
  shows "drop_panel (s @ sp @ panel n) = s"
proof -
  have "\<forall>c \<in> set (rev (show_nat n)). is_digit c" using show_nat_digits by simp
  then have r: "run_of is_digit (rev (show_nat n) @ CHR ''('' # rev sp @ rev s) = Some (rev (show_nat n), CHR ''('' # rev sp @ rev s)"
    by (intro run_of_append) (simp_all add: is_digit_def less_eq_char_def)
  have "dropWhile is_space (rev sp @ rev s) = dropWhile is_space (rev s)" by (rule dropWhile_append2) (use assms(1) in simp)
  also have "\<dots> = rev s" using assms(2) by (cases "rev s") (auto simp: hd_rev [symmetric])
  finally have d: "dropWhile is_space (rev sp @ rev s) = rev s" .
  show ?thesis using r d by (simp add: drop_panel_def panel_def)
qed

lemma drop_panel_cases:
  "drop_panel s = s \<or> (\<exists>q ds. s = q @ ''('' @ ds @ '')'' \<and> ds \<noteq> [] \<and> list_all is_digit ds)"
proof (rule disjCI)
  assume none: "\<nexists>q ds. s = q @ ''('' @ ds @ '')'' \<and> ds \<noteq> [] \<and> list_all is_digit ds"
  have False if "rev s = CHR '')'' # r" "run_of is_digit r = Some (ds, CHR ''('' # q)" for r ds q
  proof -
    have ds: "r = ds @ CHR ''('' # q" "ds \<noteq> []" "list_all is_digit ds"
      using that(2) by (auto simp: run_of_def list_all_iff dest: set_takeWhileD split: if_splits) (metis takeWhile_dropWhile_id)
    have "s = rev (CHR '')'' # ds @ CHR ''('' # q)" using that(1) ds(1) by (simp add: rev_swap)
    then have "s = rev q @ ''('' @ rev ds @ '')''" by simp
    then show False using none ds(2,3) by (metis list_all_rev rev_is_Nil_conv)
  qed
  then show "drop_panel s = s" by (auto simp: drop_panel_def split: list.splits option.splits)
qed

text \<open>
  the panels of a mosaic. Whatever the name of a target and whatever white space stands before the panel
  suffix, all panels get the same normal form, the name with its white space collapsed; it is the one of
  the name itself unless that ends in a number in parentheses, which counts as a panel too.
\<close>

theorem panels_share_target:
  "normalize_target (name @ ''('' @ show_nat n @ '')'') = join '' '' (split_words name)
   \<and> normalize_target (name @ '' ('' @ show_nat n @ '')'') = join '' '' (split_words name)
   \<and> (normalize_target name = join '' '' (split_words name) \<or> (\<exists>s ds. join '' '' (split_words name) = s @ ''('' @ ds @ '')''
        \<and> ds \<noteq> [] \<and> list_all is_digit ds))"
proof (intro conjI)
  have suffixed: "normalize_target (m @ panel n) = words m" for m
  proof -
    have p: "panel n \<noteq> []" "\<forall>c \<in> set (panel n). \<not> is_space c"
      using show_nat_digits [THEN digit_no_space] by (auto simp: panel_def) (simp_all add: is_space_def)
    obtain sp where w: "words (m @ panel n) = words m @ sp @ panel n" "\<forall>c \<in> set sp. is_space c"
      by (rule words_append [OF p])
    have "drop_panel (words (m @ panel n)) = words m"
      unfolding w(1) by (rule drop_panel_panel [OF w(2)]) (use words_ends in blast)
    then show ?thesis by (simp add: normalize_target_def words_def [symmetric] strip_words)
  qed
  show "normalize_target (name @ ''('' @ show_nat n @ '')'') = join '' '' (split_words name)"
    using suffixed [of name] by (simp add: panel_def words_def)
  show "normalize_target (name @ '' ('' @ show_nat n @ '')'') = join '' '' (split_words name)"
    using suffixed [of "name @ '' ''"] by (simp add: panel_def words_def split_words_trailing)
  show "normalize_target name = join '' '' (split_words name) \<or> (\<exists>s ds. join '' '' (split_words name) = s @ ''('' @ ds @ '')''
      \<and> ds \<noteq> [] \<and> list_all is_digit ds)"
  proof (cases "drop_panel (words name) = words name")
    case True
    then have "normalize_target name = words name" by (simp add: normalize_target_def words_def [symmetric] strip_words)
    then show ?thesis unfolding words_def by (rule disjI1)
  next
    case False
    then show ?thesis using drop_panel_cases [of "words name"] unfolding words_def by (intro disjI2) (erule disjE, blast, assumption)
  qed
qed


section \<open>Filters that denote one filter\<close>

definition duo_keys :: "string list" where
  "duo_keys = [''haoiii'', ''hao3'', ''duo'', ''duoband'']"

lemma alias_table_eval: "alias_table = map (\<lambda>k. (k, ''HaOIII'')) duo_keys"
  by code_simp

lemma map_of_const: "map_of (map (\<lambda>k. (k, v)) ks) k = (if k \<in> set ks then Some v else None)"
  by (induction ks) auto

lemma filter_dropWhile_none: "(\<And>c. P c \<Longrightarrow> \<not> Q c) \<Longrightarrow> filter Q (dropWhile P s) = filter Q s"
  by (induction s) auto

lemma filter_key_strip: "filter_key (strip s) = filter_key s"
proof -
  have "filter Q (strip s) = filter Q s" if "\<And>c. is_space c \<Longrightarrow> \<not> Q c" for Q
    by (simp add: strip_def rev_filter [symmetric] filter_dropWhile_none that)
  then show ?thesis by (simp add: filter_key_def)
qed

lemma canonicalize_Some:
  "canonicalize (Some n) = (if strip n = '''' then None else if filter_key n \<in> set duo_keys then Some ''HaOIII'' else Some (strip n))"
  by (simp add: canonicalize_def Let_def filter_key_strip alias_table_eval map_of_const)

lemma strip_ends: "strip s = [] \<or> \<not> is_space (hd (strip s)) \<and> \<not> is_space (last (strip s))"
proof -
  let ?a = "dropWhile is_space s"
  have h: "xs \<noteq> [] \<Longrightarrow> \<not> is_space (hd (dropWhile is_space xs)) \<or> dropWhile is_space xs = []" for xs
    by (metis hd_dropWhile)
  show ?thesis
  proof (cases "strip s = []")
    case False
    then have r: "dropWhile is_space (rev ?a) \<noteq> []" by (simp add: strip_def)
    then have "\<not> is_space (last (strip s))" by (simp add: strip_def last_rev hd_dropWhile)
    moreover have "\<exists>u. ?a = strip s @ u"
      unfolding strip_def by (metis rev_append rev_rev_ident takeWhile_dropWhile_id)
    then obtain u where u: "?a = strip s @ u" by blast
    then have a: "?a \<noteq> []" using False by (metis append_is_Nil_conv)
    then have "\<not> is_space (hd ?a)" by (rule hd_dropWhile)
    then have "\<not> is_space (hd (strip s))" unfolding u hd_append2 [OF False] .
    ultimately show ?thesis by blast
  qed simp
qed

lemma strip_strip [simp]: "strip (strip s) = strip s"
  by (rule strip_id) (rule strip_ends)

text \<open>
  filters that meet in the matcher. Two spellings get the same name exactly if they agree up to the white
  space around them or both spell the dual-band filter; naming twice is naming once; and the flats the
  Dwarf 3 labels 2 get the name its lights get.
\<close>

theorem filters_agree_iff:
  "(canonicalize (Some a) = canonicalize (Some b)) =
     (strip a = strip b \<or> filter_key a \<in> {''haoiii'', ''hao3'', ''duo'', ''duoband''} \<and> filter_key b \<in> {''haoiii'', ''hao3'', ''duo'', ''duoband''})
   \<and> canonicalize (canonicalize f) = canonicalize f
   \<and> canonicalize (map_of FLAT_IR_TO_FILTER 2) = canonicalize (Some ''Duo'')"
proof (intro conjI)
  have k: "set duo_keys = {''haoiii'', ''hao3'', ''duo'', ''duoband''}" by (simp add: duo_keys_def)
  have h: "filter_key ''HaOIII'' = ''haoiii''" by code_simp
  have empty: "strip n = [] \<Longrightarrow> filter_key n \<notin> set duo_keys" for n
  proof -
    assume blank: "strip n = []"
    have "filter_key n = filter_key (strip n)" by (rule filter_key_strip [symmetric])
    also have "\<dots> = []" unfolding blank by (simp add: filter_key_def lower_def)
    finally show ?thesis by (simp add: duo_keys_def)
  qed
  have lit: "strip n = ''HaOIII'' \<Longrightarrow> filter_key n \<in> set duo_keys" for n
    using filter_key_strip [of n] h by (simp add: k)
  have "canonicalize (Some a) = canonicalize (Some b) \<longleftrightarrow> strip a = strip b \<or> filter_key a \<in> set duo_keys \<and> filter_key b \<in> set duo_keys"
  proof (cases "filter_key a \<in> set duo_keys"; cases "filter_key b \<in> set duo_keys")
    assume a: "filter_key a \<in> set duo_keys" and b: "filter_key b \<in> set duo_keys"
    then show ?thesis using empty [of a] empty [of b] by (auto simp: canonicalize_Some)
  next
    assume a: "filter_key a \<in> set duo_keys" and b: "filter_key b \<notin> set duo_keys"
    then have "strip a \<noteq> strip b" by (metis filter_key_strip)
    then show ?thesis using a b empty [of a] lit [of b] by (auto simp: canonicalize_Some)
  next
    assume a: "filter_key a \<notin> set duo_keys" and b: "filter_key b \<in> set duo_keys"
    then have "strip a \<noteq> strip b" by (metis filter_key_strip)
    then show ?thesis using a b empty [of b] lit [of a] by (auto simp: canonicalize_Some)
  next
    assume "filter_key a \<notin> set duo_keys" "filter_key b \<notin> set duo_keys"
    then show ?thesis by (auto simp: canonicalize_Some)
  qed
  then show "(canonicalize (Some a) = canonicalize (Some b)) =
     (strip a = strip b \<or> filter_key a \<in> {''haoiii'', ''hao3'', ''duo'', ''duoband''} \<and> filter_key b \<in> {''haoiii'', ''hao3'', ''duo'', ''duoband''})"
    by (simp only: k)
  show "canonicalize (canonicalize f) = canonicalize f"
  proof (cases f)
    case None
    then show ?thesis by (simp add: canonicalize_def)
  next
    case (Some n)
    have "strip ''HaOIII'' = ''HaOIII''" by code_simp
    then show ?thesis by (simp add: Some canonicalize_Some filter_key_strip h k canonicalize_def [of None])
  qed
  show "canonicalize (map_of FLAT_IR_TO_FILTER 2) = canonicalize (Some ''Duo'')" by code_simp
qed

section \<open>File names read back\<close>

lemma name_of_child: "CHR ''/'' \<notin> set n \<Longrightarrow> name_of (dir @ ''/'' @ n) = n"
proof -
  assume "CHR ''/'' \<notin> set n"
  then have "takeWhile (\<lambda>c. c \<noteq> CHR ''/'') (rev n @ CHR ''/'' # rev dir) = rev n"
    by (subst takeWhile_append2) (auto simp: in_set_conv_decomp)
  then show ?thesis by (simp add: name_of_def)
qed

lemma run_digits:
  assumes "list_all is_digit ds" "ds \<noteq> []" "s = [] \<or> \<not> is_digit (hd s)"
  shows "run_of is_digit (ds @ s) = Some (ds, s)"
  by (rule run_of_append) (use assms in \<open>auto simp: list_all_iff\<close>)

lemma show_nat_all [simp]: "list_all is_digit (show_nat n)"
  by (simp add: list_all_iff show_nat_digits)

lemma int_text_show [simp]: "int_text (show_nat n) = int n"
  by (simp add: int_text_def digits_value_show_nat)

lemma float_text_decimal:
  assumes "list_all is_digit ds" "list_all is_digit fs" "ds \<noteq> []"
  shows "float_text (ds @ ''.'' @ fs) = Some (decimal ds fs)"
proof -
  have "\<not> is_digit (CHR ''.'')" by (simp add: is_digit_def less_eq_char_def)
  then have "takeWhile is_digit (ds @ CHR ''.'' # fs) = ds" "dropWhile is_digit (ds @ CHR ''.'' # fs) = CHR ''.'' # fs"
    using assms(1) by (simp_all add: list_all_iff takeWhile_append2 dropWhile_append2)
  then show ?thesis using assms(2,3) by (simp add: float_text_def Let_def)
qed


lemma no_digit [simp]:
  "\<not> is_digit (CHR ''/'')" "\<not> is_digit (CHR ''_'')" "\<not> is_digit (CHR ''.'')" "\<not> is_digit (CHR ''C'')" "\<not> is_digit (CHR ''-'')"
  by (simp_all add: is_digit_def less_eq_char_def)

lemma digits_no_slash: "list_all is_digit ds \<Longrightarrow> CHR ''/'' \<notin> set ds"
  by (auto simp: list_all_iff)

lemma show_int_no_slash: "CHR ''/'' \<notin> set (show_int t)"
  using digits_no_slash [OF show_nat_all] by (simp add: show_int_def)

lemma signed_decimal_show_int: "signed_decimal (show_int t @ CHR ''C'' # s) = Some (of_int t, CHR ''C'' # s)"
proof -
  have run: "run_of is_digit (show_nat k @ CHR ''C'' # s) = Some (show_nat k, CHR ''C'' # s)" for k
    by (rule run_digits) simp_all
  have dec: "decimal (show_nat k) [] = of_nat k" for k by (simp add: decimal_def digits_value_show_nat)
  have lit: "lit ''.'' (CHR ''C'' # s) = None" by (simp add: lit_def starts_with_def)
  show ?thesis
  proof (cases "t < 0")
    case True
    have "starts_with ''-'' (CHR ''-'' # show_nat k @ CHR ''C'' # s)" for k by (simp add: starts_with_def)
    then show ?thesis using True by (simp add: signed_decimal_def show_int_def run dec lit)
  next
    case False
    have "\<not> starts_with ''-'' (show_nat k @ CHR ''C'' # s)" for k
    proof -
      obtain c r where k: "show_nat k = c # r" by (cases "show_nat k") auto
      then have "is_digit c" using show_nat_digits [of c k] by simp
      then have "c \<noteq> CHR ''-''" by auto
      then show ?thesis by (simp add: k starts_with_def)
    qed
    then show ?thesis using False by (simp add: signed_decimal_def show_int_def run dec lit)
  qed
qed

lemma run_exposure:
  assumes "list_all is_digit ds" "list_all is_digit fs"
  shows "run_of exposure_char ((ds @ ''.'' @ fs) @ CHR ''_'' # s) = Some (ds @ ''.'' @ fs, CHR ''_'' # s)"
  by (rule run_of_append) (use assms in \<open>auto simp: list_all_iff exposure_char_def\<close>)

lemma run_show_nat:
  "\<not> is_digit c \<Longrightarrow> run_of is_digit (show_nat n @ c # s) = Some (show_nat n, c # s)"
  by (rule run_digits) simp_all

lemma lit_Cons: "lit p s = Some r \<Longrightarrow> lit (c # p) (c # s) = Some r"
  by (auto simp: lit_Some)

lemma lit_Nil [simp]: "lit [] s = Some s"
  by (simp add: lit_Some)

lemmas read_name = run_show_nat lit_Cons ends_in_def signed_decimal_show_int

lemma parse_dark_name_printed:
  assumes "list_all is_digit ds" "list_all is_digit fs"
  shows "parse_dark_name (''dark_exp_'' @ (ds @ ''.'' @ fs) @ ''_gain_'' @ show_nat g @ ''_bin_'' @ show_nat b @ ''_'' @ show_int t
      @ ''C_stack_'' @ show_nat n @ ''.fits'') = Some (ds @ ''.'' @ fs, show_nat g, show_nat b, of_int t, show_nat n)"
  using run_exposure [OF assms] by (simp add: parse_dark_name_def read_name)

lemma parse_flat_name_printed:
  "parse_flat_name (''flat_gain_'' @ show_nat g @ ''_bin_'' @ show_nat b @ ''_ir_'' @ show_nat ir @ ''.fits'')
     = Some (show_nat g, show_nat b, show_nat ir)"
  by (simp add: parse_flat_name_def read_name)

lemma parse_bias_name_printed:
  "parse_bias_name (''bias_gain_'' @ show_nat g @ ''_bin_'' @ show_nat b @ ''.fits'') = Some (show_nat g, show_nat b)"
  by (simp add: parse_bias_name_def read_name)

text \<open>
  The names of factory masters read back. Whatever the directory, a dark, flat or bias named the way the
  firmware names it is read as a master of its kind with the exposure, gain, binning, temperature,
  depth or filter its name says, and nothing else.
\<close>

theorem master_names_read_back:
  assumes "list_all is_digit ds" "list_all is_digit fs" "ds \<noteq> []"
  shows "parse_master (dir @ ''/'' @ ''dark_exp_'' @ (ds @ ''.'' @ fs) @ ''_gain_'' @ show_nat g @ ''_bin_'' @ show_nat b @ ''_'' @ show_int t
        @ ''C_stack_'' @ show_nat n @ ''.fits'') ''dark'' cam
      = Inr (Some ((factory_master (dir @ ''/'' @ ''dark_exp_'' @ (ds @ ''.'' @ fs) @ ''_gain_'' @ show_nat g @ ''_bin_'' @ show_nat b @ ''_''
            @ show_int t @ ''C_stack_'' @ show_nat n @ ''.fits'') ''dark'' cam)
          \<lparr>dm_exptime := Some (decimal ds fs), dm_gain := Some (int g), dm_binning := Some (int b),
           dm_ccd_temp := Some (of_int t), dm_stack_count := Some (int n)\<rparr>))
    \<and> parse_master (dir @ ''/'' @ ''flat_gain_'' @ show_nat g @ ''_bin_'' @ show_nat b @ ''_ir_'' @ show_nat ir @ ''.fits'') ''flat'' cam
      = Inr (Some ((factory_master (dir @ ''/'' @ ''flat_gain_'' @ show_nat g @ ''_bin_'' @ show_nat b @ ''_ir_'' @ show_nat ir @ ''.fits'')
            ''flat'' cam)
          \<lparr>dm_filter := map_of FLAT_IR_TO_FILTER (int ir), dm_binning := Some (int b)\<rparr>))
    \<and> parse_master (dir @ ''/'' @ ''bias_gain_'' @ show_nat g @ ''_bin_'' @ show_nat b @ ''.fits'') ''bias'' cam
      = Inr (Some ((factory_master (dir @ ''/'' @ ''bias_gain_'' @ show_nat g @ ''_bin_'' @ show_nat b @ ''.fits'') ''bias'' cam)
          \<lparr>dm_binning := Some (int b)\<rparr>))"
proof (intro conjI)
  note ns = digits_no_slash [OF assms(1)] digits_no_slash [OF assms(2)] digits_no_slash [OF show_nat_all] show_int_no_slash
  let ?d = "''dark_exp_'' @ (ds @ ''.'' @ fs) @ ''_gain_'' @ show_nat g @ ''_bin_'' @ show_nat b @ ''_'' @ show_int t @ ''C_stack_'' @ show_nat n @ ''.fits''"
  let ?f = "''flat_gain_'' @ show_nat g @ ''_bin_'' @ show_nat b @ ''_ir_'' @ show_nat ir @ ''.fits''"
  let ?b = "''bias_gain_'' @ show_nat g @ ''_bin_'' @ show_nat b @ ''.fits''"
  have d: "name_of (dir @ ''/'' @ ?d) = ?d" by (rule name_of_child) (use ns in simp)
  have f: "name_of (dir @ ''/'' @ ?f) = ?f" by (rule name_of_child) (use ns in simp)
  have b: "name_of (dir @ ''/'' @ ?b) = ?b" by (rule name_of_child) (use ns in simp)
  show "parse_master (dir @ ''/'' @ ?d) ''dark'' cam = Inr (Some ((factory_master (dir @ ''/'' @ ?d) ''dark'' cam)
      \<lparr>dm_exptime := Some (decimal ds fs), dm_gain := Some (int g), dm_binning := Some (int b),
       dm_ccd_temp := Some (of_int t), dm_stack_count := Some (int n)\<rparr>))"
    unfolding parse_master_def d parse_dark_name_printed [OF assms(1,2)]
    by (simp add: float_text_decimal [OF assms, unfolded append.simps])
  show "parse_master (dir @ ''/'' @ ?f) ''flat'' cam = Inr (Some ((factory_master (dir @ ''/'' @ ?f) ''flat'' cam)
      \<lparr>dm_filter := map_of FLAT_IR_TO_FILTER (int ir), dm_binning := Some (int b)\<rparr>))"
    unfolding parse_master_def f parse_flat_name_printed by simp
  show "parse_master (dir @ ''/'' @ ?b) ''bias'' cam = Inr (Some ((factory_master (dir @ ''/'' @ ?b) ''bias'' cam)
      \<lparr>dm_binning := Some (int b)\<rparr>))"
    unfolding parse_master_def b parse_bias_name_printed by simp
qed

lemma master_names_read_back_witness:
  "map_sum id (map_option dm_exptime) (parse_master ''/c/dark_exp_15.000_gain_60_bin_2_-5C_stack_10.fits'' ''dark'' None) = Inr (Some (Some 15))"
proof -
  have n: "show_nat 60 = ''60''" "show_nat 2 = ''2''" "show_nat 10 = ''10''" "show_int (-5) = ''-5''"
    "list_all is_digit ''15''" "list_all is_digit ''000''" "decimal ''15'' ''000'' = 15"
    by code_simp+
  show ?thesis
    using master_names_read_back [OF n(5,6), of "''/c''" 60 2 "-5" 10 None 0] by (simp add: n)
qed

text \<open>A number that is none passes the pattern: the conversion raises.\<close>

lemma dotted_exposure_raises:
  "parse_master ''/c/dark_exp_1.2.3_gain_60_bin_1_20C_stack_10.fits'' ''dark'' None = Inl (Bad_Number ''1.2.3'')"
  by code_simp

lemma nested_panels: "normalize_target ''M 31(1)(2)'' = ''M 31(1)''" "normalize_target ''M 31(1)'' = ''M 31''"
  by code_simp+

end
