(* ===== verification/Scanner.thy ===== *)
theory Scanner
  imports Classify
begin

text \<open>
  \<open>server/catalog/scanner.py\<close> with the walk over factory masters of \<open>adapters/dwarf3.py\<close>: the incremental scan of a
  capture root into the tables frames and masters, the removal of rows whose files are gone, and the
  rebuild of sessions and matches that ends it. The disk is a tree and does not change during a scan, except that a
  file may vanish between being listed and being looked at. The resolution of targets on the sky writes
  columns nothing here reads and is left out.
\<close>

section \<open>The disk\<close>

text \<open>Size, modification time and inode, None for a vanished file; the hash of the content; the header, None when unreadable.\<close>

record file_info =
  fi_stat :: "(int \<times> rat \<times> int) option"
  fi_hash :: string
  fi_header :: "fits_header option"

text \<open>A directory without entries to show cannot be read; a link may dangle.\<close>

datatype fs_node =
    Regular file_info
  | Directory "(string \<times> fs_node) list option"
  | Sym_Link "fs_node option"

fun follow :: "fs_node \<Rightarrow> fs_node option" where
  "follow (Sym_Link (Some x)) = follow x"
| "follow (Sym_Link None) = None"
| "follow (Regular f) = Some (Regular f)"
| "follow (Directory es) = Some (Directory es)"

definition path_join :: "string \<Rightarrow> string \<Rightarrow> string" where
  "path_join d n = (if ends_with ''/'' d then d @ n else d @ ''/'' @ n)"

definition is_fits_name :: "string \<Rightarrow> bool" where
  "is_fits_name n = (ends_with ''.fits'' (lower n) \<or> ends_with ''.fit'' (lower n))"

definition fits_files :: "string \<Rightarrow> (string \<times> fs_node) list \<Rightarrow> (string \<times> file_info) list" where
  "fits_files d es =
     List.map_filter (\<lambda>(n, x). case x of Regular f \<Rightarrow> if is_fits_name n then Some (path_join d n, f) else None | _ \<Rightarrow> None) es"

definition sub_dirs :: "string \<Rightarrow> (string \<times> fs_node) list \<Rightarrow> (string \<times> fs_node) list" where
  "sub_dirs d es = List.map_filter (\<lambda>(n, x). case x of Directory _ \<Rightarrow> Some (path_join d n, x) | _ \<Rightarrow> None) es"

lemma sub_dirs_size:
  "sum_list (map (\<lambda>(p, x). Suc (size x)) (sub_dirs d es)) \<le> sum_list (map (\<lambda>(n, x). Suc (size x)) es)"
  by (induction es) (auto simp: sub_dirs_def List.map_filter_simps split: fs_node.splits)

lemma entries_size: "sum_list (map (\<lambda>(n, x). Suc (size x)) es) < size (Directory (Some es))"
  by (induction es) auto

text \<open>The stack of \<open>_walk_fits\<close>, its top first.\<close>

function walk_fits :: "(string \<times> fs_node) list \<Rightarrow> (string \<times> file_info) list" where
  "walk_fits [] = []"
| "walk_fits ((d, Directory (Some es)) # stack) = fits_files d es @ walk_fits (rev (sub_dirs d es) @ stack)"
| "walk_fits ((d, Directory None) # stack) = walk_fits stack"
| "walk_fits ((d, Regular f) # stack) = walk_fits stack"
| "walk_fits ((d, Sym_Link x) # stack) = walk_fits stack"
  by pat_completeness auto
termination
proof (relation "measure (\<lambda>stack. sum_list (map (\<lambda>(p, x). Suc (size x)) stack))", goal_cases)
  case (2 d es stack)
  have "sum_list (map (\<lambda>(p, x). Suc (size x)) (rev (sub_dirs d es))) = sum_list (map (\<lambda>(p, x). Suc (size x)) (sub_dirs d es))"
    by (simp only: rev_map [symmetric] sum_list_rev)
  then show ?case using sub_dirs_size [of d es] entries_size [of es] by simp
qed simp_all

text \<open>What stands at the root: None for a root that does not exist.\<close>

definition walk_root :: "string \<Rightarrow> fs_node option \<Rightarrow> scan_error + (string \<times> file_info) list" where
  "walk_root base node =
     (case Option.bind node follow of
        None \<Rightarrow> Inr []
      | Some (Directory es) \<Rightarrow> Inr (walk_fits [(base, Directory es)])
      | Some _ \<Rightarrow> Inl (Not_A_Directory base))"

section \<open>The tables\<close>

record frame_row =
  rw_frame :: frame
  rw_hash :: "string option"
  rw_inode :: "int option"
  rw_mtime :: "rat option"
  rw_size :: "int option"
  rw_ra :: "rat option"
  rw_dec :: "rat option"
  rw_headers :: "fits_header option"
  rw_scanned_at :: "rat option"

record master_row =
  mr_master :: master
  mr_scope_id :: "string option"
  mr_source :: "string option"
  mr_hash :: "string option"
  mr_inode :: "int option"
  mr_mtime :: "rat option"
  mr_size :: "int option"
  mr_cache_ref :: "string option"
  mr_scanned_at :: "rat option"

record scan_db =
  sd_frames :: "frame_row list"
  sd_masters :: "master_row list"
  sd_sessions :: "session_row list"
  sd_links :: "(int \<times> int) list"
  sd_targets :: "(int \<times> string) list"
  sd_matches :: cal_table

record scan_stats =
  ss_discovered :: nat
  ss_skipped_unchanged :: nat
  ss_skipped_unknown :: nat
  ss_inserted :: nat
  ss_updated :: nat
  ss_failed :: nat
  ss_removed :: nat
  ss_masters_inserted :: nat
  ss_masters_updated :: nat
  ss_masters_skipped :: nat
  ss_masters_removed :: nat
  ss_scope_breakdown :: "(string, nat) dict"

definition no_stats :: scan_stats where
  "no_stats = \<lparr>ss_discovered = 0, ss_skipped_unchanged = 0, ss_skipped_unknown = 0, ss_inserted = 0, ss_updated = 0,
     ss_failed = 0, ss_removed = 0, ss_masters_inserted = 0, ss_masters_updated = 0, ss_masters_skipped = 0,
     ss_masters_removed = 0, ss_scope_breakdown = []\<rparr>"

definition row_path :: "frame_row \<Rightarrow> string" where
  "row_path r = fr_path (rw_frame r)"

definition row_id :: "frame_row \<Rightarrow> int" where
  "row_id r = fr_id (rw_frame r)"

definition existing_row :: "scan_db \<Rightarrow> string \<Rightarrow> frame_row option" where
  "existing_row db path = find (\<lambda>r. row_path r = path) (sd_frames db)"

definition existing_master :: "scan_db \<Rightarrow> string \<Rightarrow> master_row option" where
  "existing_master db path = find (\<lambda>r. ma_path (mr_master r) = path) (sd_masters db)"

definition catalog_of :: "scan_db \<Rightarrow> catalog" where
  "catalog_of db = \<lparr>ct_frames = map rw_frame (sd_frames db), ct_sessions = sd_sessions db, ct_links = sd_links db,
     ct_targets = sd_targets db\<rparr>"

text \<open>The rebuild of the sessions; a deleted session takes its rows of the match table with it.\<close>

definition recluster :: "scan_db \<Rightarrow> scan_error + scan_db" where
  "recluster db =
     (case cluster_sessions DEFAULT_GAP_MINUTES (catalog_of db) of
        Inl e \<Rightarrow> Inl (Cluster_Failed e)
      | Inr ct \<Rightarrow> Inr (db\<lparr>sd_sessions := ct_sessions ct, sd_links := ct_links ct, sd_targets := ct_targets ct,
          sd_matches := filter (\<lambda>((sid, kind), m). sid \<in> se_id ` set (ct_sessions ct)) (sd_matches db)\<rparr>))"

section \<open>One frame\<close>

definition coerce_float :: "py_values \<Rightarrow> json option \<Rightarrow> rat option" where
  "coerce_float pv v = Option.bind v (pv_float pv)"

definition coerce_int :: "py_values \<Rightarrow> json option \<Rightarrow> int option" where
  "coerce_int pv v = Option.bind v (pv_int pv)"

text \<open>\<open>header.get(a) or header.get(b) or ...\<close>\<close>

fun first_truthy :: "fits_header \<Rightarrow> string list \<Rightarrow> json option" where
  "first_truthy header [] = None"
| "first_truthy header [k] = map_of header k"
| "first_truthy header (k # l # ks) =
     (case map_of header k of
        Some v \<Rightarrow> if truthy v then Some v else first_truthy header (l # ks)
      | None \<Rightarrow> first_truthy header (l # ks))"

definition text_column :: "py_values \<Rightarrow> json option \<Rightarrow> string option" where
  "text_column pv v = map_option (\<lambda>v. case v of JStr s \<Rightarrow> s | _ \<Rightarrow> pv_column pv v) v"

definition object_name :: "fits_header \<Rightarrow> scan_error + string option" where
  "object_name header =
     (case map_of header ''OBJECT'' of
        None \<Rightarrow> Inr None
      | Some v \<Rightarrow> if \<not> truthy v then Inr None
          else (case v of JStr s \<Rightarrow> Inr (Some (normalize_target s)) | _ \<Rightarrow> Inl (Not_Text ''OBJECT'')))"

definition filter_name :: "fits_header \<Rightarrow> scan_error + string option" where
  "filter_name header =
     (case map_of header ''FILTER'' of
        None \<Rightarrow> Inr None
      | Some (JStr s) \<Rightarrow> Inr (canonicalize (Some s))
      | Some _ \<Rightarrow> Inl (Not_Text ''FILTER''))"

definition image_text :: "image_type \<Rightarrow> string" where
  "image_text t = (case t of LIGHT \<Rightarrow> ''LIGHT'' | DARK \<Rightarrow> ''DARK'' | FLAT \<Rightarrow> ''FLAT'' | BIAS \<Rightarrow> ''BIAS'')"

definition frame_row_of ::
  "py_values \<Rightarrow> rat \<Rightarrow> int \<Rightarrow> string \<Rightarrow> file_info \<Rightarrow> int \<times> rat \<times> int \<Rightarrow> fits_header \<Rightarrow> classified \<Rightarrow> scan_error + frame_row" where
  "frame_row_of pv started i path f st header c =
     rbind (object_name header) (\<lambda>object. rbind (filter_name header) (\<lambda>filt.
     Inr \<lparr>rw_frame =
            \<lparr>fr_id = i, fr_image_type = Some (image_text (cf_image_type c)),
             fr_quality = Some (if cf_failed c then ''failed'' else ''ok''), fr_object = object,
             fr_instrument = text_column pv (map_of header ''INSTRUME''),
             fr_camera = text_column pv (map_of header ''CAMERA''), fr_filter = filt,
             fr_exptime = coerce_float pv (first_truthy header [''EXPTIME'', ''EXPOSURE'']),
             fr_gain = coerce_int pv (map_of header ''GAIN''), fr_binning = coerce_int pv (map_of header ''XBINNING''),
             fr_ccd_temp = coerce_float pv (first_truthy header [''DET-TEMP'', ''CCD-TEMP'', ''SET-TEMP'']),
             fr_date_obs = text_column pv (map_of header ''DATE-OBS''), fr_scope_id = Some (cf_scope_id c), fr_path = path\<rparr>,
          rw_hash = Some (fi_hash f), rw_inode = Some (snd (snd st)), rw_mtime = Some (fst (snd st)), rw_size = Some (fst st),
          rw_ra = coerce_float pv (map_of header ''RA''), rw_dec = coerce_float pv (map_of header ''DEC''),
          rw_headers = Some header, rw_scanned_at = Some started\<rparr>))"

text \<open>INSERT ... ON CONFLICT(path) DO UPDATE: the id and the place of an existing row stay.\<close>

definition upsert_frame :: "frame_row \<Rightarrow> scan_db \<Rightarrow> scan_db" where
  "upsert_frame row db =
     (case existing_row db (row_path row) of
        None \<Rightarrow> db\<lparr>sd_frames := sd_frames db @ [row]\<rparr>
      | Some _ \<Rightarrow> db\<lparr>sd_frames := map (\<lambda>r. if row_path r = row_path row then row else r) (sd_frames db)\<rparr>)"

definition frame_id_for :: "scan_db \<Rightarrow> string \<Rightarrow> int" where
  "frame_id_for db path = (case existing_row db path of Some r \<Rightarrow> row_id r | None \<Rightarrow> next_rowid (map row_id (sd_frames db)))"

definition count_scope :: "string \<Rightarrow> (string, nat) dict \<Rightarrow> (string, nat) dict" where
  "count_scope s d = dput s ((case map_of d s of None \<Rightarrow> 0 | Some n \<Rightarrow> n) + 1) d"

definition ingest_frame ::
  "py_values \<Rightarrow> rat \<Rightarrow> string \<Rightarrow> file_info \<Rightarrow> int \<times> rat \<times> int \<Rightarrow> fits_header \<Rightarrow> classified \<Rightarrow> scan_db \<times> scan_stats
   \<Rightarrow> scan_error + scan_db \<times> scan_stats" where
  "ingest_frame pv started path f st header c = (\<lambda>(db, stats).
     rbind (frame_row_of pv started (frame_id_for db path) path f st header c) (\<lambda>row.
       let stats1 = (if existing_row db path = None then stats\<lparr>ss_inserted := ss_inserted stats + 1\<rparr>
                     else stats\<lparr>ss_updated := ss_updated stats + 1\<rparr>)
       in Inr (upsert_frame row db,
               stats1\<lparr>ss_scope_breakdown := count_scope (cf_scope_id c) (ss_scope_breakdown stats1)\<rparr>)))"


section \<open>The scan of the frames\<close>

text \<open>What to do with a file, from the disk and the row it had: the branches of the loop's body.\<close>

datatype verdict = Vanished | Unchanged | Unreadable_Header | Unknown | Ingest "int \<times> rat \<times> int" fits_header classified

definition unchanged :: "frame_row option \<Rightarrow> int \<times> rat \<times> int \<Rightarrow> bool" where
  "unchanged existing st =
     (case existing of
        None \<Rightarrow> False
      | Some r \<Rightarrow> rw_size r = Some (fst st) \<and> rw_mtime r = Some (fst (snd st)) \<and> rw_hash r \<noteq> None)"

definition judge :: "py_values \<Rightarrow> frame_row option \<Rightarrow> string \<Rightarrow> file_info \<Rightarrow> scan_error + verdict" where
  "judge pv existing path f =
     (case fi_stat f of
        None \<Rightarrow> Inr Vanished
      | Some st \<Rightarrow>
          if unchanged existing st then Inr Unchanged
          else (case fi_header f of
              None \<Rightarrow> Inr Unreadable_Header
            | Some raw \<Rightarrow>
                let header = read_primary_header raw
                in (case classify pv header path of
                      None \<Rightarrow> Inr Unknown
                    | Some c \<Rightarrow>
                        rbind (if cf_scope_id c = ''dwarf3'' \<and> cf_image_type c = DARK then enrich_dark_header header path
                               else Inr header) (\<lambda>header. Inr (Ingest st header c)))))"

text \<open>The local variables of \<open>scan\<close>.\<close>

record scan_state =
  sc_db :: scan_db
  sc_stats :: scan_stats
  sc_since_cluster :: nat
  sc_skipped :: "string list"

definition touch_frames :: "rat \<Rightarrow> string list \<Rightarrow> scan_db \<Rightarrow> scan_db" where
  "touch_frames started paths db =
     db\<lparr>sd_frames := map (\<lambda>r. if row_path r \<in> set paths then r\<lparr>rw_scanned_at := Some started\<rparr> else r) (sd_frames db)\<rparr>"

definition flush_skipped :: "rat \<Rightarrow> scan_state \<Rightarrow> scan_state" where
  "flush_skipped started s = s\<lparr>sc_db := touch_frames started (sc_skipped s) (sc_db s), sc_skipped := []\<rparr>"

definition INCREMENTAL_CLUSTER_EVERY :: nat where
  "INCREMENTAL_CLUSTER_EVERY = 50"

text \<open>An error leaves the database as the last transaction committed it.\<close>

type_synonym 'a committed = "(scan_error \<times> scan_db) + 'a"

definition or_stop :: "scan_db \<Rightarrow> scan_error + 'a \<Rightarrow> 'a committed" where
  "or_stop db r = (case r of Inl e \<Rightarrow> Inl (e, db) | Inr a \<Rightarrow> Inr a)"

definition tally :: "(scan_stats \<Rightarrow> scan_stats) \<Rightarrow> scan_state \<Rightarrow> scan_state" where
  "tally f s = s\<lparr>sc_stats := f (sc_stats s)\<rparr>"

definition scan_ingest ::
  "py_values \<Rightarrow> rat \<Rightarrow> string \<Rightarrow> file_info \<Rightarrow> int \<times> rat \<times> int \<Rightarrow> fits_header \<Rightarrow> classified \<Rightarrow> scan_state
   \<Rightarrow> scan_state committed" where
  "scan_ingest pv started path f st header c s =
     rbind (or_stop (sc_db s) (ingest_frame pv started path f st header c (sc_db s, sc_stats s))) (\<lambda>(db, stats).
       let s1 = s\<lparr>sc_db := db, sc_stats := stats, sc_since_cluster := sc_since_cluster s + 1\<rparr>
       in if INCREMENTAL_CLUSTER_EVERY \<le> sc_since_cluster s1 then
            rbind (or_stop db (recluster db)) (\<lambda>db'. Inr (s1\<lparr>sc_db := db', sc_since_cluster := 0\<rparr>))
          else Inr s1)"

definition scan_file :: "py_values \<Rightarrow> rat \<Rightarrow> string \<times> file_info \<Rightarrow> scan_state \<Rightarrow> scan_state committed" where
  "scan_file pv started = (\<lambda>(path, f) s0.
     let s = tally (\<lambda>x. x\<lparr>ss_discovered := ss_discovered x + 1\<rparr>) s0
     in rbind (or_stop (sc_db s) (judge pv (existing_row (sc_db s) path) path f)) (\<lambda>v.
        case v of
          Vanished \<Rightarrow> Inr s
        | Unchanged \<Rightarrow>
            let s1 = s\<lparr>sc_skipped := sc_skipped s @ [path]\<rparr>;
                s2 = (if 1000 \<le> length (sc_skipped s1) then flush_skipped started s1 else s1)
            in Inr (tally (\<lambda>x. x\<lparr>ss_skipped_unchanged := ss_skipped_unchanged x + 1\<rparr>) s2)
        | Unreadable_Header \<Rightarrow> Inr (tally (\<lambda>x. x\<lparr>ss_failed := ss_failed x + 1\<rparr>) s)
        | Unknown \<Rightarrow> Inr (tally (\<lambda>x. x\<lparr>ss_skipped_unknown := ss_skipped_unknown x + 1\<rparr>) s)
        | Ingest st header c \<Rightarrow> scan_ingest pv started path f st header c s))"

section \<open>Factory masters\<close>

text \<open>The entries of a directory in name order, each turned into masters; one that cannot be listed raises.\<close>

definition in_order ::
  "string \<Rightarrow> fs_node \<Rightarrow> (string \<times> fs_node \<Rightarrow> (scan_error + 'a) list) \<Rightarrow> (scan_error + 'a) list" where
  "in_order d x f =
     (case x of
        Directory (Some es) \<Rightarrow> concat (map f (sort_key fst es))
      | _ \<Rightarrow> [Inl (Not_A_Directory d)])"

definition is_dir_node :: "fs_node \<Rightarrow> bool" where
  "is_dir_node x = (case x of Directory _ \<Rightarrow> True | _ \<Rightarrow> False)"

definition master_file :: "string \<Rightarrow> string \<Rightarrow> string option \<Rightarrow> string \<times> fs_node \<Rightarrow> (scan_error + discovered \<times> file_info) list" where
  "master_file d kind camera = (\<lambda>(n, x).
     case follow x of
       Some (Regular f) \<Rightarrow>
         (if lower (suffix_of n) \<in> {''.fits'', ''.png''} then
            (case parse_master (path_join d n) kind camera of
               Inl e \<Rightarrow> [Inl e]
             | Inr None \<Rightarrow> []
             | Inr (Some m) \<Rightarrow> [Inr (m, f)])
          else [])
     | _ \<Rightarrow> [])"

definition walk_factory_masters :: "string \<Rightarrow> fs_node option \<Rightarrow> (scan_error + discovered \<times> file_info) list" where
  "walk_factory_masters base node =
     (case Option.bind node follow of
        Some (Directory (Some es)) \<Rightarrow>
          (case Option.bind (map_of es ''CALI_FRAME'') follow of
             None \<Rightarrow> []
           | Some cali \<Rightarrow>
               let cali_root = path_join base ''CALI_FRAME''
               in in_order cali_root cali (\<lambda>(kind, x).
                    case follow x of
                      Some k \<Rightarrow>
                        (if is_dir_node k \<and> kind \<in> {''dark'', ''flat'', ''bias''} then
                           let kind_dir = path_join cali_root kind
                           in in_order kind_dir k (\<lambda>(cam, y).
                                case follow y of
                                  Some c \<Rightarrow>
                                    (if is_dir_node c \<and> starts_with ''cam_'' cam then
                                       let cam_dir = path_join kind_dir cam
                                       in in_order cam_dir c (master_file cam_dir kind (map_of CAM_FROM_DIR cam))
                                     else [])
                                | None \<Rightarrow> [])
                         else [])
                    | None \<Rightarrow> []))
      | _ \<Rightarrow> [])"

definition master_unchanged :: "master_row option \<Rightarrow> int \<times> rat \<times> int \<Rightarrow> bool" where
  "master_unchanged existing st =
     (case existing of
        None \<Rightarrow> False
      | Some r \<Rightarrow> mr_size r = Some (fst st) \<and> mr_mtime r = Some (fst (snd st)) \<and> mr_hash r \<noteq> None)"

definition master_row_of ::
  "rat \<Rightarrow> int \<Rightarrow> discovered \<Rightarrow> string \<Rightarrow> file_info \<Rightarrow> int \<times> rat \<times> int \<Rightarrow> master_row" where
  "master_row_of started i m scope_id f st =
     \<lparr>mr_master =
        \<lparr>ma_id = i, ma_kind = dm_kind m, ma_instrument = dm_instrument m, ma_camera = dm_camera m,
         ma_filter = canonicalize (dm_filter m), ma_exptime = dm_exptime m, ma_gain = dm_gain m, ma_binning = dm_binning m,
         ma_ccd_temp = dm_ccd_temp m, ma_stack_count = dm_stack_count m, ma_path = dm_path m, ma_date_built = None\<rparr>,
      mr_scope_id = Some scope_id, mr_source = Some (dm_source m), mr_hash = Some (fi_hash f), mr_inode = Some (snd (snd st)),
      mr_mtime = Some (fst (snd st)), mr_size = Some (fst st), mr_cache_ref = Some (dm_path m), mr_scanned_at = Some started\<rparr>"

definition set_master :: "master_row \<Rightarrow> scan_db \<Rightarrow> scan_db" where
  "set_master row db =
     db\<lparr>sd_masters := map (\<lambda>r. if ma_path (mr_master r) = ma_path (mr_master row) then row else r) (sd_masters db)\<rparr>"

definition ingest_master ::
  "rat \<Rightarrow> string \<Rightarrow> discovered \<times> file_info \<Rightarrow> scan_db \<times> scan_stats \<Rightarrow> scan_db \<times> scan_stats" where
  "ingest_master started scope_id = (\<lambda>(m, f) (db, stats).
     case fi_stat f of
       None \<Rightarrow> (db, stats)
     | Some st \<Rightarrow>
         let existing = existing_master db (dm_path m)
         in (case existing of
               None \<Rightarrow>
                 (db\<lparr>sd_masters := sd_masters db
                      @ [master_row_of started (next_rowid (map (ma_id \<circ> mr_master) (sd_masters db))) m scope_id f st]\<rparr>,
                  stats\<lparr>ss_masters_inserted := ss_masters_inserted stats + 1\<rparr>)
             | Some r \<Rightarrow>
                 if master_unchanged existing st then
                   (set_master (r\<lparr>mr_scanned_at := Some started\<rparr>) db, stats\<lparr>ss_masters_skipped := ss_masters_skipped stats + 1\<rparr>)
                 else
                   (set_master (master_row_of started (ma_id (mr_master r)) m scope_id f st) db,
                    stats\<lparr>ss_masters_updated := ss_masters_updated stats + 1\<rparr>)))"

definition scan_master :: "rat \<Rightarrow> scan_error + discovered \<times> file_info \<Rightarrow> scan_state \<Rightarrow> scan_state committed" where
  "scan_master started item s =
     rbind (or_stop (sc_db s) item) (\<lambda>mf.
       let (db, stats) = ingest_master started ''dwarf3'' mf (sc_db s, sc_stats s)
       in Inr (s\<lparr>sc_db := db, sc_stats := stats\<rparr>))"

section \<open>Rows without a file\<close>

definition stale :: "string \<Rightarrow> rat \<Rightarrow> string \<Rightarrow> rat option \<Rightarrow> bool" where
  "stale prefix started path scanned_at =
     (starts_with prefix path \<and> (case scanned_at of None \<Rightarrow> True | Some t \<Rightarrow> t < started))"

text \<open>Links of a deleted frame go with it; matches that name a deleted master keep their row without it.\<close>

definition delete_frames :: "(frame_row \<Rightarrow> bool) \<Rightarrow> scan_db \<Rightarrow> scan_db" where
  "delete_frames P db =
     (let gone = map row_id (filter P (sd_frames db))
      in db\<lparr>sd_frames := filter (\<lambda>r. \<not> P r) (sd_frames db),
            sd_links := filter (\<lambda>(sid, fid). fid \<notin> set gone) (sd_links db)\<rparr>)"

definition delete_masters :: "(master_row \<Rightarrow> bool) \<Rightarrow> scan_db \<Rightarrow> scan_db" where
  "delete_masters P db =
     (let gone = map (ma_id \<circ> mr_master) (filter P (sd_masters db))
      in db\<lparr>sd_masters := filter (\<lambda>r. \<not> P r) (sd_masters db),
            sd_matches := map (\<lambda>(k, m). (k, case cm_master_id m of
                Some i \<Rightarrow> if i \<in> set gone then m\<lparr>cm_master_id := None\<rparr> else m
              | None \<Rightarrow> m)) (sd_matches db)\<rparr>)"

definition remove_orphans :: "string \<Rightarrow> rat \<Rightarrow> scan_db \<times> scan_stats \<Rightarrow> scan_db \<times> scan_stats" where
  "remove_orphans prefix started = (\<lambda>(db, stats).
     let old_frame = (\<lambda>r. stale prefix started (row_path r) (rw_scanned_at r));
         old_master = (\<lambda>r. stale prefix started (ma_path (mr_master r)) (mr_scanned_at r))
     in (delete_masters old_master (delete_frames old_frame db),
         stats\<lparr>ss_removed := length (filter old_frame (sd_frames db)),
               ss_masters_removed := length (filter old_master (sd_masters db))\<rparr>))"

section \<open>The scan\<close>

record scan_env =
  sn_values :: py_values
  sn_resolve :: "string \<Rightarrow> string"
  sn_texts :: texts
  sn_profiles :: profiles
  sn_match_time :: rat

definition scan :: "scan_env \<Rightarrow> rat \<Rightarrow> string \<Rightarrow> fs_node option \<Rightarrow> scan_db \<Rightarrow> (scan_db \<times> scan_stats) committed" where
  "scan env started base node db =
     rbind (or_stop db (walk_root base node)) (\<lambda>files.
     rbind (fold_res (scan_file (sn_values env) started) files
         \<lparr>sc_db = db, sc_stats = no_stats, sc_since_cluster = 0, sc_skipped = []\<rparr>) (\<lambda>s.
     rbind (fold_res (scan_master started) (walk_factory_masters base node) (flush_skipped started s)) (\<lambda>s.
     let (db1, stats) = remove_orphans (sn_resolve env base @ ''/'') started (sc_db s, sc_stats s)
     in rbind (or_stop (sc_db s) (recluster db1)) (\<lambda>db2.
        rbind (or_stop db2 (case match_all_sessions (sn_texts env) (sn_profiles env) (sn_match_time env) (catalog_of db2)
              (map mr_master (sd_masters db2)) (sd_matches db2) of
            Inl e \<Rightarrow> Inl (Match_Failed e) | Inr (table, n) \<Rightarrow> Inr (db2\<lparr>sd_matches := table\<rparr>))) (\<lambda>db3.
        Inr (db3, stats))))))"


section \<open>The walk finds every file once\<close>

text \<open>Reference: the recursive enumeration.\<close>

lemma entry_size [termination_simp]: "(n, x) \<in> set es \<Longrightarrow> size x < size (Directory (Some es))"
  by (induction es) auto

lemma entry_size' [termination_simp]:
  "(n, x) \<in> set es \<Longrightarrow> size x < Suc (size_option (size_list (size_prod (size_list size_char) size)) (Some es))"
  by (induction es) auto

fun all_fits :: "string \<Rightarrow> fs_node \<Rightarrow> (string \<times> file_info) list" where
  "all_fits d (Directory (Some es)) = fits_files d es @ concat (map (\<lambda>(n, x). all_fits (path_join d n) x) es)"
| "all_fits d (Directory None) = []"
| "all_fits d (Regular f) = []"
| "all_fits d (Sym_Link x) = []"

lemma all_fits_sub_dirs:
  "concat (map (\<lambda>(d, x). all_fits d x) (sub_dirs d es)) = concat (map (\<lambda>(n, x). all_fits (path_join d n) x) es)"
  by (induction es) (auto simp: sub_dirs_def List.map_filter_simps split: fs_node.splits)

lemma mset_concat_rev: "mset (concat (map f (rev xs))) = mset (concat (map f xs))"
  by (induction xs) simp_all

lemma mset_walk_fits: "mset (walk_fits stack) = mset (concat (map (\<lambda>(d, x). all_fits d x) stack))"
proof (induction stack rule: walk_fits.induct)
  case (2 d es stack)
  then show ?case by (simp add: mset_concat_rev all_fits_sub_dirs)
qed simp_all

text \<open>
  The walk over a capture root. The loop with its stack lists exactly the FITS files a recursive enumeration
  of the tree lists, each as often; directories that cannot be read and links are passed over.
\<close>

theorem walk_lists_every_file: "mset (walk_fits [(d, x)]) = mset (all_fits d x)"
  by (simp add: mset_walk_fits)

fun wf_tree :: "fs_node \<Rightarrow> bool" where
  "wf_tree (Directory (Some es)) =
     (distinct (map fst es) \<and> (\<forall>(n, x) \<in> set es. n \<noteq> '''' \<and> CHR ''/'' \<notin> set n \<and> wf_tree x))"
| "wf_tree (Directory None) = True"
| "wf_tree (Regular f) = True"
| "wf_tree (Sym_Link None) = True"
| "wf_tree (Sym_Link (Some x)) = wf_tree x"

lemma wf_follow: "wf_tree x \<Longrightarrow> follow x = Some y \<Longrightarrow> wf_tree y"
  by (induction x rule: follow.induct) auto

lemma ends_slash: "ends_with ''/'' s \<longleftrightarrow> s \<noteq> '''' \<and> last s = CHR ''/''"
  by (cases s rule: rev_cases) (auto simp: ends_with_def starts_with_def)

lemma path_join_eq: "\<not> ends_with ''/'' d \<Longrightarrow> path_join d n = d @ ''/'' @ n"
  by (simp add: path_join_def)

lemma path_join_end: "n \<noteq> '''' \<Longrightarrow> CHR ''/'' \<notin> set n \<Longrightarrow> \<not> ends_with ''/'' (path_join d n)"
  by (cases n rule: rev_cases) (auto simp: ends_slash path_join_def)

lemma set_map_filter: "y \<in> set (List.map_filter f xs) \<longleftrightarrow> (\<exists>x \<in> set xs. f x = Some y)"
  by (force simp: List.map_filter_def)

lemma fits_files_path: "(p, f) \<in> set (fits_files d es) \<Longrightarrow> \<exists>n. (n, Regular f) \<in> set es \<and> p = path_join d n"
  by (auto simp: fits_files_def set_map_filter split: fs_node.splits if_splits)

text \<open>Below a directory, every path goes through one of its entries.\<close>

lemma all_fits_path:
  assumes "wf_tree x" "\<not> ends_with ''/'' d" "(p, f) \<in> set (all_fits d x)"
  shows "starts_with (d @ ''/'') p"
  using assms
proof (induction d x arbitrary: p f rule: all_fits.induct)
  case (1 d es)
  consider "(p, f) \<in> set (fits_files d es)"
    | n x where "(n, x) \<in> set es" "(p, f) \<in> set (all_fits (path_join d n) x)"
    using "1.prems"(3) by auto
  then show ?case
  proof cases
    case 1
    then show ?thesis using fits_files_path [OF 1] path_join_eq [OF "1.prems"(2)] by (auto simp: starts_with_def)
  next
    case (2 n x)
    have n: "n \<noteq> ''''" "CHR ''/'' \<notin> set n" "wf_tree x" using "1.prems"(1) 2(1) by auto
    have "starts_with (path_join d n @ ''/'') p"
      using "1.IH" [OF 2(1) refl n(3) path_join_end [OF n(1,2)] 2(2)] .
    then obtain r where "p = (d @ ''/'' @ n) @ ''/'' @ r"
      unfolding path_join_eq [OF "1.prems"(2)] by (elim starts_withE) simp
    then show ?thesis by (simp add: starts_with_def)
  qed
qed simp_all

lemma map_filter_Cons: "List.map_filter f (x # xs) = (case f x of None \<Rightarrow> [] | Some y \<Rightarrow> [y]) @ List.map_filter f xs"
  by (simp add: List.map_filter_simps split: option.split)

lemma distinct_fits_files:
  assumes "\<not> ends_with ''/'' d" "distinct (map fst es)"
  shows "distinct (map fst (fits_files d es))"
  using assms(2)
proof (induction es)
  case Nil
  show ?case by (simp add: fits_files_def List.map_filter_simps)
next
  case (Cons e es)
  obtain n x where e: "e = (n, x)" by (cases e)
  have "path_join d n \<notin> fst ` set (fits_files d es)"
  proof
    assume "path_join d n \<in> fst ` set (fits_files d es)"
    then obtain f where "(path_join d n, f) \<in> set (fits_files d es)" by auto
    from fits_files_path [OF this] have "n \<in> fst ` set es" by (force simp: path_join_eq [OF assms(1)])
    then show False using Cons.prems by (simp add: e)
  qed
  then show ?case using Cons by (auto simp: fits_files_def map_filter_Cons e split: fs_node.splits)
qed

lemma all_fits_head:
  assumes "wf_tree x" "\<not> ends_with ''/'' d" "n \<noteq> ''''" "CHR ''/'' \<notin> set n" "p \<in> fst ` set (all_fits (path_join d n) x)"
  obtains r where "p = d @ ''/'' @ n @ ''/'' @ r"
proof -
  from assms(5) obtain f where f: "(p, f) \<in> set (all_fits (path_join d n) x)" by auto
  from all_fits_path [OF assms(1) path_join_end [OF assms(3,4)] f] obtain r where "p = (path_join d n @ ''/'') @ r"
    by (rule starts_withE)
  then show thesis using that by (simp add: path_join_eq [OF assms(2)])
qed

lemma slash_names: "CHR ''/'' \<notin> set a \<Longrightarrow> CHR ''/'' \<notin> set b \<Longrightarrow> a @ ''/'' @ r = b @ ''/'' @ s \<Longrightarrow> a = b"
  using split_at_sep [of "CHR ''/''" a b r s] by simp

lemma distinct_all_fits:
  assumes "wf_tree x" "\<not> ends_with ''/'' d"
  shows "distinct (map fst (all_fits d x))"
  using assms
proof (induction d x rule: all_fits.induct)
  case (1 d es)
  note d = "1.prems"(2)
  have clean: "n \<noteq> ''''" "CHR ''/'' \<notin> set n" "wf_tree x" if "(n, x) \<in> set es" for n x
    using "1.prems"(1) that by auto
  have head: "\<exists>r. p = d @ ''/'' @ n @ ''/'' @ r" if "(n, x) \<in> set es" "p \<in> fst ` set (all_fits (path_join d n) x)" for n x p
    using all_fits_head [OF clean(3) [OF that(1)] d clean(1,2) [OF that(1)] that(2)] by blast
  have subs: "distinct (map fst (concat (map (\<lambda>(n, x). all_fits (path_join d n) x) es')))" if "set es' \<subseteq> set es" "distinct (map fst es')" for es'
    using that
  proof (induction es')
    case (Cons e es')
    obtain n x where e: "e = (n, x)" by (cases e)
    have nx: "(n, x) \<in> set es" using Cons.prems(1) by (simp add: e)
    have here: "distinct (map fst (all_fits (path_join d n) x))"
      by (rule "1.IH" [OF nx refl clean(3) [OF nx] path_join_end [OF clean(1,2) [OF nx]]])
    have "p \<notin> fst ` set (all_fits (path_join d m) y)" if p: "p \<in> fst ` set (all_fits (path_join d n) x)" and m: "(m, y) \<in> set es'" for p m y
    proof
      assume q: "p \<in> fst ` set (all_fits (path_join d m) y)"
      have my: "(m, y) \<in> set es" using m Cons.prems(1) by auto
      obtain r s where "d @ ''/'' @ n @ ''/'' @ r = d @ ''/'' @ m @ ''/'' @ s" using head [OF nx p] head [OF my q] by auto
      then have "n = m" using slash_names [OF clean(2) [OF nx] clean(2) [OF my]] by simp
      then show False using Cons.prems(2) m by (force simp: e)
    qed
    then have "fst ` set (all_fits (path_join d n) x) \<inter> fst ` set (concat (map (\<lambda>(n, x). all_fits (path_join d n) x) es')) = {}"
      by (fastforce simp: image_iff)
    then show ?case using Cons here by (simp add: e image_Un)
  qed simp
  have "p \<notin> fst ` set (all_fits (path_join d m) y)" if p: "p \<in> fst ` set (fits_files d es)" and m: "(m, y) \<in> set es" for p m y
  proof
    assume q: "p \<in> fst ` set (all_fits (path_join d m) y)"
    obtain n f where n: "(n, Regular f) \<in> set es" "p = d @ ''/'' @ n"
    proof -
      from p obtain f where "(p, f) \<in> set (fits_files d es)" by auto
      from fits_files_path [OF this] show thesis using that by (auto simp: path_join_eq [OF d])
    qed
    obtain r where "p = d @ ''/'' @ m @ ''/'' @ r" using head [OF m q] by blast
    then have "CHR ''/'' \<in> set n" using n(2) by simp
    then show False using clean(2) [OF n(1)] by blast
  qed
  then have "fst ` set (fits_files d es) \<inter> fst ` set (concat (map (\<lambda>(n, x). all_fits (path_join d n) x) es)) = {}"
    by (fastforce simp: image_iff)
  then show ?case using subs [of es] distinct_fits_files [OF d] "1.prems"(1) by simp
qed simp_all

text \<open>The files a scan sees.\<close>

lemma walk_root_files:
  assumes "walk_root base node = Inr files" "\<forall>x. node = Some x \<longrightarrow> wf_tree x" "\<not> ends_with ''/'' base"
  shows "distinct (map fst files)" "\<And>q. q \<in> fst ` set files \<Longrightarrow> starts_with (base @ ''/'') q"
proof -
  have "files = [] \<or> (\<exists>x. wf_tree x \<and> files = walk_fits [(base, x)])"
    using assms(1,2) wf_follow by (fastforce simp: walk_root_def split: option.splits fs_node.splits bind_splits)
  then have *: "distinct (map fst files) \<and> (\<forall>q \<in> fst ` set files. starts_with (base @ ''/'') q)"
  proof (elim disjE exE conjE)
    fix x assume x: "wf_tree x" "files = walk_fits [(base, x)]"
    have m: "mset files = mset (all_fits base x)" by (simp add: x(2) mset_walk_fits)
    then have "mset (map fst files) = mset (map fst (all_fits base x))" by simp
    then have "distinct (map fst files)" using distinct_all_fits [OF x(1) assms(3)] by (metis mset_eq_imp_distinct_iff)
    moreover have "set files = set (all_fits base x)" using m by (rule mset_eq_setD)
    ultimately show ?thesis using all_fits_path [OF x(1) assms(3)] by force
  qed simp
  then show "distinct (map fst files)" "\<And>q. q \<in> fst ` set files \<Longrightarrow> starts_with (base @ ''/'') q" by blast+
qed

section \<open>Rows by path\<close>

definition stamp :: "rat \<Rightarrow> frame_row \<Rightarrow> frame_row" where
  "stamp started r = r\<lparr>rw_scanned_at := Some started\<rparr>"

lemma stamp_fields [simp]:
  "row_path (stamp t r) = row_path r" "row_id (stamp t r) = row_id r" "rw_frame (stamp t r) = rw_frame r"
  "rw_scanned_at (stamp t r) = Some t" "rw_size (stamp t r) = rw_size r" "rw_mtime (stamp t r) = rw_mtime r"
  "rw_hash (stamp t r) = rw_hash r" "stamp t (stamp u r) = stamp t r"
  by (simp_all add: stamp_def row_path_def row_id_def)

lemma find_append: "find P (xs @ ys) = (case find P xs of None \<Rightarrow> find P ys | Some x \<Rightarrow> Some x)"
  by (induction xs) simp_all

lemma find_map_path:
  assumes "\<And>r. row_path (f r) = row_path r"
  shows "find (\<lambda>r. row_path r = q) (map f rs) = map_option f (find (\<lambda>r. row_path r = q) rs)"
  by (induction rs) (simp_all add: assms)

lemma find_filter_path:
  assumes "distinct (map row_path rs)"
  shows "find (\<lambda>r. row_path r = q) (filter P rs) = Option.bind (find (\<lambda>r. row_path r = q) rs) (\<lambda>r. if P r then Some r else None)"
  using assms
proof (induction rs)
  case (Cons r rs)
  show ?case
  proof (cases "row_path r = q \<and> \<not> P r")
    case True
    then have "q \<notin> row_path ` set rs" using Cons.prems by auto
    then have "find (\<lambda>r. row_path r = q) rs = None" unfolding find_None_iff by (metis image_eqI)
    then show ?thesis using Cons True by simp
  qed (use Cons in auto)
qed simp

lemma existing_path: "existing_row db q = Some r \<Longrightarrow> row_path r = q"
  by (auto simp: existing_row_def find_Some_iff)

lemma existing_in: "distinct (map row_path (sd_frames db)) \<Longrightarrow> r \<in> set (sd_frames db) \<Longrightarrow> existing_row db (row_path r) = Some r"
proof -
  assume d: "distinct (map row_path (sd_frames db))" and r: "r \<in> set (sd_frames db)"
  have "find (\<lambda>x. row_path x = row_path r) (sd_frames db) \<noteq> None" using r by (auto simp: find_None_iff)
  then obtain x where x: "find (\<lambda>x. row_path x = row_path r) (sd_frames db) = Some x" by blast
  then have "x \<in> set (sd_frames db)" "row_path x = row_path r" by (auto simp: find_Some_iff)
  then have "x = r" using d r by (auto simp: distinct_map inj_on_def)
  then show ?thesis using x by (simp add: existing_row_def)
qed

lemma existing_None: "existing_row db q = None \<longleftrightarrow> q \<notin> row_path ` set (sd_frames db)"
  by (auto simp: existing_row_def find_None_iff)

lemma existing_upsert:
  "existing_row (upsert_frame row db) q = (if q = row_path row then Some row else existing_row db q)"
proof (cases "existing_row db (row_path row)")
  case None
  then show ?thesis
    by (auto simp: upsert_frame_def existing_row_def find_append split: option.split)
next
  case (Some r)
  let ?g = "\<lambda>x. if row_path x = row_path row then row else x"
  have "row_path (?g x) = row_path x" for x by simp
  from find_map_path [of ?g, OF this]
  moreover have "sd_frames (upsert_frame row db) = map ?g (sd_frames db)" by (simp add: upsert_frame_def Some)
  ultimately have e: "existing_row (upsert_frame row db) q = map_option ?g (existing_row db q)"
    by (simp only: existing_row_def)
  show ?thesis
  proof (cases "q = row_path row")
    case True
    then show ?thesis using Some existing_path [OF Some] by (simp add: e [unfolded True])
  next
    case False
    then show ?thesis using existing_path [of db q] by (cases "existing_row db q") (simp_all add: e)
  qed
qed

lemma existing_touch:
  "existing_row (touch_frames t ps db) q = map_option (\<lambda>r. if q \<in> set ps then stamp t r else r) (existing_row db q)"
proof -
  have f: "row_path (if row_path r \<in> set ps then stamp t r else r) = row_path r" for r by simp
  have "touch_frames t ps db = db\<lparr>sd_frames := map (\<lambda>r. if row_path r \<in> set ps then stamp t r else r) (sd_frames db)\<rparr>"
    by (simp add: touch_frames_def stamp_def)
  then have "existing_row (touch_frames t ps db) q = map_option (\<lambda>r. if row_path r \<in> set ps then stamp t r else r) (existing_row db q)"
    using find_map_path [of "\<lambda>r. if row_path r \<in> set ps then stamp t r else r" q "sd_frames db", OF f]
    by (simp add: existing_row_def)
  also have "\<dots> = map_option (\<lambda>r. if q \<in> set ps then stamp t r else r) (existing_row db q)"
    by (cases "existing_row db q") (simp_all add: existing_path)
  finally show ?thesis .
qed

lemma touch_Nil [simp]: "touch_frames t [] db = db"
  by (simp add: touch_frames_def)

lemma existing_delete:
  "distinct (map row_path (sd_frames db)) \<Longrightarrow>
   existing_row (delete_frames P db) q = Option.bind (existing_row db q) (\<lambda>r. if P r then None else Some r)"
  by (cases "find (\<lambda>r. row_path r = q) (sd_frames db)") (simp_all add: existing_row_def delete_frames_def Let_def find_filter_path)

lemma existing_cong: "sd_frames db = sd_frames db' \<Longrightarrow> existing_row db = existing_row db'"
  by (simp add: existing_row_def fun_eq_iff)

lemma recluster_Inr:
  assumes "recluster db = Inr db'"
  shows "sd_frames db' = sd_frames db" "sd_masters db' = sd_masters db" "cluster_sessions DEFAULT_GAP_MINUTES (catalog_of db) = Inr (catalog_of db')"
proof -
  obtain ct where ct: "cluster_sessions DEFAULT_GAP_MINUTES (catalog_of db) = Inr ct"
    "db' = db\<lparr>sd_sessions := ct_sessions ct, sd_links := ct_links ct, sd_targets := ct_targets ct,
       sd_matches := filter (\<lambda>((sid, kind), m). sid \<in> se_id ` set (ct_sessions ct)) (sd_matches db)\<rparr>"
    using assms by (auto simp: recluster_def split: sum.splits)
  have "ct_frames ct = ct_frames (catalog_of db)"
    using ct(1) by (rule cluster_sessions_frames)
  then have "ct = catalog_of db'" by (simp add: ct(2) catalog_of_def)
  then show "sd_frames db' = sd_frames db" "sd_masters db' = sd_masters db" "cluster_sessions DEFAULT_GAP_MINUTES (catalog_of db) = Inr (catalog_of db')"
    using ct by simp_all
qed

lemma upsert_paths:
  "distinct (map row_path (sd_frames db)) \<Longrightarrow> distinct (map row_path (sd_frames (upsert_frame row db)))"
proof (cases "existing_row db (row_path row)")
  case None
  then have "row_path row \<notin> row_path ` set (sd_frames db)" by (simp add: existing_None)
  then show "distinct (map row_path (sd_frames db)) \<Longrightarrow> ?thesis" by (simp add: upsert_frame_def None)
next
  case (Some r)
  let ?g = "\<lambda>x. if row_path x = row_path row then row else x"
  have "map row_path (map ?g rs) = map row_path rs" for rs by (induction rs) simp_all
  moreover have "sd_frames (upsert_frame row db) = map ?g (sd_frames db)" by (simp add: upsert_frame_def Some)
  ultimately show "distinct (map row_path (sd_frames db)) \<Longrightarrow> ?thesis" by metis
qed

lemma touch_paths [simp]: "map row_path (sd_frames (touch_frames t ps db)) = map row_path (sd_frames db)"
  by (simp add: touch_frames_def row_path_def comp_def if_distrib cong: if_cong)

lemma rw_frame_touch [simp]: "map rw_frame (sd_frames (touch_frames t ps db)) = map rw_frame (sd_frames db)"
  by (simp add: touch_frames_def comp_def if_distrib cong: if_cong)


section \<open>What the loop leaves\<close>

text \<open>
  The row a file should have after the scan, from the row it had and the file: None for a file that
  vanished, cannot be read or is no frame. \<open>i\<close> is the id of a new row.
\<close>

definition mirror :: "py_values \<Rightarrow> rat \<Rightarrow> frame_row option \<Rightarrow> int \<Rightarrow> string \<Rightarrow> file_info \<Rightarrow> frame_row option" where
  "mirror pv started old i path f =
     (case judge pv old path f of
        Inr Unchanged \<Rightarrow> map_option (stamp started) old
      | Inr (Ingest st header c) \<Rightarrow>
          (case frame_row_of pv started (case old of Some r \<Rightarrow> row_id r | None \<Rightarrow> i) path f st header c of
             Inr row \<Rightarrow> Some row
           | Inl e \<Rightarrow> None)
      | _ \<Rightarrow> None)"

text \<open>The rows during the loop, as they are once the batch of unchanged paths is written.\<close>

definition seen_as :: "py_values \<Rightarrow> rat \<Rightarrow> (string \<Rightarrow> frame_row option) \<Rightarrow> (string \<Rightarrow> int) \<Rightarrow> (string \<times> file_info) list
   \<Rightarrow> string \<Rightarrow> frame_row option" where
  "seen_as pv started old ids files q =
     (case map_of files q of
        None \<Rightarrow> old q
      | Some f \<Rightarrow> (case mirror pv started (old q) (ids q) q f of None \<Rightarrow> old q | Some r \<Rightarrow> Some r))"

definition loop_ok :: "py_values \<Rightarrow> rat \<Rightarrow> scan_db \<Rightarrow> (string \<times> file_info) list \<Rightarrow> scan_state \<Rightarrow> bool" where
  "loop_ok pv started db0 files s \<longleftrightarrow>
     (\<exists>ids. \<forall>q. existing_row (touch_frames started (sc_skipped s) (sc_db s)) q = seen_as pv started (existing_row db0) ids files q)
     \<and> (\<forall>q. q \<notin> fst ` set files \<longrightarrow> existing_row (sc_db s) q = existing_row db0 q \<and> q \<notin> set (sc_skipped s))
     \<and> distinct (map row_path (sd_frames (sc_db s)))"

lemma tally_fields [simp]: "sc_db (tally f s) = sc_db s" "sc_skipped (tally f s) = sc_skipped s"
    "sc_since_cluster (tally f s) = sc_since_cluster s" "sc_stats (tally f s) = f (sc_stats s)"
  by (simp_all add: tally_def)

lemma loop_ok_tally [simp]: "loop_ok pv started db0 files (tally f s) = loop_ok pv started db0 files s"
  by (simp add: loop_ok_def)

lemma or_stop_Inr [simp]: "or_stop db r = Inr a \<longleftrightarrow> r = Inr a"
  by (auto simp: or_stop_def split: sum.splits)

lemma touch_touch: "touch_frames t ps (touch_frames t qs db) = touch_frames t (qs @ ps) db"
  by (auto simp: touch_frames_def row_path_def)

lemma touch_empty_after: "touch_frames t [] (touch_frames t ps db) = touch_frames t ps db"
  by simp

lemma frame_row_of_path: "frame_row_of pv started i path f st header c = Inr row \<Longrightarrow> row_path row = path \<and> rw_scanned_at row = Some started"
  by (auto simp: frame_row_of_def rbind_eq_Inr row_path_def)

lemma mirror_row: "mirror pv started old i q f = Some r \<Longrightarrow> (\<forall>o'. old = Some o' \<longrightarrow> row_path o' = q) \<Longrightarrow> row_path r = q \<and> rw_scanned_at r = Some started"
  by (auto simp: mirror_def dest: frame_row_of_path split: sum.splits verdict.splits)

lemma judge_unchanged: "judge pv old path f = Inr Unchanged \<Longrightarrow> old \<noteq> None"
  by (auto simp: judge_def unchanged_def Let_def rbind_eq_Inr split: option.splits if_splits)

lemma loop_keeps:
  assumes ok: "loop_ok pv started db0 files s" and new: "p \<notin> fst ` set files"
    and m: "\<And>i. mirror pv started (existing_row db0 p) i p f = None"
  shows "loop_ok pv started db0 (files @ [(p, f)]) s"
proof -
  obtain ids where ids: "\<forall>q. existing_row (touch_frames started (sc_skipped s) (sc_db s)) q = seen_as pv started (existing_row db0) ids files q"
    using ok by (auto simp: loop_ok_def)
  have "map_of files p = None" using new by (simp add: map_of_eq_None_iff)
  then have "seen_as pv started (existing_row db0) ids (files @ [(p, f)]) q = seen_as pv started (existing_row db0) ids files q" for q
    using m by (auto simp: seen_as_def map_add_def split: option.splits)
  then have "\<forall>q. existing_row (touch_frames started (sc_skipped s) (sc_db s)) q = seen_as pv started (existing_row db0) ids (files @ [(p, f)]) q"
    using ids by simp
  moreover have "\<forall>q. q \<notin> fst ` set (files @ [(p, f)]) \<longrightarrow> existing_row (sc_db s) q = existing_row db0 q \<and> q \<notin> set (sc_skipped s)"
    using ok by (auto simp: loop_ok_def)
  ultimately show ?thesis using ok unfolding loop_ok_def by blast
qed

lemma loop_adds:
  assumes ok: "loop_ok pv started db0 files s" and new: "p \<notin> fst ` set files"
    and row: "mirror pv started (existing_row db0 p) i p f = Some r"
    and view: "existing_row (touch_frames started (sc_skipped s') (sc_db s')) =
      (existing_row (touch_frames started (sc_skipped s) (sc_db s)))(p \<mapsto> r)"
    and rest: "\<And>q. q \<noteq> p \<Longrightarrow> q \<notin> set (sc_skipped s) \<Longrightarrow> existing_row (sc_db s') q = existing_row (sc_db s) q \<and> q \<notin> set (sc_skipped s')"
    and dist: "distinct (map row_path (sd_frames (sc_db s')))"
  shows "loop_ok pv started db0 (files @ [(p, f)]) s'"
proof -
  obtain ids where ids: "\<forall>q. existing_row (touch_frames started (sc_skipped s) (sc_db s)) q = seen_as pv started (existing_row db0) ids files q"
    using ok by (auto simp: loop_ok_def)
  have "map_of files p = None" using new by (simp add: map_of_eq_None_iff)
  then have "seen_as pv started (existing_row db0) (ids(p := i)) (files @ [(p, f)]) q
      = (if q = p then Some r else seen_as pv started (existing_row db0) ids files q)" for q
    using row by (auto simp: seen_as_def map_add_def split: option.splits)
  then have "\<forall>q. existing_row (touch_frames started (sc_skipped s') (sc_db s')) q
      = seen_as pv started (existing_row db0) (ids(p := i)) (files @ [(p, f)]) q"
    using ids view by simp
  moreover have "existing_row (sc_db s') q = existing_row db0 q \<and> q \<notin> set (sc_skipped s')" if "q \<notin> fst ` set (files @ [(p, f)])" for q
  proof -
    have "q \<noteq> p" "q \<notin> fst ` set files" using that by auto
    then show ?thesis using ok rest [of q] unfolding loop_ok_def by metis
  qed
  ultimately show ?thesis using dist unfolding loop_ok_def by blast
qed


lemma scan_ingest_Inr:
  assumes "scan_ingest pv started path f st header c s = Inr s'"
  obtains row where "frame_row_of pv started (frame_id_for (sc_db s) path) path f st header c = Inr row"
    "sd_frames (sc_db s') = sd_frames (upsert_frame row (sc_db s))" "sc_skipped s' = sc_skipped s"
proof -
  from assms obtain db stats where i: "ingest_frame pv started path f st header c (sc_db s, sc_stats s) = Inr (db, stats)"
    and r: "(let s1 = s\<lparr>sc_db := db, sc_stats := stats, sc_since_cluster := sc_since_cluster s + 1\<rparr>
       in if INCREMENTAL_CLUSTER_EVERY \<le> sc_since_cluster s1 then
            rbind (or_stop db (recluster db)) (\<lambda>db'. Inr (s1\<lparr>sc_db := db', sc_since_cluster := 0\<rparr>))
          else Inr s1) = Inr s'"
    by (auto simp: scan_ingest_def rbind_eq_Inr)
  from i obtain row where row: "frame_row_of pv started (frame_id_for (sc_db s) path) path f st header c = Inr row"
    "db = upsert_frame row (sc_db s)"
    by (auto simp: ingest_frame_def rbind_eq_Inr Let_def)
  have "sd_frames (sc_db s') = sd_frames db \<and> sc_skipped s' = sc_skipped s"
    using r by (auto simp: Let_def rbind_eq_Inr recluster_Inr(1) split: if_splits)
  then show thesis using that row by simp
qed

lemma frame_id_old: "existing_row db p = Some r \<Longrightarrow> frame_id_for db p = row_id r"
  by (simp add: frame_id_for_def)

lemma scan_file_ok:
  assumes ok: "loop_ok pv started db0 files s" and new: "p \<notin> fst ` set files"
    and run: "scan_file pv started (p, f) s = Inr s'"
  shows "loop_ok pv started db0 (files @ [(p, f)]) s'"
proof -
  have old: "existing_row (sc_db s) p = existing_row db0 p" "p \<notin> set (sc_skipped s)"
    using ok new by (simp_all add: loop_ok_def)
  let ?s = "tally (\<lambda>x. x\<lparr>ss_discovered := ss_discovered x + 1\<rparr>) s"
  from run obtain v where v: "judge pv (existing_row db0 p) p f = Inr v"
    by (auto simp: scan_file_def Let_def rbind_eq_Inr old)
  note run' = run [unfolded scan_file_def prod.case Let_def tally_fields old(1) v or_stop_def sum.case rbind_Inr]
  show ?thesis
  proof (cases v)
    case Unchanged
    obtain r where r: "existing_row db0 p = Some r" using judge_unchanged [of pv "existing_row db0 p" p f] v Unchanged by auto
    have m: "mirror pv started (existing_row db0 p) i p f = Some (stamp started r)" for i
      using v r by (simp add: mirror_def Unchanged)
    let ?t = "?s\<lparr>sc_skipped := sc_skipped s @ [p]\<rparr>"
    obtain g where s': "s' = tally g (if 1000 \<le> length (sc_skipped s @ [p]) then flush_skipped started ?t else ?t)"
      using run' by (auto simp: Unchanged)
    have "touch_frames started (sc_skipped s') (sc_db s') = touch_frames started (sc_skipped s @ [p]) (sc_db s)"
      by (simp add: s' flush_skipped_def)
    then have view: "existing_row (touch_frames started (sc_skipped s') (sc_db s'))
        = (existing_row (touch_frames started (sc_skipped s) (sc_db s)))(p \<mapsto> stamp started r)"
      using old r by (auto simp: existing_touch fun_eq_iff)
    show ?thesis
    proof (rule loop_adds [OF ok new m [of 0] view])
      show "existing_row (sc_db s') q = existing_row (sc_db s) q \<and> q \<notin> set (sc_skipped s')"
        if "q \<noteq> p" "q \<notin> set (sc_skipped s)" for q
        using that by (auto simp: s' flush_skipped_def existing_touch option.map_id0 [unfolded id_def])
      show "distinct (map row_path (sd_frames (sc_db s')))"
        using ok by (simp add: s' flush_skipped_def loop_ok_def)
    qed
  next
    case (Ingest st header c)
    then have "scan_ingest pv started p f st header c ?s = Inr s'" using run' by simp
    then obtain row where row: "frame_row_of pv started (frame_id_for (sc_db s) p) p f st header c = Inr row"
      "sd_frames (sc_db s') = sd_frames (upsert_frame row (sc_db s))" "sc_skipped s' = sc_skipped s"
      by (rule scan_ingest_Inr) simp
    have path: "row_path row = p" using frame_row_of_path [OF row(1)] by simp
    have m: "mirror pv started (existing_row db0 p) (frame_id_for (sc_db s) p) p f = Some row"
    proof -
      have "(case existing_row db0 p of Some r \<Rightarrow> row_id r | None \<Rightarrow> frame_id_for (sc_db s) p) = frame_id_for (sc_db s) p"
        using frame_id_old [of "sc_db s" p] old(1) by (cases "existing_row db0 p") simp_all
      then show ?thesis using row(1) by (simp add: mirror_def v Ingest)
    qed
    have e: "existing_row (sc_db s') = (existing_row (sc_db s))(p \<mapsto> row)"
      using existing_cong [OF row(2)] existing_upsert [of row] by (auto simp: path fun_eq_iff)
    have view: "existing_row (touch_frames started (sc_skipped s') (sc_db s'))
        = (existing_row (touch_frames started (sc_skipped s) (sc_db s)))(p \<mapsto> row)"
      using old(2) by (auto simp: existing_touch row(3) e fun_eq_iff)
    show ?thesis
    proof (rule loop_adds [OF ok new m view])
      show "distinct (map row_path (sd_frames (sc_db s')))"
        using ok upsert_paths [of "sc_db s" row] by (simp add: row(2) loop_ok_def)
    qed (auto simp: e row(3))
  qed (use run' v in \<open>auto intro!: loop_keeps [OF _ new] simp: ok mirror_def\<close>)
qed

lemma scan_files_ok:
  assumes "fold_res (scan_file pv started) files s0 = Inr s" "distinct (map fst files)"
    "loop_ok pv started db0 [] s0"
  shows "loop_ok pv started db0 files s"
  using assms(1,2)
proof (induction files arbitrary: s rule: rev_induct)
  case (snoc x files)
  obtain s1 where s1: "fold_res (scan_file pv started) files s0 = Inr s1" "scan_file pv started x s1 = Inr s"
    using snoc.prems(1) by (auto simp: fold_res_append rbind_eq_Inr)
  obtain p f where x: "x = (p, f)" by (cases x)
  have "loop_ok pv started db0 files s1" using snoc.IH [OF s1(1)] snoc.prems(2) by simp
  moreover have "p \<notin> fst ` set files" using snoc.prems(2) by (simp add: x)
  ultimately show ?case using scan_file_ok s1(2) unfolding x by blast
qed (use assms(3) in simp)


lemma ingest_master_frames:
  "sd_frames (fst (ingest_master started scope mf st)) = sd_frames (fst st)"
  "catalog_of (fst (ingest_master started scope mf st)) = catalog_of (fst st)"
  by (cases mf; cases st; auto simp: ingest_master_def set_master_def catalog_of_def Let_def split: option.splits)+

lemma scan_master_Inr:
  assumes "scan_master started item s = Inr s'"
  obtains mf where "item = Inr mf" "sc_db s' = fst (ingest_master started ''dwarf3'' mf (sc_db s, sc_stats s))"
proof -
  from assms obtain mf where mf: "item = Inr mf"
    "(let (db, stats) = ingest_master started ''dwarf3'' mf (sc_db s, sc_stats s) in Inr (s\<lparr>sc_db := db, sc_stats := stats\<rparr>)) = (Inr s' :: scan_state committed)"
    unfolding scan_master_def rbind_eq_Inr or_stop_Inr by blast
  then show thesis using that by (cases "ingest_master started ''dwarf3'' mf (sc_db s, sc_stats s)") auto
qed

lemma scan_masters_frames:
  assumes "fold_res (scan_master started) items s = Inr s'"
  shows "sd_frames (sc_db s') = sd_frames (sc_db s)" "catalog_of (sc_db s') = catalog_of (sc_db s)"
proof -
  let ?same = "\<lambda>t. sd_frames (sc_db t) = sd_frames (sc_db s) \<and> catalog_of (sc_db t) = catalog_of (sc_db s)"
  have "?same s'"
  proof (rule fold_res_invariant [OF assms, where P = ?same])
    fix x t t'
    assume t: "?same t" and run: "scan_master started x t = Inr t'"
    from run obtain mf where "sc_db t' = fst (ingest_master started ''dwarf3'' mf (sc_db t, sc_stats t))"
      by (rule scan_master_Inr)
    then show "?same t'" using t by (simp add: ingest_master_frames)
  qed simp
  then show "sd_frames (sc_db s') = sd_frames (sc_db s)" "catalog_of (sc_db s') = catalog_of (sc_db s)" by blast+
qed

definition start_state :: "scan_db \<Rightarrow> scan_state" where
  "start_state db = \<lparr>sc_db = db, sc_stats = no_stats, sc_since_cluster = 0, sc_skipped = []\<rparr>"

abbreviation orphan :: "string \<Rightarrow> rat \<Rightarrow> frame_row \<Rightarrow> bool" where
  "orphan prefix started r \<equiv> stale prefix started (row_path r) (rw_scanned_at r)"

text \<open>The stages of a scan that succeeds: after the frames, after the masters, after the rebuild.\<close>

lemma scan_Inr:
  assumes "scan env started base node db = Inr (db', stats)"
  obtains files s1 s2 db1 db2 where "walk_root base node = Inr files"
    "fold_res (scan_file (sn_values env) started) files (start_state db) = Inr s1"
    "fold_res (scan_master started) (walk_factory_masters base node) (flush_skipped started s1) = Inr s2"
    "remove_orphans (sn_resolve env base @ ''/'') started (sc_db s2, sc_stats s2) = (db1, stats)"
    "recluster db1 = Inr db2" "sd_frames db' = sd_frames db2" "catalog_of db' = catalog_of db2"
proof -
  from assms obtain files s1 s2 where st: "walk_root base node = Inr files"
    "fold_res (scan_file (sn_values env) started) files (start_state db) = Inr s1"
    "fold_res (scan_master started) (walk_factory_masters base node) (flush_skipped started s1) = Inr s2"
    and rest: "(let (db1, stats) = remove_orphans (sn_resolve env base @ ''/'') started (sc_db s2, sc_stats s2)
     in rbind (or_stop (sc_db s2) (recluster db1)) (\<lambda>db2.
        rbind (or_stop db2 (case match_all_sessions (sn_texts env) (sn_profiles env) (sn_match_time env) (catalog_of db2)
              (map mr_master (sd_masters db2)) (sd_matches db2) of
            Inl e \<Rightarrow> Inl (Match_Failed e) | Inr (table, n) \<Rightarrow> Inr (db2\<lparr>sd_matches := table\<rparr>))) (\<lambda>db3.
        Inr (db3, stats)))) = Inr (db', stats)"
    unfolding scan_def rbind_eq_Inr or_stop_Inr start_state_def by blast
  obtain db1 stats1 where o: "remove_orphans (sn_resolve env base @ ''/'') started (sc_db s2, sc_stats s2) = (db1, stats1)"
    by (cases "remove_orphans (sn_resolve env base @ ''/'') started (sc_db s2, sc_stats s2)")
  from rest obtain db2 db3 where fin: "recluster db1 = Inr db2"
    "(case match_all_sessions (sn_texts env) (sn_profiles env) (sn_match_time env) (catalog_of db2)
        (map mr_master (sd_masters db2)) (sd_matches db2) of
      Inl e \<Rightarrow> Inl (Match_Failed e) | Inr (table, n) \<Rightarrow> Inr (db2\<lparr>sd_matches := table\<rparr>)) = Inr db3"
    "db3 = db'" "stats1 = stats"
    unfolding o prod.case Let_def rbind_eq_Inr or_stop_Inr sum.inject prod.inject by blast
  then have "sd_frames db' = sd_frames db2" "catalog_of db' = catalog_of db2"
    by (auto simp: catalog_of_def split: sum.splits)
  then show thesis using that [OF st(1-3) _ fin(1)] o fin(4) by simp
qed

lemma remove_orphans_frames:
  assumes "remove_orphans prefix started (db, stats) = (db1, stats1)"
  shows "sd_frames db1 = filter (\<lambda>r. \<not> orphan prefix started r) (sd_frames db)"
    "ss_removed stats1 = length (filter (orphan prefix started) (sd_frames db))"
    "sd_sessions db1 = sd_sessions db" "sd_targets db1 = sd_targets db"
    "sd_links db1 = filter (\<lambda>(sid, fid). fid \<notin> row_id ` set (filter (orphan prefix started) (sd_frames db))) (sd_links db)"
    "ss_inserted stats1 = ss_inserted stats" "ss_updated stats1 = ss_updated stats"
  using assms by (auto simp: remove_orphans_def delete_masters_def delete_frames_def Let_def)

lemma loop_ok_start: "distinct (map row_path (sd_frames db)) \<Longrightarrow> loop_ok pv started db [] (start_state db)"
  by (auto simp: loop_ok_def start_state_def seen_as_def)

lemma scan_rows:
  assumes run: "scan env started base node db = Inr (db', stats)"
    and tree: "\<forall>x. node = Some x \<longrightarrow> wf_tree x"
    and base: "sn_resolve env base = base" "\<not> ends_with ''/'' base"
    and old: "distinct (map row_path (sd_frames db))" "\<forall>r \<in> set (sd_frames db). \<forall>t. rw_scanned_at r = Some t \<longrightarrow> t < started"
  shows "\<exists>files ids. walk_root base node = Inr files
    \<and> (\<forall>q. existing_row db' q =
        (if starts_with (base @ ''/'') q then
           (case map_of files q of
              None \<Rightarrow> None
            | Some f \<Rightarrow> mirror (sn_values env) started (existing_row db q) (ids q) q f)
         else existing_row db q))"
proof -
  from run obtain files s1 s2 db1 db2 where st: "walk_root base node = Inr files"
    "fold_res (scan_file (sn_values env) started) files (start_state db) = Inr s1"
    "fold_res (scan_master started) (walk_factory_masters base node) (flush_skipped started s1) = Inr s2"
    "remove_orphans (sn_resolve env base @ ''/'') started (sc_db s2, sc_stats s2) = (db1, stats)"
    "recluster db1 = Inr db2" "sd_frames db' = sd_frames db2"
    by (rule scan_Inr)
  note files = walk_root_files [OF st(1) tree base(2)]
  obtain ids where ids: "\<And>q. existing_row (touch_frames started (sc_skipped s1) (sc_db s1)) q = seen_as (sn_values env) started (existing_row db) ids files q"
    and dist: "distinct (map row_path (sd_frames (sc_db s1)))"
    using scan_files_ok [OF st(2) files(1) loop_ok_start [OF old(1)]] by (auto simp: loop_ok_def)
  have fr: "sd_frames (sc_db s2) = sd_frames (touch_frames started (sc_skipped s1) (sc_db s1))"
    using scan_masters_frames(1) [OF st(3)] by (simp add: flush_skipped_def)
  have "sd_frames db' = filter (\<lambda>r. \<not> orphan (base @ ''/'') started r) (sd_frames (sc_db s2))"
    using remove_orphans_frames(1) [OF st(4)] recluster_Inr(1) [OF st(5)] by (simp add: st(6) base(1))
  then have row: "existing_row db' q = Option.bind (seen_as (sn_values env) started (existing_row db) ids files q)
      (\<lambda>r. if orphan (base @ ''/'') started r then None else Some r)" for q
    using dist ids [of q] by (cases "seen_as (sn_values env) started (existing_row db) ids files q")
      (simp_all add: existing_row_def find_filter_path fr)
  have gone: "orphan (base @ ''/'') started r \<longleftrightarrow> starts_with (base @ ''/'') q" if "existing_row db q = Some r" for q r
  proof -
    have "r \<in> set (sd_frames db)" using that by (auto simp: existing_row_def find_Some_iff)
    then show ?thesis using old(2) existing_path [OF that] by (auto simp: stale_def split: option.split)
  qed
  have "existing_row db' q = (if starts_with (base @ ''/'') q then
      (case map_of files q of None \<Rightarrow> None | Some f \<Rightarrow> mirror (sn_values env) started (existing_row db q) (ids q) q f)
    else existing_row db q)" for q
  proof (cases "starts_with (base @ ''/'') q")
    case True
    show ?thesis
    proof (cases "Option.bind (map_of files q) (mirror (sn_values env) started (existing_row db q) (ids q) q)")
      case None
      then have "existing_row db' q = None"
        using gone [of q] True by (cases "existing_row db q") (auto simp: row seen_as_def split: option.splits)
      then show ?thesis using None True by (cases "map_of files q") simp_all
    next
      case (Some r)
      then obtain f where f: "map_of files q = Some f" "mirror (sn_values env) started (existing_row db q) (ids q) q f = Some r"
        by (auto simp: bind_eq_Some_conv)
      have "rw_scanned_at r = Some started" using mirror_row [OF f(2)] existing_path [of db q] by blast
      then show ?thesis using f True by (simp add: row seen_as_def stale_def)
    qed
  next
    case False
    then have "map_of files q = None" using files(2) [of q] by (auto simp: map_of_eq_None_iff)
    then show ?thesis using False gone [of q] by (cases "existing_row db q") (simp_all add: row seen_as_def)
  qed
  then show ?thesis using st(1) by blast
qed


section \<open>A second scan\<close>

text \<open>A file the loop got past: its verdict exists, and a frame could be turned into a row.\<close>

definition settled :: "py_values \<Rightarrow> frame_row option \<Rightarrow> string \<Rightarrow> file_info \<Rightarrow> bool" where
  "settled pv old p f \<longleftrightarrow> (\<exists>v. judge pv old p f = Inr v
     \<and> (\<forall>st header c. v = Ingest st header c \<longrightarrow> (\<exists>started i row. frame_row_of pv started i p f st header c = Inr row)))"

lemma scan_file_settled:
  assumes "scan_file pv started (p, f) s = Inr s'"
  shows "settled pv (existing_row (sc_db s) p) p f"
proof -
  from assms obtain v where v: "judge pv (existing_row (sc_db s) p) p f = Inr v"
    by (auto simp: scan_file_def Let_def rbind_eq_Inr)
  note run = assms [unfolded scan_file_def prod.case Let_def tally_fields v or_stop_def sum.case rbind_Inr]
  have "\<exists>started i row. frame_row_of pv started i p f st header c = Inr row" if "v = Ingest st header c" for st header c
    using run scan_ingest_Inr [of pv started p f st header c] unfolding that verdict.case by metis
  then show ?thesis using v unfolding settled_def by blast
qed

lemma scan_files_settled:
  assumes "fold_res (scan_file pv started) files s0 = Inr s" "distinct (map fst files)" "loop_ok pv started db0 [] s0"
  shows "\<forall>(p, f) \<in> set files. settled pv (existing_row db0 p) p f"
  using assms(1,2)
proof (induction files arbitrary: s rule: rev_induct)
  case (snoc x files)
  obtain s1 where s1: "fold_res (scan_file pv started) files s0 = Inr s1" "scan_file pv started x s1 = Inr s"
    using snoc.prems(1) by (auto simp: fold_res_append rbind_eq_Inr)
  obtain p f where x: "x = (p, f)" by (cases x)
  have "loop_ok pv started db0 files s1" using scan_files_ok [OF s1(1) _ assms(3)] snoc.prems(2) by simp
  moreover have "p \<notin> fst ` set files" using snoc.prems(2) by (simp add: x)
  ultimately have "existing_row (sc_db s1) p = existing_row db0 p" by (simp add: loop_ok_def)
  then have "settled pv (existing_row db0 p) p f" using scan_file_settled s1(2) unfolding x by metis
  then show ?case using snoc.IH [OF s1(1)] snoc.prems(2) by (simp add: x)
qed simp

text \<open>Once scanned, a file is unchanged if it has a row, and is passed over again if it has none.\<close>

lemma frame_row_of_stat:
  "frame_row_of pv started i p f st header c = Inr row \<Longrightarrow>
   rw_size row = Some (fst st) \<and> rw_mtime row = Some (fst (snd st)) \<and> rw_hash row \<noteq> None"
  by (auto simp: frame_row_of_def rbind_eq_Inr)

lemma frame_row_of_any:
  "frame_row_of pv started i p f st header c = Inr row \<Longrightarrow> \<exists>row'. frame_row_of pv t j p f st header c = Inr row'"
  by (auto simp: frame_row_of_def rbind_eq_Inr)

lemma judge_Ingest_stat: "judge pv old p f = Inr (Ingest st header c) \<Longrightarrow> fi_stat f = Some st"
  by (auto simp: judge_def Let_def rbind_eq_Inr split: option.splits if_splits)

lemma unchanged_stamp [simp]: "unchanged (map_option (\<lambda>r. if P then stamp t r else r) old) st = unchanged old st"
  by (cases old) (simp_all add: unchanged_def)

lemma judge_stamp [simp]: "judge pv (map_option (\<lambda>r. if P then stamp t r else r) old) p f = judge pv old p f"
  unfolding judge_def unchanged_stamp ..

lemma judge_again:
  assumes "settled pv old p f" "new = mirror pv started old i p f"
  shows "\<exists>v. judge pv new p f = Inr v \<and> (\<forall>st header c. v \<noteq> Ingest st header c) \<and> (v = Unchanged \<longleftrightarrow> new \<noteq> None)"
proof -
  from assms(1) obtain v where v: "judge pv old p f = Inr v"
    and rows: "\<And>st header c. v = Ingest st header c \<Longrightarrow> \<exists>started i row. frame_row_of pv started i p f st header c = Inr row"
    unfolding settled_def by blast
  show ?thesis
  proof (cases v)
    case Unchanged
    then obtain r where r: "old = Some r" using judge_unchanged v by blast
    have "judge pv (Some (stamp started r)) p f = judge pv (Some r) p f" using judge_stamp [of pv True started "Some r" p f] by simp
    then show ?thesis using v r Unchanged by (simp add: assms(2) mirror_def)
  next
    case (Ingest st header c)
    obtain started' i' row' where "frame_row_of pv started' i' p f st header c = Inr row'" using rows [OF Ingest] by blast
    from frame_row_of_any [OF this] obtain row where
      row: "frame_row_of pv started (case old of Some r \<Rightarrow> row_id r | None \<Rightarrow> i) p f st header c = Inr row" by blast
    have "fi_stat f = Some st" using v Ingest judge_Ingest_stat by blast
    then have "judge pv (Some row) p f = Inr Unchanged"
      using frame_row_of_stat [OF row] by (simp add: judge_def unchanged_def)
    then show ?thesis using v row by (simp add: assms(2) mirror_def Ingest)
  qed (use v in \<open>auto simp: assms(2) mirror_def judge_def unchanged_def Let_def rbind_eq_Inr split: option.splits if_splits\<close>)
qed

definition idle :: "rat \<Rightarrow> scan_db \<Rightarrow> (string \<times> file_info) list \<Rightarrow> scan_state \<Rightarrow> bool" where
  "idle started db0 files s \<longleftrightarrow>
     (\<exists>ps. sc_db s = touch_frames started ps db0
        \<and> {p \<in> fst ` set files. existing_row db0 p \<noteq> None} \<subseteq> set ps \<union> set (sc_skipped s))
     \<and> ss_inserted (sc_stats s) = 0 \<and> ss_updated (sc_stats s) = 0"

lemma scan_file_idle:
  assumes idle: "idle started db0 files s"
    and v: "judge pv (existing_row db0 p) p f = Inr v" "\<forall>st header c. v \<noteq> Ingest st header c" "v = Unchanged \<longleftrightarrow> existing_row db0 p \<noteq> None"
  shows "\<exists>s'. scan_file pv started (p, f) s = Inr s' \<and> idle started db0 (files @ [(p, f)]) s'"
proof -
  obtain ps where ps: "sc_db s = touch_frames started ps db0"
      "{p \<in> fst ` set files. existing_row db0 p \<noteq> None} \<subseteq> set ps \<union> set (sc_skipped s)"
    and st: "ss_inserted (sc_stats s) = 0" "ss_updated (sc_stats s) = 0"
    using idle by (auto simp: idle_def)
  have j: "judge pv (existing_row (sc_db s) p) p f = Inr v" by (simp add: ps(1) existing_touch v(1))
  let ?s = "tally (\<lambda>x. x\<lparr>ss_discovered := ss_discovered x + 1\<rparr>) s"
  show ?thesis
  proof (cases "v = Unchanged")
    case True
    let ?t = "?s\<lparr>sc_skipped := sc_skipped s @ [p]\<rparr>"
    let ?s' = "tally (\<lambda>x. x\<lparr>ss_skipped_unchanged := ss_skipped_unchanged x + 1\<rparr>)
      (if 1000 \<le> length (sc_skipped s @ [p]) then flush_skipped started ?t else ?t)"
    have run: "scan_file pv started (p, f) s = Inr ?s'"
      by (simp add: scan_file_def Let_def j True or_stop_def)
    show ?thesis
    proof (cases "1000 \<le> length (sc_skipped s @ [p])")
      case True
      have "sc_db ?s' = touch_frames started (ps @ sc_skipped s @ [p]) db0" using True by (simp add: flush_skipped_def ps(1) touch_touch)
      moreover have "{q \<in> fst ` set (files @ [(p, f)]). existing_row db0 q \<noteq> None} \<subseteq> set (ps @ sc_skipped s @ [p]) \<union> set (sc_skipped ?s')"
        using ps(2) by auto
      moreover have "ss_inserted (sc_stats ?s') = 0 \<and> ss_updated (sc_stats ?s') = 0" using st by (simp add: flush_skipped_def)
      ultimately show ?thesis using run unfolding idle_def by blast
    next
      case False
      have "sc_db ?s' = touch_frames started ps db0" using False by (simp add: ps(1))
      moreover have "{q \<in> fst ` set (files @ [(p, f)]). existing_row db0 q \<noteq> None} \<subseteq> set ps \<union> set (sc_skipped ?s')"
        using ps(2) False by auto
      moreover have "ss_inserted (sc_stats ?s') = 0 \<and> ss_updated (sc_stats ?s') = 0" using st False by simp
      ultimately show ?thesis using run unfolding idle_def by blast
    qed
  next
    case False
    obtain g where run: "scan_file pv started (p, f) s = Inr (tally g ?s)"
      and g: "\<And>x. ss_inserted (g x) = ss_inserted x \<and> ss_updated (g x) = ss_updated x"
    proof (cases v)
      case Vanished
      then show ?thesis by (intro that [of "\<lambda>x. x"]) (simp_all add: scan_file_def Let_def j or_stop_def tally_def)
    next
      case Unreadable_Header
      then show ?thesis
        by (intro that [of "\<lambda>x. x\<lparr>ss_failed := ss_failed x + 1\<rparr>"]) (simp_all add: scan_file_def Let_def j or_stop_def)
    next
      case Unknown
      then show ?thesis
        by (intro that [of "\<lambda>x. x\<lparr>ss_skipped_unknown := ss_skipped_unknown x + 1\<rparr>"]) (simp_all add: scan_file_def Let_def j or_stop_def)
    qed (use False v(2) in auto)
    have "existing_row db0 p = None" using False v(3) by simp
    then have "{q \<in> fst ` set (files @ [(p, f)]). existing_row db0 q \<noteq> None} = {q \<in> fst ` set files. existing_row db0 q \<noteq> None}"
      by auto
    then have "idle started db0 (files @ [(p, f)]) (tally g ?s)"
      unfolding idle_def using ps st g by (intro conjI exI [of _ ps]) simp_all
    then show ?thesis using run by blast
  qed
qed


lemma scan_files_idle:
  assumes "\<forall>(p, f) \<in> set files. \<exists>v. judge pv (existing_row db0 p) p f = Inr v
      \<and> (\<forall>st header c. v \<noteq> Ingest st header c) \<and> (v = Unchanged \<longleftrightarrow> existing_row db0 p \<noteq> None)"
  shows "\<exists>s. fold_res (scan_file pv started) files (start_state db0) = Inr s \<and> idle started db0 files s"
  using assms
proof (induction files rule: rev_induct)
  case Nil
  have "touch_frames started [] db0 = db0" by simp
  then have "idle started db0 [] (start_state db0)"
    unfolding idle_def start_state_def no_stats_def by (intro conjI exI [of _ "[]"]) simp_all
  then show ?case by simp
next
  case (snoc x files)
  obtain p f where x: "x = (p, f)" by (cases x)
  obtain s where s: "fold_res (scan_file pv started) files (start_state db0) = Inr s" "idle started db0 files s"
    using snoc by auto
  obtain v where "judge pv (existing_row db0 p) p f = Inr v" "\<forall>st header c. v \<noteq> Ingest st header c"
    "v = Unchanged \<longleftrightarrow> existing_row db0 p \<noteq> None"
    using snoc.prems by (auto simp: x)
  from scan_file_idle [OF s(2) this] show ?case using s(1) by (auto simp: x fold_res_append)
qed

lemma fold_res_items: "fold_res f xs s = Inr s' \<Longrightarrow> x \<in> set xs \<Longrightarrow> \<exists>t t'. f x t = Inr t'"
  by (induction xs arbitrary: s) (auto simp: rbind_eq_Inr)

lemma scan_masters_total:
  assumes "\<forall>item \<in> set items. \<exists>mf. item = Inr mf"
  shows "\<exists>s'. fold_res (scan_master started) items s = Inr s' \<and> ss_inserted (sc_stats s') = ss_inserted (sc_stats s)
    \<and> ss_updated (sc_stats s') = ss_updated (sc_stats s)"
  using assms
proof (induction items arbitrary: s)
  case (Cons item items)
  obtain mf where mf: "item = Inr mf" using Cons.prems by auto
  obtain db stats where i: "ingest_master started ''dwarf3'' mf (sc_db s, sc_stats s) = (db, stats)" by force
  have "ss_inserted stats = ss_inserted (sc_stats s) \<and> ss_updated stats = ss_updated (sc_stats s)"
    using i by (cases mf) (auto simp: ingest_master_def Let_def split: option.splits if_splits)
  then show ?case
    using Cons.IH [of "s\<lparr>sc_db := db, sc_stats := stats\<rparr>"] Cons.prems by (simp add: mf scan_master_def or_stop_def i)
qed simp

lemma match_all_total: "\<exists>r. match_all_sessions tx profiles now ct masters table = Inr r"
proof -
  have "\<exists>t'. fold_res (\<lambda>s table. rbind (match_session tx profiles now ct masters (se_id s) table) (\<lambda>(table', _). Inr table')) ss t = Inr t'"
    if "set ss \<subseteq> set (ct_sessions ct)" for ss t
    using that
  proof (induction ss arbitrary: t)
    case (Cons s ss)
    have "find (\<lambda>x. se_id x = se_id s) (ct_sessions ct) \<noteq> None" using Cons.prems by (auto simp: find_None_iff)
    then have "\<exists>table' out. match_session tx profiles now ct masters (se_id s) t = Inr (table', out)"
      by (auto simp: match_session_def session_with_temp_def Let_def split: option.splits)
    then show ?case using Cons by auto
  qed simp
  from this [of "ct_sessions ct" table] show ?thesis by (auto simp: match_all_sessions_def)
qed

text \<open>Well-formedness of the catalog through a scan.\<close>

lemma wf_catalog_frames:
  "wf_catalog (catalog_of db) \<Longrightarrow> distinct (map row_id (sd_frames db')) \<Longrightarrow> sd_sessions db' = sd_sessions db
    \<Longrightarrow> sd_targets db' = sd_targets db \<Longrightarrow> set (sd_links db') \<subseteq> set (sd_links db) \<Longrightarrow> wf_catalog (catalog_of db')"
proof -
  have "map row_id = map (fr_id \<circ> rw_frame)" by (simp add: fun_eq_iff row_id_def)
  then show "wf_catalog (catalog_of db) \<Longrightarrow> distinct (map row_id (sd_frames db')) \<Longrightarrow> sd_sessions db' = sd_sessions db
    \<Longrightarrow> sd_targets db' = sd_targets db \<Longrightarrow> set (sd_links db') \<subseteq> set (sd_links db) \<Longrightarrow> wf_catalog (catalog_of db')"
    by (auto simp: wf_catalog_def catalog_of_def)
qed

lemma wf_catalog_ids: "wf_catalog (catalog_of db) \<Longrightarrow> distinct (map row_id (sd_frames db))"
proof -
  have "map row_id (sd_frames db) = map fr_id (ct_frames (catalog_of db))" by (simp add: catalog_of_def row_id_def)
  then show "wf_catalog (catalog_of db) \<Longrightarrow> distinct (map row_id (sd_frames db))" by (simp add: wf_catalog_def)
qed

definition sound :: "scan_db \<Rightarrow> bool" where
  "sound db \<longleftrightarrow> wf_catalog (catalog_of db) \<and> distinct (map row_path (sd_frames db))"

lemma sound_upsert:
  assumes "sound db" "row_id row = frame_id_for db (row_path row)"
  shows "sound (upsert_frame row db)"
proof -
  note d = wf_catalog_ids [OF assms(1) [unfolded sound_def, THEN conjunct1]]
  have paths: "distinct (map row_path (sd_frames db))" using assms(1) by (simp add: sound_def)
  have "distinct (map row_id (sd_frames (upsert_frame row db)))"
  proof (cases "existing_row db (row_path row)")
    case None
    then have "row_id row = next_rowid (map row_id (sd_frames db))" using assms(2) by (simp add: frame_id_for_def)
    then have "row_id row \<notin> row_id ` set (sd_frames db)" using next_rowid_greater [of "row_id row" "map row_id (sd_frames db)"] by auto
    then show ?thesis using d by (simp add: upsert_frame_def None)
  next
    case (Some r)
    have "row_id (if row_path x = row_path row then row else x) = row_id x" if "x \<in> set (sd_frames db)" for x
    proof (cases "row_path x = row_path row")
      case True
      then have "x = r" using existing_in [OF paths that] Some by simp
      then show ?thesis using assms(2) frame_id_old [OF Some] by simp
    qed simp
    then have "map row_id (map (\<lambda>x. if row_path x = row_path row then row else x) (sd_frames db)) = map row_id (sd_frames db)" by simp
    moreover have "sd_frames (upsert_frame row db) = map (\<lambda>x. if row_path x = row_path row then row else x) (sd_frames db)"
      by (simp add: upsert_frame_def Some)
    ultimately show ?thesis using d by metis
  qed
  moreover have "sd_sessions (upsert_frame row db) = sd_sessions db" "sd_targets (upsert_frame row db) = sd_targets db"
    "sd_links (upsert_frame row db) = sd_links db"
    by (simp_all add: upsert_frame_def split: option.splits)
  ultimately show ?thesis
    using wf_catalog_frames [of db "upsert_frame row db"] upsert_paths [OF paths] assms(1) by (simp add: sound_def)
qed

lemma sound_recluster: "sound db \<Longrightarrow> recluster db = Inr db' \<Longrightarrow> sound db'"
  using recluster_Inr [of db db'] rebuild_wf [of "catalog_of db" _ "catalog_of db'"] by (simp add: sound_def)

lemma catalog_of_touch [simp]: "catalog_of (touch_frames t ps db) = catalog_of db"
  using rw_frame_touch [of t ps db] by (simp add: catalog_of_def touch_frames_def)

lemma sound_touch [simp]: "sound (touch_frames t ps db) = sound db"
  by (simp add: sound_def)


lemma frame_row_of_id: "frame_row_of pv started i path f st header c = Inr row \<Longrightarrow> row_id row = i"
  by (auto simp: frame_row_of_def rbind_eq_Inr row_id_def)

lemma sound_ingest:
  assumes "scan_ingest pv started path f st header c s = Inr s'" "sound (sc_db s)"
  shows "sound (sc_db s')"
proof -
  from assms(1) obtain db stats where i: "ingest_frame pv started path f st header c (sc_db s, sc_stats s) = Inr (db, stats)"
    and r: "(let s1 = s\<lparr>sc_db := db, sc_stats := stats, sc_since_cluster := sc_since_cluster s + 1\<rparr>
       in if INCREMENTAL_CLUSTER_EVERY \<le> sc_since_cluster s1 then
            rbind (or_stop db (recluster db)) (\<lambda>db'. Inr (s1\<lparr>sc_db := db', sc_since_cluster := 0\<rparr>))
          else Inr s1) = Inr s'"
    by (auto simp: scan_ingest_def rbind_eq_Inr)
  from i obtain row where row: "frame_row_of pv started (frame_id_for (sc_db s) path) path f st header c = Inr row"
    "db = upsert_frame row (sc_db s)"
    by (auto simp: ingest_frame_def rbind_eq_Inr Let_def)
  have "sound db"
    using sound_upsert [OF assms(2)] frame_row_of_id [OF row(1)] frame_row_of_path [OF row(1)] by (simp add: row(2))
  then show ?thesis using r sound_recluster by (auto simp: Let_def rbind_eq_Inr split: if_splits)
qed

lemma sound_file:
  assumes "scan_file pv started x s = Inr s'" "sound (sc_db s)"
  shows "sound (sc_db s')"
proof -
  obtain p f where x: "x = (p, f)" by (cases x)
  from assms(1) obtain v where v: "judge pv (existing_row (sc_db s) p) p f = Inr v"
    by (auto simp: scan_file_def Let_def rbind_eq_Inr x)
  note run = assms(1) [unfolded x scan_file_def prod.case Let_def tally_fields v or_stop_def sum.case rbind_Inr]
  show ?thesis
    using run sound_ingest [of pv started p f _ _ _ "tally (\<lambda>x. x\<lparr>ss_discovered := ss_discovered x + 1\<rparr>) s" s'] assms(2)
    by (cases v) (auto simp: flush_skipped_def split: if_splits)
qed

lemma sound_orphans:
  assumes "sound db" "remove_orphans prefix started (db, stats) = (db1, stats1)"
  shows "sound db1"
proof -
  note o = remove_orphans_frames [OF assms(2)]
  have "distinct (map row_id (sd_frames db1))"
    using wf_catalog_ids [OF assms(1) [unfolded sound_def, THEN conjunct1]] by (simp add: o(1) distinct_map_filter)
  moreover have "set (sd_links db1) \<subseteq> set (sd_links db)" unfolding o(5) by (rule filter_is_subset)
  ultimately have "wf_catalog (catalog_of db1)"
    using wf_catalog_frames [of db db1] assms(1) o(3,4) by (simp add: sound_def)
  then show ?thesis using assms(1) by (simp add: sound_def o(1) distinct_map_filter)
qed

text \<open>The catalog a scan leaves is one that a rebuild leaves.\<close>

lemma scan_rebuilt:
  assumes run: "scan env started base node db = Inr (db', stats)" and db: "sound db"
  shows "sound db'" "cluster_sessions DEFAULT_GAP_MINUTES (catalog_of db') = Inr (catalog_of db')"
proof -
  from run obtain files s1 s2 db1 db2 where st: "walk_root base node = Inr files"
    "fold_res (scan_file (sn_values env) started) files (start_state db) = Inr s1"
    "fold_res (scan_master started) (walk_factory_masters base node) (flush_skipped started s1) = Inr s2"
    "remove_orphans (sn_resolve env base @ ''/'') started (sc_db s2, sc_stats s2) = (db1, stats)"
    "recluster db1 = Inr db2" "sd_frames db' = sd_frames db2" "catalog_of db' = catalog_of db2"
    by (rule scan_Inr)
  have "sound (sc_db s1)"
  proof (rule fold_res_invariant [OF st(2), where P = "\<lambda>s. sound (sc_db s)"])
    show "sound (sc_db (start_state db))" using db by (simp add: start_state_def)
  qed (rule sound_file)
  then have "sound (sc_db s2)"
    using scan_masters_frames [OF st(3)] by (simp add: sound_def flush_skipped_def)
  then have s: "sound db1" by (rule sound_orphans [OF _ st(4)])
  then have "sound db2" by (rule sound_recluster [OF _ st(5)])
  then show "sound db'" using st(6,7) by (simp add: sound_def)
  have "wf_catalog (catalog_of db1)" using s by (simp add: sound_def)
  from rebuild_same [OF this recluster_Inr(3) [OF st(5)]]
  show "cluster_sessions DEFAULT_GAP_MINUTES (catalog_of db') = Inr (catalog_of db')" by (simp add: st(7))
qed

text \<open>What the second scan sees of each file.\<close>

lemma files_again:
  assumes run: "scan env started base node db = Inr (db', stats)"
    and tree: "\<forall>x. node = Some x \<longrightarrow> wf_tree x"
    and base: "sn_resolve env base = base" "\<not> ends_with ''/'' base"
    and old: "distinct (map row_path (sd_frames db))" "\<forall>r \<in> set (sd_frames db). \<forall>t. rw_scanned_at r = Some t \<longrightarrow> t < started"
  obtains files where "walk_root base node = Inr files"
    "\<forall>(p, f) \<in> set files. \<exists>v. judge (sn_values env) (existing_row db' p) p f = Inr v
      \<and> (\<forall>st header c. v \<noteq> Ingest st header c) \<and> (v = Unchanged \<longleftrightarrow> existing_row db' p \<noteq> None)"
    "\<forall>q. existing_row db' q \<noteq> None \<longrightarrow> starts_with (base @ ''/'') q \<longrightarrow> q \<in> fst ` set files"
    "\<forall>item \<in> set (walk_factory_masters base node). \<exists>mf. item = Inr mf"
proof -
  let ?pv = "sn_values env"
  from run obtain files0 s1 s2 where st: "walk_root base node = Inr files0"
    "fold_res (scan_file ?pv started) files0 (start_state db) = Inr s1"
    "fold_res (scan_master started) (walk_factory_masters base node) (flush_skipped started s1) = Inr s2"
    by (rule scan_Inr)
  obtain files ids where files: "walk_root base node = Inr files"
    and rows: "\<And>q. existing_row db' q = (if starts_with (base @ ''/'') q then
        (case map_of files q of None \<Rightarrow> None | Some f \<Rightarrow> mirror ?pv started (existing_row db q) (ids q) q f) else existing_row db q)"
    using scan_rows [OF run tree base old] by blast
  have f0: "files0 = files" using st(1) files by simp
  note wf = walk_root_files [OF files tree base(2)]
  have "\<exists>v. judge ?pv (existing_row db' p) p f = Inr v
      \<and> (\<forall>st header c. v \<noteq> Ingest st header c) \<and> (v = Unchanged \<longleftrightarrow> existing_row db' p \<noteq> None)" if pf: "(p, f) \<in> set files" for p f
  proof -
    have "settled ?pv (existing_row db p) p f"
      using scan_files_settled [OF st(2) _ loop_ok_start [OF old(1)]] pf wf(1) by (auto simp: f0)
    moreover have "existing_row db' p = mirror ?pv started (existing_row db p) (ids p) p f"
      using wf(2) [of p] pf map_of_is_SomeI [OF wf(1) pf] by (force simp: rows)
    ultimately show ?thesis by (rule judge_again)
  qed
  moreover have "q \<in> fst ` set files" if "existing_row db' q \<noteq> None" "starts_with (base @ ''/'') q" for q
  proof -
    have "map_of files q \<noteq> None" using that by (auto simp: rows split: option.splits)
    then show ?thesis by (simp add: map_of_eq_None_iff)
  qed
  moreover have "\<forall>item \<in> set (walk_factory_masters base node). \<exists>mf. item = Inr mf"
    using fold_res_items [OF st(3)] scan_master_Inr by metis
  ultimately show thesis using files by (intro that) auto
qed

lemma idle_flush:
  assumes "idle started db0 files s"
  obtains ps where "sc_db (flush_skipped started s) = touch_frames started ps db0"
    "{p \<in> fst ` set files. existing_row db0 p \<noteq> None} \<subseteq> set ps"
proof -
  from assms obtain ps where ps: "sc_db s = touch_frames started ps db0"
    "{p \<in> fst ` set files. existing_row db0 p \<noteq> None} \<subseteq> set ps \<union> set (sc_skipped s)"
    by (auto simp: idle_def)
  show thesis
    by (rule that [of "ps @ sc_skipped s"]) (use ps in \<open>auto simp: flush_skipped_def touch_touch\<close>)
qed

lemma no_orphans:
  assumes "\<forall>r \<in> set (sd_frames db). \<not> orphan prefix started r"
  shows "\<exists>db1 stats1. remove_orphans prefix started (db, stats) = (db1, stats1) \<and> catalog_of db1 = catalog_of db
    \<and> ss_removed stats1 = 0 \<and> ss_inserted stats1 = ss_inserted stats \<and> ss_updated stats1 = ss_updated stats"
proof -
  obtain db1 stats1 where r: "remove_orphans prefix started (db, stats) = (db1, stats1)" by force
  have "filter (orphan prefix started) (sd_frames db) = []" "filter (\<lambda>r. \<not> orphan prefix started r) (sd_frames db) = sd_frames db"
    using assms by (simp_all add: filter_empty_conv)
  then have "catalog_of db1 = catalog_of db \<and> ss_removed stats1 = 0 \<and> ss_inserted stats1 = ss_inserted stats \<and> ss_updated stats1 = ss_updated stats"
    using remove_orphans_frames [OF r] by (simp add: catalog_of_def)
  then show ?thesis using r by blast
qed

lemma recluster_again:
  assumes "cluster_sessions DEFAULT_GAP_MINUTES (catalog_of db) = Inr (catalog_of db)"
  shows "\<exists>db'. recluster db = Inr db' \<and> catalog_of db' = catalog_of db"
proof -
  obtain db' where "recluster db = Inr db'" using assms by (simp add: recluster_def)
  then show ?thesis using recluster_Inr(3) [of db db'] assms by auto
qed

text \<open>
  C10: scanning again. If nothing changed on the disk, a second scan of the same root succeeds; it ingests and removes
  nothing, the frames keep their ids and columns up to the stamp, and every session keeps its id, row, links and
  target.
\<close>

theorem second_scan_changes_nothing:
  assumes run: "scan env started base node db = Inr (db', stats)"
    and tree: "\<forall>x. node = Some x \<longrightarrow> wf_tree x"
    and base: "sn_resolve env base = base" "\<not> ends_with ''/'' base"
    and old: "wf_catalog (catalog_of db)" "distinct (map row_path (sd_frames db))"
      "\<forall>r \<in> set (sd_frames db). \<forall>t. rw_scanned_at r = Some t \<longrightarrow> t < started"
  shows "\<exists>db'' stats'. scan env started' base node db' = Inr (db'', stats') \<and> catalog_of db'' = catalog_of db'
    \<and> ss_inserted stats' = 0 \<and> ss_updated stats' = 0 \<and> ss_removed stats' = 0"
proof -
  obtain files where files: "walk_root base node = Inr files"
    and again: "\<forall>(p, f) \<in> set files. \<exists>v. judge (sn_values env) (existing_row db' p) p f = Inr v
      \<and> (\<forall>st header c. v \<noteq> Ingest st header c) \<and> (v = Unchanged \<longleftrightarrow> existing_row db' p \<noteq> None)"
    and known: "\<forall>q. existing_row db' q \<noteq> None \<longrightarrow> starts_with (base @ ''/'') q \<longrightarrow> q \<in> fst ` set files"
    and items: "\<forall>item \<in> set (walk_factory_masters base node). \<exists>mf. item = Inr mf"
    by (rule files_again [OF run tree base old(2,3)])
  have sound: "sound db" using old by (simp add: sound_def)
  note rebuilt = scan_rebuilt [OF run sound]
  obtain t1 where t1: "fold_res (scan_file (sn_values env) started') files (start_state db') = Inr t1" "idle started' db' files t1"
    using scan_files_idle [OF again] by blast
  obtain ps where ps: "sc_db (flush_skipped started' t1) = touch_frames started' ps db'"
      "{p \<in> fst ` set files. existing_row db' p \<noteq> None} \<subseteq> set ps"
    by (rule idle_flush [OF t1(2)])
  from scan_masters_total [OF items, of started' "flush_skipped started' t1"] obtain t2 where
    t2: "fold_res (scan_master started') (walk_factory_masters base node) (flush_skipped started' t1) = Inr t2"
      "ss_inserted (sc_stats t2) = 0" "ss_updated (sc_stats t2) = 0"
    using t1(2) by (auto simp: idle_def flush_skipped_def)
  note m = scan_masters_frames [OF t2(1)]
  have fr: "sd_frames (sc_db t2) = sd_frames (touch_frames started' ps db')" using m(1) by (simp add: ps(1))
  have "\<not> orphan (base @ ''/'') started' r" if r: "r \<in> set (sd_frames (sc_db t2))" for r
  proof -
    obtain r0 where r0: "r0 \<in> set (sd_frames db')" "r = (if row_path r0 \<in> set ps then stamp started' r0 else r0)"
      using r unfolding fr by (auto simp: touch_frames_def stamp_def)
    have e: "existing_row db' (row_path r0) \<noteq> None" using existing_in [OF _ r0(1)] rebuilt(1) by (simp add: sound_def)
    then have "starts_with (base @ ''/'') (row_path r0) \<Longrightarrow> row_path r0 \<in> set ps" using known ps(2) by blast
    then show ?thesis by (auto simp: r0(2) stale_def)
  qed
  then have "\<forall>r \<in> set (sd_frames (sc_db t2)). \<not> orphan (base @ ''/'') started' r" by blast
  from no_orphans [OF this, of "sc_stats t2"] obtain db1 stats1 where
    o: "remove_orphans (base @ ''/'') started' (sc_db t2, sc_stats t2) = (db1, stats1)" "catalog_of db1 = catalog_of (sc_db t2)"
      "ss_removed stats1 = 0" "ss_inserted stats1 = 0" "ss_updated stats1 = 0"
    using t2(2,3) by auto
  have c: "catalog_of db1 = catalog_of db'" using o(2) m(2) ps(1) by simp
  obtain db2 where db2: "recluster db1 = Inr db2" "catalog_of db2 = catalog_of db'"
    using recluster_again [of db1] rebuilt(2) c by auto
  obtain table n where match: "match_all_sessions (sn_texts env) (sn_profiles env) (sn_match_time env) (catalog_of db2)
      (map mr_master (sd_masters db2)) (sd_matches db2) = Inr (table, n)"
    using match_all_total [of "sn_texts env" "sn_profiles env" "sn_match_time env" "catalog_of db2"] by (metis prod.exhaust)
  have "scan env started' base node db' = Inr (db2\<lparr>sd_matches := table\<rparr>, stats1)"
    using t1(1) by (simp add: scan_def files or_stop_def start_state_def t2(1) base(1) o(1) db2(1) match)
  moreover have "catalog_of (db2\<lparr>sd_matches := table\<rparr>) = catalog_of db'" using db2(2) by (simp add: catalog_of_def)
  ultimately show ?thesis using o(3-5) by blast
qed


section \<open>A small capture tree\<close>

definition demo_values :: py_values where
  "demo_values = \<lparr>pv_str = (\<lambda>v. ''''), pv_float = (\<lambda>v. case v of JFloat (Fin x) \<Rightarrow> Some x | JInt n \<Rightarrow> Some (of_int n) | _ \<Rightarrow> None), pv_int = (\<lambda>v. case v of JInt n \<Rightarrow> Some n | _ \<Rightarrow> None),
     pv_column = (\<lambda>v. '''')\<rparr>"

definition demo_scan :: scan_env where
  "demo_scan = \<lparr>sn_values = demo_values, sn_resolve = id, sn_texts = demo_texts, sn_profiles = [], sn_match_time = 8\<rparr>"

definition demo_light :: fs_node where
  "demo_light = Regular \<lparr>fi_stat = Some (10, 3, 1), fi_hash = ''h'',
     fi_header = Some [(''TELESCOP'', JStr ''DWARFIII''), (''OBJECT'', JStr ''M  31(2)''), (''FILTER'', JStr ''Duo-Band''),
       (''DATE-OBS'', JStr ''2025-01-02T03:04:05'')]\<rparr>"

text \<open>A light, a master, a stacked preview and a folder that cannot be read.\<close>

definition demo_tree :: fs_node where
  "demo_tree = Directory (Some
     [(''a.fits'', demo_light), (''stacked-1.fits'', demo_light), (''gone'', Directory None),
      (''CALI_FRAME'', Directory (Some [(''flat'', Directory (Some [(''cam_0'', Directory (Some
         [(''flat_gain_2_bin_1_ir_2.fits'', Regular \<lparr>fi_stat = Some (5, 3, 2), fi_hash = ''f'', fi_header = Some []\<rparr>)]))]))]))])"

text \<open>The table before: a row of a file in the folder, and one of another root.\<close>

definition demo_row :: "int \<Rightarrow> string \<Rightarrow> frame_row" where
  "demo_row i p = \<lparr>rw_frame = (demo_frame i ''2024-01-01T00:00:00'')\<lparr>fr_path := p\<rparr>, rw_hash = Some ''x'', rw_inode = None,
     rw_mtime = Some 1, rw_size = Some 1, rw_ra = None, rw_dec = None, rw_headers = None, rw_scanned_at = Some 1\<rparr>"

definition demo_db :: scan_db where
  "demo_db = \<lparr>sd_frames = [demo_row 1 ''/c/gone/b.fits'', demo_row 2 ''/d/c.fits''], sd_masters = [], sd_sessions = [],
     sd_links = [], sd_targets = [], sd_matches = []\<rparr>"

lemma demo_scan_runs: "case scan demo_scan 5 ''/c'' (Some demo_tree) demo_db of
    Inl e \<Rightarrow> False
  | Inr (db, st) \<Rightarrow> map row_path (sd_frames db) = [''/d/c.fits'', ''/c/a.fits'']
      \<and> map (ma_filter \<circ> mr_master) (sd_masters db) = [Some ''HaOIII''] \<and> ss_removed st = 1"
  by code_simp


lemma demo_scan_Inr:
  obtains db st where "scan demo_scan 5 ''/c'' (Some demo_tree) demo_db = Inr (db, st)"
  using demo_scan_runs by (auto split: sum.splits)

lemma demo_conditions:
  "\<forall>x. Some demo_tree = Some x \<longrightarrow> wf_tree x" "sn_resolve demo_scan ''/c'' = ''/c''" "\<not> ends_with ''/'' ''/c''"
  "wf_catalog (catalog_of demo_db)" "distinct (map row_path (sd_frames demo_db))"
  "\<forall>r \<in> set (sd_frames demo_db). \<forall>t. rw_scanned_at r = Some t \<longrightarrow> t < 5"
proof -
  have "wf_tree demo_tree" "\<not> ends_with ''/'' ''/c''" by code_simp+
  then show "\<forall>x. Some demo_tree = Some x \<longrightarrow> wf_tree x" "\<not> ends_with ''/'' ''/c''" by simp_all
qed (simp_all add: demo_scan_def wf_catalog_def catalog_of_def demo_db_def demo_row_def demo_frame_def row_path_def)


lemma second_scan_changes_nothing_witness:
  "\<exists>db' stats db'' stats'. scan demo_scan 5 ''/c'' (Some demo_tree) demo_db = Inr (db', stats)
    \<and> scan demo_scan 9 ''/c'' (Some demo_tree) db' = Inr (db'', stats') \<and> ss_inserted stats' = 0"
proof -
  obtain db' stats where run: "scan demo_scan 5 ''/c'' (Some demo_tree) demo_db = Inr (db', stats)" by (rule demo_scan_Inr)
  from second_scan_changes_nothing [OF run demo_conditions, of 9] run show ?thesis by blast
qed

section \<open>Headers that surprise\<close>

text \<open>A temperature of nought is no truth value: it counts as missing.\<close>

lemma zero_temperature_lost:
  "coerce_float demo_values (first_truthy [(''DET-TEMP'', JFloat (Fin 0))] [''DET-TEMP'', ''CCD-TEMP'', ''SET-TEMP'']) = None"
  "coerce_float demo_values (first_truthy [(''DET-TEMP'', JFloat (Fin 1))] [''DET-TEMP'', ''CCD-TEMP'', ''SET-TEMP'']) = Some 1"
  by code_simp+

text \<open>A filter given by its number stops the scan where it stands.\<close>

definition numbered_filter :: fs_node where
  "numbered_filter = Directory (Some [(''a.fits'', Regular \<lparr>fi_stat = Some (10, 3, 1), fi_hash = ''h'',
     fi_header = Some [(''SWCREATE'', JStr ''N.I.N.A. 3''), (''IMAGETYP'', JStr ''LIGHT''), (''FILTER'', JInt 2)]\<rparr>)])"

lemma numbered_filter_stops_scan:
  "scan demo_scan 5 ''/c'' (Some numbered_filter) demo_db = Inl (Not_Text ''FILTER'', demo_db)"
proof -
  have "walk_root ''/c'' (Some numbered_filter) = Inr [(''/c/a.fits'', \<lparr>fi_stat = Some (10, 3, 1), fi_hash = ''h'',
      fi_header = Some [(''SWCREATE'', JStr ''N.I.N.A. 3''), (''IMAGETYP'', JStr ''LIGHT''), (''FILTER'', JInt 2)]\<rparr>)]"
    by code_simp
  moreover have "judge demo_values None ''/c/a.fits'' \<lparr>fi_stat = Some (10, 3, 1), fi_hash = ''h'',
      fi_header = Some [(''SWCREATE'', JStr ''N.I.N.A. 3''), (''IMAGETYP'', JStr ''LIGHT''), (''FILTER'', JInt 2)]\<rparr>
      = Inr (Ingest (10, 3, 1) [(''FILTER'', JInt 2), (''SWCREATE'', JStr ''N.I.N.A. 3''), (''IMAGETYP'', JStr ''LIGHT'')]
          \<lparr>cf_scope_id = ''nina'', cf_image_type = LIGHT, cf_failed = False\<rparr>)"
    by code_simp
  moreover have "existing_row demo_db ''/c/a.fits'' = None"
    by (simp add: existing_row_def demo_db_def demo_row_def row_path_def)
  ultimately show ?thesis
    by (simp add: scan_def or_stop_def scan_file_def Let_def tally_def scan_ingest_def ingest_frame_def frame_row_of_def
        object_name_def filter_name_def demo_scan_def)
qed

text \<open>A folder that cannot be read loses its rows although its files are still there.\<close>

lemma unreadable_folder_loses_rows:
  "map_sum id (\<lambda>(db, st). existing_row db ''/c/gone/b.fits'') (scan demo_scan 5 ''/c'' (Some demo_tree) demo_db) = Inr None"
proof -
  obtain db st where run: "scan demo_scan 5 ''/c'' (Some demo_tree) demo_db = Inr (db, st)" by (rule demo_scan_Inr)
  then have "map row_path (sd_frames db) = [''/d/c.fits'', ''/c/a.fits'']" using demo_scan_runs by simp
  then have "''/c/gone/b.fits'' \<notin> set (map row_path (sd_frames db))" by simp
  then show ?thesis using run by (simp add: existing_None)
qed

end
