(* ===== verification/Scan_State.thy ===== *)
theory Scan_State
  imports Scanner
begin

text \<open>
  The progress of the running scan (\<open>server/scan_state.py\<close>) and the callers in \<open>server/api.py\<close> that start a scan, report
  its progress and finish it: the first run, a request, and a finished copy from the scope. Every operation holds
  the module's lock, so a run is a sequence of operations.
\<close>

record scan_progress =
  sp_running :: bool
  sp_started_at :: "rat option"
  sp_finished_at :: "rat option"
  sp_current_path :: "string option"
  sp_discovered :: nat
  sp_inserted :: nat
  sp_updated :: nat
  sp_skipped :: nat
  sp_removed :: nat
  sp_failed :: nat
  sp_error :: "string option"
  sp_last_stats :: "scan_stats option"

definition initial_progress :: scan_progress where
  "initial_progress = \<lparr>sp_running = False, sp_started_at = None, sp_finished_at = None, sp_current_path = None,
     sp_discovered = 0, sp_inserted = 0, sp_updated = 0, sp_skipped = 0, sp_removed = 0, sp_failed = 0,
     sp_error = None, sp_last_stats = None\<rparr>"

text \<open>None when a scan is already running.\<close>

definition start_scan :: "rat \<Rightarrow> scan_progress \<Rightarrow> scan_progress option" where
  "start_scan now st =
     (if sp_running st then None
      else Some \<lparr>sp_running = True, sp_started_at = Some now, sp_finished_at = None, sp_current_path = None,
        sp_discovered = 0, sp_inserted = 0, sp_updated = 0, sp_skipped = 0, sp_removed = 0, sp_failed = 0,
        sp_error = None, sp_last_stats = None\<rparr>)"

definition update_scan :: "nat \<Rightarrow> string \<Rightarrow> scan_stats option \<Rightarrow> scan_progress \<Rightarrow> scan_progress" where
  "update_scan discovered current_path stats st =
     (let st1 = st\<lparr>sp_current_path := Some current_path, sp_discovered := discovered\<rparr>
      in case stats of
           None \<Rightarrow> st1
         | Some ss \<Rightarrow> st1\<lparr>sp_inserted := ss_inserted ss, sp_updated := ss_updated ss,
                         sp_skipped := ss_skipped_unchanged ss, sp_failed := ss_failed ss\<rparr>)"

definition finish_scan :: "rat \<Rightarrow> scan_stats option \<Rightarrow> string option \<Rightarrow> scan_progress \<Rightarrow> scan_progress" where
  "finish_scan now stats error st =
     (let st1 = st\<lparr>sp_running := False, sp_finished_at := Some now, sp_current_path := None, sp_error := error\<rparr>
      in case stats of None \<Rightarrow> st1 | Some ss \<Rightarrow> st1\<lparr>sp_last_stats := Some ss\<rparr>)"

text \<open>
  The server: the progress and the number of scan threads. Callers start a thread only when \<open>start_scan\<close> accepts; the
  thread reports what it has seen, and ends with its counters or an error.
\<close>

record scan_server =
  sv_progress :: scan_progress
  sv_threads :: nat

inductive scan_step :: "scan_server \<Rightarrow> scan_server \<Rightarrow> bool" where
  launch: "start_scan now (sv_progress s) = Some st
    \<Longrightarrow> scan_step s \<lparr>sv_progress = st, sv_threads = Suc (sv_threads s)\<rparr>"
| refused: "start_scan now (sv_progress s) = None \<Longrightarrow> scan_step s s"
| report: "0 < sv_threads s \<Longrightarrow> scan_step s (s\<lparr>sv_progress := update_scan seen path None (sv_progress s)\<rparr>)"
| ended: "0 < sv_threads s \<Longrightarrow> scan_step s
    \<lparr>sv_progress = finish_scan now (Some stats) None (sv_progress s), sv_threads = sv_threads s - 1\<rparr>"
| failed: "0 < sv_threads s \<Longrightarrow> scan_step s
    \<lparr>sv_progress = finish_scan now None (Some err) (sv_progress s), sv_threads = sv_threads s - 1\<rparr>"

definition scan_boot :: scan_server where
  "scan_boot = \<lparr>sv_progress = initial_progress, sv_threads = 0\<rparr>"

definition counters :: "scan_progress \<Rightarrow> nat list" where
  "counters st = [sp_inserted st, sp_updated st, sp_skipped st, sp_removed st, sp_failed st]"

lemma scan_step_invariant:
  assumes "scan_step\<^sup>*\<^sup>* scan_boot s"
  shows "sv_threads s = (if sp_running (sv_progress s) then 1 else 0) \<and> counters (sv_progress s) = [0, 0, 0, 0, 0]"
  using assms
proof (induction rule: rtranclp_induct)
  case base
  show ?case by (simp add: scan_boot_def initial_progress_def counters_def)
next
  case (step s t)
  from step.hyps(2) show ?case using step.IH
    by cases (auto simp: start_scan_def update_scan_def finish_scan_def counters_def Let_def split: if_splits)
qed

text \<open>Whoever asks for a scan, and whenever one ends or fails: at most one scan thread exists, and a scan is shown
  as running exactly while it does, so a new one is refused exactly then.\<close>

theorem one_scan_at_a_time:
  assumes "scan_step\<^sup>*\<^sup>* scan_boot s"
  shows "sv_threads s \<le> 1 \<and> (sp_running (sv_progress s) \<longleftrightarrow> sv_threads s = 1)
    \<and> (start_scan now (sv_progress s) = None \<longleftrightarrow> sv_threads s = 1)"
  using scan_step_invariant [OF assms] by (auto simp: start_scan_def split: if_splits)

lemma one_scan_at_a_time_witness:
  "start_scan 9 (the (start_scan 5 initial_progress)) = None"
proof -
  have "scan_step scan_boot \<lparr>sv_progress = the (start_scan 5 initial_progress), sv_threads = 1\<rparr>"
    using launch [of 5 scan_boot "the (start_scan 5 initial_progress)"]
    by (simp add: scan_boot_def start_scan_def initial_progress_def)
  then have "scan_step\<^sup>*\<^sup>* scan_boot \<lparr>sv_progress = the (start_scan 5 initial_progress), sv_threads = 1\<rparr>" by blast
  from one_scan_at_a_time [OF this, of 9] show ?thesis by simp
qed

text \<open>The callback reports no counters: what the status shows of them is 0 at all times, whatever a scan did.\<close>

lemma counters_never_move:
  "scan_step\<^sup>*\<^sup>* scan_boot s \<Longrightarrow> counters (sv_progress s) = [0, 0, 0, 0, 0]"
  using scan_step_invariant by blast

end
