(* ===== verification/Scope.thy ===== *)
theory Scope
  imports Astro_Prelude
begin

text \<open>
  Control of the telescope: which target to shoot (\<open>server/scope_plan.py\<close>), one observation in the background
  (\<open>scope_observe.py\<close>) and the scheduler that keeps the scope busy all night (\<open>scope_scheduler.py\<close>). The service on
  the scope is a machine that answers operations, the geometry of the sky a record of functions; clocks are
  arguments of a tick. A computation changes the world and ends in an error or a value.
\<close>

section \<open>Planning\<close>

record candidate =
  cd_name :: string
  cd_ra_deg :: rat
  cd_dec_deg :: rat

text \<open>The twilight window seen at a time; altitude and distance to the moon at a time. Times in seconds.\<close>

record sky =
  sk_window :: "rat \<Rightarrow> (rat \<times> rat) option"
  sk_alt :: "candidate \<Rightarrow> rat \<Rightarrow> rat"
  sk_moon :: "candidate \<Rightarrow> rat \<Rightarrow> rat"

definition MIN_ALT_DEG :: rat where
  "MIN_ALT_DEG = 30"

definition MOON_LIMIT_DEG :: rat where
  "MOON_LIMIT_DEG = 10"

definition LOOKAHEAD_MIN :: rat where
  "LOOKAHEAD_MIN = 20"

definition in_window :: "sky \<Rightarrow> rat \<Rightarrow> bool" where
  "in_window sk now = (case sk_window sk now of None \<Rightarrow> False | Some (dusk, dawn) \<Rightarrow> dusk \<le> now \<and> now \<le> dawn)"

definition usable :: "sky \<Rightarrow> candidate \<Rightarrow> rat \<Rightarrow> rat \<Rightarrow> rat option" where
  "usable sk c now min_alt =
     (let alt = sk_alt sk c now
      in if alt < min_alt then None
         else if sk_alt sk c (now + LOOKAHEAD_MIN * 60) < min_alt then None
         else if sk_moon sk c now < MOON_LIMIT_DEG then None
         else Some alt)"

definition usable_now :: "sky \<Rightarrow> candidate list \<Rightarrow> rat \<Rightarrow> string set \<Rightarrow> rat \<Rightarrow> (candidate \<times> rat) list" where
  "usable_now sk candidates now skip min_alt =
     List.map_filter (\<lambda>c. if cd_name c \<in> skip then None else map_option (\<lambda>alt. (c, alt)) (usable sk c now min_alt)) candidates"

definition pick_target ::
  "sky \<Rightarrow> candidate list \<Rightarrow> rat \<Rightarrow> string option \<Rightarrow> string set \<Rightarrow> rat \<Rightarrow> (candidate \<times> rat) option" where
  "pick_target sk candidates now current skip min_alt =
     (let picks = usable_now sk candidates now skip min_alt
      in if picks = [] then None
         else case find (\<lambda>p. Some (cd_name (fst p)) = current) picks of
           Some p \<Rightarrow> Some p
         | None \<Rightarrow> py_max snd picks)"

section \<open>The service and the world\<close>

datatype scope_error = Service_Error string string | Other_Error string

datatype scope_op =
    Get_Status | Start_Capture nat | Stop_Capture | Close_Barrel | Prepare_Scope | Calibrate_Scope
  | Goto_Target candidate

record scope_job =
  jo_running :: bool
  jo_captured :: int
  jo_failed :: int

text \<open>A status without a job reads as one that does not run and has no frames.\<close>

record scope_status =
  su_job :: scope_job
  su_pitch :: rat

type_synonym 's service = "scope_op \<Rightarrow> 's \<Rightarrow> (scope_error + scope_status) \<times> 's"

datatype obs_state = Obs_Idle | Obs_Running | Obs_Done | Obs_Failed

record observer =
  ob_state :: obs_state
  ob_step :: "string option"
  ob_target :: "string option"
  ob_error :: "string option"

text \<open>The scheduler's attributes; \<open>sh_sky_wait_until\<close> is 0 when no wait is on.\<close>

record scheduler =
  sh_enabled :: bool
  sh_skip :: "(string, rat) dict"
  sh_sky_wait_until :: rat
  sh_handled_failure :: "string option"
  sh_parked :: bool
  sh_state :: "string \<times> string option \<times> string option"
  sh_progress :: "string option \<times> int \<times> rat"
  sh_weather_checked :: rat
  sh_weather_alerted :: bool
  sh_last_target :: "string option"

datatype effect = Called scope_op | Notified string string | Started candidate

record 's world =
  w_sched :: scheduler
  w_obs :: observer
  w_service :: 's
  w_trace :: "effect list"

type_synonym ('s, 'a) scope = "'s world \<Rightarrow> (scope_error + 'a) \<times> 's world"

definition sreturn :: "'a \<Rightarrow> ('s, 'a) scope" where
  "sreturn a = (\<lambda>w. (Inr a, w))"

definition sraise :: "scope_error \<Rightarrow> ('s, 'a) scope" where
  "sraise e = (\<lambda>w. (Inl e, w))"

definition sbind :: "('s, 'a) scope \<Rightarrow> ('a \<Rightarrow> ('s, 'b) scope) \<Rightarrow> ('s, 'b) scope" where
  "sbind m f = (\<lambda>w. case m w of (Inl e, w') \<Rightarrow> (Inl e, w') | (Inr a, w') \<Rightarrow> f a w')"

definition sthen :: "('s, 'a) scope \<Rightarrow> ('s, 'b) scope \<Rightarrow> ('s, 'b) scope" where
  "sthen m n = sbind m (\<lambda>_. n)"

definition scatch :: "('s, 'a) scope \<Rightarrow> (scope_error \<Rightarrow> ('s, 'a) scope) \<Rightarrow> ('s, 'a) scope" where
  "scatch m h = (\<lambda>w. case m w of (Inl e, w') \<Rightarrow> h e w' | (Inr a, w') \<Rightarrow> (Inr a, w'))"

definition sget :: "('s world \<Rightarrow> 'a) \<Rightarrow> ('s, 'a) scope" where
  "sget f = (\<lambda>w. (Inr (f w), w))"

definition upd :: "(scheduler \<Rightarrow> scheduler) \<Rightarrow> ('s, unit) scope" where
  "upd f = (\<lambda>w. (Inr (), w\<lparr>w_sched := f (w_sched w)\<rparr>))"

definition emit :: "effect \<Rightarrow> ('s, unit) scope" where
  "emit e = (\<lambda>w. (Inr (), w\<lparr>w_trace := w_trace w @ [e]\<rparr>))"

definition service_call :: "'s service \<Rightarrow> scope_op \<Rightarrow> ('s, scope_status) scope" where
  "service_call sv op = (\<lambda>w.
     let (r, s) = sv op (w_service w) in (r, w\<lparr>w_service := s, w_trace := w_trace w @ [Called op]\<rparr>))"

definition notify :: "string \<Rightarrow> string \<Rightarrow> ('s, unit) scope" where
  "notify title message = emit (Notified title message)"

definition set_state :: "string \<Rightarrow> string option \<Rightarrow> string option \<Rightarrow> ('s, unit) scope" where
  "set_state state target reason = upd (\<lambda>h. h\<lparr>sh_state := (state, target, reason)\<rparr>)"

section \<open>An observation\<close>

text \<open>\<open>Observer.start\<close>; None for ObserveBusy.\<close>

definition observer_start :: "string \<Rightarrow> observer \<Rightarrow> observer option" where
  "observer_start name ob =
     (if ob_state ob = Obs_Running then None
      else Some \<lparr>ob_state = Obs_Running, ob_step = Some ''starting'', ob_target = Some name, ob_error = None\<rparr>)"

definition exc_text :: "scope_error \<Rightarrow> string" where
  "exc_text e = (case e of Service_Error code msg \<Rightarrow> msg | Other_Error msg \<Rightarrow> msg)"

text \<open>The steps of \<open>_run\<close>: the step shown while an operation runs, then the operation.\<close>

definition observe_plan :: "bool \<Rightarrow> candidate \<Rightarrow> nat \<Rightarrow> (string \<times> scope_op) list" where
  "observe_plan has_setup c frames =
     (if has_setup then [(''preparing'', Prepare_Scope), (''calibrating'', Calibrate_Scope)] else [])
     @ [(''slewing'', Goto_Target c), (''starting capture'', Start_Capture frames)]"

definition fail_with :: "scope_error \<Rightarrow> observer \<Rightarrow> observer" where
  "fail_with e ob = ob\<lparr>ob_state := Obs_Failed,
     ob_error := Some (case e of
        Service_Error code msg \<Rightarrow> (case ob_step ob of None \<Rightarrow> ''None'' | Some st \<Rightarrow> st) @ '': '' @ msg
      | Other_Error msg \<Rightarrow> msg)\<rparr>"

fun observe_steps :: "'s service \<Rightarrow> (string \<times> scope_op) list \<Rightarrow> observer \<Rightarrow> 's \<Rightarrow> observer list \<times> 's" where
  "observe_steps sv [] ob s = ([ob\<lparr>ob_state := Obs_Done, ob_step := Some ''capturing''\<rparr>], s)"
| "observe_steps sv ((step, op) # plan) ob s =
     (let ob1 = ob\<lparr>ob_step := Some step\<rparr>
      in case sv op s of
           (Inl e, s') \<Rightarrow> ([ob1, fail_with e ob1], s')
         | (Inr _, s') \<Rightarrow> let (obs, s'') = observe_steps sv plan ob1 s' in (ob1 # obs, s''))"

text \<open>The states the observer passes through; \<open>setup\<close> is the answer to \<open>client.has("setup")\<close>.\<close>

definition observe_run ::
  "'s service \<Rightarrow> scope_error + bool \<Rightarrow> candidate \<Rightarrow> nat \<Rightarrow> observer \<Rightarrow> 's \<Rightarrow> observer list \<times> 's" where
  "observe_run sv setup c frames ob s =
     (case setup of
        Inl e \<Rightarrow> ([fail_with e ob], s)
      | Inr has_setup \<Rightarrow> observe_steps sv (observe_plan has_setup c frames) ob s)"

section \<open>The scheduler\<close>

definition FRAMES_PER_RUN :: nat where
  "FRAMES_PER_RUN = 200"

definition FAIL_MIN_FRAMES :: int where
  "FAIL_MIN_FRAMES = 6"

definition FAIL_RATIO :: rat where
  "FAIL_RATIO = 1 / 2"

definition SKIP_AFTER_FAIL_S :: rat where
  "SKIP_AFTER_FAIL_S = 1800"

definition SKIP_AFTER_ERROR_S :: rat where
  "SKIP_AFTER_ERROR_S = 900"

definition SKY_WAIT_S :: rat where
  "SKY_WAIT_S = 300"

definition STALL_S :: rat where
  "STALL_S = 600"

definition WEATHER_EVERY_S :: rat where
  "WEATHER_EVERY_S = 1800"

definition BARREL_OPEN_PITCH :: rat where
  "BARREL_OPEN_PITCH = 30"

definition PROBE_FRAMES :: nat where
  "PROBE_FRAMES = 4"

definition PROBE_MAX_FAILED :: int where
  "PROBE_MAX_FAILED = 1"

text \<open>
  What a tick meets. \<open>te_polls\<close>: how often the probe's loop comes round before its timeout;
  \<open>te_warning\<close>: None when the weather check raises.
\<close>

record 's tick_env =
  te_client :: bool
  te_site :: bool
  te_service :: "'s service"
  te_sky :: sky
  te_targets :: "candidate list"
  te_now :: rat
  te_time :: rat
  te_time_after :: rat
  te_mono :: rat
  te_polls :: nat
  te_warning :: "string option option"

definition failing :: "scope_job \<Rightarrow> bool" where
  "failing job = (FAIL_MIN_FRAMES \<le> jo_captured job \<and> FAIL_RATIO < of_int (jo_failed job) / of_int (jo_captured job))"

definition active_skips :: "rat \<Rightarrow> scheduler \<Rightarrow> string set" where
  "active_skips now h = set (map fst (filter (\<lambda>(n, until). now < until) (sh_skip h)))"

definition skip_target :: "string option \<Rightarrow> rat \<Rightarrow> ('s, unit) scope" where
  "skip_target name until =
     (case name of
        Some n \<Rightarrow> if n = '''' then sreturn () else upd (\<lambda>h. h\<lparr>sh_skip := dput n until (sh_skip h)\<rparr>)
      | None \<Rightarrow> sreturn ())"

definition check_weather :: "'s tick_env \<Rightarrow> scope_status \<Rightarrow> ('s, unit) scope" where
  "check_weather te status =
     sbind (sget w_sched) (\<lambda>h.
       if te_mono te - sh_weather_checked h < WEATHER_EVERY_S then sreturn ()
       else sthen (upd (\<lambda>h. h\<lparr>sh_weather_checked := te_mono te\<rparr>))
         (case te_warning te of
            None \<Rightarrow> sreturn ()
          | Some None \<Rightarrow> upd (\<lambda>h. h\<lparr>sh_weather_alerted := False\<rparr>)
          | Some (Some warning) \<Rightarrow>
              if \<not> sh_weather_alerted h \<and> BARREL_OPEN_PITCH < su_pitch status then
                sthen (upd (\<lambda>h. h\<lparr>sh_weather_alerted := True\<rparr>))
                  (notify ''Scope weather'' (warning @ ''. Bring the scope in.''))
              else sreturn ()))"

definition stalled :: "'s tick_env \<Rightarrow> string option \<Rightarrow> scope_job \<Rightarrow> ('s, bool) scope" where
  "stalled te target job =
     sbind (sget (sh_progress \<circ> w_sched)) (\<lambda>(name, last, since).
       if name \<noteq> target \<or> jo_captured job \<noteq> last then
         sthen (upd (\<lambda>h. h\<lparr>sh_progress := (target, jo_captured job, te_mono te)\<rparr>)) (sreturn False)
       else sreturn (STALL_S < te_mono te - since))"

text \<open>The probe's loop: None when its time is up while the capture still runs.\<close>

fun poll :: "'s service \<Rightarrow> nat \<Rightarrow> scope_job \<Rightarrow> ('s, bool \<times> scope_job) scope" where
  "poll sv 0 job = sreturn (True, job)"
| "poll sv (Suc n) job =
     sbind (service_call sv Get_Status) (\<lambda>st.
       if \<not> jo_running (su_job st) then sreturn (False, su_job st) else poll sv n (su_job st))"

definition no_job :: scope_job where
  "no_job = \<lparr>jo_running = False, jo_captured = 0, jo_failed = 0\<rparr>"

definition probe :: "'s tick_env \<Rightarrow> ('s, bool) scope" where
  "probe te =
     sthen (set_state ''probing'' None (Some ''checking the sky''))
     (sthen (service_call (te_service te) (Start_Capture PROBE_FRAMES))
     (sbind (poll (te_service te) (te_polls te) no_job) (\<lambda>(timeout, job).
       sthen (if timeout then sthen (service_call (te_service te) Stop_Capture) (sreturn ()) else sreturn ())
         (sreturn (int PROBE_FRAMES \<le> jo_captured job \<and> jo_failed job \<le> PROBE_MAX_FAILED)))))"

definition park :: "'s tick_env \<Rightarrow> ('s, unit) scope" where
  "park te =
     scatch (sthen (service_call (te_service te) Close_Barrel) (upd (\<lambda>h. h\<lparr>sh_parked := True\<rparr>)))
       (\<lambda>e. case e of
          Service_Error code msg \<Rightarrow> if code = ''unsupported'' then upd (\<lambda>h. h\<lparr>sh_parked := True\<rparr>) else sraise e
        | Other_Error msg \<Rightarrow> sraise e)"

definition start_observation :: "candidate \<Rightarrow> ('s, unit) scope" where
  "start_observation c = (\<lambda>w.
     case observer_start (cd_name c) (w_obs w) of
       None \<Rightarrow> (Inl (Other_Error ''already observing''), w)
     | Some ob \<Rightarrow> (Inr (), w\<lparr>w_obs := ob, w_trace := w_trace w @ [Started c]\<rparr>))"

text \<open>A failed observation is answered once: the error text it was answered for is kept.\<close>

definition answer_failure :: "'s tick_env \<Rightarrow> ('s, unit) scope" where
  "answer_failure te =
     sbind (sget w_obs) (\<lambda>ob. sbind (sget (sh_handled_failure \<circ> w_sched)) (\<lambda>handled.
       if ob_state ob = Obs_Failed \<and> handled \<noteq> ob_error ob then
         sthen (upd (\<lambda>h. h\<lparr>sh_handled_failure := ob_error ob\<rparr>))
           (if ob_step ob = Some ''calibrating'' then
              sthen (upd (\<lambda>h. h\<lparr>sh_sky_wait_until := te_time te + SKY_WAIT_S\<rparr>))
                (notify ''Scope'' ''Sky not clear: calibration failed. Waiting and probing.'')
            else skip_target (ob_target ob) (te_time te + SKIP_AFTER_ERROR_S))
       else sreturn ()))"

text \<open>True when the step may go on: no wait is on, the scope captures, or the probe shows a clear sky.\<close>

definition sky_gate :: "'s tick_env \<Rightarrow> bool \<Rightarrow> ('s, bool) scope" where
  "sky_gate te capturing =
     sbind (sget (sh_sky_wait_until \<circ> w_sched)) (\<lambda>until.
       if \<not> capturing \<and> until \<noteq> 0 then
         (if te_time te < until then
            sthen (set_state ''waiting'' None (Some ''sky not clear, probing again soon'')) (sreturn False)
          else sbind (probe te) (\<lambda>clear.
            if \<not> clear then
              sthen (upd (\<lambda>h. h\<lparr>sh_sky_wait_until := te_time_after te + SKY_WAIT_S\<rparr>))
                (sthen (set_state ''waiting'' None (Some ''sky not clear, probing again soon'')) (sreturn False))
            else
              sthen (upd (\<lambda>h. h\<lparr>sh_sky_wait_until := 0\<rparr>))
                (sthen (notify ''Scope'' ''Sky is clear again'') (sreturn True))))
       else sreturn True)"

definition show_name :: "string option \<Rightarrow> string" where
  "show_name n = (case n of None \<Rightarrow> ''None'' | Some s \<Rightarrow> s)"

definition watch_capture :: "'s tick_env \<Rightarrow> scope_job \<Rightarrow> string option \<Rightarrow> ('s, unit) scope" where
  "watch_capture te job current =
     (let cand = find (\<lambda>c. Some (cd_name c) = current) (te_targets te)
      in sbind (stalled te current job) (\<lambda>stall.
        let bad = stall \<or> failing job
                  \<or> (case cand of None \<Rightarrow> True | Some c \<Rightarrow> usable (te_sky te) c (te_now te) MIN_ALT_DEG = None)
        in if \<not> bad then set_state ''observing'' current (Some ''capturing'')
           else
             sthen (if failing job \<or> stall then
                      sthen (skip_target current (te_time te + SKIP_AFTER_FAIL_S))
                        (notify ''Scope'' (''Leaving '' @ show_name current @ '': ''
                           @ (if stall then ''stalled'' else ''most frames rejected'')))
                    else sreturn ())
             (sthen (service_call (te_service te) Stop_Capture)
               (set_state ''switching'' None (Some (''leaving '' @ show_name current))))))"

text \<open>\<open>t\<close> is the clock when the skips are read: later than the tick's when a probe went before.\<close>

definition start_next :: "'s tick_env \<Rightarrow> rat \<Rightarrow> ('s, unit) scope" where
  "start_next te t =
     sbind (sget (active_skips t \<circ> w_sched)) (\<lambda>skip.
       case pick_target (te_sky te) (te_targets te) (te_now te) None skip MIN_ALT_DEG of
         None \<Rightarrow> set_state ''waiting'' None (Some ''no usable target, retrying'')
       | Some (c, alt) \<Rightarrow>
           sthen (start_observation c)
           (sthen (sbind (sget (sh_last_target \<circ> w_sched)) (\<lambda>last_name.
              if last_name \<noteq> Some (cd_name c) then
                sthen (notify ''Scope'' (''Now shooting '' @ cd_name c))
                  (upd (\<lambda>h. h\<lparr>sh_last_target := Some (cd_name c)\<rparr>))
              else sreturn ()))
           (set_state ''observing'' (Some (cd_name c)) (Some ''starting''))))"

definition preparing :: "observer \<Rightarrow> bool" where
  "preparing ob = (ob_state ob = Obs_Running \<and> ob_step ob \<noteq> Some ''capturing'')"

definition scope_step :: "'s tick_env \<Rightarrow> scope_job \<Rightarrow> ('s, unit) scope" where
  "scope_step te job =
     sbind (sget w_obs) (\<lambda>ob.
       if preparing ob then set_state ''observing'' (ob_target ob) (ob_step ob)
       else
         sthen (answer_failure te)
         (sbind (sget (sh_sky_wait_until \<circ> w_sched)) (\<lambda>until.
          sbind (sky_gate te (jo_running job)) (\<lambda>go.
            if \<not> go then sreturn ()
            else if jo_running job then watch_capture te job (ob_target ob)
            else start_next te (if until = 0 then te_time te else te_time_after te)))))"

definition tick_body :: "'s tick_env \<Rightarrow> ('s, unit) scope" where
  "tick_body te =
     sbind (service_call (te_service te) Get_Status) (\<lambda>status.
       sthen (check_weather te status)
         (if \<not> in_window (te_sky te) (te_now te) then
            sthen (if jo_running (su_job status) then sthen (service_call (te_service te) Stop_Capture) (sreturn ())
                   else sbind (sget (sh_parked \<circ> w_sched)) (\<lambda>parked. if parked then sreturn () else park te))
              (set_state ''waiting'' None (Some ''outside the night window''))
          else
            sthen (upd (\<lambda>h. h\<lparr>sh_parked := False\<rparr>)) (scope_step te (su_job status))))"

definition tick_error :: "scope_error \<Rightarrow> ('s, unit) scope" where
  "tick_error e =
     (case e of
        Service_Error code msg \<Rightarrow>
          sthen (sbind (sget (sh_state \<circ> w_sched)) (\<lambda>(st, _, _).
                   if st \<noteq> ''error'' then notify ''Scope error'' msg else sreturn ()))
            (set_state ''error'' None (Some msg))
      | Other_Error msg \<Rightarrow> sraise e)"

definition tick :: "'s tick_env \<Rightarrow> ('s, unit) scope" where
  "tick te =
     sbind (sget id) (\<lambda>w.
       if \<not> sh_enabled (w_sched w) then set_state ''off'' None None
       else if \<not> te_client te \<or> \<not> te_site te then
         set_state ''waiting'' None (Some ''scope service or site not configured'')
       else if preparing (w_obs w) then set_state ''observing'' (ob_target (w_obs w)) (ob_step (w_obs w))
       else scatch (tick_body te) tick_error)"

section \<open>What is started\<close>

text \<open>
  \<open>starting_with Q m\<close>: \<open>m\<close> only appends to the trace, and every observation it starts makes \<open>Q\<close> true of the
  world it ends in. \<open>silent\<close> computations start none.
\<close>

definition starting_with :: "(candidate \<Rightarrow> 's world \<Rightarrow> bool) \<Rightarrow> ('s, 'a) scope \<Rightarrow> bool" where
  "starting_with Q m \<longleftrightarrow> (\<forall>w. \<exists>es. w_trace (snd (m w)) = w_trace w @ es \<and> (\<forall>c. Started c \<in> set es \<longrightarrow> Q c (snd (m w))))"

abbreviation silent :: "('s, 'a) scope \<Rightarrow> bool" where
  "silent \<equiv> starting_with (\<lambda>_ _. False)"

lemma starting_withI:
  "(\<And>w. \<exists>es. w_trace (snd (m w)) = w_trace w @ es \<and> (\<forall>c. Started c \<in> set es \<longrightarrow> Q c (snd (m w)))) \<Longrightarrow> starting_with Q m"
  by (simp add: starting_with_def)

lemma starting_withE:
  assumes "starting_with Q m"
  obtains es where "w_trace (snd (m w)) = w_trace w @ es" "\<And>c. Started c \<in> set es \<Longrightarrow> Q c (snd (m w))"
  using assms by (auto simp: starting_with_def)

named_theorems silence

lemma silent_basic [silence]:
  "starting_with Q (sreturn a)" "starting_with Q (sraise e)" "starting_with Q (sget f)" "starting_with Q (upd g)"
  by (auto simp: starting_with_def sreturn_def sraise_def sget_def upd_def)

lemma silent_notify [silence]: "starting_with Q (notify title message)"
  by (auto simp: starting_with_def notify_def emit_def)

lemma silent_service [silence]: "starting_with Q (service_call sv op)"
  by (auto simp: starting_with_def service_call_def split_beta Let_def)

lemma silent_set_state [silence]: "starting_with Q (set_state a b d)"
  unfolding set_state_def by (rule silent_basic)

lemma silent_weaken: "silent m \<Longrightarrow> starting_with Q m"
  unfolding starting_with_def by metis

lemma starting_with_bind:
  assumes "silent m" "\<And>a. starting_with Q (f a)"
  shows "starting_with Q (sbind m f)"
proof (rule starting_withI)
  fix w
  obtain es where es: "w_trace (snd (m w)) = w_trace w @ es" "\<And>c. Started c \<notin> set es"
    using assms(1) by (rule starting_withE) blast
  show "\<exists>es. w_trace (snd (sbind m f w)) = w_trace w @ es \<and> (\<forall>c. Started c \<in> set es \<longrightarrow> Q c (snd (sbind m f w)))"
  proof (cases "m w")
    case (Pair r w')
    show ?thesis
    proof (cases r)
      case (Inl e)
      then show ?thesis using es Pair by (auto simp: sbind_def)
    next
      case (Inr a)
      obtain fs where fs: "w_trace (snd (f a w')) = w_trace w' @ fs" "\<And>c. Started c \<in> set fs \<Longrightarrow> Q c (snd (f a w'))"
        using starting_withE [OF assms(2) [of a]] by metis
      show ?thesis using es fs Pair Inr by (intro exI [of _ "es @ fs"]) (auto simp: sbind_def)
    qed
  qed
qed

lemma starting_with_then: "silent m \<Longrightarrow> starting_with Q n \<Longrightarrow> starting_with Q (sthen m n)"
  unfolding sthen_def by (rule starting_with_bind)

lemma starting_with_catch:
  assumes "starting_with Q m" "\<And>e. silent (h e)" "\<And>e w c. Q c w \<Longrightarrow> Q c (snd (h e w))"
  shows "starting_with Q (scatch m h)"
proof (rule starting_withI)
  fix w
  obtain es where es: "w_trace (snd (m w)) = w_trace w @ es" "\<And>c. Started c \<in> set es \<Longrightarrow> Q c (snd (m w))"
    using assms(1) by (rule starting_withE) blast
  show "\<exists>es. w_trace (snd (scatch m h w)) = w_trace w @ es \<and> (\<forall>c. Started c \<in> set es \<longrightarrow> Q c (snd (scatch m h w)))"
  proof (cases "m w")
    case (Pair r w')
    show ?thesis
    proof (cases r)
      case (Inl e)
      obtain fs where fs: "w_trace (snd (h e w')) = w_trace w' @ fs" "\<And>c. Started c \<notin> set fs"
        using assms(2) by (rule starting_withE) blast
      show ?thesis using es fs Pair Inl assms(3) by (intro exI [of _ "es @ fs"]) (auto simp: scatch_def)
    next
      case (Inr a)
      then show ?thesis using es Pair by (auto simp: scatch_def)
    qed
  qed
qed

lemma starting_with_if: "(b \<Longrightarrow> starting_with Q m) \<Longrightarrow> (\<not> b \<Longrightarrow> starting_with Q n) \<Longrightarrow> starting_with Q (if b then m else n)"
  by simp

lemmas silent_rules = starting_with_if starting_with_then starting_with_bind

lemma silent_skip [silence]: "starting_with Q (skip_target name until)"
  by (simp add: skip_target_def silence split: option.split)

lemma silent_weather [silence]: "starting_with Q (check_weather te status)"
  unfolding check_weather_def
  by (intro silent_rules silence) (auto simp: silence starting_with_then split: option.split)

lemma silent_stalled [silence]: "starting_with Q (stalled te target job)"
  unfolding stalled_def by (intro starting_with_bind silence) (auto intro!: silent_rules silence)

lemma silent_poll [silence]: "starting_with Q (poll sv n job)"
  by (induction n arbitrary: job) (auto intro!: silent_rules silence)

lemma silent_probe [silence]: "starting_with Q (probe te)"
  unfolding probe_def by (intro starting_with_then starting_with_bind silence) (auto intro!: silent_rules silence)

lemma silent_park [silence]: "starting_with Q (park te)"
proof -
  have "silent (park te)" unfolding park_def
    by (rule starting_with_catch) (auto intro!: silent_rules silence split: scope_error.split)
  then show ?thesis by (rule silent_weaken)
qed

lemma silent_answer_failure [silence]: "starting_with Q (answer_failure te)"
  unfolding answer_failure_def by (intro silent_rules silence)

lemma silent_sky_gate [silence]: "starting_with Q (sky_gate te capturing)"
  unfolding sky_gate_def by (intro silent_rules silence)

lemma silent_watch_capture [silence]: "starting_with Q (watch_capture te job current)"
  unfolding watch_capture_def Let_def by (intro silent_rules silence)

lemma silent_tick_error [silence]: "starting_with Q (tick_error e)"
  unfolding tick_error_def by (cases e) (auto intro!: silent_rules silence)

text \<open>What holds of a target that is started, of the world it is started in.\<close>

definition good_start :: "'s tick_env \<Rightarrow> candidate \<Rightarrow> 's world \<Rightarrow> bool" where
  "good_start te c w \<longleftrightarrow>
     c \<in> set (te_targets te) \<and> cd_name c \<notin> active_skips (te_time_after te) (w_sched w)
     \<and> usable (te_sky te) c (te_now te) MIN_ALT_DEG \<noteq> None
     \<and> (\<forall>d alt. d \<in> set (te_targets te) \<and> cd_name d \<notin> active_skips (te_time te) (w_sched w)
                \<and> usable (te_sky te) d (te_now te) MIN_ALT_DEG = Some alt \<longrightarrow> alt \<le> sk_alt (te_sky te) c (te_now te))
     \<and> ob_state (w_obs w) = Obs_Running \<and> ob_target (w_obs w) = Some (cd_name c)"

lemma usable_alt: "usable sk c now m = Some alt \<Longrightarrow> alt = sk_alt sk c now"
  by (auto simp: usable_def Let_def split: if_splits)

lemma usable_now_in:
  "(c, alt) \<in> set (usable_now sk cs now skip m) \<longleftrightarrow> c \<in> set cs \<and> cd_name c \<notin> skip \<and> usable sk c now m = Some alt"
  by (force simp: usable_now_def List.map_filter_def image_iff split: if_splits option.splits)

lemma find_never: "find (\<lambda>_. False) xs = None"
  by (induction xs) auto

lemma pick_highest:
  assumes "pick_target sk cs now None skip m = Some (c, alt)"
  shows "c \<in> set cs \<and> cd_name c \<notin> skip \<and> usable sk c now m = Some alt"
    "\<And>d b. d \<in> set cs \<Longrightarrow> cd_name d \<notin> skip \<Longrightarrow> usable sk d now m = Some b \<Longrightarrow> b \<le> alt"
proof -
  let ?ps = "usable_now sk cs now skip m"
  have max: "py_max snd ?ps = Some (c, alt)"
    using assms by (auto simp: pick_target_def Let_def find_never split: if_splits option.splits)
  show "c \<in> set cs \<and> cd_name c \<notin> skip \<and> usable sk c now m = Some alt"
    using py_max_in [OF max] by (simp add: usable_now_in)
  fix d b assume "d \<in> set cs" "cd_name d \<notin> skip" "usable sk d now m = Some b"
  then have "(d, b) \<in> set ?ps" by (simp add: usable_now_in)
  from py_max_ge [OF max this] show "b \<le> alt" by simp
qed

lemma active_skips_mono: "t \<le> t' \<Longrightarrow> active_skips t' h \<subseteq> active_skips t h"
  by (auto simp: active_skips_def intro!: rev_image_eqI)

lemma good_start_state:
  "good_start te c (w\<lparr>w_sched := (w_sched w)\<lparr>sh_state := x\<rparr>\<rparr>) = good_start te c w"
  "good_start te c (w\<lparr>w_sched := (w_sched w)\<lparr>sh_last_target := y\<rparr>\<rparr>) = good_start te c w"
  "good_start te c (w\<lparr>w_trace := tr\<rparr>) = good_start te c w"
  by (simp_all add: good_start_def active_skips_def)

lemma start_next_trace:
  assumes "te_time te \<le> t" "t \<le> te_time_after te"
  shows "starting_with (good_start te) (start_next te t)"
proof (rule starting_withI)
  fix w :: "'a world"
  let ?skip = "active_skips t (w_sched w)"
  show "\<exists>es. w_trace (snd (start_next te t w)) = w_trace w @ es
             \<and> (\<forall>c. Started c \<in> set es \<longrightarrow> good_start te c (snd (start_next te t w)))"
  proof (cases "pick_target (te_sky te) (te_targets te) (te_now te) None ?skip MIN_ALT_DEG")
    case None
    then show ?thesis by (simp add: start_next_def sbind_def sget_def set_state_def upd_def)
  next
    case (Some p)
    obtain c alt where p: "p = (c, alt)" by (cases p)
    note best = pick_highest [OF Some [unfolded p]]
    show ?thesis
    proof (cases "ob_state (w_obs w) = Obs_Running")
      case True
      then show ?thesis using Some p
        by (simp add: start_next_def sbind_def sthen_def sget_def start_observation_def observer_start_def)
    next
      case False
      have "good_start te c (w\<lparr>w_obs := \<lparr>ob_state = Obs_Running, ob_step = Some ''starting'', ob_target = Some (cd_name c), ob_error = None\<rparr>\<rparr>)"
        using best usable_alt [of "te_sky te" c "te_now te" MIN_ALT_DEG alt] active_skips_mono [OF assms(1), of "w_sched w"]
          active_skips_mono [OF assms(2), of "w_sched w"]
        by (auto simp: good_start_def active_skips_def)
      then show ?thesis using Some p False
        by (auto simp: start_next_def sbind_def sthen_def sget_def start_observation_def observer_start_def sreturn_def
              notify_def emit_def upd_def set_state_def good_start_def active_skips_def)
    qed
  qed
qed

lemma scope_step_trace:
  assumes "te_time te \<le> te_time_after te"
  shows "starting_with (good_start te) (scope_step te job)"
  unfolding scope_step_def using assms by (intro silent_rules silence start_next_trace) auto

lemma tick_error_keeps: "good_start te c w \<Longrightarrow> good_start te c (snd (tick_error e w))"
  by (cases e) (auto simp: tick_error_def sthen_def sbind_def sget_def notify_def emit_def sreturn_def sraise_def
      set_state_def upd_def good_start_def active_skips_def split: prod.split)

lemma tick_body_trace:
  assumes "te_time te \<le> te_time_after te"
  shows "starting_with (\<lambda>c w. in_window (te_sky te) (te_now te) \<and> good_start te c w) (tick_body te)"
proof (cases "in_window (te_sky te) (te_now te)")
  case True
  have "starting_with (good_start te) (tick_body te)"
    unfolding tick_body_def using assms True by (intro silent_rules silence scope_step_trace) auto
  then show ?thesis using True by simp
next
  case False
  then show ?thesis unfolding tick_body_def by (intro silent_rules silence) auto
qed

lemma tick_trace:
  assumes "te_time te \<le> te_time_after te"
  shows "\<exists>es. w_trace (snd (tick te w)) = w_trace w @ es \<and> (\<forall>c. Started c \<in> set es \<longrightarrow>
           sh_enabled (w_sched w) \<and> te_client te \<and> te_site te \<and> in_window (te_sky te) (te_now te)
           \<and> good_start te c (snd (tick te w)))"
proof -
  let ?Q = "\<lambda>c w. in_window (te_sky te) (te_now te) \<and> good_start te c w"
  have caught: "starting_with ?Q (scatch (tick_body te) tick_error)"
    using assms tick_error_keeps by (intro starting_with_catch tick_body_trace silence) auto
  show ?thesis
  proof (cases "sh_enabled (w_sched w) \<and> te_client te \<and> te_site te \<and> \<not> preparing (w_obs w)")
    case True
    then have "tick te w = scatch (tick_body te) tick_error w" by (simp add: tick_def sbind_def sget_def)
    with starting_withE [OF caught, of w] True show ?thesis by metis
  next
    case False
    then show ?thesis by (auto simp: tick_def sbind_def sget_def set_state_def upd_def)
  qed
qed

text \<open>
  C11: What a tick of the scheduler starts: only while it is enabled, with a service and a site, in the night
  window; a target of the list that is high enough now and in twenty minutes and away from the moon, not among
  the skipped ones, and no usable target that is not skipped stands higher. Errors of the service on the way
  do not change this, and the observer then runs on that target.\<close>

theorem tick_starts_best_target:
  assumes "te_time te \<le> te_time_after te"
    "Started c \<in> set (drop (length (w_trace w)) (w_trace (snd (tick te w))))"
  shows "sh_enabled (w_sched w) \<and> te_client te \<and> te_site te \<and> in_window (te_sky te) (te_now te)
         \<and> good_start te c (snd (tick te w))"
proof -
  obtain es where es: "w_trace (snd (tick te w)) = w_trace w @ es"
    and Q: "\<And>c. Started c \<in> set es \<Longrightarrow> sh_enabled (w_sched w) \<and> te_client te \<and> te_site te
       \<and> in_window (te_sky te) (te_now te) \<and> good_start te c (snd (tick te w))"
    using tick_trace [OF assms(1), of w] by metis
  from assms(2) have "Started c \<in> set es" by (simp add: es)
  then show ?thesis by (rule Q)
qed

definition demo_service :: "nat service" where
  "demo_service op n = (Inr \<lparr>su_job = no_job, su_pitch = 0\<rparr>, Suc n)"

definition demo_targets :: "candidate list" where
  "demo_targets =
     [\<lparr>cd_name = ''M31'', cd_ra_deg = 10, cd_dec_deg = 41\<rparr>, \<lparr>cd_name = ''M42'', cd_ra_deg = 83, cd_dec_deg = -5\<rparr>,
      \<lparr>cd_name = ''M51'', cd_ra_deg = 202, cd_dec_deg = 47\<rparr>]"

definition demo_env :: "nat tick_env" where
  "demo_env = \<lparr>te_client = True, te_site = True, te_service = demo_service,
     te_sky = \<lparr>sk_window = \<lambda>t. Some (0, 1000), sk_alt = \<lambda>c t. cd_dec_deg c, sk_moon = \<lambda>c t. 90\<rparr>,
     te_targets = demo_targets, te_now = 100, te_time = 100, te_time_after = 250, te_mono = 100, te_polls = 15,
     te_warning = Some None\<rparr>"

definition demo_world :: "string option \<Rightarrow> nat world" where
  "demo_world handled = \<lparr>
     w_sched = \<lparr>sh_enabled = True, sh_skip = [(''M51'', 900)], sh_sky_wait_until = 0, sh_handled_failure = handled,
        sh_parked = True, sh_state = (''waiting'', None, None), sh_progress = (None, -1, 0), sh_weather_checked = 0,
        sh_weather_alerted = False, sh_last_target = None\<rparr>,
     w_obs = \<lparr>ob_state = Obs_Failed, ob_step = Some ''calibrating'', ob_target = Some ''M31'',
        ob_error = Some ''calibrating: sky''\<rparr>,
     w_service = 0, w_trace = []\<rparr>"

lemma demo_starts:
  "w_trace (snd (tick demo_env (demo_world (Some ''calibrating: sky'')))) =
     [Called Get_Status, Started (hd demo_targets), Notified ''Scope'' ''Now shooting M31'']"
  by code_simp

lemma tick_starts_best_target_witness:
  "good_start demo_env (hd demo_targets) (snd (tick demo_env (demo_world (Some ''calibrating: sky''))))"
proof -
  have time: "te_time demo_env \<le> te_time_after demo_env" by (simp add: demo_env_def)
  have fresh: "w_trace (demo_world x) = []" for x by (simp add: demo_world_def)
  show ?thesis using tick_starts_best_target [OF time, of "hd demo_targets" "demo_world (Some ''calibrating: sky'')"]
    by (simp add: demo_starts fresh)
qed

text \<open>
  The first calibration that fails makes the scheduler wait. A second one that fails with the same words is taken
  for the one already answered: the scope goes back to the same target at once.
\<close>

lemma same_failure_not_answered:
  "sh_sky_wait_until (w_sched (snd (tick demo_env (demo_world None)))) = 400"
  "Started (hd demo_targets) \<notin> set (w_trace (snd (tick demo_env (demo_world None))))"
  "sh_sky_wait_until (w_sched (snd (tick demo_env (demo_world (Some ''calibrating: sky''))))) = 0"
  "Started (hd demo_targets) \<in> set (w_trace (snd (tick demo_env (demo_world (Some ''calibrating: sky'')))))"
  by code_simp+

section \<open>An observation ends\<close>

text \<open>The answers of the service to a plan, up to the first error.\<close>

fun first_error :: "'s service \<Rightarrow> (string \<times> scope_op) list \<Rightarrow> 's \<Rightarrow> (string \<times> scope_error) option" where
  "first_error sv [] s = None"
| "first_error sv ((step, op) # plan) s =
     (case sv op s of (Inl e, s') \<Rightarrow> Some (step, e) | (Inr _, s') \<Rightarrow> first_error sv plan s')"

definition running_at :: "observer \<Rightarrow> observer \<Rightarrow> bool" where
  "running_at ob ob1 \<longleftrightarrow> ob_state ob1 = Obs_Running \<and> ob_target ob1 = ob_target ob \<and> ob_error ob1 = ob_error ob"

lemma running_at_step [simp]: "running_at (ob\<lparr>ob_step := x\<rparr>) = running_at ob"
  by (auto simp: running_at_def)

lemma observe_steps_nonempty [simp]: "fst (observe_steps sv plan ob s) \<noteq> []"
  by (cases plan) (auto simp: Let_def split_beta split: sum.splits prod.splits)

lemma observe_steps_running:
  "ob_state ob = Obs_Running \<Longrightarrow> list_all (running_at ob) (butlast (fst (observe_steps sv plan ob s)))"
proof (induction plan arbitrary: ob s)
  case (Cons p plan)
  show ?case using Cons.prems Cons.IH [of "ob\<lparr>ob_step := Some (fst p)\<rparr>"]
    by (cases p) (auto simp: Let_def split_beta running_at_def split: sum.split)
qed simp

lemma observe_steps_last:
  "last (fst (observe_steps sv plan ob s)) =
     (case first_error sv plan s of
        None \<Rightarrow> ob\<lparr>ob_state := Obs_Done, ob_step := Some ''capturing''\<rparr>
      | Some (step, e) \<Rightarrow> fail_with e (ob\<lparr>ob_step := Some step\<rparr>))"
proof (induction plan arbitrary: ob s)
  case (Cons p plan)
  show ?case using Cons.IH [of "ob\<lparr>ob_step := Some (fst p)\<rparr>"]
    by (cases p) (auto simp: Let_def split_beta split: sum.split option.split)
qed simp

lemmas observe_steps_end = observe_steps_running observe_steps_last

text \<open>An observation that is accepted ends: while it runs it keeps its target and shows no error, and its last
  state is done and capturing exactly when the service answers every step of the plan (prepare and calibrate
  where it can, slew, start the capture); otherwise it has failed with a message that names the step. One that
  is not accepted means that another runs.\<close>

theorem observation_ends:
  "case observer_start name ob0 of
     None \<Rightarrow> ob_state ob0 = Obs_Running
   | Some ob \<Rightarrow>
       (let obs = fst (observe_run sv (Inr has_setup) c frames ob s)
        in list_all (running_at ob) (butlast obs) \<and> ob_target (last obs) = Some name \<and>
           (case first_error sv (observe_plan has_setup c frames) s of
              None \<Rightarrow> ob_state (last obs) = Obs_Done \<and> ob_step (last obs) = Some ''capturing''
            | Some (step, e) \<Rightarrow> ob_state (last obs) = Obs_Failed \<and> ob_step (last obs) = Some step \<and>
                (case e of Service_Error code msg \<Rightarrow> ob_error (last obs) = Some (step @ '': '' @ msg)
                 | Other_Error msg \<Rightarrow> ob_error (last obs) = Some msg)))"
proof (cases "ob_state ob0 = Obs_Running")
  case True
  then show ?thesis by (simp add: observer_start_def)
next
  case False
  show ?thesis using False
    by (auto simp: observer_start_def observe_run_def observe_steps_end Let_def fail_with_def
        split: option.split scope_error.split)
qed

end
