(* ===== verification/Mirror.thy ===== *)
theory Mirror
  imports Py_Text "HOL-Library.Word" "HOL-Library.Sublist"
begin

text \<open>
  Getting the captured files from the scope (\<open>server/scope_mirror.py\<close>) and stacking a session once its frames stop
  arriving (\<open>server/scope_autostack.py\<close>). The service on the scope is a record of functions over its own state;
  an exception is the text of its message. Local files are a map from session and file name, below the capture
  root, to bytes. Errors of the local disk are not modelled.
\<close>

section \<open>Copying one file\<close>

type_synonym bytes = "8 word list"

record remote_entry =
  re_name :: string
  re_dir :: bool
  re_size :: nat

record 's scope_files =
  sf_has :: "'s \<Rightarrow> (string + bool) \<times> 's"
  sf_list :: "string \<Rightarrow> 's \<Rightarrow> (string + remote_entry list) \<times> 's"
  sf_read :: "string \<Rightarrow> nat \<Rightarrow> nat \<Rightarrow> 's \<Rightarrow> (string + bytes) \<times> 's"

type_synonym local_files = "string \<times> string \<Rightarrow> bytes option"

definition SESSION_PREFIX :: string where
  "SESSION_PREFIX = ''DWARF_RAW_''"

definition CHUNK_BYTES :: nat where
  "CHUNK_BYTES = 1048576"

definition part_of :: "string \<times> string \<Rightarrow> string \<times> string" where
  "part_of loc = (fst loc, snd loc @ ''.part'')"

definition write_at :: "bytes \<Rightarrow> nat \<Rightarrow> bytes \<Rightarrow> bytes" where
  "write_at buf offset data = take offset buf @ data @ drop (offset + length data) buf"

text \<open>The loop over the chunks: an error leaves what was written.\<close>

function copy_chunks ::
  "'s scope_files \<Rightarrow> string \<Rightarrow> nat \<Rightarrow> nat \<Rightarrow> bytes \<Rightarrow> 's \<Rightarrow> (string + unit) \<times> bytes \<times> 's" where
  "copy_chunks sv remote sz offset buf s =
     (if offset < sz then
        (case sf_read sv remote offset CHUNK_BYTES s of
           (Inl e, s') \<Rightarrow> (Inl e, buf, s')
         | (Inr data, s') \<Rightarrow>
             if data = [] then (Inl (''empty read at '' @ show_nat offset @ '' of '' @ remote), buf, s')
             else copy_chunks sv remote sz (offset + length data) (write_at buf offset data) s')
      else (Inr (), buf, s))"
  by pat_completeness auto

termination
  by (relation "measure (\<lambda>(sv, remote, sz, offset, buf, s). sz - offset)") (auto intro!: diff_less_mono2)

declare copy_chunks.simps [simp del]

lemma copy_chunks_end [simp]: "sz \<le> offset \<Longrightarrow> copy_chunks sv remote sz offset buf s = (Inr (), buf, s)"
  by (simp add: copy_chunks.simps)

definition copy_file ::
  "'s scope_files \<Rightarrow> string \<Rightarrow> nat \<Rightarrow> string \<times> string \<Rightarrow> local_files \<Rightarrow> 's \<Rightarrow> (string + bool) \<times> local_files \<times> 's" where
  "copy_file sv remote sz loc fs s =
     (if (case fs loc of Some b \<Rightarrow> length b = sz | None \<Rightarrow> False) then (Inr False, fs, s)
      else
        let part = part_of loc;
            have = (case fs part of None \<Rightarrow> 0 | Some b \<Rightarrow> length b);
            offset = (if sz < have then 0 else have);
            buf = (if offset = 0 then [] else the (fs part));
            (r, buf', s') = copy_chunks sv remote sz offset buf s
        in case r of
             Inl e \<Rightarrow> (Inl e, fs(part \<mapsto> buf'), s')
           | Inr _ \<Rightarrow> (Inr True, fs(part := None, loc \<mapsto> buf'), s'))"

section \<open>One pass of the mirror\<close>

definition list_sessions :: "'s scope_files \<Rightarrow> 's \<Rightarrow> (string + string list) \<times> 's" where
  "list_sessions sv s =
     (case sf_list sv '''' s of
        (Inl e, s') \<Rightarrow> (Inl e, s')
      | (Inr entries, s') \<Rightarrow>
          (Inr (sort (map re_name (filter (\<lambda>e. re_dir e \<and> starts_with SESSION_PREFIX (re_name e)) entries))), s'))"

fun mirror_entries ::
  "'s scope_files \<Rightarrow> string \<Rightarrow> remote_entry list \<Rightarrow> nat \<Rightarrow> local_files \<Rightarrow> 's \<Rightarrow> (string + nat) \<times> local_files \<times> 's" where
  "mirror_entries sv session [] copied fs s = (Inr copied, fs, s)"
| "mirror_entries sv session (e # es) copied fs s =
     (if re_dir e then mirror_entries sv session es copied fs s
      else case copy_file sv (session @ ''/'' @ re_name e) (re_size e) (session, re_name e) fs s of
             (Inl err, fs', s') \<Rightarrow> (Inl err, fs', s')
           | (Inr b, fs', s') \<Rightarrow> mirror_entries sv session es (if b then Suc copied else copied) fs' s')"

definition mirror_session ::
  "'s scope_files \<Rightarrow> string \<Rightarrow> local_files \<Rightarrow> 's \<Rightarrow> (string + nat) \<times> local_files \<times> 's" where
  "mirror_session sv session fs s =
     (case sf_list sv session s of
        (Inl e, s') \<Rightarrow> (Inl e, fs, s')
      | (Inr entries, s') \<Rightarrow> mirror_entries sv session entries 0 fs s')"

record mirror_state =
  mi_state :: string
  mi_files_copied :: nat
  mi_last_ok :: "rat option"
  mi_error :: "string option"
  mi_current :: "string option"

datatype mirror_event = Saved_Baseline "string list" | Session_Copied string | Frames_Copied

text \<open>The loop over the sessions, with the callbacks it makes.\<close>

fun mirror_sessions ::
  "'s scope_files \<Rightarrow> string list \<Rightarrow> string list \<Rightarrow> nat \<Rightarrow> mirror_state \<Rightarrow> mirror_event list \<Rightarrow> local_files \<Rightarrow> 's
     \<Rightarrow> (string + nat) \<times> mirror_state \<times> mirror_event list \<times> local_files \<times> 's" where
  "mirror_sessions sv baseline [] copied m ev fs s = (Inr copied, m, ev, fs, s)"
| "mirror_sessions sv baseline (x # xs) copied m ev fs s =
     (if x \<in> set baseline then mirror_sessions sv baseline xs copied m ev fs s
      else let m' = m\<lparr>mi_state := ''copying'', mi_current := Some x\<rparr>
           in case mirror_session sv x fs s of
                (Inl e, fs', s') \<Rightarrow> (Inl e, m', ev, fs', s')
              | (Inr n, fs', s') \<Rightarrow>
                  mirror_sessions sv baseline xs (copied + n) m' (if 0 < n then ev @ [Session_Copied x] else ev) fs' s')"

definition mirror_failed :: "string \<Rightarrow> mirror_state \<Rightarrow> mirror_state" where
  "mirror_failed e m = m\<lparr>mi_state := ''error'', mi_error := Some e\<rparr>"

definition mirror_idle :: "mirror_state \<Rightarrow> mirror_state" where
  "mirror_idle m = m\<lparr>mi_state := ''idle'', mi_error := None\<rparr>"

definition mirror_pass ::
  "'s scope_files \<Rightarrow> string list \<Rightarrow> rat \<Rightarrow> mirror_event list \<Rightarrow> string list \<Rightarrow> mirror_state \<Rightarrow> local_files \<Rightarrow> 's
     \<Rightarrow> nat \<times> mirror_state \<times> mirror_event list \<times> local_files \<times> 's" where
  "mirror_pass sv baseline now ev sessions m fs s =
     (case mirror_sessions sv baseline sessions 0 m ev fs s of
        (Inl e, m', ev', fs', s') \<Rightarrow> (0, mirror_failed e m', ev', fs', s')
      | (Inr copied, m', ev', fs', s') \<Rightarrow>
          (copied,
           m'\<lparr>mi_state := ''idle'', mi_current := None, mi_error := None, mi_last_ok := Some now,
              mi_files_copied := mi_files_copied m' + copied\<rparr>,
           (if 0 < copied then ev' @ [Frames_Copied] else ev'), fs', s'))"

text \<open>\<open>client\<close> and \<open>has_root\<close> say whether a service and a capture root are configured.\<close>

definition run_once ::
  "'s scope_files option \<Rightarrow> bool \<Rightarrow> string list option \<Rightarrow> rat \<Rightarrow> mirror_state \<Rightarrow> local_files \<Rightarrow> 's
     \<Rightarrow> nat \<times> mirror_state \<times> mirror_event list \<times> local_files \<times> 's" where
  "run_once client has_root baseline now m fs s =
     (case client of
        None \<Rightarrow> (0, mirror_idle m, [], fs, s)
      | Some sv \<Rightarrow>
          if \<not> has_root then (0, mirror_idle m, [], fs, s)
          else case sf_has sv s of
            (Inl e, s1) \<Rightarrow> (0, mirror_failed e m, [], fs, s1)
          | (Inr False, s1) \<Rightarrow> (0, mirror_idle m, [], fs, s1)
          | (Inr True, s1) \<Rightarrow>
              (case list_sessions sv s1 of
                 (Inl e, s2) \<Rightarrow> (0, mirror_failed e m, [], fs, s2)
               | (Inr sessions, s2) \<Rightarrow>
                   (case baseline of
                      None \<Rightarrow> mirror_pass sv sessions now [Saved_Baseline sessions] sessions m fs s2
                    | Some base \<Rightarrow> mirror_pass sv base now [] sessions m fs s2)))"

section \<open>Stacking a quiet session\<close>

record stacker =
  st_arrival :: "(string, rat) dict"
  st_stacked :: "(string, nat) dict"

record stack_env =
  se_enabled :: bool
  se_find :: "string \<Rightarrow> string + (int \<times> nat) option"
  se_submit :: "int \<Rightarrow> string + string"
  se_quiet :: rat
  se_now :: rat

definition touch :: "string \<Rightarrow> rat \<Rightarrow> stacker \<Rightarrow> stacker" where
  "touch folder now st = st\<lparr>st_arrival := dput folder now (st_arrival st)\<rparr>"

definition stacked_count :: "string \<Rightarrow> stacker \<Rightarrow> nat" where
  "stacked_count folder st = (case map_of (st_stacked st) folder of None \<Rightarrow> 0 | Some n \<Rightarrow> n)"

definition forget :: "string \<Rightarrow> stacker \<Rightarrow> stacker" where
  "forget folder st = st\<lparr>st_arrival := dpop folder (st_arrival st)\<rparr>"

text \<open>The part of the loop before the arrival is forgotten: what was submitted, and whether to forget.\<close>

definition stack_submit :: "stack_env \<Rightarrow> string \<Rightarrow> stacker \<Rightarrow> (string \<times> nat \<times> string) list \<times> bool \<times> stacker" where
  "stack_submit env folder st =
     (case se_find env folder of
        Inl e \<Rightarrow> ([], False, st)
      | Inr None \<Rightarrow> ([], False, st)
      | Inr (Some (session_id, frames)) \<Rightarrow>
          if frames \<le> stacked_count folder st then ([], True, st)
          else case se_submit env session_id of
                 Inl e \<Rightarrow> ([], False, st)
               | Inr job \<Rightarrow> ([(folder, frames, job)], True, st\<lparr>st_stacked := dput folder frames (st_stacked st)\<rparr>))"

definition stack_folder :: "stack_env \<Rightarrow> string \<Rightarrow> stacker \<Rightarrow> (string \<times> nat \<times> string) list \<times> stacker" where
  "stack_folder env folder st =
     (let (jobs, pop, st') = stack_submit env folder st in (jobs, if pop then forget folder st' else st'))"

fun stack_folders :: "stack_env \<Rightarrow> string list \<Rightarrow> stacker \<Rightarrow> (string \<times> nat \<times> string) list \<times> stacker" where
  "stack_folders env [] st = ([], st)"
| "stack_folders env (f # fs) st =
     (let (jobs, st') = stack_folder env f st; (more_jobs, st'') = stack_folders env fs st' in (jobs @ more_jobs, st''))"

definition quiet_folders :: "stack_env \<Rightarrow> stacker \<Rightarrow> string list" where
  "quiet_folders env st = map fst (filter (\<lambda>(f, seen). se_quiet env \<le> se_now env - seen) (st_arrival st))"

text \<open>The submissions of a tick: folder, frame count and job id.\<close>

definition stack_tick :: "stack_env \<Rightarrow> stacker \<Rightarrow> (string \<times> nat \<times> string) list \<times> stacker" where
  "stack_tick env st = (if \<not> se_enabled env then ([], st) else stack_folders env (quiet_folders env st) st)"

section \<open>A copy is complete or resumes\<close>

text \<open>A read that succeeds gives a piece of the remote file from the offset on; it may be short.\<close>

definition reads_of :: "'s scope_files \<Rightarrow> string \<Rightarrow> bytes \<Rightarrow> bool" where
  "reads_of sv remote content \<longleftrightarrow>
     (\<forall>offset len s data s'. sf_read sv remote offset len s = (Inr data, s') \<longrightarrow> prefix data (drop offset content))"

lemma reads_ofD: "reads_of sv remote content \<Longrightarrow> sf_read sv remote offset len s = (Inr data, s') \<Longrightarrow> prefix data (drop offset content)"
  unfolding reads_of_def by blast

lemma write_at_end: "write_at buf (length buf) data = buf @ data"
  by (simp add: write_at_def)

lemma prefix_append_drop: "prefix buf c \<Longrightarrow> prefix data (drop (length buf) c) \<Longrightarrow> prefix (buf @ data) c"
  by (auto simp: prefix_def)

lemma copy_chunks_prefix:
  assumes "reads_of sv remote content"
    "prefix buf content" "copy_chunks sv remote (length content) (length buf) buf s = (r, buf', s')"
  shows "prefix buf buf' \<and> prefix buf' content \<and> (\<forall>u. r = Inr u \<longrightarrow> buf' = content)"
  using assms(2,3)
proof (induction "length content - length buf" arbitrary: buf s rule: less_induct)
  case less
  note step = less.prems(2) [unfolded copy_chunks.simps [of sv remote "length content" "length buf" buf s]]
  show ?case
  proof (cases "length buf < length content")
    case False
    then have "buf = content" using less.prems(1) by (auto simp: prefix_def)
    then show ?thesis using step False by auto
  next
    case True
    show ?thesis
    proof (cases "sf_read sv remote (length buf) CHUNK_BYTES s")
      case (Pair a s1)
      show ?thesis
      proof (cases a)
        case (Inl e)
        then show ?thesis using step True Pair less.prems(1) by auto
      next
        case (Inr data)
        have pre: "prefix (buf @ data) content"
          using reads_ofD [OF assms(1) Pair [unfolded Inr]] less.prems(1) by (rule prefix_append_drop [rotated])
        show ?thesis
        proof (cases "data = []")
          case True
          then show ?thesis using step \<open>length buf < length content\<close> Pair Inr less.prems(1) by auto
        next
          case False
          have rest: "copy_chunks sv remote (length content) (length (buf @ data)) (buf @ data) s1 = (r, buf', s')"
            using step True Pair Inr False by (simp add: write_at_end)
          have "length content - length (buf @ data) < length content - length buf" using True False by (simp; cases data; simp)
          from less.hyps [OF this pre rest] show ?thesis using append_prefixD by blast
        qed
      qed
    qed
  qed
qed

text \<open>
  What the mirror keeps of a file: what lies in the part file is the beginning of the remote one, and a local file
  of the full size has its content.
\<close>

definition mirrored :: "bytes \<Rightarrow> string \<times> string \<Rightarrow> local_files \<Rightarrow> bool" where
  "mirrored content loc fs \<longleftrightarrow>
     (\<forall>p. fs (part_of loc) = Some p \<longrightarrow> prefix p content) \<and> (\<forall>b. fs loc = Some b \<and> length b = length content \<longrightarrow> b = content)"

lemma part_of_neq [simp]: "part_of loc \<noteq> loc" "loc \<noteq> part_of loc"
  by (auto simp: part_of_def prod_eq_iff)

lemma copy_file_cases:
  assumes "reads_of sv remote content" "mirrored content loc fs"
    "copy_file sv remote (length content) loc fs s = (r, fs', s')"
  shows "mirrored content loc fs' \<and> (\<forall>k. k \<noteq> loc \<and> k \<noteq> part_of loc \<longrightarrow> fs' k = fs k) \<and>
     (case r of Inr b \<Rightarrow> fs' loc = Some content \<and> (b \<longleftrightarrow> fs loc \<noteq> Some content)
      | Inl e \<Rightarrow> fs' loc = fs loc \<and> (\<forall>p. fs (part_of loc) = Some p \<longrightarrow> (\<exists>p'. fs' (part_of loc) = Some p' \<and> prefix p p')))"
proof (cases "case fs loc of Some b \<Rightarrow> length b = length content | None \<Rightarrow> False")
  case True
  then obtain b where b: "fs loc = Some b" "length b = length content" by (auto split: option.splits)
  then have "b = content" using assms(2) by (auto simp: mirrored_def)
  then show ?thesis using assms(2,3) b by (auto simp: copy_file_def)
next
  case False
  define got where "got = (case fs (part_of loc) of None \<Rightarrow> 0 | Some b \<Rightarrow> length b)"
  define buf where "buf = (if got = 0 then [] else the (fs (part_of loc)))"
  have bound: "got \<le> length content" and buf: "prefix buf content" "length buf = got"
    using assms(2) by (auto simp: mirrored_def got_def buf_def prefix_length_le split: option.splits)
  obtain r1 buf' s1 where run: "copy_chunks sv remote (length content) got buf s = (r1, buf', s1)"
    using prod_cases3 by blast
  have pre: "prefix buf buf' \<and> prefix buf' content \<and> (\<forall>u. r1 = Inr u \<longrightarrow> buf' = content)"
    using copy_chunks_prefix [OF assms(1) buf(1), of s r1 buf' s1] by (simp add: buf(2) run)
  have res: "(r, fs', s') = (case r1 of Inl e \<Rightarrow> (Inl e, fs(part_of loc \<mapsto> buf'), s1)
                                 | Inr _ \<Rightarrow> (Inr True, fs(part_of loc := None, loc \<mapsto> buf'), s1))"
    using assms(3) False bound run
    by (simp add: copy_file_def Let_def got_def [symmetric] buf_def [symmetric] not_less split: if_splits)
  have grow: "prefix p buf'" if "fs (part_of loc) = Some p" for p
    using that pre by (auto simp: buf_def got_def split: if_splits)
  have fresh: "fs loc \<noteq> Some content" using False by auto
  show ?thesis
  proof (cases r1)
    case (Inl e)
    then show ?thesis using res pre grow assms(2) by (auto simp: mirrored_def)
  next
    case (Inr u)
    then show ?thesis using res pre fresh by (auto simp: mirrored_def)
  qed
qed

section \<open>A pass completes what it lists\<close>

definition remote_of :: "string \<times> string \<Rightarrow> string" where
  "remote_of loc = fst loc @ ''/'' @ snd loc"

definition part_name :: "string \<Rightarrow> bool" where
  "part_name n = ends_with ''.part'' n"

definition kept :: "(string \<Rightarrow> bytes) \<Rightarrow> local_files \<Rightarrow> bool" where
  "kept content fs \<longleftrightarrow> (\<forall>loc. \<not> part_name (snd loc) \<longrightarrow> mirrored (content (remote_of loc)) loc fs)"

text \<open>
  The files on the scope do not change meanwhile: \<open>dir\<close> is what a folder lists, \<open>content\<close> what a file holds. Calls
  may fail, and a read may be short.
\<close>

definition serves :: "'s scope_files \<Rightarrow> (string \<Rightarrow> remote_entry list) \<Rightarrow> (string \<Rightarrow> bytes) \<Rightarrow> bool" where
  "serves sv dir content \<longleftrightarrow>
     (\<forall>path s es s'. sf_list sv path s = (Inr es, s') \<longrightarrow> es = dir path) \<and>
     (\<forall>remote. reads_of sv remote (content remote)) \<and>
     (\<forall>x e. e \<in> set (dir x) \<and> \<not> re_dir e \<longrightarrow> re_size e = length (content (remote_of (x, re_name e))) \<and> \<not> part_name (re_name e))"

lemma servesD:
  "serves sv dir content \<Longrightarrow> sf_list sv path s = (Inr es, s') \<Longrightarrow> es = dir path"
  "serves sv dir content \<Longrightarrow> reads_of sv remote (content remote)"
  "serves sv dir content \<Longrightarrow> e \<in> set (dir x) \<Longrightarrow> \<not> re_dir e \<Longrightarrow> re_size e = length (content (remote_of (x, re_name e)))"
  "serves sv dir content \<Longrightarrow> e \<in> set (dir x) \<Longrightarrow> \<not> re_dir e \<Longrightarrow> \<not> part_name (re_name e)"
  unfolding serves_def by metis+

lemma part_of_is_part [simp]: "part_name (snd (part_of loc))"
  by (simp add: part_name_def part_of_def ends_with_def starts_with_def)

lemma part_of_inj [simp]: "part_of a = part_of b \<longleftrightarrow> a = b"
  by (auto simp: part_of_def prod_eq_iff)

abbreviation have_file :: "(string \<Rightarrow> bytes) \<Rightarrow> local_files \<Rightarrow> string \<times> string \<Rightarrow> bool" where
  "have_file content fs loc \<equiv> fs loc = Some (content (remote_of loc))"

text \<open>Going from one map of local files to the next keeps the invariant and every complete file.\<close>

definition progress :: "(string \<Rightarrow> bytes) \<Rightarrow> local_files \<Rightarrow> local_files \<Rightarrow> bool" where
  "progress content fs fs' \<longleftrightarrow>
     (kept content fs \<longrightarrow> kept content fs') \<and>
     (\<forall>loc. kept content fs \<and> \<not> part_name (snd loc) \<and> have_file content fs loc \<longrightarrow> have_file content fs' loc)"

lemma progress_refl [simp]: "progress content fs fs"
  by (simp add: progress_def)

lemma progress_trans: "progress content a b \<Longrightarrow> progress content b c \<Longrightarrow> progress content a c"
  unfolding progress_def by blast

lemma progress_kept: "progress content fs fs' \<Longrightarrow> kept content fs \<Longrightarrow> kept content fs'"
  by (simp add: progress_def)

lemma copy_file_progress:
  assumes "serves sv dir content" "kept content fs" "\<not> part_name (snd loc)"
    "copy_file sv (remote_of loc) (length (content (remote_of loc))) loc fs s = (r, fs', s')"
  shows "progress content fs fs' \<and> (\<forall>b. r = Inr b \<longrightarrow> have_file content fs' loc)"
proof -
  let ?c = "content (remote_of loc)"
  have m: "mirrored ?c loc fs" using assms(2,3) unfolding kept_def by blast
  note c = copy_file_cases [OF servesD(2) [OF assms(1)] m assms(4)]
  have "mirrored (content (remote_of k)) k fs'" if "\<not> part_name (snd k)" for k
  proof (cases "k = loc")
    case False
    have "k \<noteq> part_of loc" "part_of k \<noteq> loc" using that assms(3) part_of_is_part by metis+
    then have "fs' k = fs k" "fs' (part_of k) = fs (part_of k)" using c False by (simp_all del: split_paired_All)
    moreover have "mirrored (content (remote_of k)) k fs" using that assms(2) unfolding kept_def by blast
    ultimately show ?thesis by (simp add: mirrored_def)
  qed (use c in simp)
  moreover have "have_file content fs' k" if "\<not> part_name (snd k)" "have_file content fs k" for k
  proof (cases "k = loc")
    case True
    then show ?thesis using c that by (cases r) auto
  next
    case False
    moreover have "k \<noteq> part_of loc" using that part_of_is_part by metis
    ultimately show ?thesis using c that by (simp del: split_paired_All)
  qed
  ultimately show ?thesis using c by (auto simp: progress_def kept_def simp del: split_paired_All)
qed

lemma mirror_entries_progress:
  assumes "serves sv dir content" "kept content fs" "set es \<subseteq> set (dir x)"
    "mirror_entries sv x es n fs s = (r, fs', s')"
  shows "progress content fs fs' \<and>
     (\<forall>k. r = Inr k \<longrightarrow> (\<forall>e \<in> set es. \<not> re_dir e \<longrightarrow> have_file content fs' (x, re_name e)))"
  using assms(2-)
proof (induction es arbitrary: n fs s)
  case (Cons e es)
  show ?case
  proof (cases "re_dir e")
    case True
    then show ?thesis using Cons.IH [OF Cons.prems(1)] Cons.prems(2,3) by auto
  next
    case False
    have e: "e \<in> set (dir x)" using Cons.prems(2) by simp
    have sz: "re_size e = length (content (remote_of (x, re_name e)))" and np: "\<not> part_name (snd (x, re_name e))"
      using servesD(3,4) [OF assms(1) e False] by simp_all
    obtain r1 fs1 s1 where cp: "copy_file sv (remote_of (x, re_name e)) (length (content (remote_of (x, re_name e)))) (x, re_name e) fs s = (r1, fs1, s1)"
      using prod_cases3 by blast
    note one = copy_file_progress [OF assms(1) Cons.prems(1) np cp]
    note step = Cons.prems(3) [unfolded mirror_entries.simps sz]
    show ?thesis
    proof (cases r1)
      case (Inl err)
      then show ?thesis using step False cp one by (auto simp: remote_of_def)
    next
      case (Inr b)
      have rest: "mirror_entries sv x es (if b then Suc n else n) fs1 s1 = (r, fs', s')"
        using step False cp Inr by (simp add: remote_of_def)
      have k1: "kept content fs1" using one Cons.prems(1) progress_kept by blast
      note ih = Cons.IH [OF k1 _ rest]
      have "progress content fs1 fs' \<and> (\<forall>k. r = Inr k \<longrightarrow> (\<forall>e \<in> set es. \<not> re_dir e \<longrightarrow> have_file content fs' (x, re_name e)))"
        using ih Cons.prems(2) by simp
      then show ?thesis using one Inr np k1 by (auto simp: progress_def)
    qed
  qed
qed simp

lemma mirror_session_progress:
  assumes "serves sv dir content" "kept content fs" "mirror_session sv x fs s = (r, fs', s')"
  shows "progress content fs fs' \<and>
     (\<forall>k. r = Inr k \<longrightarrow> (\<forall>e \<in> set (dir x). \<not> re_dir e \<longrightarrow> have_file content fs' (x, re_name e)))"
proof (cases "sf_list sv x s")
  case (Pair a s1)
  show ?thesis
  proof (cases a)
    case (Inl e)
    then show ?thesis using Pair assms(3) by (auto simp: mirror_session_def)
  next
    case (Inr es)
    have "es = dir x" using servesD(1) [OF assms(1) Pair [unfolded Inr]] .
    then show ?thesis
      using mirror_entries_progress [OF assms(1,2), of "dir x" x 0 s1 r fs'] Pair Inr assms(3) by (auto simp: mirror_session_def)
  qed
qed

lemma mirror_sessions_progress:
  assumes "serves sv dir content" "kept content fs" "mirror_sessions sv base xs n m ev fs s = (r, m', ev', fs', s')"
  shows "progress content fs fs' \<and> (\<forall>k. r = Inr k \<longrightarrow>
     (\<forall>x \<in> set xs. x \<notin> set base \<longrightarrow> (\<forall>e \<in> set (dir x). \<not> re_dir e \<longrightarrow> have_file content fs' (x, re_name e))))"
  using assms(2-)
proof (induction xs arbitrary: n m ev fs s)
  case (Cons x xs)
  show ?case
  proof (cases "x \<in> set base")
    case True
    then show ?thesis using Cons.IH [OF Cons.prems(1)] Cons.prems(2) by auto
  next
    case False
    obtain r1 fs1 s1 where ms: "mirror_session sv x fs s = (r1, fs1, s1)" using prod_cases3 by blast
    note one = mirror_session_progress [OF assms(1) Cons.prems(1) ms]
    show ?thesis
    proof (cases r1)
      case (Inl err)
      then show ?thesis using Cons.prems(2) False ms one by (auto simp: Let_def)
    next
      case (Inr k)
      let ?m = "m\<lparr>mi_state := ''copying'', mi_current := Some x\<rparr>"
      let ?ev = "if 0 < k then ev @ [Session_Copied x] else ev"
      have rest: "mirror_sessions sv base xs (n + k) ?m ?ev fs1 s1 = (r, m', ev', fs', s')"
        using Cons.prems(2) False ms Inr by (simp add: Let_def)
      have k1: "kept content fs1" using one Cons.prems(1) progress_kept by blast
      note ih = Cons.IH [OF k1 rest]
      have "have_file content fs' (x, re_name e)" if "e \<in> set (dir x)" "\<not> re_dir e" for e
        using ih one Inr that k1 servesD(4) [OF assms(1) that] by (auto simp: progress_def)
      then show ?thesis using ih one progress_trans by (auto split: if_splits)
    qed
  qed
qed simp

lemma mirror_pass_progress:
  assumes "serves sv dir content" "kept content fs"
    "mirror_pass sv base now ev0 xs m fs s = (n, m', ev, fs', s')"
  shows "progress content fs fs' \<and> (mi_state m' = ''idle'' \<longrightarrow>
     (\<forall>x \<in> set xs. x \<notin> set base \<longrightarrow> (\<forall>e \<in> set (dir x). \<not> re_dir e \<longrightarrow> have_file content fs' (x, re_name e))))"
proof -
  obtain r m1 ev1 fs1 s1 where ms: "mirror_sessions sv base xs 0 m ev0 fs s = (r, m1, ev1, fs1, s1)"
    using prod_cases5 by blast
  note one = mirror_sessions_progress [OF assms(1,2) ms]
  show ?thesis
  proof (cases r)
    case (Inl e)
    then show ?thesis using assms(3) ms one by (auto simp: mirror_pass_def mirror_failed_def)
  next
    case (Inr k)
    then show ?thesis using assms(3) ms one by (auto simp: mirror_pass_def)
  qed
qed

text \<open>
  C23: A pass of the mirror, whatever calls fail on the way: it never damages a local file that is complete, what
  lies in part files stays the beginning of the remote file so that the next pass resumes there, and a pass that
  ends idle has every file of every listed session outside the baseline with the remote content.\<close>

theorem mirror_pass_completes:
  assumes "serves sv dir content" "kept content fs" "sf_has sv s = (Inr True, s1)"
    "run_once (Some sv) True (Some base) now m fs s = (n, m', ev, fs', s')"
  shows "kept content fs'
    \<and> (\<forall>loc. \<not> part_name (snd loc) \<and> fs loc = Some (content (remote_of loc)) \<longrightarrow> fs' loc = Some (content (remote_of loc)))
    \<and> (mi_state m' = ''idle'' \<longrightarrow>
        (\<forall>d \<in> set (dir ''''). re_dir d \<and> starts_with SESSION_PREFIX (re_name d) \<and> re_name d \<notin> set base \<longrightarrow>
          (\<forall>e \<in> set (dir (re_name d)). \<not> re_dir e \<longrightarrow>
             fs' (re_name d, re_name e) = Some (content (remote_of (re_name d, re_name e))))))"
proof (cases "sf_list sv '''' s1")
  case (Pair a s2)
  show ?thesis
  proof (cases a)
    case (Inl err)
    then show ?thesis using assms(2-) Pair by (auto simp: run_once_def list_sessions_def mirror_failed_def)
  next
    case (Inr es)
    have es: "es = dir ''''" using servesD(1) [OF assms(1) Pair [unfolded Inr]] .
    let ?xs = "sort (map re_name (filter (\<lambda>e. re_dir e \<and> starts_with SESSION_PREFIX (re_name e)) es))"
    have "mirror_pass sv base now [] ?xs m fs s2 = (n, m', ev, fs', s')"
      using assms(3,4) Pair Inr by (simp add: run_once_def list_sessions_def)
    from mirror_pass_progress [OF assms(1,2) this] show ?thesis
      using assms(2) es by (auto simp: progress_def)
  qed
qed

text \<open>A service of two sessions; reading the second fails while the counter is below the limit.\<close>

definition demo_dir :: "string \<Rightarrow> remote_entry list" where
  "demo_dir path =
     (if path = '''' then [\<lparr>re_name = ''DWARF_RAW_B'', re_dir = True, re_size = 0\<rparr>, \<lparr>re_name = ''DWARF_RAW_A'', re_dir = True, re_size = 0\<rparr>]
      else if path = ''DWARF_RAW_A'' \<or> path = ''DWARF_RAW_B'' then [\<lparr>re_name = ''f.fits'', re_dir = False, re_size = 2\<rparr>] else [])"

definition demo_content :: "string \<Rightarrow> bytes" where
  "demo_content remote = [7, 9]"

definition demo_files :: "nat \<Rightarrow> nat scope_files" where
  "demo_files limit = \<lparr>
     sf_has = \<lambda>n. (Inr True, n),
     sf_list = \<lambda>path n. (Inr (demo_dir path), n),
     sf_read = \<lambda>remote offset len n.
       (if remote = ''DWARF_RAW_B/f.fits'' \<and> n < limit then Inl ''gone'' else Inr (drop offset (demo_content remote)), Suc n)\<rparr>"

definition demo_mirror :: mirror_state where
  "demo_mirror = \<lparr>mi_state = ''idle'', mi_files_copied = 0, mi_last_ok = None, mi_error = None, mi_current = None\<rparr>"

lemma demo_files_serves: "serves (demo_files limit) demo_dir demo_content"
proof -
  have "\<not> part_name ''f.fits''" by code_simp
  then show ?thesis
    by (auto simp: serves_def reads_of_def demo_files_def demo_dir_def demo_content_def split: if_splits)
qed

lemma kept_empty: "kept content (\<lambda>_. None)"
  by (simp add: kept_def mirrored_def)

lemma demo_lists:
  "list_sessions (demo_files limit) n = (Inr [''DWARF_RAW_A'', ''DWARF_RAW_B''], n)"
proof -
  have "list_sessions (demo_files 0) 0 = (Inr [''DWARF_RAW_A'', ''DWARF_RAW_B''], 0)" by code_simp
  then show ?thesis by (simp add: list_sessions_def demo_files_def)
qed

lemma demo_session:
  assumes "x = ''DWARF_RAW_A'' \<or> x = ''DWARF_RAW_B''" "fs (x, ''f.fits.part'') = None \<or> fs (x, ''f.fits.part'') = Some []"
    "fs (x, ''f.fits'') = None \<or> fs (x, ''f.fits'') = Some [7, 9]"
  shows "mirror_session (demo_files limit) x fs n =
     (if fs (x, ''f.fits'') = Some [7, 9] then (Inr 0, fs, n)
      else if x = ''DWARF_RAW_B'' \<and> n < limit then (Inl ''gone'', fs((x, ''f.fits.part'') \<mapsto> []), Suc n)
      else (Inr 1, fs((x, ''f.fits.part'') := None, (x, ''f.fits'') \<mapsto> [7, 9]), Suc n))"
  using assms
  by (auto simp: mirror_session_def copy_file_def part_of_def copy_chunks.simps [of _ _ 2 0] demo_files_def demo_dir_def
      demo_content_def write_at_def Let_def)

lemma demo_mirror_run:
  "mi_state (fst (snd (run_once (Some (demo_files 0)) True (Some []) 5 demo_mirror (\<lambda>_. None) 0))) = ''idle''"
proof -
  have has: "sf_has (demo_files 0) 0 = (Inr True, 0)" by (simp add: demo_files_def)
  show ?thesis by (simp add: run_once_def has demo_lists mirror_pass_def demo_session)
qed

lemma mirror_pass_completes_witness:
  "fst (snd (snd (snd (run_once (Some (demo_files 0)) True (Some []) 5 demo_mirror (\<lambda>_. None) 0)))) (''DWARF_RAW_A'', ''f.fits'') = Some [7, 9]"
proof -
  let ?run = "run_once (Some (demo_files 0)) True (Some []) 5 demo_mirror (\<lambda>_. None) (0 :: nat)"
  obtain n m' ev fs' s' where run: "?run = (n, m', ev, fs', s')" using prod_cases5 by blast
  have "mi_state m' = ''idle''" using demo_mirror_run run by simp
  moreover have "starts_with SESSION_PREFIX ''DWARF_RAW_A''" by code_simp
  ultimately have "fs' (''DWARF_RAW_A'', ''f.fits'') = Some [7, 9]"
    using mirror_pass_completes [OF demo_files_serves kept_empty _ run, of 0]
    by (simp add: demo_files_def [of 0] demo_dir_def demo_content_def)
  then show ?thesis by (simp add: run)
qed

text \<open>
  A pass that fails at a later session does not report the frames it did copy, and the next pass finds nothing left to
  copy there: the rescan after a copy is lost for them.
\<close>

lemma copied_frames_not_reported:
  "let (n1, m1, ev1, fs1, s1) = run_once (Some (demo_files 9)) True (Some []) 5 demo_mirror (\<lambda>_. None) 0;
       (n2, m2, ev2, fs2, s2) = run_once (Some (demo_files 9)) True (Some []) 65 m1 fs1 s1
   in fs1 (''DWARF_RAW_A'', ''f.fits'') = Some [7, 9] \<and> ev1 = [Session_Copied ''DWARF_RAW_A''] \<and> ev2 = []
      \<and> mi_files_copied m2 = 0"
proof -
  have has: "sf_has (demo_files 9) n = (Inr True, n)" for n by (simp add: demo_files_def)
  show ?thesis
    by (simp add: run_once_def has demo_lists mirror_pass_def demo_session demo_mirror_def mirror_failed_def)
qed

section \<open>No frame count is stacked twice\<close>

datatype stack_event = Touched string rat | Ticked stack_env

fun stack_run :: "stack_event list \<Rightarrow> stacker \<Rightarrow> (string \<times> nat \<times> string) list \<times> stacker" where
  "stack_run [] st = ([], st)"
| "stack_run (Touched f now # evs) st = stack_run evs (touch f now st)"
| "stack_run (Ticked env # evs) st =
     (let (jobs, st') = stack_tick env st; (more_jobs, st'') = stack_run evs st' in (jobs @ more_jobs, st''))"

text \<open>
  The submissions between two states: for a folder the counts grow strictly, from above what was stacked before to
  at most what counts as stacked after.
\<close>

definition grows :: "(string \<times> nat \<times> string) list \<Rightarrow> bool" where
  "grows jobs = sorted_wrt (\<lambda>(f, n, _) (g, k, _). f = g \<longrightarrow> n < k) jobs"

definition stacks_up :: "stacker \<Rightarrow> (string \<times> nat \<times> string) list \<Rightarrow> stacker \<Rightarrow> bool" where
  "stacks_up st jobs st' \<longleftrightarrow> grows jobs \<and> (\<forall>f. stacked_count f st \<le> stacked_count f st') \<and>
     (\<forall>(f, n, j) \<in> set jobs. stacked_count f st < n \<and> n \<le> stacked_count f st')"

lemma stacks_up_append:
  assumes "stacks_up a xs b" "stacks_up b ys c"
  shows "stacks_up a (xs @ ys) c"
proof -
  have "n < k" if "(f, n, i) \<in> set xs" "(f, k, j) \<in> set ys" for f n i k j
    using that assms unfolding stacks_up_def by fastforce
  then have "grows (xs @ ys)" using assms by (auto simp: stacks_up_def grows_def sorted_wrt_append)
  moreover have "stacked_count f a < n \<and> n \<le> stacked_count f c" if "(f, n, j) \<in> set (xs @ ys)" for f n j
    using that assms unfolding stacks_up_def by (force intro: le_trans le_less_trans)
  moreover have "stacked_count f a \<le> stacked_count f c" for f using assms unfolding stacks_up_def by (meson le_trans)
  ultimately show ?thesis by (auto simp: stacks_up_def)
qed

lemma stacked_count_forget [simp]: "stacked_count f (forget g st) = stacked_count f st"
  by (simp add: stacked_count_def forget_def)

lemma stacked_count_touch [simp]: "stacked_count f (touch g now st) = stacked_count f st"
  by (simp add: stacked_count_def touch_def)

lemma stacks_up_folder: "stacks_up st (fst (stack_folder env f st)) (snd (stack_folder env f st))"
  by (auto simp: stack_folder_def stack_submit_def stacks_up_def grows_def Let_def stacked_count_def forget_def
      split: sum.split option.split)

lemma stacks_up_folders: "stacks_up st (fst (stack_folders env fs st)) (snd (stack_folders env fs st))"
proof (induction fs arbitrary: st)
  case Nil
  show ?case by (simp add: stacks_up_def grows_def)
next
  case (Cons f fs)
  show ?case using stacks_up_append [OF stacks_up_folder [of st env f] Cons.IH [of "snd (stack_folder env f st)"]]
    by (simp add: Let_def split_beta)
qed

lemma stacks_up_run: "stacks_up st (fst (stack_run evs st)) (snd (stack_run evs st))"
proof (induction evs st rule: stack_run.induct)
  case (3 env evs st)
  have tick: "stacks_up st (fst (stack_tick env st)) (snd (stack_tick env st))"
    using stacks_up_folders by (simp add: stack_tick_def stacks_up_def grows_def)
  have "stacks_up (snd (stack_tick env st)) (fst (stack_run evs (snd (stack_tick env st)))) (snd (stack_run evs (snd (stack_tick env st))))"
    using 3 [OF refl prod.collapse] by simp
  from stacks_up_append [OF tick this] show ?case by (simp add: Let_def split_beta)
qed (simp_all add: stacks_up_def grows_def)

text \<open>
  C32: Whatever frames arrive and however often the stacker ticks, whether finding a session or submitting a job
  fails or not: the frame counts a folder is submitted with grow strictly, so no job stacks what an earlier one did.\<close>

theorem no_stack_twice: "grows (fst (stack_run evs st))"
  using stacks_up_run [of st evs] by (simp add: stacks_up_def)

text \<open>Frames that arrive while the job is submitted are forgotten with the arrival that led to it.\<close>

lemma arrival_while_submitting_lost:
  "f \<notin> set (quiet_folders env (forget f (touch f now st)))"
proof -
  have "f \<notin> set (dkeys (dpop f d))" for d :: "(string, rat) dict"
    using map_of_dpop [of f d] map_of_eq_None_iff [of "dpop f d" f] by simp
  then show ?thesis by (fastforce simp: quiet_folders_def forget_def touch_def image_iff)
qed

end
