(* ===== verification/Schema.thy ===== *)
theory Schema
  imports Py_Text
begin

text \<open>
  The schema migrations of \<open>server/catalog/db.py\<close>: the statements of \<open>MIGRATIONS\<close> as data, what SQLite does with each
  of them, the migration loop of one process and the interleaving of several that open the database together.
  Constraints other than foreign keys are kept as the text of a column's declaration; table-level keys and the
  sort order of an index are left out.
\<close>

section \<open>Statements\<close>

datatype sql_value = SQL_Null | SQL_Int int | SQL_Real rat | SQL_Text string

datatype on_delete = No_Action | Cascade | Set_Null

record column =
  cl_name :: string
  cl_decl :: string
  cl_ref :: "(string \<times> string \<times> on_delete) option"
  cl_default :: sql_value

definition plain :: "string \<Rightarrow> string \<Rightarrow> column" where
  "plain n decl = \<lparr>cl_name = n, cl_decl = decl, cl_ref = None, cl_default = SQL_Null\<rparr>"

definition refers :: "string \<Rightarrow> string \<Rightarrow> string \<Rightarrow> string \<Rightarrow> on_delete \<Rightarrow> column" where
  "refers n decl t c act = \<lparr>cl_name = n, cl_decl = decl, cl_ref = Some (t, c, act), cl_default = SQL_Null\<rparr>"

definition defaulted :: "string \<Rightarrow> string \<Rightarrow> sql_value \<Rightarrow> column" where
  "defaulted n decl v = \<lparr>cl_name = n, cl_decl = decl, cl_ref = None, cl_default = v\<rparr>"

type_synonym sql_row = "(string, sql_value) dict"

record sql_table =
  tb_columns :: "column list"
  tb_rows :: "sql_row list"

text \<open>The tables by name, and the indexes with their table and columns.\<close>

record schema_db =
  sd_tables :: "(string, sql_table) dict"
  sd_indexes :: "(string, string \<times> string list) dict"

datatype stmt =
    Create_Table string "column list"
  | Create_Index string string "string list"
  | Drop_Index_If_Exists string
  | Rename_Table string string
  | Rename_Column string string string
  | Add_Column string column
  | Drop_Column string string
  | Copy_Rows string string "string list"
  | Drop_Table string
  | Update_Null string string
  | Insert_Version nat

section \<open>What a statement does\<close>

definition no_table :: "string \<Rightarrow> string" where
  "no_table t = ''no such table: '' @ t"

definition with_table :: "string \<Rightarrow> schema_db \<Rightarrow> (sql_table \<Rightarrow> string + schema_db) \<Rightarrow> string + schema_db" where
  "with_table t db f = (case map_of (sd_tables db) t of None \<Rightarrow> Inl (no_table t) | Some tb \<Rightarrow> f tb)"

definition set_table :: "string \<Rightarrow> sql_table \<Rightarrow> schema_db \<Rightarrow> schema_db" where
  "set_table t tb db = db\<lparr>sd_tables := dput t tb (sd_tables db)\<rparr>"

definition has_column :: "sql_table \<Rightarrow> string \<Rightarrow> bool" where
  "has_column tb c = list_ex (\<lambda>cl. cl_name cl = c) (tb_columns tb)"

definition cell :: "string \<Rightarrow> sql_row \<Rightarrow> sql_value" where
  "cell c r = (case map_of r c of None \<Rightarrow> SQL_Null | Some v \<Rightarrow> v)"

text \<open>The columns that refer to a table: table, column, the column referred to, and the action.\<close>

definition references_to :: "string \<Rightarrow> schema_db \<Rightarrow> (string \<times> string \<times> string \<times> on_delete) list" where
  "references_to t db =
     concat (map (\<lambda>(u, tb). concat (map (\<lambda>cl.
       case cl_ref cl of Some (t', k, act) \<Rightarrow> if t' = t then [(u, cl_name cl, k, act)] else [] | None \<Rightarrow> [])
       (tb_columns tb))) (sd_tables db))"

fun for_refs ::
  "((string \<times> string \<times> string \<times> on_delete) \<Rightarrow> schema_db \<Rightarrow> string + schema_db)
     \<Rightarrow> (string \<times> string \<times> string \<times> on_delete) list \<Rightarrow> schema_db \<Rightarrow> string + schema_db" where
  "for_refs f [] db = Inr db"
| "for_refs f (r # rs) db = (case f r db of Inl e \<Rightarrow> Inl e | Inr db' \<Rightarrow> for_refs f rs db')"

text \<open>
  The deletion of rows with the actions of the foreign keys; the fuel bounds the length of a chain of tables that
  refer to each other.
\<close>

primrec delete_rows :: "nat \<Rightarrow> string \<Rightarrow> sql_row list \<Rightarrow> schema_db \<Rightarrow> string + schema_db" where
  "delete_rows 0 t gone db = Inr db"
| "delete_rows (Suc n) t gone db =
     with_table t db (\<lambda>tb.
       for_refs (\<lambda>(u, c, k, act) db1.
         with_table u db1 (\<lambda>utb.
           let keys = map (cell k) gone;
               hit = (\<lambda>r. cell c r \<noteq> SQL_Null \<and> cell c r \<in> set keys);
               hits = filter hit (tb_rows utb)
           in if hits = [] then Inr db1
              else case act of
                No_Action \<Rightarrow> Inl ''FOREIGN KEY constraint failed''
              | Set_Null \<Rightarrow> Inr (set_table u (utb\<lparr>tb_rows := map (\<lambda>r. if hit r then dput c SQL_Null r else r) (tb_rows utb)\<rparr>) db1)
              | Cascade \<Rightarrow> delete_rows n u hits db1))
         (references_to t db)
         (set_table t (tb\<lparr>tb_rows := filter (\<lambda>r. r \<notin> set gone) (tb_rows tb)\<rparr>) db))"

definition rename_ref :: "string \<Rightarrow> string \<Rightarrow> column \<Rightarrow> column" where
  "rename_ref a b cl = cl\<lparr>cl_ref := map_option (\<lambda>(t, k, act). (if t = a then b else t, k, act)) (cl_ref cl)\<rparr>"

definition rename_col :: "string \<Rightarrow> string \<Rightarrow> column \<Rightarrow> column" where
  "rename_col a b cl = (if cl_name cl = a then cl\<lparr>cl_name := b\<rparr> else cl)"

definition rename_ref_col :: "string \<Rightarrow> string \<Rightarrow> string \<Rightarrow> column \<Rightarrow> column" where
  "rename_ref_col t a b cl =
     cl\<lparr>cl_ref := map_option (\<lambda>(t', k, act). (t', if t' = t \<and> k = a then b else k, act)) (cl_ref cl)\<rparr>"

definition rename_key :: "string \<Rightarrow> string \<Rightarrow> string \<Rightarrow> string" where
  "rename_key a b k = (if k = a then b else k)"

definition versions_of :: "schema_db \<Rightarrow> nat list" where
  "versions_of db =
     (case map_of (sd_tables db) ''schema_version'' of
        None \<Rightarrow> []
      | Some tb \<Rightarrow> List.map_filter (\<lambda>r. case cell ''version'' r of SQL_Int i \<Rightarrow> Some (nat i) | _ \<Rightarrow> None) (tb_rows tb))"

fun exec :: "bool \<Rightarrow> stmt \<Rightarrow> schema_db \<Rightarrow> string + schema_db" where
  "exec fk (Create_Table t cs) db =
     (if has_key (sd_tables db) t then Inl (''table '' @ t @ '' already exists'')
      else Inr (set_table t \<lparr>tb_columns = cs, tb_rows = []\<rparr> db))"
| "exec fk (Create_Index i t cs) db =
     with_table t db (\<lambda>tb.
       if has_key (sd_indexes db) i then Inl (''index '' @ i @ '' already exists'')
       else if list_ex (\<lambda>c. \<not> has_column tb c) cs then Inl (''table '' @ t @ '' has no such column'')
       else Inr (db\<lparr>sd_indexes := dput i (t, cs) (sd_indexes db)\<rparr>))"
| "exec fk (Drop_Index_If_Exists i) db = Inr (db\<lparr>sd_indexes := dpop i (sd_indexes db)\<rparr>)"
| "exec fk (Rename_Table a b) db =
     with_table a db (\<lambda>_.
       if has_key (sd_tables db) b then Inl (''there is already another table or index with this name: '' @ b)
       else Inr \<lparr>sd_tables = map (\<lambda>(t, tb). (rename_key a b t, tb\<lparr>tb_columns := map (rename_ref a b) (tb_columns tb)\<rparr>)) (sd_tables db),
                 sd_indexes = map (\<lambda>(i, t, cs). (i, rename_key a b t, cs)) (sd_indexes db)\<rparr>)"
| "exec fk (Rename_Column t a b) db =
     with_table t db (\<lambda>tb.
       if \<not> has_column tb a then Inl (''no such column: '' @ a)
       else if has_column tb b then Inl (''duplicate column name: '' @ b)
       else Inr \<lparr>sd_tables = map (\<lambda>(u, utb). (u,
                   let utb' = utb\<lparr>tb_columns := map (rename_ref_col t a b) (tb_columns utb)\<rparr>
                   in if u = t then utb'\<lparr>tb_columns := map (rename_col a b) (tb_columns utb'),
                                         tb_rows := map (map (\<lambda>(c, v). (rename_key a b c, v))) (tb_rows utb')\<rparr>
                      else utb')) (sd_tables db),
                 sd_indexes = map (\<lambda>(i, u, cs). (i, u, if u = t then map (rename_key a b) cs else cs)) (sd_indexes db)\<rparr>)"
| "exec fk (Add_Column t cl) db =
     with_table t db (\<lambda>tb.
       if has_column tb (cl_name cl) then Inl (''duplicate column name: '' @ cl_name cl)
       else Inr (set_table t \<lparr>tb_columns = tb_columns tb @ [cl],
                             tb_rows = map (\<lambda>r. r @ [(cl_name cl, cl_default cl)]) (tb_rows tb)\<rparr> db))"
| "exec fk (Drop_Column t c) db =
     with_table t db (\<lambda>tb.
       if \<not> has_column tb c then Inl (''no such column: '' @ c)
       else if list_ex (\<lambda>(i, u, cs). u = t \<and> c \<in> set cs) (sd_indexes db) then Inl (''error in index after drop column: '' @ c)
       else Inr (set_table t \<lparr>tb_columns = filter (\<lambda>cl. cl_name cl \<noteq> c) (tb_columns tb),
                             tb_rows = map (dpop c) (tb_rows tb)\<rparr> db))"
| "exec fk (Copy_Rows dst src cs) db =
     with_table dst db (\<lambda>dtb. with_table src db (\<lambda>stb.
       if list_ex (\<lambda>c. \<not> has_column dtb c \<or> \<not> has_column stb c) cs then Inl (''no such column in '' @ src)
       else Inr (set_table dst (dtb\<lparr>tb_rows := tb_rows dtb @ map (\<lambda>r.
              map (\<lambda>cl. (cl_name cl, if cl_name cl \<in> set cs then cell (cl_name cl) r else cl_default cl)) (tb_columns dtb))
            (tb_rows stb)\<rparr>) db)))"
| "exec fk (Drop_Table t) db =
     with_table t db (\<lambda>tb.
       case (if fk then delete_rows (Suc (length (sd_tables db))) t (tb_rows tb) db else Inr db) of
         Inl e \<Rightarrow> Inl e
       | Inr db' \<Rightarrow> Inr \<lparr>sd_tables = dpop t (sd_tables db'), sd_indexes = filter (\<lambda>(i, u, cs). u \<noteq> t) (sd_indexes db')\<rparr>)"
| "exec fk (Update_Null t c) db =
     with_table t db (\<lambda>tb.
       if \<not> has_column tb c then Inl (''no such column: '' @ c)
       else Inr (set_table t (tb\<lparr>tb_rows := map (dput c SQL_Null) (tb_rows tb)\<rparr>) db))"
| "exec fk (Insert_Version v) db =
     with_table ''schema_version'' db (\<lambda>tb.
       if v \<in> set (versions_of db) then Inl ''UNIQUE constraint failed: schema_version.version''
       else Inr (set_table ''schema_version'' (tb\<lparr>tb_rows := tb_rows tb @ [[(''version'', SQL_Int (int v))]]\<rparr>) db))"

fun exec_all :: "bool \<Rightarrow> stmt list \<Rightarrow> schema_db \<Rightarrow> string + schema_db" where
  "exec_all fk [] db = Inr db"
| "exec_all fk (s # ss) db = (case exec fk s db of Inl e \<Rightarrow> Inl e | Inr db' \<Rightarrow> exec_all fk ss db')"

section \<open>The migrations\<close>

definition migration_1 :: "stmt list" where
  "migration_1 =
     [Create_Table ''targets''
         [plain ''id'' ''INTEGER PRIMARY KEY'',
          plain ''name'' ''TEXT NOT NULL UNIQUE'',
          plain ''aliases'' ''TEXT'',
          plain ''ra'' ''REAL'',
          plain ''dec'' ''REAL''],
      Create_Table ''frames''
         [plain ''id'' ''INTEGER PRIMARY KEY'',
          plain ''file_hash'' ''TEXT'',
          plain ''path'' ''TEXT NOT NULL UNIQUE'',
          plain ''inode'' ''INTEGER'',
          plain ''mtime'' ''REAL'',
          plain ''size'' ''INTEGER'',
          plain ''image_type'' ''TEXT'',
          plain ''quality'' ''TEXT'',
          plain ''object'' ''TEXT'',
          plain ''instrument'' ''TEXT'',
          plain ''camera'' ''TEXT'',
          plain ''filter'' ''TEXT'',
          plain ''exptime'' ''REAL'',
          plain ''gain'' ''INTEGER'',
          plain ''binning'' ''INTEGER'',
          plain ''ccd_temp'' ''REAL'',
          plain ''date_obs'' ''TEXT'',
          plain ''ra'' ''REAL'',
          plain ''dec'' ''REAL'',
          plain ''scope_id'' ''TEXT'',
          plain ''session_key'' ''TEXT'',
          plain ''fits_headers'' ''BLOB'',
          plain ''scanned_at'' ''REAL''],
      Create_Index ''idx_frames_object'' ''frames'' [''object''],
      Create_Index ''idx_frames_image_type'' ''frames'' [''image_type''],
      Create_Index ''idx_frames_session_key'' ''frames'' [''session_key''],
      Create_Index ''idx_frames_inode_mtime'' ''frames'' [''inode'', ''mtime''],
      Create_Table ''sessions''
         [plain ''id'' ''INTEGER PRIMARY KEY'',
          plain ''scope_id'' ''TEXT'',
          plain ''session_key'' ''TEXT NOT NULL UNIQUE'',
          refers ''target_id'' ''INTEGER'' ''targets'' ''id'' No_Action,
          plain ''instrument'' ''TEXT'',
          plain ''camera'' ''TEXT'',
          plain ''filter'' ''TEXT'',
          plain ''exptime'' ''REAL'',
          plain ''gain'' ''INTEGER'',
          plain ''binning'' ''INTEGER'',
          plain ''started_at'' ''TEXT'',
          plain ''ended_at'' ''TEXT'',
          plain ''frame_count'' ''INTEGER'',
          plain ''failed_count'' ''INTEGER'',
          plain ''notes'' ''TEXT''],
      Create_Table ''session_frames''
         [refers ''session_id'' ''INTEGER'' ''sessions'' ''id'' Cascade,
          refers ''frame_id'' ''INTEGER'' ''frames'' ''id'' Cascade],
      Create_Table ''schema_version''
         [plain ''version'' ''INTEGER PRIMARY KEY''],
      Insert_Version 1]"

definition migration_2 :: "stmt list" where
  "migration_2 =
     [Create_Table ''masters''
         [plain ''id'' ''INTEGER PRIMARY KEY'',
          plain ''kind'' ''TEXT NOT NULL'',
          plain ''scope_id'' ''TEXT'',
          plain ''source'' ''TEXT'',
          plain ''instrument'' ''TEXT'',
          plain ''camera'' ''TEXT'',
          plain ''filter'' ''TEXT'',
          plain ''exptime'' ''REAL'',
          plain ''gain'' ''INTEGER'',
          plain ''binning'' ''INTEGER'',
          plain ''ccd_temp'' ''REAL'',
          plain ''stack_count'' ''INTEGER'',
          plain ''file_hash'' ''TEXT'',
          plain ''path'' ''TEXT NOT NULL UNIQUE'',
          plain ''inode'' ''INTEGER'',
          plain ''mtime'' ''REAL'',
          plain ''size'' ''INTEGER'',
          plain ''date_built'' ''TEXT'',
          plain ''cache_ref'' ''TEXT'',
          plain ''source_frame_ids'' ''TEXT'',
          plain ''scanned_at'' ''REAL''],
      Create_Index ''idx_masters_kind'' ''masters'' [''kind''],
      Create_Index ''idx_masters_match'' ''masters''
         [''kind'', ''instrument'', ''camera'', ''gain'', ''exptime'', ''binning'', ''ccd_temp''],
      Create_Table ''calibration_matches''
         [refers ''session_id'' ''INTEGER NOT NULL'' ''sessions'' ''id'' Cascade,
          plain ''kind'' ''TEXT NOT NULL'',
          refers ''master_id'' ''INTEGER'' ''masters'' ''id'' Set_Null,
          plain ''match_quality'' ''TEXT NOT NULL'',
          plain ''details'' ''TEXT'',
          defaulted ''overridden'' ''INTEGER NOT NULL'' (SQL_Int 0),
          plain ''updated_at'' ''REAL''],
      Insert_Version 2]"

definition migration_3 :: "stmt list" where
  "migration_3 =
     [Create_Table ''jobs''
         [plain ''id'' ''TEXT PRIMARY KEY'',
          plain ''status'' ''TEXT NOT NULL'',
          plain ''template_id'' ''TEXT NOT NULL'',
          plain ''template_version'' ''INTEGER NOT NULL'',
          plain ''template_json'' ''TEXT NOT NULL'',
          plain ''job_json'' ''TEXT NOT NULL'',
          plain ''outputs_json'' ''TEXT'',
          plain ''error'' ''TEXT'',
          plain ''submitted_at'' ''TEXT NOT NULL'',
          plain ''started_at'' ''TEXT'',
          plain ''finished_at'' ''TEXT''],
      Create_Index ''idx_jobs_status'' ''jobs'' [''status''],
      Create_Index ''idx_jobs_submitted'' ''jobs'' [''submitted_at''],
      Create_Table ''job_events''
         [plain ''id'' ''INTEGER PRIMARY KEY'',
          refers ''job_id'' ''TEXT NOT NULL'' ''jobs'' ''id'' Cascade,
          plain ''seq'' ''INTEGER NOT NULL'',
          plain ''type'' ''TEXT NOT NULL'',
          plain ''timestamp'' ''TEXT NOT NULL'',
          plain ''node_id'' ''TEXT'',
          plain ''fraction'' ''REAL'',
          plain ''message'' ''TEXT'',
          plain ''error'' ''TEXT'',
          plain ''extra_json'' ''TEXT''],
      Create_Index ''idx_job_events_job'' ''job_events'' [''job_id'', ''seq''],
      Insert_Version 3]"

definition migration_4 :: "stmt list" where
  "migration_4 =
     [Create_Table ''renderings''
         [plain ''id'' ''TEXT PRIMARY KEY'',
          plain ''name'' ''TEXT NOT NULL'',
          plain ''template_id'' ''TEXT NOT NULL'',
          plain ''template_version'' ''INTEGER NOT NULL'',
          plain ''template_json'' ''TEXT NOT NULL'',
          plain ''base_job_json'' ''TEXT NOT NULL'',
          plain ''current_seq'' ''INTEGER NOT NULL'',
          defaulted ''draft_mode'' ''INTEGER NOT NULL'' (SQL_Int 0),
          plain ''source_session_ids'' ''TEXT NOT NULL'',
          plain ''created_at'' ''TEXT NOT NULL'',
          plain ''updated_at'' ''TEXT NOT NULL''],
      Create_Index ''idx_renderings_updated'' ''renderings'' [''updated_at''],
      Create_Table ''rendering_history''
         [plain ''id'' ''INTEGER PRIMARY KEY'',
          refers ''rendering_id'' ''TEXT NOT NULL'' ''renderings'' ''id'' Cascade,
          plain ''seq'' ''INTEGER NOT NULL'',
          plain ''job_id'' ''TEXT NOT NULL'',
          plain ''overrides_json'' ''TEXT NOT NULL'',
          plain ''label'' ''TEXT'',
          plain ''created_at'' ''TEXT NOT NULL''],
      Create_Index ''idx_rh_rendering'' ''rendering_history'' [''rendering_id'', ''seq''],
      Insert_Version 4]"

definition migration_5 :: "stmt list" where
  "migration_5 =
     [Add_Column ''jobs'' (plain ''node_hashes_json'' ''TEXT''),
      Create_Table ''settings''
         [plain ''key'' ''TEXT PRIMARY KEY'',
          plain ''value_json'' ''TEXT NOT NULL'',
          plain ''updated_at'' ''TEXT NOT NULL''],
      Insert_Version 5]"

definition migration_6 :: "stmt list" where
  "migration_6 =
     [Drop_Index_If_Exists ''idx_renderings_updated'',
      Drop_Index_If_Exists ''idx_rh_rendering'',
      Rename_Table ''renderings'' ''projects'',
      Rename_Table ''rendering_history'' ''project_history'',
      Rename_Column ''project_history'' ''rendering_id'' ''project_id'',
      Create_Index ''idx_projects_updated'' ''projects'' [''updated_at''],
      Create_Index ''idx_ph_project'' ''project_history'' [''project_id'', ''seq''],
      Insert_Version 6]"

definition migration_7 :: "stmt list" where
  "migration_7 =
     [Add_Column ''projects'' (plain ''cover_seq'' ''INTEGER''),
      Insert_Version 7]"

definition migration_8 :: "stmt list" where
  "migration_8 =
     [Add_Column ''project_history'' (defaulted ''published'' ''INTEGER NOT NULL'' (SQL_Int 0)),
      Insert_Version 8]"

definition migration_9 :: "stmt list" where
  "migration_9 =
     [Add_Column ''targets'' (plain ''resolved_canonical'' ''TEXT''),
      Add_Column ''targets'' (plain ''resolved_separation_arcmin'' ''REAL''),
      Add_Column ''targets'' (plain ''resolved_at'' ''TEXT''),
      Add_Column ''targets'' (plain ''resolved_canonical_override'' ''TEXT''),
      Add_Column ''targets'' (plain ''resolved_source'' ''TEXT''),
      Insert_Version 9]"

definition migration_10 :: "stmt list" where
  "migration_10 =
     [Drop_Column ''targets'' ''resolved_canonical_override'',
      Insert_Version 10]"

definition migration_11 :: "stmt list" where
  "migration_11 =
     [Add_Column ''projects'' (plain ''description'' ''TEXT''),
      Add_Column ''sessions'' (plain ''description'' ''TEXT''),
      Insert_Version 11]"

definition migration_12 :: "stmt list" where
  "migration_12 =
     [Add_Column ''project_history'' (defaulted ''kind'' ''TEXT NOT NULL'' (SQL_Text ''edit'')),
      Add_Column ''project_history'' (plain ''snapshot_json'' ''TEXT''),
      Insert_Version 12]"

definition migration_13 :: "stmt list" where
  "migration_13 =
     [Add_Column ''jobs'' (defaulted ''cancel_requested'' ''INTEGER NOT NULL'' (SQL_Int 0)),
      Add_Column ''jobs'' (plain ''worker_pid'' ''INTEGER''),
      Add_Column ''jobs'' (plain ''heartbeat_at'' ''TEXT''),
      Add_Column ''jobs'' (defaulted ''force'' ''INTEGER NOT NULL'' (SQL_Int 0)),
      Insert_Version 13]"

definition migration_14 :: "stmt list" where
  "migration_14 =
     [Drop_Index_If_Exists ''idx_frames_session_key'',
      Drop_Column ''frames'' ''session_key'',
      Create_Table ''sessions_new''
         [plain ''id'' ''INTEGER PRIMARY KEY'',
          plain ''scope_id'' ''TEXT'',
          refers ''target_id'' ''INTEGER'' ''targets'' ''id'' No_Action,
          plain ''instrument'' ''TEXT'',
          plain ''camera'' ''TEXT'',
          plain ''filter'' ''TEXT'',
          plain ''exptime'' ''REAL'',
          plain ''gain'' ''INTEGER'',
          plain ''binning'' ''INTEGER'',
          plain ''started_at'' ''TEXT'',
          plain ''ended_at'' ''TEXT'',
          plain ''frame_count'' ''INTEGER'',
          plain ''failed_count'' ''INTEGER'',
          plain ''notes'' ''TEXT'',
          plain ''description'' ''TEXT''],
      Copy_Rows ''sessions_new'' ''sessions''
         [''id'', ''scope_id'', ''target_id'', ''instrument'', ''camera'', ''filter'',
          ''exptime'', ''gain'', ''binning'', ''started_at'', ''ended_at'', ''frame_count'', ''failed_count'', ''notes'', ''description''],
      Drop_Table ''sessions'',
      Rename_Table ''sessions_new'' ''sessions'',
      Insert_Version 14]"

definition migration_15 :: "stmt list" where
  "migration_15 =
     [Update_Null ''frames'' ''file_hash'',
      Update_Null ''masters'' ''file_hash'',
      Insert_Version 15]"

definition migration_16 :: "stmt list" where
  "migration_16 =
     [Add_Column ''jobs'' (plain ''quality_json'' ''TEXT''),
      Insert_Version 16]"


definition MIGRATIONS :: "(nat \<times> stmt list) list" where
  "MIGRATIONS =
     [(1, migration_1), (2, migration_2), (3, migration_3), (4, migration_4), (5, migration_5), (6, migration_6),
      (7, migration_7), (8, migration_8), (9, migration_9), (10, migration_10), (11, migration_11), (12, migration_12),
      (13, migration_13), (14, migration_14), (15, migration_15), (16, migration_16)]"

definition CURRENT_SCHEMA_VERSION :: nat where
  "CURRENT_SCHEMA_VERSION = 16"

section \<open>The loop\<close>

definition current_version :: "schema_db \<Rightarrow> nat" where
  "current_version db = foldr max (versions_of db) 0"

definition pending :: "nat \<Rightarrow> nat list" where
  "pending version = filter (\<lambda>v. version < v) (map fst MIGRATIONS)"

definition statements :: "nat \<Rightarrow> stmt list" where
  "statements v = (case map_of MIGRATIONS v of None \<Rightarrow> [] | Some ss \<Rightarrow> ss)"

text \<open>
  \<open>migrate\<close> in one process: the error raised if any, and the database as committed; None when the fuel runs out. A
  migration that fails is rolled back, the ones before it stay.
\<close>

fun migrate_loop :: "nat \<Rightarrow> schema_db \<Rightarrow> (string option \<times> schema_db) option" where
  "migrate_loop 0 db = None"
| "migrate_loop (Suc n) db =
     (case pending (current_version db) of
        [] \<Rightarrow> Some (None, db)
      | v # _ \<Rightarrow> (case exec_all True (statements v) db of
                    Inl e \<Rightarrow> Some (Some e, db)
                  | Inr db' \<Rightarrow> migrate_loop n db'))"

definition migrate :: "schema_db \<Rightarrow> (string option \<times> schema_db) option" where
  "migrate db = migrate_loop (Suc (length MIGRATIONS)) db"

section \<open>Several processes\<close>

text \<open>
  Where a process is in the loop of \<open>migrate\<close>: about to read the version, having chosen a migration, holding the
  write lock for it, returned, or stopped by an exception or a crash.
\<close>

datatype migrator = Looking | Chose nat | Holding nat | Up_To_Date | Raised string | Crashed

record mig_sys =
  ms_db :: schema_db
  ms_lock :: "nat option"
  ms_proc :: "nat \<Rightarrow> migrator"

definition goto :: "nat \<Rightarrow> migrator \<Rightarrow> mig_sys \<Rightarrow> mig_sys" where
  "goto p x ms = ms\<lparr>ms_proc := (ms_proc ms)(p := x)\<rparr>"

text \<open>
  The statements of a transaction are seen by others only at its commit, so running them and committing is one step.
  A crash gives the lock back with the database unchanged.
\<close>

inductive mig_step :: "mig_sys \<Rightarrow> mig_sys \<Rightarrow> bool" where
  look_done: "ms_proc ms p = Looking \<Longrightarrow> pending (current_version (ms_db ms)) = [] \<Longrightarrow> mig_step ms (goto p Up_To_Date ms)"
| look: "ms_proc ms p = Looking \<Longrightarrow> pending (current_version (ms_db ms)) = v # vs \<Longrightarrow> mig_step ms (goto p (Chose v) ms)"
| begin_lock: "ms_proc ms p = Chose v \<Longrightarrow> ms_lock ms = None \<Longrightarrow> mig_step ms (goto p (Holding v) (ms\<lparr>ms_lock := Some p\<rparr>))"
| begin_busy: "ms_proc ms p = Chose v \<Longrightarrow> ms_lock ms = Some q \<Longrightarrow> mig_step ms (goto p (Raised ''database is locked'') ms)"
| overtaken: "ms_proc ms p = Holding v \<Longrightarrow> v \<le> current_version (ms_db ms)
    \<Longrightarrow> mig_step ms (goto p Looking (ms\<lparr>ms_lock := None\<rparr>))"
| commit: "ms_proc ms p = Holding v \<Longrightarrow> current_version (ms_db ms) < v \<Longrightarrow> exec_all True (statements v) (ms_db ms) = Inr db'
    \<Longrightarrow> mig_step ms (goto p Looking (ms\<lparr>ms_db := db', ms_lock := None\<rparr>))"
| rollback: "ms_proc ms p = Holding v \<Longrightarrow> current_version (ms_db ms) < v \<Longrightarrow> exec_all True (statements v) (ms_db ms) = Inl e
    \<Longrightarrow> mig_step ms (goto p (Raised e) (ms\<lparr>ms_lock := None\<rparr>))"
| crash: "mig_step ms (goto p Crashed (ms\<lparr>ms_lock := (if ms_lock ms = Some p then None else ms_lock ms)\<rparr>))"

definition opened :: "schema_db \<Rightarrow> mig_sys" where
  "opened db = \<lparr>ms_db = db, ms_lock = None, ms_proc = (\<lambda>_. Looking)\<rparr>"

section \<open>The loop ends\<close>

lemma migration_numbers: "map fst MIGRATIONS = [1..<17]"
  by (simp add: MIGRATIONS_def upt_rec)

lemma every_migration_records: "list_all (\<lambda>(v, ss). ss \<noteq> [] \<and> last ss = Insert_Version v) MIGRATIONS"
  by (simp add: MIGRATIONS_def migration_1_def migration_2_def migration_3_def migration_4_def migration_5_def migration_6_def
      migration_7_def migration_8_def migration_9_def migration_10_def migration_11_def migration_12_def migration_13_def
      migration_14_def migration_15_def migration_16_def)

lemma statements_end:
  assumes "v \<in> set [1..<17]"
  obtains ss where "statements v = ss @ [Insert_Version v]"
proof -
  have "v \<in> fst ` set MIGRATIONS" using assms migration_numbers by (metis set_map)
  then obtain ss where ss: "map_of MIGRATIONS v = Some ss" by (metis map_of_eq_None_iff not_None_eq)
  then have "(v, ss) \<in> set MIGRATIONS" by (rule map_of_SomeD)
  then have "ss \<noteq> [] \<and> last ss = Insert_Version v" using every_migration_records by (auto simp: list_all_iff)
  then have "statements v = butlast ss @ [Insert_Version v]" using ss by (metis append_butlast_last_id option.simps(5) statements_def)
  then show thesis by (rule that)
qed

lemma exec_all_append:
  "exec_all fk (ss @ ts) db = (case exec_all fk ss db of Inl e \<Rightarrow> Inl e | Inr db' \<Rightarrow> exec_all fk ts db')"
  by (induction ss arbitrary: db) (auto split: sum.split)

lemma map_filter_snoc: "f x = Some y \<Longrightarrow> y \<in> set (List.map_filter f (xs @ [x]))"
  by (simp add: List.map_filter_def)

lemma insert_version_recorded: "exec fk (Insert_Version v) db = Inr db' \<Longrightarrow> v \<in> set (versions_of db')"
  by (auto simp: with_table_def set_table_def versions_of_def cell_def intro!: map_filter_snoc split: option.splits if_splits)

lemma current_version_ge: "v \<in> set (versions_of db) \<Longrightarrow> v \<le> current_version db"
proof -
  have "v \<in> set vs \<Longrightarrow> v \<le> foldr max vs 0" for vs :: "nat list" by (induction vs) auto
  then show "v \<in> set (versions_of db) \<Longrightarrow> v \<le> current_version db" by (simp add: current_version_def)
qed

lemma migrated_version:
  assumes "v \<in> set [1..<17]" "exec_all fk (statements v) db = Inr db'"
  shows "v \<le> current_version db'"
proof -
  obtain ss where ss: "statements v = ss @ [Insert_Version v]" using statements_end [OF assms(1)] .
  have "v \<in> set (versions_of db')"
    using assms(2) unfolding ss exec_all_append
    by (auto simp del: exec.simps split: sum.splits dest: insert_version_recorded)
  then show ?thesis by (rule current_version_ge)
qed

lemma pending_upt: "pending cur = filter (\<lambda>v. cur < v) [1..<17]"
  by (simp add: pending_def migration_numbers del: upt_rec_numeral)

lemma pending_Cons:
  assumes "pending cur = v # vs"
  shows "v \<in> set [1..<17]" "cur < v" "\<And>w. w \<in> set [1..<17] \<Longrightarrow> w < v \<Longrightarrow> w \<le> cur"
proof -
  have "set (pending cur) = {w \<in> set [1..<17]. cur < w}" by (simp add: pending_upt del: upt_rec_numeral)
  moreover have "sorted (pending cur)" by (simp add: pending_upt sorted_wrt_filter del: upt_rec_numeral)
  ultimately have *: "v \<in> {w \<in> set [1..<17]. cur < w}" "\<forall>w \<in> {w \<in> set [1..<17]. cur < w}. v \<le> w"
    using assms by auto
  show "v \<in> set [1..<17]" "cur < v" using *(1) by blast+
  fix w assume "w \<in> set [1..<17]" "w < v"
  then show "w \<le> cur" using *(2) by (metis (no_types, lifting) mem_Collect_eq not_le)
qed

lemma pending_first:
  assumes "v \<in> set [1..<17]" "cur < v" "\<And>w. w \<in> set [1..<17] \<Longrightarrow> w < v \<Longrightarrow> w \<le> cur"
  shows "\<exists>vs. pending cur = v # vs"
proof (cases "pending cur")
  case Nil
  then show ?thesis using assms(1,2) by (auto simp: pending_upt filter_empty_conv simp del: upt_rec_numeral)
next
  case (Cons w ws)
  have "\<not> w < v" using assms(3) [OF pending_Cons(1) [OF Cons]] pending_Cons(2) [OF Cons] by auto
  moreover have "\<not> v < w" using pending_Cons(3) [OF Cons assms(1)] assms(2) by auto
  ultimately show ?thesis using Cons by auto
qed

text \<open>The databases that migrations lead to, each run completely, in order and once.\<close>

inductive upgraded :: "schema_db \<Rightarrow> schema_db \<Rightarrow> bool" where
  same: "upgraded db db"
| next_one: "upgraded db0 db \<Longrightarrow> pending (current_version db) = v # vs \<Longrightarrow> exec_all True (statements v) db = Inr db'
    \<Longrightarrow> upgraded db0 db'"

lemma upgraded_front:
  assumes "pending (current_version db) = v # vs" "exec_all True (statements v) db = Inr db1" "upgraded db1 db2"
  shows "upgraded db db2"
  using assms(3,1,2) by (induction db1 db2 rule: upgraded.induct) (blast intro: upgraded.intros)+

lemma fewer_pending:
  assumes "pending cur = v # vs" "v \<le> cur'"
  shows "length (pending cur') \<le> length vs"
proof -
  have "pending cur' = filter (\<lambda>w. cur' < w) (pending cur)"
    using pending_Cons(2) [OF assms(1)] assms(2) by (auto simp: pending_upt intro!: filter_cong simp del: upt_rec_numeral)
  then show ?thesis using assms by simp
qed

lemma migrate_loop_ends:
  assumes "length (pending (current_version db)) < n"
  shows "\<exists>e db'. migrate_loop n db = Some (e, db') \<and> upgraded db db' \<and> (e = None \<longrightarrow> pending (current_version db') = [])"
  using assms
proof (induction n arbitrary: db)
  case (Suc n)
  show ?case
  proof (cases "pending (current_version db)")
    case Nil
    then show ?thesis by (auto intro: upgraded.intros)
  next
    case (Cons v vs)
    show ?thesis
    proof (cases "exec_all True (statements v) db")
      case (Inl e)
      then show ?thesis using Cons by (auto intro: upgraded.intros)
    next
      case (Inr db')
      have "v \<le> current_version db'" using migrated_version [OF pending_Cons(1) [OF Cons] Inr] .
      then have "length (pending (current_version db')) < n" using fewer_pending [OF Cons] Suc.prems Cons by fastforce
      from Suc.IH [OF this] show ?thesis using Cons Inr upgraded_front [OF Cons Inr] by auto
    qed
  qed
qed simp

lemma migrate_loop_more: "migrate_loop n db = Some r \<Longrightarrow> n \<le> k \<Longrightarrow> migrate_loop k db = Some r"
proof (induction n db arbitrary: k rule: migrate_loop.induct)
  case (2 n db)
  then show ?case by (cases k) (auto split: list.splits sum.splits)
qed simp

lemma migrate_eq: "migrate_loop n db = Some r \<Longrightarrow> migrate db = Some r"
proof -
  assume r: "migrate_loop n db = Some r"
  have "length (pending (current_version db)) \<le> length (map fst MIGRATIONS)" unfolding pending_def by (rule length_filter_le)
  then obtain x where x: "migrate db = Some x"
    using migrate_loop_ends [of db "Suc (length MIGRATIONS)"] by (auto simp: migrate_def)
  have "migrate_loop (max n (Suc (length MIGRATIONS))) db = Some r" using r by (rule migrate_loop_more) simp
  moreover have "migrate_loop (max n (Suc (length MIGRATIONS))) db = Some x" using x unfolding migrate_def by (rule migrate_loop_more) simp
  ultimately show ?thesis using x by simp
qed

lemma upgraded_loop:
  assumes "upgraded db0 db" "migrate_loop n db = Some r"
  shows "\<exists>k. migrate_loop k db0 = Some r"
  using assms
proof (induction arbitrary: n rule: upgraded.induct)
  case (next_one db0 db v vs db')
  have "migrate_loop (Suc n) db = Some r" using next_one.hyps(2,3) next_one.prems by simp
  then show ?case by (rule next_one.IH)
qed blast

text \<open>
  Opening the catalog ends: from any database the loop returns within one round more than there are
  migrations. It returns normally with nothing pending, or raises the error of a statement with the database as
  the migrations before it left it.\<close>

theorem migrate_returns:
  "case migrate db of
     None \<Rightarrow> False
   | Some (None, db') \<Rightarrow> upgraded db db' \<and> CURRENT_SCHEMA_VERSION \<le> current_version db'
   | Some (Some e, db') \<Rightarrow> upgraded db db'"
proof -
  have "length (pending (current_version db)) \<le> length (map fst MIGRATIONS)" unfolding pending_def by (rule length_filter_le)
  then obtain e db' where r: "migrate db = Some (e, db')" "upgraded db db'" "e = None \<longrightarrow> pending (current_version db') = []"
    using migrate_loop_ends [of db "Suc (length MIGRATIONS)"] by (auto simp: migrate_def)
  have "16 \<le> current_version db'" if "pending (current_version db') = []"
    using that by (auto simp: pending_upt filter_empty_conv simp del: upt_rec_numeral)
  then show ?thesis using r by (cases e) (auto simp: CURRENT_SCHEMA_VERSION_def)
qed

section \<open>Processes that race\<close>

definition mig_inv :: "schema_db \<Rightarrow> mig_sys \<Rightarrow> bool" where
  "mig_inv db0 ms \<longleftrightarrow> upgraded db0 (ms_db ms) \<and>
     (\<forall>p v. ms_proc ms p = Chose v \<or> ms_proc ms p = Holding v \<longrightarrow>
        v \<in> set [1..<17] \<and> (\<forall>w \<in> set [1..<17]. w < v \<longrightarrow> w \<le> current_version (ms_db ms))) \<and>
     (\<forall>p. ms_proc ms p = Up_To_Date \<longrightarrow> pending (current_version (ms_db ms)) = []) \<and>
     (\<forall>p v. ms_proc ms p = Holding v \<longrightarrow> ms_lock ms = Some p)"

lemma mig_inv_move:
  assumes "mig_inv db0 ms"
    "\<And>v. x = Chose v \<or> x = Holding v \<Longrightarrow> v \<in> set [1..<17] \<and> (\<forall>w \<in> set [1..<17]. w < v \<longrightarrow> w \<le> current_version (ms_db ms))"
    "x = Up_To_Date \<Longrightarrow> pending (current_version (ms_db ms)) = []"
    "\<And>v. x = Holding v \<Longrightarrow> l = Some p"
    "\<And>q. q \<noteq> p \<Longrightarrow> ms_lock ms = Some q \<Longrightarrow> l = Some q"
  shows "mig_inv db0 (goto p x (ms\<lparr>ms_lock := l\<rparr>))"
  using assms unfolding mig_inv_def goto_def by (auto simp del: upt_rec_numeral)

lemma mig_inv_step:
  assumes "mig_step ms ms'" "mig_inv db0 ms"
  shows "mig_inv db0 ms'"
  using assms
proof (induction rule: mig_step.induct)
  case (commit ms p v db')
  let ?cur = "current_version (ms_db ms)"
  have v: "v \<in> set [1..<17]" "\<And>w. w \<in> set [1..<17] \<Longrightarrow> w < v \<Longrightarrow> w \<le> ?cur"
    using commit.prems commit.hyps(1) unfolding mig_inv_def by metis+
  obtain vs where "pending ?cur = v # vs" using pending_first [OF v(1) commit.hyps(2) v(2)] by blast
  then have up: "upgraded db0 db'" using commit.prems commit.hyps(3) by (auto simp: mig_inv_def intro: upgraded.next_one)
  have more: "?cur \<le> current_version db'" using migrated_version [OF v(1) commit.hyps(3)] commit.hyps(2) by simp
  have none: "ms_proc ms q \<noteq> Up_To_Date" for q
    using commit.prems \<open>pending ?cur = v # vs\<close> by (auto simp: mig_inv_def)
  have alone: "ms_proc ms q \<noteq> Holding u" if "q \<noteq> p" for q u
    using commit.prems commit.hyps(1) that unfolding mig_inv_def by (metis option.inject)
  have chose: "u \<in> set [1..<17] \<and> (\<forall>w \<in> set [1..<17]. w < u \<longrightarrow> w \<le> current_version db')" if "ms_proc ms q = Chose u" for q u
    using commit.prems that more unfolding mig_inv_def by (meson le_trans)
  show ?case using up none alone chose unfolding mig_inv_def goto_def by (auto simp del: upt_rec_numeral)
next
  case (look ms p v vs)
  have "mig_inv db0 (goto p (Chose v) (ms\<lparr>ms_lock := ms_lock ms\<rparr>))"
    using look.prems pending_Cons [OF look.hyps(2)] by (intro mig_inv_move) auto
  then show ?case by simp
next
  case (look_done ms p)
  have "mig_inv db0 (goto p Up_To_Date (ms\<lparr>ms_lock := ms_lock ms\<rparr>))"
    using look_done by (intro mig_inv_move) auto
  then show ?case by simp
next
  case (begin_lock ms p v)
  have "v \<in> set [1..<17] \<and> (\<forall>w \<in> set [1..<17]. w < v \<longrightarrow> w \<le> current_version (ms_db ms))"
    using begin_lock.prems begin_lock.hyps(1) unfolding mig_inv_def by metis
  then show ?case using begin_lock by (intro mig_inv_move) auto
next
  case (begin_busy ms p v q)
  have "mig_inv db0 (goto p (Raised ''database is locked'') (ms\<lparr>ms_lock := ms_lock ms\<rparr>))"
    using begin_busy by (intro mig_inv_move) auto
  then show ?case by simp
next
  case (overtaken ms p v)
  have "ms_lock ms = Some p" using overtaken unfolding mig_inv_def by metis
  then show ?case using overtaken by (intro mig_inv_move) auto
next
  case (rollback ms p v e)
  have "ms_lock ms = Some p" using rollback unfolding mig_inv_def by metis
  then show ?case using rollback by (intro mig_inv_move) auto
next
  case (crash ms p)
  then show ?case by (intro mig_inv_move) auto
qed

lemma mig_inv_opened: "mig_inv db (opened db)"
  by (simp add: mig_inv_def opened_def upgraded.same)

lemma mig_inv_reachable:
  assumes "mig_step\<^sup>*\<^sup>* (opened db0) ms"
  shows "mig_inv db0 ms"
  using assms by (induction rule: rtranclp_induct) (auto intro: mig_inv_opened mig_inv_step)

text \<open>
  C15: Any number of processes may open the catalog at once, lose the race for the lock, fail or crash. The
  committed database is always one that whole migrations lead to, each run once and in order, at most one process
  is inside a migration, and when any process has returned the database is what a single process would have made of it.\<close>

theorem racing_migrations_are_sequential:
  assumes "mig_step\<^sup>*\<^sup>* (opened db0) ms"
  shows "upgraded db0 (ms_db ms)
    \<and> (\<forall>p q v w. ms_proc ms p = Holding v \<and> ms_proc ms q = Holding w \<longrightarrow> p = q)
    \<and> (\<forall>p. ms_proc ms p = Up_To_Date \<longrightarrow> migrate db0 = Some (None, ms_db ms))"
proof -
  have inv: "mig_inv db0 ms" by (rule mig_inv_reachable [OF assms])
  then have up: "upgraded db0 (ms_db ms)" unfolding mig_inv_def by blast
  have "migrate db0 = Some (None, ms_db ms)" if "ms_proc ms p = Up_To_Date" for p
  proof -
    have "pending (current_version (ms_db ms)) = []" using inv that unfolding mig_inv_def by blast
    then have "migrate_loop (Suc 0) (ms_db ms) = Some (None, ms_db ms)" by simp
    from upgraded_loop [OF up this] show ?thesis using migrate_eq by blast
  qed
  moreover have "p = q" if "ms_proc ms p = Holding v \<and> ms_proc ms q = Holding w" for p q v w
  proof -
    have "ms_lock ms = Some p" "ms_lock ms = Some q" using inv that unfolding mig_inv_def by blast+
    then show ?thesis by simp
  qed
  ultimately show ?thesis using up by blast
qed

definition demo_version :: "nat list \<Rightarrow> sql_table" where
  "demo_version vs = \<lparr>tb_columns = [plain ''version'' ''INTEGER PRIMARY KEY''], tb_rows = map (\<lambda>v. [(''version'', SQL_Int (int v))]) vs\<rparr>"

definition demo_db15 :: schema_db where
  "demo_db15 = \<lparr>sd_tables = [(''jobs'', \<lparr>tb_columns = [plain ''id'' ''TEXT PRIMARY KEY''], tb_rows = [[(''id'', SQL_Text ''j'')]]\<rparr>),
                            (''schema_version'', demo_version [15])], sd_indexes = []\<rparr>"

definition demo_db16 :: schema_db where
  "demo_db16 = \<lparr>sd_tables = [(''jobs'', \<lparr>tb_columns = [plain ''id'' ''TEXT PRIMARY KEY'', plain ''quality_json'' ''TEXT''],
                                          tb_rows = [[(''id'', SQL_Text ''j''), (''quality_json'', SQL_Null)]]\<rparr>),
                            (''schema_version'', demo_version [15, 16])], sd_indexes = []\<rparr>"

lemma demo_upgrade:
  "current_version demo_db15 = 15" "current_version demo_db16 = 16"
  "exec_all True (statements 16) demo_db15 = Inr demo_db16" "pending 15 = [16]" "pending 16 = []"
  by code_simp+

text \<open>Two processes read version 15; one migrates, the other finds itself overtaken once it has the lock.\<close>

lemma racing_migrations_are_sequential_witness: "migrate demo_db15 = Some (None, demo_db16)"
proof -
  define s0 where "s0 = opened demo_db15"
  define s1 where "s1 = goto 0 (Chose 16) s0"
  define s2 where "s2 = goto 1 (Chose 16) s1"
  define s3 where "s3 = goto 0 (Holding 16) (s2\<lparr>ms_lock := Some 0\<rparr>)"
  define s4 where "s4 = goto 0 Looking (s3\<lparr>ms_db := demo_db16, ms_lock := None\<rparr>)"
  define s5 where "s5 = goto 1 (Holding 16) (s4\<lparr>ms_lock := Some 1\<rparr>)"
  define s6 where "s6 = goto 1 Looking (s5\<lparr>ms_lock := None\<rparr>)"
  define s7 where "s7 = goto 1 Up_To_Date s6"
  note defs = s0_def s1_def s2_def s3_def s4_def s5_def s6_def opened_def goto_def
  have "mig_step s0 s1" unfolding s1_def by (rule look [where vs = "[]"]) (simp_all add: defs demo_upgrade)
  moreover have "mig_step s1 s2" unfolding s2_def by (rule look [where vs = "[]"]) (simp_all add: defs demo_upgrade)
  moreover have "mig_step s2 s3" unfolding s3_def by (rule begin_lock) (simp_all add: defs)
  moreover have "mig_step s3 s4" unfolding s4_def by (rule commit [where v = 16]) (simp_all add: defs demo_upgrade)
  moreover have "mig_step s4 s5" unfolding s5_def by (rule begin_lock) (simp_all add: defs)
  moreover have "mig_step s5 s6" unfolding s6_def by (rule overtaken [where v = 16]) (simp_all add: defs demo_upgrade)
  moreover have "mig_step s6 s7" unfolding s7_def by (rule look_done) (simp_all add: defs demo_upgrade)
  ultimately have reach: "mig_step\<^sup>*\<^sup>* (opened demo_db15) s7" unfolding s0_def by auto
  have "ms_proc s7 1 = Up_To_Date" "ms_db s7 = demo_db16" by (simp_all add: s7_def defs)
  then show ?thesis using racing_migrations_are_sequential [OF reach] by metis
qed

section \<open>The schema that results\<close>

definition columns_of :: "schema_db \<Rightarrow> (string \<times> string list) list" where
  "columns_of db = map (\<lambda>(t, tb). (t, map cl_name (tb_columns tb))) (sd_tables db)"

definition no_db :: schema_db where
  "no_db = \<lparr>sd_tables = [], sd_indexes = []\<rparr>"

text \<open>
  A new catalog: all migrations run without an error and leave these tables with these columns; no column that
  the first migrations create and a later one renames or drops is left.\<close>

theorem fresh_schema:
  "map_option (map_prod id columns_of) (migrate no_db) = Some (None,
      [(''targets'', [''id'', ''name'', ''aliases'', ''ra'', ''dec'', ''resolved_canonical'',
          ''resolved_separation_arcmin'', ''resolved_at'', ''resolved_source'']),
       (''frames'', [''id'', ''file_hash'', ''path'', ''inode'', ''mtime'', ''size'', ''image_type'', ''quality'',
          ''object'', ''instrument'', ''camera'', ''filter'', ''exptime'', ''gain'', ''binning'', ''ccd_temp'',
          ''date_obs'', ''ra'', ''dec'', ''scope_id'', ''fits_headers'', ''scanned_at'']),
       (''session_frames'', [''session_id'', ''frame_id'']),
       (''schema_version'', [''version'']),
       (''masters'', [''id'', ''kind'', ''scope_id'', ''source'', ''instrument'', ''camera'', ''filter'',
          ''exptime'', ''gain'', ''binning'', ''ccd_temp'', ''stack_count'', ''file_hash'', ''path'', ''inode'',
          ''mtime'', ''size'', ''date_built'', ''cache_ref'', ''source_frame_ids'', ''scanned_at'']),
       (''calibration_matches'', [''session_id'', ''kind'', ''master_id'', ''match_quality'', ''details'',
          ''overridden'', ''updated_at'']),
       (''jobs'', [''id'', ''status'', ''template_id'', ''template_version'', ''template_json'', ''job_json'',
          ''outputs_json'', ''error'', ''submitted_at'', ''started_at'', ''finished_at'', ''node_hashes_json'',
          ''cancel_requested'', ''worker_pid'', ''heartbeat_at'', ''force'', ''quality_json'']),
       (''job_events'', [''id'', ''job_id'', ''seq'', ''type'', ''timestamp'', ''node_id'', ''fraction'',
          ''message'', ''error'', ''extra_json'']),
       (''projects'', [''id'', ''name'', ''template_id'', ''template_version'', ''template_json'', ''base_job_json'',
          ''current_seq'', ''draft_mode'', ''source_session_ids'', ''created_at'', ''updated_at'', ''cover_seq'',
          ''description'']),
       (''project_history'', [''id'', ''project_id'', ''seq'', ''job_id'', ''overrides_json'', ''label'',
          ''created_at'', ''published'', ''kind'', ''snapshot_json'']),
       (''settings'', [''key'', ''value_json'', ''updated_at'']),
       (''sessions'', [''id'', ''scope_id'', ''target_id'', ''instrument'', ''camera'', ''filter'', ''exptime'',
          ''gain'', ''binning'', ''started_at'', ''ended_at'', ''frame_count'', ''failed_count'', ''notes'',
          ''description''])])"
  by code_simp

text \<open>A catalog at version 13: a session with a frame and a calibration match that the user chose.\<close>

definition demo_table :: "column list \<Rightarrow> (sql_value list) list \<Rightarrow> sql_table" where
  "demo_table cs rows = \<lparr>tb_columns = cs, tb_rows = map (zip (map cl_name cs)) rows\<rparr>"

definition demo_db13 :: schema_db where
  "demo_db13 = \<lparr>sd_tables =
     [(''frames'', demo_table [plain ''id'' ''INTEGER PRIMARY KEY'', plain ''session_key'' ''TEXT''] [[SQL_Int 7, SQL_Text ''k'']]),
      (''sessions'', demo_table (map (\<lambda>n. plain n ''TEXT'')
         [''id'', ''scope_id'', ''session_key'', ''target_id'', ''instrument'', ''camera'', ''filter'', ''exptime'', ''gain'',
          ''binning'', ''started_at'', ''ended_at'', ''frame_count'', ''failed_count'', ''notes'', ''description''])
         [SQL_Int 1 # replicate 15 SQL_Null]),
      (''session_frames'', demo_table [refers ''session_id'' ''INTEGER'' ''sessions'' ''id'' Cascade,
         refers ''frame_id'' ''INTEGER'' ''frames'' ''id'' Cascade] [[SQL_Int 1, SQL_Int 7]]),
      (''calibration_matches'', demo_table [refers ''session_id'' ''INTEGER NOT NULL'' ''sessions'' ''id'' Cascade,
         plain ''kind'' ''TEXT NOT NULL'', defaulted ''overridden'' ''INTEGER NOT NULL'' (SQL_Int 0)]
         [[SQL_Int 1, SQL_Text ''dark'', SQL_Int 1]]),
      (''schema_version'', demo_version [13])],
     sd_indexes = [(''idx_frames_session_key'', ''frames'', [''session_key''])]\<rparr>"

definition row_counts :: "string + schema_db \<Rightarrow> (string \<times> nat) list" where
  "row_counts r = (case r of Inl e \<Rightarrow> [] | Inr db \<Rightarrow> map (\<lambda>(t, tb). (t, length (tb_rows tb))) (sd_tables db))"

text \<open>
  Migration 14 rebuilds the table of sessions. Foreign keys are on, so dropping the old one first deletes its rows,
  and with them the frames of every session and the calibration matches, the user's choices among them.
\<close>

lemma rebuild_of_sessions_cascades:
  "row_counts (exec_all True (statements 14) demo_db13) =
     [(''frames'', 1), (''session_frames'', 0), (''calibration_matches'', 0), (''schema_version'', 2), (''sessions'', 1)]"
  "row_counts (exec_all False (statements 14) demo_db13) =
     [(''frames'', 1), (''session_frames'', 1), (''calibration_matches'', 1), (''schema_version'', 2), (''sessions'', 1)]"
  by code_simp+

section \<open>Retrying while the database is locked\<close>

datatype db_error = Operational string | Other_Exception string

fun contains :: "string \<Rightarrow> string \<Rightarrow> bool" where
  "contains p [] = (p = [])"
| "contains p (c # s) = (starts_with p (c # s) \<or> contains p s)"

definition is_locked :: "db_error \<Rightarrow> bool" where
  "is_locked e = (case e of
     Operational msg \<Rightarrow> contains ''locked'' (lower msg) \<or> contains ''busy'' (lower msg)
   | Other_Exception msg \<Rightarrow> False)"

text \<open>\<open>fn i\<close> is what the attempt numbered \<open>i\<close> gives; the second result is the base of each delay slept.\<close>

fun retry_from :: "(nat \<Rightarrow> db_error + 'a) \<Rightarrow> nat \<Rightarrow> nat \<Rightarrow> rat \<Rightarrow> (db_error + 'a) \<times> rat list" where
  "retry_from fn i 0 delay = (fn i, [])"
| "retry_from fn i (Suc left) delay =
     (case fn i of
        Inr a \<Rightarrow> (Inr a, [])
      | Inl e \<Rightarrow>
          if \<not> is_locked e then (Inl e, [])
          else let (r, ds) = retry_from fn (Suc i) left (min (delay * 2) 1) in (r, delay # ds))"

definition retry_on_locked :: "(nat \<Rightarrow> db_error + 'a) \<Rightarrow> (db_error + 'a) \<times> rat list" where
  "retry_on_locked fn = retry_from fn 0 7 (3 / 100)"

definition lock_outcome :: "db_error + 'a \<Rightarrow> bool" where
  "lock_outcome r = (case r of Inl e \<Rightarrow> is_locked e | Inr _ \<Rightarrow> False)"

lemma lock_outcome_simps [simp]: "lock_outcome (Inl e) = is_locked e" "\<not> lock_outcome (Inr a)"
  by (simp_all add: lock_outcome_def)

lemma retry_from_outcome:
  "fst (retry_from fn i left d) = (case find (\<lambda>k. \<not> lock_outcome (fn k)) [i..<i + left] of Some k \<Rightarrow> fn k | None \<Rightarrow> fn (i + left))"
proof (induction left arbitrary: i d)
  case (Suc left)
  have "[i..<i + Suc left] = i # [Suc i..<Suc i + left]" by (simp add: upt_rec)
  then show ?case using Suc.IH [of "Suc i"]
    by (cases "fn i") (auto simp add: split_beta Let_def simp del: upt_Suc split: option.split)
qed simp

text \<open>The result is that of the first of eight attempts that is not a lock error, or of the last.\<close>

lemma retry_outcome:
  "fst (retry_on_locked fn) = (case find (\<lambda>k. \<not> lock_outcome (fn k)) [0..<7] of Some k \<Rightarrow> fn k | None \<Rightarrow> fn 7)"
  unfolding retry_on_locked_def by (simp only: retry_from_outcome add_0)

end
