(* ===== verification/Openngc.thy ===== *)
theory Openngc
  imports Classify
begin

text \<open>
  The catalog of deep-sky objects (\<open>catalog/openngc.py\<close>): canonical names, the keys a row can be found under, the index in
  which the earlier row wins, and \<open>enrich\<close>. The rows of the two CSV files are arguments, as is Python's \<open>float\<close> on a
  text (None for ValueError).
\<close>

section \<open>Rows and entries\<close>

record csv_row =
  cr_name :: string
  cr_type :: string
  cr_ra :: string
  cr_dec :: string
  cr_const :: string
  cr_b_mag :: string
  cr_v_mag :: string
  cr_m :: string
  cr_ngc :: string
  cr_ic :: string
  cr_identifiers :: string
  cr_common_names :: string

record catalog_entry =
  en_canonical :: string
  en_common_name :: "string option"
  en_object_type :: "string option"
  en_ra_deg :: "rat option"
  en_dec_deg :: "rat option"
  en_magnitude :: "rat option"
  en_constellation :: "string option"

definition TYPE_LABELS :: "(string, string) dict" where
  "TYPE_LABELS =
     [(''G'', ''Galaxy''), (''GPair'', ''Galaxy Pair''), (''GTrpl'', ''Galaxy Triplet''), (''GGroup'', ''Galaxy Group''),
      (''OC'', ''Open Cluster''), (''GCl'', ''Globular Cluster''), (''Cl+N'', ''Cluster with Nebula''),
      (''HII'', ''H II Region''), (''EmN'', ''Emission Nebula''), (''RfN'', ''Reflection Nebula''), (''DrkN'', ''Dark Nebula''),
      (''PN'', ''Planetary Nebula''), (''SNR'', ''Supernova Remnant''), (''Neb'', ''Nebula''),
      (''*Ass'', ''Stellar Association''), (''AsterismCl'', ''Asterism''), (''Star'', ''Star''), (''*'', ''Star''),
      (''**'', ''Double Star''), (''Dup'', ''Duplicate Entry''), (''NonEx'', ''Non-existent'')]"

section \<open>Fields\<close>

fun split_on :: "char \<Rightarrow> string \<Rightarrow> string list" where
  "split_on sep [] = [[]]"
| "split_on sep (c # s) =
     (if c = sep then [] # split_on sep s else (c # hd (split_on sep s)) # tl (split_on sep s))"

definition sexagesimal :: "(string \<Rightarrow> rat option) \<Rightarrow> string \<Rightarrow> rat option" where
  "sexagesimal to_float s =
     (case split_on CHR '':'' s of
        [d, m, sec] \<Rightarrow>
          (case (to_float d, to_float m, to_float sec) of
             (Some a, Some b, Some c) \<Rightarrow> Some (a + b / 60 + c / 3600)
           | _ \<Rightarrow> None)
      | _ \<Rightarrow> None)"

definition parse_ra :: "(string \<Rightarrow> rat option) \<Rightarrow> string \<Rightarrow> rat option" where
  "parse_ra to_float s =
     (if strip s = '''' then None else map_option (\<lambda>h. h * 15) (sexagesimal to_float (strip s)))"

definition parse_dec :: "(string \<Rightarrow> rat option) \<Rightarrow> string \<Rightarrow> rat option" where
  "parse_dec to_float s =
     (let s1 = strip s; sign = (if starts_with ''-'' s1 then -1 else 1)
      in if s1 = '''' then None
         else map_option (\<lambda>d. sign * d) (sexagesimal to_float (dropWhile (\<lambda>c. c = CHR ''+'' \<or> c = CHR ''-'') s1)))"

definition no_zeros :: "string \<Rightarrow> string" where
  "no_zeros ds = (let n = dropWhile (\<lambda>c. c = CHR ''0'') ds in if n = '''' then ''0'' else n)"

definition strip_zeros :: "string \<Rightarrow> string \<Rightarrow> string" where
  "strip_zeros p raw =
     (let digits = drop (length p) raw
      in p @ '' '' @ no_zeros (takeWhile is_digit digits) @ dropWhile is_digit digits)"

definition canonical_from_name :: "string \<Rightarrow> string" where
  "canonical_from_name raw0 =
     (let raw = strip raw0
      in if starts_with ''NGC'' raw then strip_zeros ''NGC'' raw
         else if starts_with ''IC'' raw then strip_zeros ''IC'' raw
         else if starts_with ''B'' raw \<and> 1 < length raw \<and> is_digit (raw ! 1) then strip_zeros ''B'' raw
         else if starts_with ''C'' raw \<and> 1 < length raw \<and> is_digit (raw ! 1) then strip_zeros ''C'' raw
         else raw)"

definition pick_magnitude :: "(string \<Rightarrow> rat option) \<Rightarrow> string \<Rightarrow> string \<Rightarrow> rat option" where
  "pick_magnitude to_float v b =
     (case (if strip v = '''' then None else to_float (strip v)) of
        Some x \<Rightarrow> Some x
      | None \<Rightarrow> (if strip b = '''' then None else to_float (strip b)))"

section \<open>Keys\<close>

definition no_spaces :: "string \<Rightarrow> string" where
  "no_spaces s = filter (\<lambda>c. c \<noteq> CHR '' '') s"

definition number_keys :: "string \<Rightarrow> string \<Rightarrow> string list" where
  "number_keys p raw =
     (let n = strip raw
      in if n = '''' then [] else concat (map (\<lambda>v. [p @ '' '' @ v, p @ v]) [n, no_zeros n]))"

definition ALIAS_PREFIXES :: "string list" where
  "ALIAS_PREFIXES = [''SH '', ''SH2-'', ''LBN '', ''LDN '', ''C '', ''B '', ''MEL '', ''VDB '', ''RCW '', ''ABELL '']"

definition is_alpha :: "char \<Rightarrow> bool" where
  "is_alpha c = (CHR ''A'' \<le> c \<and> c \<le> CHR ''Z'' \<or> CHR ''a'' \<le> c \<and> c \<le> CHR ''z'')"

definition rstrip :: "string \<Rightarrow> string" where
  "rstrip s = rev (dropWhile is_space (rev s))"

definition token_keys :: "string \<Rightarrow> string list" where
  "token_keys raw =
     (let token = strip raw
      in if token = '''' \<or> \<not> list_ex (\<lambda>p. starts_with p (upper token)) ALIAS_PREFIXES then []
         else [token, no_spaces token] @
           (let before = takeWhile (Not \<circ> is_digit) token; from_digits = dropWhile (Not \<circ> is_digit) token;
                digits = takeWhile is_digit from_digits; rest = dropWhile is_digit from_digits; head = rstrip before
            in if digits = '''' \<or> head = '''' then []
               else [head @ '' '' @ no_zeros digits @ rest] @
                 (if is_alpha (last head) then [head @ no_zeros digits @ rest] else [])))"

text \<open>The code collects a set; all keys go to the same entry, so the order does not matter.\<close>

definition alias_keys_for :: "string \<Rightarrow> string \<Rightarrow> string \<Rightarrow> string \<Rightarrow> string \<Rightarrow> string list" where
  "alias_keys_for entry_name m ngc ic identifiers =
     [entry_name]
     @ (if CHR '' '' \<in> set entry_name then [no_spaces entry_name] else [])
     @ number_keys ''M'' m
     @ (if ngc \<noteq> '''' \<and> \<not> starts_with ''NGC'' entry_name then number_keys ''NGC'' ngc else [])
     @ (if ic \<noteq> '''' \<and> \<not> starts_with ''IC'' entry_name then number_keys ''IC'' ic else [])
     @ concat (map token_keys (split_on CHR '','' identifiers))"

section \<open>The index\<close>

definition normalize_key :: "string \<Rightarrow> string" where
  "normalize_key s = join '' '' (split_words (lower s))"

definition common_list :: "csv_row \<Rightarrow> string list" where
  "common_list r = filter (\<lambda>c. c \<noteq> '''') (map strip (split_on CHR '','' (strip (cr_common_names r))))"

definition entry_of_csv :: "(string \<Rightarrow> rat option) \<Rightarrow> csv_row \<Rightarrow> catalog_entry" where
  "entry_of_csv to_float r =
     (let code = strip (cr_type r)
      in \<lparr>en_canonical = canonical_from_name (cr_name r),
          en_common_name = (case common_list r of [] \<Rightarrow> None | c # _ \<Rightarrow> Some c),
          en_object_type = (case map_of TYPE_LABELS code of Some l \<Rightarrow> Some l | None \<Rightarrow> if code = '''' then None else Some code),
          en_ra_deg = parse_ra to_float (cr_ra r),
          en_dec_deg = parse_dec to_float (cr_dec r),
          en_magnitude = pick_magnitude to_float (cr_v_mag r) (cr_b_mag r),
          en_constellation = (if strip (cr_const r) = '''' then None else Some (strip (cr_const r)))\<rparr>)"

definition row_keys :: "csv_row \<Rightarrow> string list" where
  "row_keys r =
     map normalize_key
       (alias_keys_for (canonical_from_name (cr_name r)) (strip (cr_m r)) (strip (cr_ngc r)) (strip (cr_ic r)) (cr_identifiers r)
        @ common_list r)"

definition set_default :: "'k \<Rightarrow> 'v \<Rightarrow> ('k, 'v) dict \<Rightarrow> ('k, 'v) dict" where
  "set_default k v d = (if has_key d k then d else dput k v d)"

definition load_row ::
  "(string \<Rightarrow> rat option) \<Rightarrow> csv_row \<Rightarrow> catalog_entry list \<times> (string, catalog_entry) dict
     \<Rightarrow> catalog_entry list \<times> (string, catalog_entry) dict" where
  "load_row to_float r = (\<lambda>(entries, index).
     if canonical_from_name (cr_name r) = '''' then (entries, index)
     else let e = entry_of_csv to_float r
          in (entries @ [e], fold (\<lambda>k. set_default k e) (row_keys r) index))"

definition load_catalog ::
  "(string \<Rightarrow> rat option) \<Rightarrow> csv_row list \<Rightarrow> catalog_entry list \<times> (string, catalog_entry) dict" where
  "load_catalog to_float rows = fold (load_row to_float) rows ([], [])"

definition enrich :: "(string, catalog_entry) dict \<Rightarrow> string option \<Rightarrow> catalog_entry option" where
  "enrich index name =
     (case name of
        None \<Rightarrow> None
      | Some n \<Rightarrow>
          if n = '''' then None
          else let key = normalize_key n
               in case map_of index key of Some e \<Rightarrow> Some e | None \<Rightarrow> map_of index (no_spaces key))"

section \<open>The index is a search through the rows\<close>

definition usable_row :: "csv_row \<Rightarrow> bool" where
  "usable_row r = (canonical_from_name (cr_name r) \<noteq> '''')"

lemma map_of_set_default: "map_of (set_default k v d) = (if map_of d k = None then (map_of d)(k \<mapsto> v) else map_of d)"
  by (auto simp: set_default_def has_key_map_of)

lemma map_of_fold_set_default:
  "map_of (fold (\<lambda>k. set_default k v) ks d) k = (case map_of d k of Some x \<Rightarrow> Some x | None \<Rightarrow> if k \<in> set ks then Some v else None)"
  by (induction ks arbitrary: d) (auto simp: map_of_set_default split: option.split)

lemma load_fold:
  "map_of (snd (fold (load_row tf) rows (es, idx))) k =
     (case map_of idx k of
        Some x \<Rightarrow> Some x
      | None \<Rightarrow> map_option (entry_of_csv tf) (find (\<lambda>r. usable_row r \<and> k \<in> set (row_keys r)) rows))"
proof (induction rows arbitrary: es idx)
  case (Cons r rows)
  show ?case
  proof (cases "usable_row r")
    case True
    then show ?thesis
      using Cons.IH [of "es @ [entry_of_csv tf r]" "fold (\<lambda>k. set_default k (entry_of_csv tf r)) (row_keys r) idx"]
      by (auto simp: load_row_def usable_row_def Let_def map_of_fold_set_default split: option.split)
  next
    case False
    then have "load_row tf r (es, idx) = (es, idx)" by (simp add: load_row_def usable_row_def)
    then show ?thesis using Cons.IH [of es idx] False by (simp split: option.split)
  qed
qed (simp split: option.split)

lemma map_of_load:
  "map_of (snd (load_catalog tf rows)) k = map_option (entry_of_csv tf) (find (\<lambda>r. usable_row r \<and> k \<in> set (row_keys r)) rows)"
  by (simp add: load_catalog_def load_fold)

text \<open>The first row that has the key.\<close>

definition first_with :: "csv_row list \<Rightarrow> string \<Rightarrow> csv_row option" where
  "first_with rows k = find (\<lambda>r. usable_row r \<and> k \<in> set (row_keys r)) rows"

text \<open>
  looking a name up is a search through the rows in file order: the first row with a usable name that has the
  normalized name among its keys, or else the first that has it without spaces.
\<close>

theorem enrich_is_linear_search:
  "enrich (snd (load_catalog tf rows)) (Some name) =
     (if name = '''' then None
      else map_option (entry_of_csv tf)
        (case first_with rows (normalize_key name) of
           Some r \<Rightarrow> Some r
         | None \<Rightarrow> first_with rows (no_spaces (normalize_key name))))"
  by (simp add: enrich_def map_of_load first_with_def Let_def split: option.split)

lemma own_name_is_key: "normalize_key (canonical_from_name (cr_name r)) \<in> set (row_keys r)"
  by (simp add: row_keys_def alias_keys_for_def)

text \<open>Every row is found under its canonical name, unless an earlier row has that name among its keys.\<close>

lemma own_name_found:
  assumes "r \<in> set rows" "usable_row r"
  shows "\<exists>r0 \<in> set rows. first_with rows (normalize_key (canonical_from_name (cr_name r))) = Some r0
           \<and> normalize_key (canonical_from_name (cr_name r)) \<in> set (row_keys r0)"
proof (cases "first_with rows (normalize_key (canonical_from_name (cr_name r)))")
  case None
  then show ?thesis using assms own_name_is_key [of r] by (auto simp: first_with_def find_None_iff)
next
  case (Some r0)
  then show ?thesis by (auto simp: first_with_def find_Some_iff)
qed

lemma canonical_of_own_name:
  assumes "r \<in> set rows" "usable_row r"
    "\<And>r0. r0 \<in> set rows \<Longrightarrow> r0 \<noteq> r \<Longrightarrow> normalize_key (canonical_from_name (cr_name r)) \<notin> set (row_keys r0)"
  shows "enrich (snd (load_catalog tf rows)) (Some (canonical_from_name (cr_name r))) = Some (entry_of_csv tf r)"
proof -
  obtain r0 where "r0 \<in> set rows" "first_with rows (normalize_key (canonical_from_name (cr_name r))) = Some r0"
    "normalize_key (canonical_from_name (cr_name r)) \<in> set (row_keys r0)"
    using own_name_found [OF assms(1,2)] by blast
  moreover from this have "r0 = r" using assms(3) by blast
  ultimately show ?thesis using assms(2) by (simp add: enrich_def map_of_load first_with_def usable_row_def)
qed

text \<open>
  A row of type Dup carries the number of the object it duplicates and comes first where its own name sorts first:
  looked up by its own name, NGC 281 is given as the duplicate entry IC 11, without its common name.
\<close>

definition blank_row :: csv_row where
  "blank_row = \<lparr>cr_name = '''', cr_type = '''', cr_ra = '''', cr_dec = '''', cr_const = '''', cr_b_mag = '''', cr_v_mag = '''',
     cr_m = '''', cr_ngc = '''', cr_ic = '''', cr_identifiers = '''', cr_common_names = ''''\<rparr>"

definition pacman_rows :: "csv_row list" where
  "pacman_rows =
     [blank_row\<lparr>cr_name := ''IC0011'', cr_type := ''Dup'', cr_ngc := ''0281''\<rparr>,
      blank_row\<lparr>cr_name := ''NGC0281'', cr_type := ''HII'', cr_common_names := ''Pacman Nebula''\<rparr>]"

lemma duplicate_row_shadows_object:
  "map_option (\<lambda>e. (en_canonical e, en_object_type e, en_common_name e))
     (enrich (snd (load_catalog (\<lambda>_. None) pacman_rows)) (Some ''NGC 281'')) =
   Some (''IC 11'', Some ''Duplicate Entry'', None)"
  by code_simp

lemma spellings_agree:
  "enrich (snd (load_catalog (\<lambda>_. None) pacman_rows)) (Some ''ngc  0281'') =
   enrich (snd (load_catalog (\<lambda>_. None) pacman_rows)) (Some '' NGC281'')"
  by code_simp

end
