(* ===== verification/Sky_Match.thy ===== *)
theory Sky_Match
  imports Openngc Canonical
begin

text \<open>
  Resolution of a target by position (\<open>catalog/sky_match.py\<close>) and the rule that combines it with the resolution by name
  (\<open>resolve_target\<close> of \<open>catalog/scanner.py\<close>). The trigonometry of the \<open>math\<close> module is a record of functions on exact
  numbers: the great-circle distance of two positions, the circular mean of right ascensions (None when it
  cancels out) and the length of a diagonal.
\<close>

section \<open>Frames and envelopes\<close>

record geometry =
  ge_separation :: "rat \<Rightarrow> rat \<Rightarrow> rat \<Rightarrow> rat \<Rightarrow> rat"
  ge_mean_ra :: "rat list \<Rightarrow> rat option"
  ge_hypot :: "rat \<Rightarrow> rat \<Rightarrow> rat"

definition frame_fov_diagonal_deg ::
  "geometry \<Rightarrow> rat option \<Rightarrow> rat option \<Rightarrow> rat option \<Rightarrow> rat option \<Rightarrow> rat option \<Rightarrow> rat option" where
  "frame_fov_diagonal_deg ge focallen xpixsz ypixsz naxis1 naxis2 =
     (case (focallen, xpixsz, ypixsz, naxis1, naxis2) of
        (Some f, Some xp, Some yp, Some n1, Some n2) \<Rightarrow>
          if f \<le> 0 \<or> n1 \<le> 0 \<or> n2 \<le> 0 then None
          else Some (ge_hypot ge n1 n2 * ((max xp yp / f) * (206265 / 1000)) / 3600)
      | _ \<Rightarrow> None)"

record frame_sky =
  fs_ra_deg :: "rat option"
  fs_dec_deg :: "rat option"
  fs_fov_diagonal_deg :: "rat option"

text \<open>
  A frame's row with the headers kept for it; a header that is missing or that \<open>float\<close> rejects is None, which
  is all the same to the field of view.
\<close>

record sky_row =
  sw_ra :: "rat option"
  sw_dec :: "rat option"
  sw_focallen :: "rat option"
  sw_xpixsz :: "rat option"
  sw_ypixsz :: "rat option"
  sw_naxis1 :: "rat option"
  sw_naxis2 :: "rat option"

definition frame_to_sky :: "geometry \<Rightarrow> sky_row \<Rightarrow> frame_sky" where
  "frame_to_sky ge r =
     \<lparr>fs_ra_deg = sw_ra r, fs_dec_deg = sw_dec r,
      fs_fov_diagonal_deg = frame_fov_diagonal_deg ge (sw_focallen r) (sw_xpixsz r) (sw_ypixsz r) (sw_naxis1 r) (sw_naxis2 r)\<rparr>"

definition MIN_FRAMES_FOR_ENVELOPE :: nat where
  "MIN_FRAMES_FOR_ENVELOPE = 3"

definition positions :: "frame_sky list \<Rightarrow> (rat \<times> rat) list" where
  "positions frames = List.map_filter (\<lambda>f. case (fs_ra_deg f, fs_dec_deg f) of (Some r, Some d) \<Rightarrow> Some (r, d) | _ \<Rightarrow> None) frames"

definition median :: "rat list \<Rightarrow> rat" where
  "median xs =
     (let s = sort xs; n = length s
      in if odd n then s ! (n div 2) else (s ! (n div 2 - 1) + s ! (n div 2)) / 2)"

definition target_centroid :: "geometry \<Rightarrow> frame_sky list \<Rightarrow> (rat \<times> rat) option" where
  "target_centroid ge frames =
     (let ps = positions frames
      in if length ps < MIN_FRAMES_FOR_ENVELOPE then None
         else map_option (\<lambda>ra. (ra, median (map snd ps))) (ge_mean_ra ge (map fst ps)))"

definition has_position :: "frame_sky \<Rightarrow> bool" where
  "has_position f = (fs_ra_deg f \<noteq> None \<and> fs_dec_deg f \<noteq> None)"

definition usable_fovs :: "frame_sky list \<Rightarrow> rat list" where
  "usable_fovs frames =
     sort (List.map_filter (\<lambda>f. if has_position f then (case fs_fov_diagonal_deg f of Some v \<Rightarrow> if 0 < v then Some v else None | None \<Rightarrow> None)
                           else None) frames)"

definition target_envelope :: "geometry \<Rightarrow> frame_sky list \<Rightarrow> (rat \<times> rat \<times> rat) option" where
  "target_envelope ge frames =
     (case target_centroid ge frames of
        None \<Rightarrow> None
      | Some (ra, dec) \<Rightarrow>
          let max_sep = fold (\<lambda>(r, d) m. max m (ge_separation ge ra dec r d)) (positions frames) 0;
              fovs = usable_fovs frames
          in if fovs = [] then None else Some (ra, dec, max_sep + (fovs ! (length fovs div 2)) / 2))"

section \<open>Matches\<close>

record catalog_match =
  mt_canonical :: string
  mt_common_name :: "string option"
  mt_object_type :: "string option"
  mt_separation_deg :: rat

definition match_of :: "geometry \<Rightarrow> rat \<Rightarrow> rat \<Rightarrow> catalog_entry \<Rightarrow> catalog_match option" where
  "match_of ge ra dec e =
     (case (en_ra_deg e, en_dec_deg e) of
        (Some r, Some d) \<Rightarrow>
          Some \<lparr>mt_canonical = en_canonical e, mt_common_name = en_common_name e, mt_object_type = en_object_type e,
                mt_separation_deg = ge_separation ge ra dec r d\<rparr>
      | _ \<Rightarrow> None)"

definition matches_within :: "geometry \<Rightarrow> rat \<Rightarrow> rat \<Rightarrow> rat \<Rightarrow> catalog_entry list \<Rightarrow> catalog_match list" where
  "matches_within ge ra dec tol entries =
     filter (\<lambda>m. \<not> tol < mt_separation_deg m) (List.map_filter (match_of ge ra dec) entries)"

definition nearest_match :: "geometry \<Rightarrow> catalog_entry list \<Rightarrow> rat \<Rightarrow> rat \<Rightarrow> rat \<Rightarrow> catalog_match option" where
  "nearest_match ge entries ra dec tol =
     (if tol \<le> 0 then None
      else fold (\<lambda>m best. case best of None \<Rightarrow> Some m
              | Some b \<Rightarrow> if mt_separation_deg m < mt_separation_deg b then Some m else Some b)
            (matches_within ge ra dec tol entries) None)"

definition suggestion_key :: "catalog_match \<Rightarrow> int \<times> nat \<times> rat \<times> string" where
  "suggestion_key m =
     (round_half_even (mt_separation_deg m * 60),
      (case mt_common_name m of None \<Rightarrow> 1 | Some c \<Rightarrow> if c = '''' then 1 else 0),
      mt_separation_deg m, mt_canonical m)"

definition nearby_matches :: "geometry \<Rightarrow> catalog_entry list \<Rightarrow> rat \<Rightarrow> rat \<Rightarrow> rat \<Rightarrow> nat \<Rightarrow> catalog_match list" where
  "nearby_matches ge entries ra dec tol limit =
     (if tol \<le> 0 \<or> limit = 0 then []
      else take limit (sort_key suggestion_key (matches_within ge ra dec tol entries)))"

definition clamp_tolerance :: "rat \<Rightarrow> rat \<Rightarrow> rat \<Rightarrow> rat" where
  "clamp_tolerance lo hi x = min hi (max lo x)"

definition auto_tolerance_deg :: "rat option \<Rightarrow> rat" where
  "auto_tolerance_deg envelope =
     (case envelope of None \<Rightarrow> 1 | Some e \<Rightarrow> if e \<le> 0 then 1 else clamp_tolerance (3 / 10) 3 e)"

definition suggest_tolerance_deg :: "rat option \<Rightarrow> rat" where
  "suggest_tolerance_deg envelope =
     (case envelope of None \<Rightarrow> 2 | Some e \<Rightarrow> if e \<le> 0 then 2 else clamp_tolerance (5 / 10) 5 (e * (15 / 10)))"

section \<open>Resolving a target\<close>

text \<open>The resolved columns of a target; None after \<open>_clear_auto_resolve\<close>.\<close>

record resolution =
  rs_canonical :: string
  rs_separation_arcmin :: rat
  rs_source :: string

definition resolve_target ::
  "geometry \<Rightarrow> catalog_entry list \<times> (string, catalog_entry) dict \<Rightarrow> string \<Rightarrow> frame_sky list \<Rightarrow> resolution option" where
  "resolve_target ge cat name frames =
     (case (if name = '''' then None else enrich (snd cat) (Some name)) of
        Some hit \<Rightarrow> Some \<lparr>rs_canonical = en_canonical hit, rs_separation_arcmin = 0, rs_source = ''name''\<rparr>
      | None \<Rightarrow>
          (case (case target_envelope ge frames of
                   Some (ra, dec, env) \<Rightarrow> Some (ra, dec, auto_tolerance_deg (Some env))
                 | None \<Rightarrow> map_option (\<lambda>(ra, dec). (ra, dec, auto_tolerance_deg None)) (target_centroid ge frames)) of
             None \<Rightarrow> None
           | Some (ra, dec, tol) \<Rightarrow>
               map_option (\<lambda>m. \<lparr>rs_canonical = mt_canonical m, rs_separation_arcmin = mt_separation_deg m * 60,
                                rs_source = ''position''\<rparr>)
                 (nearest_match ge (fst cat) ra dec tol)))"

section \<open>Facts\<close>

lemma fold_nearest:
  "fold (\<lambda>m best. case best of None \<Rightarrow> Some m
      | Some b \<Rightarrow> if mt_separation_deg m < mt_separation_deg b then Some m else Some b) ms (Some x) =
   Some (best_from (\<lambda>m b. mt_separation_deg m < mt_separation_deg b) x ms)"
  by (induction ms arbitrary: x) auto

lemma nearest_is_py_min:
  "nearest_match ge entries ra dec tol = (if tol \<le> 0 then None else py_min mt_separation_deg (matches_within ge ra dec tol entries))"
  by (cases "matches_within ge ra dec tol entries") (auto simp: nearest_match_def fold_nearest py_min_def)

lemma in_matches_within:
  "m \<in> set (matches_within ge ra dec tol entries) \<longleftrightarrow>
     (\<exists>e \<in> set entries. match_of ge ra dec e = Some m) \<and> mt_separation_deg m \<le> tol"
  by (force simp: matches_within_def List.map_filter_def)

lemma nearest_within: "nearest_match ge entries ra dec tol = Some m \<Longrightarrow> mt_separation_deg m \<le> tol"
  using py_min_in [of mt_separation_deg "matches_within ge ra dec tol entries" m]
  by (auto simp: nearest_is_py_min in_matches_within split: if_splits)

text \<open>The nearest match is a catalog entry with a position within the tolerance, and no entry lies closer; there is
  none exactly when no entry lies within a positive tolerance.\<close>

lemma nearest_match_minimal:
  "case nearest_match ge entries ra dec tol of
     Some m \<Rightarrow> 0 < tol \<and> (\<exists>e \<in> set entries. match_of ge ra dec e = Some m) \<and> mt_separation_deg m \<le> tol
       \<and> list_all (\<lambda>e. case match_of ge ra dec e of None \<Rightarrow> True | Some m2 \<Rightarrow> mt_separation_deg m \<le> mt_separation_deg m2) entries
   | None \<Rightarrow> tol \<le> 0 \<or> list_all (\<lambda>e. case match_of ge ra dec e of None \<Rightarrow> True | Some m2 \<Rightarrow> tol < mt_separation_deg m2) entries"
proof (cases "nearest_match ge entries ra dec tol")
  case None
  have "tol < mt_separation_deg m2" if "0 < tol" "e \<in> set entries" "match_of ge ra dec e = Some m2" for e m2
  proof -
    have "matches_within ge ra dec tol entries = []" using None that(1) by (simp add: nearest_is_py_min)
    then have "m2 \<notin> set (matches_within ge ra dec tol entries)" by simp
    then show ?thesis using that(2,3) by (auto simp: in_matches_within)
  qed
  then show ?thesis using None by (auto simp: list_all_iff not_le split: option.split)
next
  case (Some m)
  then have tol: "0 < tol" and min: "py_min mt_separation_deg (matches_within ge ra dec tol entries) = Some m"
    by (auto simp: nearest_is_py_min split: if_splits)
  note m = py_min_in [OF min, unfolded in_matches_within]
  have "mt_separation_deg m \<le> mt_separation_deg m2" if "e \<in> set entries" "match_of ge ra dec e = Some m2" for e m2
  proof (cases "mt_separation_deg m2 \<le> tol")
    case True
    then show ?thesis using py_min_le [OF min] that by (auto simp: in_matches_within)
  qed (use m in simp)
  then show ?thesis using Some tol m by (auto simp: list_all_iff split: option.split)
qed

text \<open>The suggestions: only entries within the tolerance, none of which is passed over for one with a larger key.\<close>

lemma nearby_matches_best:
  assumes "m \<in> set (nearby_matches ge entries ra dec tol limit)"
    "d \<in> set (matches_within ge ra dec tol entries)" "d \<notin> set (nearby_matches ge entries ra dec tol limit)"
  shows "suggestion_key m \<le> suggestion_key d"
proof -
  let ?s = "sort_key suggestion_key (matches_within ge ra dec tol entries)"
  have near: "nearby_matches ge entries ra dec tol limit = take limit ?s"
    using assms(1) by (auto simp: nearby_matches_def split: if_splits)
  have "set ?s = set (matches_within ge ra dec tol entries)" by simp
  then have d: "d \<in> set (drop limit ?s)" using assms(2,3) near by (metis UnE append_take_drop_id set_append)
  have "sorted (map suggestion_key (take limit ?s @ drop limit ?s))" by simp
  then have "sorted (map suggestion_key (take limit ?s) @ map suggestion_key (drop limit ?s))" by (simp only: map_append)
  then show ?thesis using assms(1) d near by (auto simp: sorted_append)
qed

text \<open>A resolution by position never lies farther than the largest tolerance.\<close>

lemma auto_tolerance_bounds: "3 / 10 \<le> auto_tolerance_deg e \<and> auto_tolerance_deg e \<le> 3"
  by (auto simp: auto_tolerance_deg_def clamp_tolerance_def split: option.split)

lemma resolved_within:
  assumes "resolve_target ge cat name frames = Some r" "rs_source r = ''position''"
  shows "rs_separation_arcmin r \<le> 180"
proof -
  have "\<exists>ra dec e m. nearest_match ge (fst cat) ra dec (auto_tolerance_deg e) = Some m
          \<and> rs_separation_arcmin r = mt_separation_deg m * 60"
    using assms by (fastforce simp: resolve_target_def split: option.splits)
  then obtain ra dec e m where n: "nearest_match ge (fst cat) ra dec (auto_tolerance_deg e) = Some m"
    "rs_separation_arcmin r = mt_separation_deg m * 60" by blast
  have "mt_separation_deg m \<le> auto_tolerance_deg e" using nearest_within [OF n(1)] .
  then show ?thesis using n(2) auto_tolerance_bounds [of e] by linarith
qed

end
