(* ===== verification/Api_Catalog.thy ===== *)
theory Api_Catalog
  imports Sky_Match Job_Builder
begin

text \<open>
  The part of \<open>server/api.py\<close> that works on the catalog: which sessions show the same object, moving a session to
  another target, and the sessions suggested for a project. The library is the catalog of Sessions with the
  resolved columns of its targets; \<open>sky\<close> gives for each frame what \<open>frame_to_sky\<close> reads off its row; a request that is refused leaves the database as it was (the handler's
  transaction is rolled back), so an error carries the status and the message only.
\<close>

section \<open>The library\<close>

record library =
  lb_catalog :: catalog
  lb_resolved :: "(int, resolution) dict"

datatype api_error = Http nat string

text \<open>OpenNGC as loaded: its entries and the index by name.\<close>

type_synonym openngc = "catalog_entry list \<times> (string, catalog_entry) dict"

definition session_of :: "library \<Rightarrow> int \<Rightarrow> session_row option" where
  "session_of lb sid = find (\<lambda>s. se_id s = sid) (ct_sessions (lb_catalog lb))"

definition target_by_id :: "library \<Rightarrow> int \<Rightarrow> (int \<times> string) option" where
  "target_by_id lb tid = find (\<lambda>(i, n). i = tid) (ct_targets (lb_catalog lb))"

text \<open>The joined row of a session's target: id, name, resolved canonical name.\<close>

definition target_row :: "library \<Rightarrow> int \<Rightarrow> (int \<times> string \<times> string option) option" where
  "target_row lb sid =
     Option.bind (session_of lb sid) (\<lambda>s. Option.bind (se_target_id s) (\<lambda>tid.
       map_option (\<lambda>(i, n). (i, n, map_option rs_canonical (map_of (lb_resolved lb) i))) (target_by_id lb tid)))"

section \<open>The object a target stands for\<close>

definition canonical_group_for_target_row :: "openngc \<Rightarrow> int \<times> string \<times> string option \<Rightarrow> string option" where
  "canonical_group_for_target_row cat = (\<lambda>(tid, name, resolved).
     if tid = 0 then None
     else case resolved of
       Some c \<Rightarrow> if c \<noteq> '''' then Some c
                 else if name = '''' then None else map_option en_canonical (enrich (snd cat) (Some name))
     | None \<Rightarrow> if name = '''' then None else map_option en_canonical (enrich (snd cat) (Some name)))"

definition canonical_group_for_session :: "openngc \<Rightarrow> library \<Rightarrow> int \<Rightarrow> string option" where
  "canonical_group_for_session cat lb sid = Option.bind (target_row lb sid) (canonical_group_for_target_row cat)"

text \<open>
  \<open>int()\<close> of a text: an optional sign and ASCII digits, white space around; None for ValueError. (Session ids are
  stored as \<open>str(int)\<close>; the underscores and other digits Python also reads never occur.)
\<close>

definition int_of_text :: "string \<Rightarrow> int option" where
  "int_of_text s0 =
     (let s = strip s0; neg = starts_with ''-'' s;
          ds = (if neg \<or> starts_with ''+'' s then tl s else s)
      in if ds = '''' \<or> \<not> list_all is_digit ds then None
         else Some ((if neg then -1 else 1) * int (digits_value 0 ds)))"

definition canonical_group_for_project :: "openngc \<Rightarrow> library \<Rightarrow> string list \<Rightarrow> string option" where
  "canonical_group_for_project cat lb session_ids =
     (case those (map int_of_text session_ids) of
        None \<Rightarrow> None
      | Some ids \<Rightarrow>
          let rows = List.map_filter (target_row lb) ids;
              groups = map (canonical_group_for_target_row cat) rows
          in (case groups of
                Some c # rest \<Rightarrow> if list_all (\<lambda>g. g = Some c) rest then Some c else None
              | _ \<Rightarrow> None))"

definition target_label :: "library \<Rightarrow> int \<Rightarrow> string" where
  "target_label lb sid =
     (case target_row lb sid of Some (_, n, _) \<Rightarrow> if n = '''' then ''unknown'' else n | None \<Rightarrow> ''unknown'')"

definition group_label :: "string option \<Rightarrow> string" where
  "group_label g = (case g of None \<Rightarrow> ''unresolved'' | Some c \<Rightarrow> if c = '''' then ''unresolved'' else c)"

definition assert_sessions_share_target ::
  "openngc \<Rightarrow> library \<Rightarrow> int list \<Rightarrow> string option \<Rightarrow> api_error + unit" where
  "assert_sessions_share_target cat lb session_ids expected =
     (case session_ids of
        [] \<Rightarrow> Inr ()
      | first # _ \<Rightarrow>
          let grp = canonical_group_for_session cat lb;
              reference = (case expected of None \<Rightarrow> grp first | Some c \<Rightarrow> Some c)
          in (case find (\<lambda>sid. grp sid \<noteq> reference) session_ids of
                None \<Rightarrow> Inr ()
              | Some sid \<Rightarrow>
                  Inl (Http 400 (''session '' @ show_int sid @ '' is on target '' @ target_label lb sid
                    @ '' (canonical '' @ group_label (grp sid) @ '') but '' @
                    (case expected of
                       None \<Rightarrow> ''session '' @ show_int first @ '' is on target '' @ target_label lb first
                                 @ '' (canonical '' @ group_label reference @ '')''
                     | Some _ \<Rightarrow> ''this project is on canonical '' @ group_label reference)))))"

section \<open>Moving a session\<close>

text \<open>\<open>sq_description\<close>: None when the field is not in the request, \<open>Some None\<close> for an explicit null.\<close>

record session_patch =
  sq_target_id :: "int option"
  sq_new_target_name :: "string option"
  sq_description :: "string option option"

definition names_target :: "session_patch \<Rightarrow> bool" where
  "names_target rq = (case sq_new_target_name rq of None \<Rightarrow> False | Some n \<Rightarrow> strip n \<noteq> '''')"

definition validate_reassign :: "session_patch \<Rightarrow> api_error + unit" where
  "validate_reassign rq =
     (if sq_target_id rq \<noteq> None \<and> names_target rq
      then Inl (Http 422 ''set exactly one of target_id or new_target_name, not both'') else Inr ())"

definition map_sessions :: "(session_row \<Rightarrow> session_row) \<Rightarrow> int \<Rightarrow> catalog \<Rightarrow> catalog" where
  "map_sessions f sid ct = ct\<lparr>ct_sessions := map (\<lambda>r. if se_id r = sid then f r else r) (ct_sessions ct)\<rparr>"

definition describe :: "session_patch \<Rightarrow> int \<Rightarrow> catalog \<Rightarrow> catalog" where
  "describe rq sid ct =
     (case sq_description rq of
        None \<Rightarrow> ct
      | Some d \<Rightarrow>
          let v = (case d of None \<Rightarrow> None | Some s \<Rightarrow> if strip s = '''' then None else Some (strip s))
          in map_sessions (\<lambda>r. r\<lparr>se_description := v\<rparr>) sid ct)"

text \<open>The destination of a requested move: the catalog, inserted into when the name is new, with its id and name.\<close>

definition destination :: "session_patch \<Rightarrow> catalog \<Rightarrow> api_error + catalog \<times> int \<times> string" where
  "destination rq ct =
     (case sq_target_id rq of
        Some tid \<Rightarrow>
          (case find (\<lambda>(i, n). i = tid) (ct_targets ct) of
             None \<Rightarrow> Inl (Http 404 (''target '' @ show_int tid @ '' not found''))
           | Some (i, n) \<Rightarrow> Inr (ct, i, n))
      | None \<Rightarrow>
          let name = normalize_target (case sq_new_target_name rq of None \<Rightarrow> '''' | Some n \<Rightarrow> n)
          in if name = '''' then Inl (Http 400 ''new_target_name must be non-empty after normalization'')
             else (let (ct', i) = upsert_target name ct in Inr (ct', i, name)))"

definition maybe_delete_empty_target :: "int \<Rightarrow> catalog \<Rightarrow> catalog \<times> bool" where
  "maybe_delete_empty_target tid ct =
     (if list_ex (\<lambda>s. se_target_id s = Some tid) (ct_sessions ct) then (ct, False)
      else (ct\<lparr>ct_targets := filter (\<lambda>(i, n). i \<noteq> tid) (ct_targets ct)\<rparr>, True))"

definition frames_for_target :: "(int \<Rightarrow> frame_sky) \<Rightarrow> int \<Rightarrow> catalog \<Rightarrow> frame_sky list" where
  "frames_for_target sky tid ct =
     concat (map (\<lambda>s. if se_target_id s = Some tid then map (sky \<circ> snd) (filter (\<lambda>(s', f). s' = se_id s) (ct_links ct)) else [])
       (ct_sessions ct))"

definition set_resolution :: "int \<Rightarrow> resolution option \<Rightarrow> (int, resolution) dict \<Rightarrow> (int, resolution) dict" where
  "set_resolution tid r d = (case r of None \<Rightarrow> dpop tid d | Some x \<Rightarrow> dput tid x d)"

definition move_session ::
  "geometry \<Rightarrow> openngc \<Rightarrow> (int \<Rightarrow> frame_sky) \<Rightarrow> int \<Rightarrow> int option \<Rightarrow> int \<times> string \<Rightarrow> library \<Rightarrow> library \<times> int list" where
  "move_session ge cat sky sid source = (\<lambda>(tid, name) lb.
     if source = Some tid then (lb, [])
     else
       let ct1 = map_sessions (\<lambda>r. r\<lparr>se_target_id := Some tid\<rparr>) sid (lb_catalog lb);
           resolved1 = set_resolution tid (resolve_target ge cat name (frames_for_target sky tid ct1)) (lb_resolved lb)
       in case source of
            None \<Rightarrow> (\<lparr>lb_catalog = ct1, lb_resolved = resolved1\<rparr>, [])
          | Some old \<Rightarrow>
              let (ct2, gone) = maybe_delete_empty_target old ct1
              in (\<lparr>lb_catalog = ct2, lb_resolved = (if gone then dpop old resolved1 else resolved1)\<rparr>,
                  if gone then [old] else []))"

definition patch_session ::
  "geometry \<Rightarrow> openngc \<Rightarrow> (int \<Rightarrow> frame_sky) \<Rightarrow> int \<Rightarrow> session_patch \<Rightarrow> library \<Rightarrow> api_error + library \<times> int list" where
  "patch_session ge cat sky sid rq lb =
     rbind (validate_reassign rq) (\<lambda>_.
     case session_of lb sid of
       None \<Rightarrow> Inl (Http 404 (''session '' @ show_int sid @ '' not found''))
     | Some s \<Rightarrow>
         let ct1 = describe rq sid (lb_catalog lb)
         in if sq_target_id rq = None \<and> \<not> names_target rq then Inr (lb\<lparr>lb_catalog := ct1\<rparr>, [])
            else rbind (destination rq ct1) (\<lambda>(ct2, dest).
              Inr (move_session ge cat sky sid (se_target_id s) dest (lb\<lparr>lb_catalog := ct2\<rparr>))))"

section \<open>Sessions to add to a project\<close>

record suggestions =
  sg_session_ids :: "int list"
  sg_frame_count :: int
  sg_integration_seconds :: rat
  sg_token :: string

definition no_suggestions :: suggestions where
  "no_suggestions = \<lparr>sg_session_ids = [], sg_frame_count = 0, sg_integration_seconds = 0, sg_token = ''''\<rparr>"

definition usable_frames :: "session_row \<Rightarrow> int" where
  "usable_frames s = max 0 (se_frame_count s - se_failed_count s)"

definition usable_seconds :: "session_row \<Rightarrow> rat" where
  "usable_seconds s = (case se_exptime s of None \<Rightarrow> 0 | Some e \<Rightarrow> if 0 < usable_frames s then e * of_int (usable_frames s) else 0)"

definition same_setup :: "session_row \<Rightarrow> session_row \<Rightarrow> bool" where
  "same_setup r ref =
     (se_instrument r = se_instrument ref \<and> se_camera r = se_camera ref \<and> se_filter r = se_filter ref
      \<and> se_gain r = se_gain ref \<and> se_binning r = se_binning ref)"

text \<open>The reference is any one session of the project; here the first in the table.\<close>

definition suggested :: "openngc \<Rightarrow> library \<Rightarrow> string \<Rightarrow> int list \<Rightarrow> session_row list" where
  "suggested cat lb grp existing =
     (let reference = find (\<lambda>s. se_id s \<in> set existing) (ct_sessions (lb_catalog lb))
      in filter (\<lambda>s. se_id s \<notin> set existing
             \<and> canonical_group_for_session cat lb (se_id s) = Some grp
             \<and> (case reference of None \<Rightarrow> True | Some ref \<Rightarrow> same_setup s ref))
           (ct_sessions (lb_catalog lb)))"

text \<open>\<open>digest\<close> is the hexadecimal SHA-1 of a text.\<close>

definition suggestions_for_project ::
  "(string \<Rightarrow> string) \<Rightarrow> openngc \<Rightarrow> library \<Rightarrow> string option \<Rightarrow> string list \<Rightarrow> suggestions" where
  "suggestions_for_project digest cat lb grp existing_session_ids =
     (case grp of
        None \<Rightarrow> no_suggestions
      | Some g \<Rightarrow>
          if g = '''' then no_suggestions
          else
            let picked = suggested cat lb g (List.map_filter int_of_text existing_session_ids);
                ids = sort (map se_id picked)
            in if ids = [] then no_suggestions
               else \<lparr>sg_session_ids = ids, sg_frame_count = sum_list (map se_frame_count picked),
                     sg_integration_seconds = sum_list (map usable_seconds picked),
                     sg_token = take 16 (digest (join '','' (map show_int ids)))\<rparr>)"

section \<open>Candidates for a move\<close>

record target_candidate =
  tc_id :: int
  tc_name :: string
  tc_common_name :: "string option"
  tc_separation_deg :: rat

definition session_centroid :: "geometry \<Rightarrow> (int \<Rightarrow> frame_sky) \<Rightarrow> int \<Rightarrow> catalog \<Rightarrow> (rat \<times> rat \<times> rat option) option" where
  "session_centroid ge sky sid ct =
     (let frames = map (sky \<circ> snd) (filter (\<lambda>(s, f). s = sid) (ct_links ct))
      in case target_envelope ge frames of
           Some (ra, dec, env) \<Rightarrow> Some (ra, dec, Some env)
         | None \<Rightarrow> map_option (\<lambda>(ra, dec). (ra, dec, None)) (target_centroid ge frames))"

definition or_else :: "string option \<Rightarrow> string \<Rightarrow> string" where
  "or_else a b = (case a of None \<Rightarrow> b | Some s \<Rightarrow> if s = '''' then b else s)"

definition candidate_target ::
  "geometry \<Rightarrow> openngc \<Rightarrow> library \<Rightarrow> rat \<Rightarrow> rat \<Rightarrow> rat \<Rightarrow> int \<times> string \<Rightarrow> target_candidate option" where
  "candidate_target ge cat lb ra dec tol = (\<lambda>(tid, name).
     case enrich (snd cat) (Some (or_else (map_option rs_canonical (map_of (lb_resolved lb) tid)) name)) of
       None \<Rightarrow> None
     | Some e \<Rightarrow>
         (case (en_ra_deg e, en_dec_deg e) of
            (Some r, Some d) \<Rightarrow>
              let sep = ge_separation ge ra dec r d
              in if tol < sep then None
                 else Some \<lparr>tc_id = tid, tc_name = name, tc_common_name = en_common_name e, tc_separation_deg = sep\<rparr>
          | _ \<Rightarrow> None))"

definition reassign_candidates ::
  "geometry \<Rightarrow> openngc \<Rightarrow> (int \<Rightarrow> frame_sky) \<Rightarrow> int \<Rightarrow> library \<Rightarrow> api_error + target_candidate list \<times> catalog_match list" where
  "reassign_candidates ge cat sky sid lb =
     (case session_of lb sid of
        None \<Rightarrow> Inl (Http 404 (''session '' @ show_int sid @ '' not found''))
      | Some s \<Rightarrow>
          (case session_centroid ge sky sid (lb_catalog lb) of
             None \<Rightarrow> Inr ([], [])
           | Some (ra, dec, env) \<Rightarrow>
               let tol = suggest_tolerance_deg env;
                   current_canonical = map_option (\<lambda>(i, n, c). or_else c n) (target_row lb sid);
                   others = filter (\<lambda>(i, n). Some i \<noteq> se_target_id s) (ct_targets (lb_catalog lb))
               in Inr (take 10 (sort_key tc_separation_deg (List.map_filter (candidate_target ge cat lb ra dec tol) others)),
                       filter (\<lambda>m. Some (mt_canonical m) \<noteq> current_canonical) (nearby_matches ge (fst cat) ra dec tol 15))))"

section \<open>Moves and the rebuild\<close>

text \<open>A catalog as a rebuild of its frames leaves it, up to the targets its sessions are bound to.\<close>

definition mirrors :: "int \<Rightarrow> catalog \<Rightarrow> bool" where
  "mirrors gap ct \<longleftrightarrow>
     wf_catalog ct \<and> (\<exists>clusters sids. compute_clusters (ct_frames ct) gap = Inr clusters \<and> rebuilt ct clusters sids)"

lemma mirrors_fixed: "mirrors gap ct \<Longrightarrow> cluster_sessions gap ct = Inr ct"
  by (auto simp: mirrors_def intro: rebuilt_fixed)

lemma mirrors_rebuild:
  assumes "wf_catalog ct" "cluster_sessions gap ct = Inr ct'"
  shows "mirrors gap ct'"
proof -
  obtain clusters sids where "compute_clusters (ct_frames ct) gap = Inr clusters" "ct_frames ct' = ct_frames ct"
    "rebuilt ct' clusters sids"
    by (rule cluster_sessions_rebuilt [OF assms])
  then show ?thesis using rebuild_wf [OF assms] by (auto simp: mirrors_def)
qed

text \<open>What the targets table owes to the sessions.\<close>

definition targets_used :: "catalog \<Rightarrow> bool" where
  "targets_used ct \<longleftrightarrow>
     (\<forall>r \<in> set (ct_sessions ct). \<forall>t. se_target_id r = Some t \<longrightarrow> t \<in> fst ` set (ct_targets ct))
     \<and> (\<forall>(t, name) \<in> set (ct_targets ct). \<exists>r \<in> set (ct_sessions ct). se_target_id r = Some t)"

lemma mirrors_targets: "mirrors gap ct \<Longrightarrow> targets_used ct"
  by (auto simp: mirrors_def rebuilt_def targets_used_def)

lemma mirrors_edit:
  assumes m: "mirrors gap ct" and same: "ct_frames ct' = ct_frames ct" "ct_links ct' = ct_links ct"
    and ss: "ct_sessions ct' = map g (ct_sessions ct)"
    and keep: "\<And>r. se_id (g r) = se_id r" "\<And>c r. refresh_session c r = r \<Longrightarrow> refresh_session c (g r) = g r"
    and tg: "targets_used ct'"
  shows "mirrors gap ct'"
proof -
  obtain clusters sids where wf: "wf_catalog ct" and cs: "compute_clusters (ct_frames ct) gap = Inr clusters"
    and rb: "rebuilt ct clusters sids"
    using m by (auto simp: mirrors_def)
  have ids: "map se_id (ct_sessions ct') = map se_id (ct_sessions ct)" by (simp add: ss keep(1) o_def)
  have fits: "row_fits ct' c sid" if "row_fits ct c sid" for c sid
    using that keep by (auto simp: row_fits_def ss)
  have rows: "list_all2 (row_fits ct') clusters sids"
    using rb fits by (auto simp: rebuilt_def intro: list_all2_mono)
  have idset: "se_id ` set (ct_sessions ct') = se_id ` set (ct_sessions ct)" by (simp add: ids flip: set_map)
  have "rebuilt ct' clusters sids" "wf_catalog ct'"
    using rb rows wf tg idset ids unfolding rebuilt_def wf_catalog_def targets_used_def same by auto
  then show ?thesis using cs same(1) by (auto simp: mirrors_def)
qed

lemma refresh_target: "refresh_session c r = r \<Longrightarrow> refresh_session c (r\<lparr>se_target_id := t\<rparr>) = r\<lparr>se_target_id := t\<rparr>"
  by (cases r) (auto simp: refresh_session_def split: prod.splits)

lemma refresh_description:
  "refresh_session c r = r \<Longrightarrow> refresh_session c (r\<lparr>se_description := d\<rparr>) = r\<lparr>se_description := d\<rparr>"
  by (cases r) (auto simp: refresh_session_def split: prod.splits)

lemma map_sessions_fields [simp]:
  "ct_frames (map_sessions f sid ct) = ct_frames ct" "ct_links (map_sessions f sid ct) = ct_links ct"
  "ct_targets (map_sessions f sid ct) = ct_targets ct"
  "ct_sessions (map_sessions f sid ct) = map (\<lambda>r. if se_id r = sid then f r else r) (ct_sessions ct)"
  by (simp_all add: map_sessions_def)

text \<open>The effect of a move on the tables.\<close>

lemma move_session_tables:
  assumes "move_session ge cat sky sid source (tid, name) lb = (lb', gone)"
  shows "ct_frames (lb_catalog lb') = ct_frames (lb_catalog lb)" "ct_links (lb_catalog lb') = ct_links (lb_catalog lb)"
    "ct_sessions (lb_catalog lb') =
       (if source = Some tid then ct_sessions (lb_catalog lb)
        else map (\<lambda>r. if se_id r = sid then r\<lparr>se_target_id := Some tid\<rparr> else r) (ct_sessions (lb_catalog lb)))"
    "ct_targets (lb_catalog lb') = filter (\<lambda>(i, n). i \<notin> set gone) (ct_targets (lb_catalog lb))"
    "gone = (case source of None \<Rightarrow> [] | Some old \<Rightarrow>
       if old = tid \<or> list_ex (\<lambda>r. se_target_id r = Some old) (ct_sessions (lb_catalog lb')) then [] else [old])"
  using assms
  by (auto simp: move_session_def Let_def maybe_delete_empty_target_def case_prod_unfold list_ex_iff
      split: option.splits if_splits)

lemma session_of_in: "session_of lb sid = Some s \<Longrightarrow> s \<in> set (ct_sessions (lb_catalog lb)) \<and> se_id s = sid"
  by (auto simp: session_of_def find_Some_iff)

lemma same_row: "distinct (map se_id rs) \<Longrightarrow> r \<in> set rs \<Longrightarrow> s \<in> set rs \<Longrightarrow> se_id r = se_id s \<Longrightarrow> r = s"
  by (metis distinct_map inj_on_def)

lemma move_targets_used:
  assumes run: "move_session ge cat sky sid (se_target_id s) (tid, name) lb = (lb', gone)"
    and dist: "distinct (map se_id (ct_sessions (lb_catalog lb)))" and row: "session_of lb sid = Some s"
    and refs: "\<And>r t. r \<in> set (ct_sessions (lb_catalog lb)) \<Longrightarrow> se_target_id r = Some t \<Longrightarrow> t \<in> fst ` set (ct_targets (lb_catalog lb))"
    and used: "\<And>t n. (t, n) \<in> set (ct_targets (lb_catalog lb)) \<Longrightarrow> t \<noteq> tid
      \<Longrightarrow> \<exists>r \<in> set (ct_sessions (lb_catalog lb)). se_target_id r = Some t"
    and known: "tid \<in> fst ` set (ct_targets (lb_catalog lb))"
  shows "targets_used (lb_catalog lb')"
proof -
  let ?rs = "ct_sessions (lb_catalog lb)" and ?rs' = "ct_sessions (lb_catalog lb')"
  note tab = move_session_tables [OF run]
  have s: "s \<in> set ?rs" "se_id s = sid" using session_of_in [OF row] by auto
  have keep: "r \<in> set ?rs'" if "r \<in> set ?rs" "se_id r \<noteq> sid" for r using that by (auto simp: tab(3))
  have moved: "\<exists>r \<in> set ?rs'. se_target_id r = Some tid"
  proof (cases "se_target_id s = Some tid")
    case True
    then show ?thesis using s(1) by (auto simp: tab(3))
  next
    case False
    then have "s\<lparr>se_target_id := Some tid\<rparr> \<in> set ?rs'" using s by (force simp: tab(3))
    then show ?thesis by force
  qed
  have ref': "t \<in> fst ` set (ct_targets (lb_catalog lb))" "t \<notin> set gone"
    if "r \<in> set ?rs'" "se_target_id r = Some t" for r t
  proof -
    show "t \<in> fst ` set (ct_targets (lb_catalog lb))"
      using that refs known unfolding tab(3) by (cases "se_target_id s = Some tid") (auto split: if_split_asm intro: rev_image_eqI)
    show "t \<notin> set gone" using that by (auto simp: tab(5) list_ex_iff split: option.splits if_splits)
  qed
  have use': "\<exists>r \<in> set ?rs'. se_target_id r = Some t" if t: "(t, n) \<in> set (ct_targets (lb_catalog lb))" "t \<notin> set gone" for t n
  proof (cases "t = tid \<or> se_target_id s = Some t")
    case True
    then show ?thesis using moved t(2) by (auto simp: tab(5) list_ex_iff split: if_splits)
  next
    case False
    obtain r where r: "r \<in> set ?rs" "se_target_id r = Some t" using used t(1) False by blast
    then have "se_id r \<noteq> sid" using same_row [OF dist r(1) s(1)] s(2) False by auto
    then show ?thesis using keep r by blast
  qed
  show ?thesis using ref' use' by (force simp: targets_used_def tab(4))
qed

lemma find_pair: "find (\<lambda>(i, n). P i n) xs = Some (i, n) \<Longrightarrow> (i, n) \<in> set xs \<and> P i n"
  by (force simp: find_Some_iff in_set_conv_nth)

lemma upsert_cases:
  assumes "upsert_target name ct = (ct', i)"
  shows "ct' = ct \<and> (i, name) \<in> set (ct_targets ct) \<or> ct' = ct\<lparr>ct_targets := ct_targets ct @ [(i, name)]\<rparr>"
  using assms by (auto simp: upsert_target_def Let_def split: option.splits dest!: find_pair)

lemma destination_cases:
  assumes "destination rq ct = Inr (ct', tid, name)"
  shows "ct' = ct \<and> (tid, name) \<in> set (ct_targets ct) \<or> ct' = ct\<lparr>ct_targets := ct_targets ct @ [(tid, name)]\<rparr>"
  using assms
  by (auto simp: destination_def Let_def split: option.splits if_split_asm prod.splits dest!: find_pair upsert_cases)

lemma destination_facts:
  assumes "destination rq ct = Inr (ct', tid, name)"
  shows "ct_frames ct' = ct_frames ct" "ct_sessions ct' = ct_sessions ct" "ct_links ct' = ct_links ct"
    "tid \<in> fst ` set (ct_targets ct')" "fst ` set (ct_targets ct) \<subseteq> fst ` set (ct_targets ct')"
    "fst ` set (ct_targets ct') \<subseteq> insert tid (fst ` set (ct_targets ct))"
  using destination_cases [OF assms] by (auto intro: rev_image_eqI)

lemma describe_fields [simp]:
  "ct_frames (describe rq sid ct) = ct_frames ct" "ct_links (describe rq sid ct) = ct_links ct"
  "ct_targets (describe rq sid ct) = ct_targets ct"
  by (simp_all add: describe_def split: option.splits)

text \<open>The row a description leaves.\<close>

definition described_row :: "session_patch \<Rightarrow> int \<Rightarrow> session_row \<Rightarrow> session_row" where
  "described_row rq sid r =
     (case sq_description rq of
        None \<Rightarrow> r
      | Some d \<Rightarrow> if se_id r \<noteq> sid then r
          else r\<lparr>se_description := Option.bind d (\<lambda>s. if strip s = [] then None else Some (strip s))\<rparr>)"

lemma describe_sessions: "ct_sessions (describe rq sid ct) = map (described_row rq sid) (ct_sessions ct)"
  by (cases "sq_description rq") (auto simp: describe_def described_row_def map_idI Option.bind_def split: option.splits)

lemma find_map: "find P (map f xs) = map_option f (find (P \<circ> f) xs)"
  by (induction xs) simp_all

lemma described_row [simp]:
  "se_id (described_row rq sid r) = se_id r" "se_target_id (described_row rq sid r) = se_target_id r"
  "se_id r \<noteq> sid \<Longrightarrow> described_row rq sid r = r"
  "refresh_session c r = r \<Longrightarrow> refresh_session c (described_row rq sid r) = described_row rq sid r"
  by (simp_all add: described_row_def refresh_description split: option.splits)

lemma patch_cases [consumes 1, case_names described moved]:
  assumes "patch_session ge cat sky sid rq lb = Inr (lb', gone)"
  obtains
    (described) s where "session_of lb sid = Some s" "lb' = lb\<lparr>lb_catalog := describe rq sid (lb_catalog lb)\<rparr>" "gone = []"
      "sq_target_id rq = None \<and> \<not> names_target rq"
  | (moved) s ct tid name where "session_of lb sid = Some s"
      "destination rq (describe rq sid (lb_catalog lb)) = Inr (ct, tid, name)"
      "move_session ge cat sky sid (se_target_id s) (tid, name) (lb\<lparr>lb_catalog := ct\<rparr>) = (lb', gone)"
  using assms by (auto simp: patch_session_def rbind_eq_Inr Let_def split: option.splits if_split_asm)

lemma patch_mirrors:
  assumes m: "mirrors gap (lb_catalog lb)" and run: "patch_session ge cat sky sid rq lb = Inr (lb', gone)"
  shows "mirrors gap (lb_catalog lb')"
proof -
  let ?ct = "lb_catalog lb" and ?d = "describe rq sid (lb_catalog lb)"
  note tu = mirrors_targets [OF m, unfolded targets_used_def]
  let ?g = "described_row rq sid"
  from run show ?thesis
  proof (cases rule: patch_cases)
    case (described s)
    show ?thesis
      by (rule mirrors_edit [OF m, of _ ?g]) (use tu in \<open>auto simp: described describe_sessions targets_used_def\<close>)
  next
    case (moved s ct tid name)
    let ?lb = "lb\<lparr>lb_catalog := ct\<rparr>"
    note dest = destination_facts [OF moved(2)] and tab = move_session_tables [OF moved(3)]
    have sess: "ct_sessions ct = map ?g (ct_sessions ?ct)" by (simp add: dest(2) describe_sessions)
    have dist: "distinct (map se_id (ct_sessions ct))" using m by (simp add: mirrors_def wf_catalog_def sess o_def)
    have row: "session_of ?lb sid = Some (?g s)" using moved(1) by (simp add: session_of_def sess find_map o_def)
    have run': "move_session ge cat sky sid (se_target_id (?g s)) (tid, name) ?lb = (lb', gone)" using moved(3) by simp
    have "targets_used (lb_catalog lb')"
    proof (rule move_targets_used [OF run' _ row])
      show "tid \<in> fst ` set (ct_targets (lb_catalog ?lb))" using dest(4) by simp
      show "distinct (map se_id (ct_sessions (lb_catalog ?lb)))" using dist by simp
      show "t \<in> fst ` set (ct_targets (lb_catalog ?lb))"
        if "r \<in> set (ct_sessions (lb_catalog ?lb))" "se_target_id r = Some t" for r t
        using that tu dest(5) by (auto simp: sess)
      show "\<exists>r \<in> set (ct_sessions (lb_catalog ?lb)). se_target_id r = Some t"
        if t: "(t, n) \<in> set (ct_targets (lb_catalog ?lb))" "t \<noteq> tid" for t n
      proof -
        have "t \<in> fst ` set (ct_targets ?ct)" using dest(6) t by force
        then show ?thesis using tu by (auto simp: sess)
      qed
    qed
    then show ?thesis
      by (intro mirrors_edit [OF m, of _ "\<lambda>r. if se_target_id s \<noteq> Some tid \<and> se_id r = sid then ?g r\<lparr>se_target_id := Some tid\<rparr> else ?g r"])
        (simp_all add: tab dest(1,3) sess refresh_target)
  qed
qed

text \<open>A PATCH request as a step of the library: a refused one leaves it.\<close>

definition after_request ::
  "geometry \<Rightarrow> openngc \<Rightarrow> (int \<Rightarrow> frame_sky) \<Rightarrow> int \<times> session_patch \<Rightarrow> library \<Rightarrow> library" where
  "after_request ge cat sky = (\<lambda>(sid, rq) lb. case patch_session ge cat sky sid rq lb of Inl _ \<Rightarrow> lb | Inr (lb', _) \<Rightarrow> lb')"

lemma request_mirrors: "mirrors gap (lb_catalog lb) \<Longrightarrow> mirrors gap (lb_catalog (fold (after_request ge cat sky) rqs lb))"
  by (induction rqs arbitrary: lb) (auto simp: after_request_def patch_mirrors split: sum.split)

text \<open>
  C8: what the user moves stays moved. After a rebuild, let any sequence of requests on sessions follow: moves to
  other targets, new targets, merges that delete the emptied target, descriptions, refused requests. A
  rescan of the same frames then changes nothing: every session keeps its row, target and description, and the targets
  are exactly those the moves left.
\<close>

theorem moves_survive_rescan:
  assumes "wf_catalog ct" "cluster_sessions gap ct = Inr (lb_catalog lb)"
  shows "cluster_sessions gap (lb_catalog (fold (after_request ge cat sky) rqs lb)) = Inr (lb_catalog (fold (after_request ge cat sky) rqs lb))"
  by (rule mirrors_fixed [OF request_mirrors [OF mirrors_rebuild [OF assms]]])

lemma map_of_set_resolution: "wf_dict d \<Longrightarrow> map_of (set_resolution k r d) k = r"
  by (simp add: set_resolution_def split: option.split)

lemma frames_for_target_cong:
  "ct_sessions a = ct_sessions b \<Longrightarrow> ct_links a = ct_links b \<Longrightarrow> frames_for_target sky tid a = frames_for_target sky tid b"
  by (simp only: frames_for_target_def)

lemma move_resolves:
  assumes run: "move_session ge cat sky sid source (tid, name) lb = (lb', gone)" and wf: "wf_dict (lb_resolved lb)"
    and move: "source \<noteq> Some tid"
  shows "map_of (lb_resolved lb') tid = resolve_target ge cat name (frames_for_target sky tid (lb_catalog lb'))"
proof -
  let ?ct = "map_sessions (\<lambda>r. r\<lparr>se_target_id := Some tid\<rparr>) sid (lb_catalog lb)"
  note tab = move_session_tables [OF run]
  have fr: "frames_for_target sky tid (lb_catalog lb') = frames_for_target sky tid ?ct"
    by (rule frames_for_target_cong) (use move in \<open>simp_all add: tab\<close>)
  let ?d = "set_resolution tid (resolve_target ge cat name (frames_for_target sky tid ?ct)) (lb_resolved lb)"
  have wf': "wf_dict ?d" using wf by (simp add: set_resolution_def split: option.split)
  have "lb_resolved lb' = ?d \<or> (\<exists>old. old \<noteq> tid \<and> lb_resolved lb' = dpop old ?d)"
    using run move by (auto simp: move_session_def Let_def split: option.splits prod.splits if_splits)
  then show ?thesis using wf wf' by (auto simp: map_of_set_resolution fr)
qed

lemma filter_others:
  assumes "\<And>r. se_id (f r) = se_id r" "\<And>r. se_id r \<noteq> sid \<Longrightarrow> f r = r"
  shows "filter (\<lambda>r. se_id r \<noteq> sid) (map f rs) = filter (\<lambda>r. se_id r \<noteq> sid) rs"
  by (induction rs) (auto simp: assms)

lemma move_parts:
  assumes run: "patch_session ge cat sky sid rq lb = Inr (lb', gone)" and to: "sq_target_id rq = Some tid"
    and wf: "wf_dict (lb_resolved lb)"
  obtains s s' name where "session_of lb sid = Some s" "session_of lb' sid = Some s'" "se_target_id s' = Some tid"
    "target_by_id lb tid = Some (tid, name)"
    "se_target_id s \<noteq> Some tid \<Longrightarrow>
       map_of (lb_resolved lb') tid = resolve_target ge cat name (frames_for_target sky tid (lb_catalog lb'))"
    "ct_frames (lb_catalog lb') = ct_frames (lb_catalog lb)" "ct_links (lb_catalog lb') = ct_links (lb_catalog lb)"
    "filter (\<lambda>r. se_id r \<noteq> sid) (ct_sessions (lb_catalog lb')) = filter (\<lambda>r. se_id r \<noteq> sid) (ct_sessions (lb_catalog lb))"
    "ct_targets (lb_catalog lb') = filter (\<lambda>(i, n). i \<notin> set gone) (ct_targets (lb_catalog lb))"
    "gone = (case se_target_id s of None \<Rightarrow> [] | Some old \<Rightarrow>
       if list_ex (\<lambda>r. se_target_id r = Some old) (ct_sessions (lb_catalog lb')) then [] else [old])"
  using run
proof (cases rule: patch_cases)
  case (described s)
  then show ?thesis using to by simp
next
  case (moved s ct tid' name)
  let ?g = "described_row rq sid"
  have dest: "ct = describe rq sid (lb_catalog lb)" "tid' = tid" "target_by_id lb tid = Some (tid, name)"
    using moved(2) to by (auto simp: destination_def target_by_id_def split: option.splits dest: find_pair)
  have sess: "ct_sessions ct = map ?g (ct_sessions (lb_catalog lb))" by (simp add: dest(1) describe_sessions)
  let ?lb = "lb\<lparr>lb_catalog := ct\<rparr>"
  have run': "move_session ge cat sky sid (se_target_id s) (tid, name) ?lb = (lb', gone)" using moved(3) dest(2) by simp
  note tab = move_session_tables [OF run']
  let ?f = "\<lambda>r. if se_target_id s \<noteq> Some tid \<and> se_id r = sid then ?g r\<lparr>se_target_id := Some tid\<rparr> else ?g r"
  have rows: "ct_sessions (lb_catalog lb') = map ?f (ct_sessions (lb_catalog lb))" by (simp add: tab(3) sess)
  have row: "session_of lb' sid = Some (?f s)"
    using moved(1) session_of_in [OF moved(1)] by (simp add: session_of_def rows find_map o_def if_distrib [of se_id] cong: if_cong)
  have s': "se_target_id (?f s) = Some tid" using session_of_in [OF moved(1)] by simp
  then have used: "list_ex (\<lambda>r. se_target_id r = Some tid) (ct_sessions (lb_catalog lb'))"
    using session_of_in [OF row] by (auto simp: list_ex_iff)
  show ?thesis
  proof (rule that [OF moved(1) row s' dest(3)])
    show "map_of (lb_resolved lb') tid = resolve_target ge cat name (frames_for_target sky tid (lb_catalog lb'))"
      if "se_target_id s \<noteq> Some tid" using move_resolves [OF run'] wf that by simp
    show "filter (\<lambda>r. se_id r \<noteq> sid) (ct_sessions (lb_catalog lb')) = filter (\<lambda>r. se_id r \<noteq> sid) (ct_sessions (lb_catalog lb))"
      unfolding rows by (rule filter_others) simp_all
    show "gone = (case se_target_id s of None \<Rightarrow> [] | Some old \<Rightarrow>
       if list_ex (\<lambda>r. se_target_id r = Some old) (ct_sessions (lb_catalog lb')) then [] else [old])"
      using used by (auto simp: tab(5) split: option.split)
  qed (simp_all add: tab dest(1))
qed

text \<open>
  C22: a move does what it says and nothing else. On success the session is bound to the requested target and that
  target's resolution is the one a scan of its frames would store; frames, links and all other sessions
  are untouched; the source target is deleted exactly when no session is left on it, with its resolution.
\<close>

theorem move_exact:
  assumes "patch_session ge cat sky sid rq lb = Inr (lb', gone)" "sq_target_id rq = Some tid" "wf_dict (lb_resolved lb)"
  shows "\<exists>s s' name. session_of lb sid = Some s \<and> session_of lb' sid = Some s' \<and> se_target_id s' = Some tid
    \<and> target_by_id lb tid = Some (tid, name)
    \<and> (if se_target_id s = Some tid then gone = []
       else map_of (lb_resolved lb') tid = resolve_target ge cat name (frames_for_target sky tid (lb_catalog lb')))
    \<and> ct_frames (lb_catalog lb') = ct_frames (lb_catalog lb) \<and> ct_links (lb_catalog lb') = ct_links (lb_catalog lb)
    \<and> filter (\<lambda>r. se_id r \<noteq> sid) (ct_sessions (lb_catalog lb')) = filter (\<lambda>r. se_id r \<noteq> sid) (ct_sessions (lb_catalog lb))
    \<and> ct_targets (lb_catalog lb') = filter (\<lambda>(i, n). i \<notin> set gone) (ct_targets (lb_catalog lb))
    \<and> gone = (case se_target_id s of None \<Rightarrow> [] | Some old \<Rightarrow>
         if list_ex (\<lambda>r. se_target_id r = Some old) (ct_sessions (lb_catalog lb')) then [] else [old])"
proof (rule move_parts [OF assms])
  fix s s' name
  assume "session_of lb sid = Some s" "session_of lb' sid = Some s'" "se_target_id s' = Some tid"
    and "target_by_id lb tid = Some (tid, name)"
    and "se_target_id s \<noteq> Some tid \<Longrightarrow>
       map_of (lb_resolved lb') tid = resolve_target ge cat name (frames_for_target sky tid (lb_catalog lb'))"
    and "ct_frames (lb_catalog lb') = ct_frames (lb_catalog lb)" "ct_links (lb_catalog lb') = ct_links (lb_catalog lb)"
    and "filter (\<lambda>r. se_id r \<noteq> sid) (ct_sessions (lb_catalog lb')) = filter (\<lambda>r. se_id r \<noteq> sid) (ct_sessions (lb_catalog lb))"
    and "ct_targets (lb_catalog lb') = filter (\<lambda>(i, n). i \<notin> set gone) (ct_targets (lb_catalog lb))"
    and "gone = (case se_target_id s of None \<Rightarrow> [] | Some old \<Rightarrow>
         if list_ex (\<lambda>r. se_target_id r = Some old) (ct_sessions (lb_catalog lb')) then [] else [old])"
  then show ?thesis
    by (intro exI [of _ s] exI [of _ s'] exI [of _ name] conjI) (auto split: option.split dest: session_of_in simp: list_ex_iff)
qed

section \<open>Examples\<close>

text \<open>Distances along the declination only; a mean right ascension of the first frame.\<close>

definition flat_geometry :: geometry where
  "flat_geometry = \<lparr>ge_separation = (\<lambda>a d a' d'. abs (d - d')), ge_mean_ra = (\<lambda>xs. case xs of [] \<Rightarrow> None | x # _ \<Rightarrow> Some x),
     ge_hypot = (\<lambda>a b. max a b)\<rparr>"

definition plain_session :: "int \<Rightarrow> int option \<Rightarrow> session_row" where
  "plain_session i t = new_session i t (open_cluster (config_of (demo_frame 1 '''')) (demo_frame i ''''))"

text \<open>Two nights under two names of one object.\<close>

definition two_nights :: library where
  "two_nights =
     \<lparr>lb_catalog = \<lparr>ct_frames = [], ct_sessions = [plain_session 1 (Some 1), plain_session 2 (Some 2)], ct_links = [],
        ct_targets = [(1, ''Andromeda''), (2, ''M 31'')]\<rparr>,
      lb_resolved = []\<rparr>"

definition no_position :: "int \<Rightarrow> frame_sky" where
  "no_position fid = \<lparr>fs_ra_deg = None, fs_dec_deg = None, fs_fov_diagonal_deg = None\<rparr>"

definition move_to :: "int \<Rightarrow> session_patch" where
  "move_to tid = \<lparr>sq_target_id = Some tid, sq_new_target_name = None, sq_description = None\<rparr>"

lemma merge_two_nights:
  obtains lb' where "patch_session flat_geometry ([], []) no_position 1 (move_to 2) two_nights = Inr (lb', [1])"
proof -
  have "(case patch_session flat_geometry ([], []) no_position 1 (move_to 2) two_nights of
      Inl _ \<Rightarrow> False | Inr (lb', gone) \<Rightarrow> gone = [1])" by code_simp
  then show thesis using that by (auto split: sum.splits)
qed

lemma move_exact_witness:
  "\<exists>lb'. patch_session flat_geometry ([], []) no_position 1 (move_to 2) two_nights = Inr (lb', [1])
     \<and> ct_targets (lb_catalog lb') = [(2, ''M 31'')]"
proof -
  obtain lb' where run: "patch_session flat_geometry ([], []) no_position 1 (move_to 2) two_nights = Inr (lb', [1])"
    by (rule merge_two_nights)
  have "ct_targets (lb_catalog lb') = filter (\<lambda>(i, n). i \<notin> set [1]) (ct_targets (lb_catalog two_nights))"
    using move_exact [OF run, of 2] by (auto simp: move_to_def two_nights_def)
  then show ?thesis using run by (auto simp: two_nights_def)
qed

lemma moves_survive_rescan_witness:
  "\<exists>ct. cluster_sessions 60 demo_catalog = Inr ct
     \<and> cluster_sessions 60 (lb_catalog (fold (after_request flat_geometry ([], []) no_position) [(8, move_to 1), (7, move_to 1)]
          \<lparr>lb_catalog = ct, lb_resolved = []\<rparr>)) =
       Inr (lb_catalog (fold (after_request flat_geometry ([], []) no_position) [(8, move_to 1), (7, move_to 1)]
          \<lparr>lb_catalog = ct, lb_resolved = []\<rparr>))"
proof -
  obtain ct where ct: "cluster_sessions 60 demo_catalog = Inr ct" by (rule demo_rebuild)
  then have start: "cluster_sessions 60 demo_catalog = Inr (lb_catalog \<lparr>lb_catalog = ct, lb_resolved = []\<rparr>)" by simp
  show ?thesis by (rule exI [of _ ct]) (rule conjI [OF ct moves_survive_rescan [OF demo_catalog_wf start]])
qed

end
