(* ===== verification/Topo.thy ===== *)
theory Topo
  imports Node_Model
begin

text \<open>
  The dependency graph of a template (\<open>server/runtime.py\<close>, \<open>_topo_order\<close> and \<open>_successors\<close>): the
  depth-first sort that fixes the execution order and rejects cycles, and the reverse adjacency the
  lazy re-run planner walks. The dependency sets are lists without repetition; Python iterates a set
  in some order, and nothing proved here depends on which.
\<close>

section \<open>Dependencies\<close>

datatype topo_error = Cycle string | Unknown_Node string

text \<open>\<open>deps\<close>: one key per node id; a source that is not a node of the template is dropped.\<close>

definition add_dep :: "string \<Rightarrow> string \<Rightarrow> (string, string list) dict \<Rightarrow> (string, string list) dict" where
  "add_dep nid src deps =
     (case map_of deps nid of
        None \<Rightarrow> deps
      | Some ds \<Rightarrow> if has_key deps src \<and> src \<notin> set ds then dput nid (ds @ [src]) deps else deps)"

definition empty_deps :: "template \<Rightarrow> (string, string list) dict" where
  "empty_deps t = fold (\<lambda>n d. dput (n_id n) [] d) (t_nodes t) []"

definition topo_deps :: "template \<Rightarrow> (string, string list) dict" where
  "topo_deps t =
     fold (\<lambda>n d. fold (\<lambda>src_ref d. add_dep (n_id n) (before_dot src_ref) d) (map snd (n_inputs n)) d)
       (t_nodes t) (empty_deps t)"

text \<open>
  \<open>visit\<close>: the order built so far is also the set of visited nodes (the code updates both
  together); \<open>visiting\<close> is the recursion stack, restored on return, hence an argument.
\<close>

function visit :: "(string, string list) dict \<Rightarrow> string list \<Rightarrow> string \<Rightarrow> string list \<Rightarrow> topo_error + string list"
  and visit_all :: "(string, string list) dict \<Rightarrow> string list \<Rightarrow> string list \<Rightarrow> string list \<Rightarrow> topo_error + string list"
where
  "visit deps visiting nid order =
     (if nid \<in> set order then Inr order
      else if nid \<in> set visiting then Inl (Cycle nid)
      else case map_of deps nid of
        None \<Rightarrow> Inl (Unknown_Node nid)
      | Some ds \<Rightarrow> rbind (visit_all deps (nid # visiting) ds order) (\<lambda>order. Inr (order @ [nid])))"
| "visit_all deps visiting [] order = Inr order"
| "visit_all deps visiting (d # ds) order =
     rbind (visit deps visiting d order) (\<lambda>order. visit_all deps visiting ds order)"
  by pat_completeness auto
termination
proof (relation "inv_image (less_than <*lex*> less_than)
    (\<lambda>x. case x of Inl (deps, visiting, nid, order) \<Rightarrow> (card (set (dkeys deps) - set visiting), 0)
       | Inr (deps, visiting, ds, order) \<Rightarrow> (card (set (dkeys deps) - set visiting), Suc (length ds)))")
  show "wf (inv_image (less_than <*lex*> less_than)
    (\<lambda>x. case x of Inl (deps, visiting, nid, order) \<Rightarrow> (card (set (dkeys deps) - set visiting), 0)
       | Inr (deps, visiting, ds, order) \<Rightarrow> (card (set (dkeys deps) - set visiting), Suc (length ds))))"
    by auto
next
  fix deps :: "(string, string list) dict" and visiting nid order ds
  assume "nid \<notin> set order" "nid \<notin> set visiting" "map_of deps nid = Some ds"
  then have "nid \<in> set (dkeys deps) - set visiting" by (force dest: map_of_SomeD)
  then have "card (set (dkeys deps) - set (nid # visiting)) < card (set (dkeys deps) - set visiting)"
    by (intro psubset_card_mono) auto
  then show "(Inr (deps, nid # visiting, ds, order), Inl (deps, visiting, nid, order))
      \<in> inv_image (less_than <*lex*> less_than)
    (\<lambda>x. case x of Inl (deps, visiting, nid, order) \<Rightarrow> (card (set (dkeys deps) - set visiting), 0)
       | Inr (deps, visiting, ds, order) \<Rightarrow> (card (set (dkeys deps) - set visiting), Suc (length ds)))"
    by simp
qed auto

declare visit.simps [simp del]

definition topo_order :: "template \<Rightarrow> topo_error + string list" where
  "topo_order t = visit_all (topo_deps t) [] (map n_id (t_nodes t)) []"

definition empty_successors :: "template \<Rightarrow> (string, string list) dict" where
  "empty_successors t = empty_deps t"

definition add_successor :: "string \<Rightarrow> string \<Rightarrow> (string, string list) dict \<Rightarrow> (string, string list) dict" where
  "add_successor nid src out =
     (case map_of out src of
        None \<Rightarrow> out
      | Some ss \<Rightarrow> if nid \<in> set ss then out else dput src (ss @ [nid]) out)"

definition successors :: "template \<Rightarrow> (string, string list) dict" where
  "successors t =
     fold (\<lambda>n out. fold (\<lambda>src_ref out. add_successor (n_id n) (before_dot src_ref) out)
         (map snd (n_inputs n)) out)
       (t_nodes t) (empty_successors t)"

section \<open>What the tables hold\<close>

text \<open>\<open>edge t a b\<close>: some node with id a of the template reads an output of the node b of the template.\<close>

definition node_ids :: "template \<Rightarrow> string set" where
  "node_ids t = n_id ` set (t_nodes t)"

definition edge :: "template \<Rightarrow> string \<Rightarrow> string \<Rightarrow> bool" where
  "edge t a b \<longleftrightarrow> b \<in> node_ids t \<and>
     (\<exists>n \<in> set (t_nodes t). n_id n = a \<and> b \<in> before_dot ` snd ` set (n_inputs n))"

definition deps_of :: "(string, string list) dict \<Rightarrow> string \<Rightarrow> string list" where
  "deps_of deps a = (case map_of deps a of None \<Rightarrow> [] | Some ds \<Rightarrow> ds)"

lemma empty_deps_map: "map_of (empty_deps t) a = (if a \<in> node_ids t then Some [] else None)"
proof -
  have "map_of (fold (\<lambda>n d. dput (n_id n) [] d) ns d) a
      = (if a \<in> n_id ` set ns then Some [] else map_of d a)" for ns :: "node_spec list" and d :: "(string, string list) dict"
    by (induction ns arbitrary: d) auto
  then show ?thesis by (simp add: empty_deps_def node_ids_def)
qed

lemma add_dep_map:
  "map_of (add_dep a b deps) x =
     (if x = a \<and> has_key deps a \<and> has_key deps b \<and> b \<notin> set (deps_of deps a)
      then Some (deps_of deps a @ [b]) else map_of deps x)"
  by (auto simp: add_dep_def deps_of_def has_key_map_of split: option.splits)

lemma add_dep_keys: "has_key (add_dep a b deps) x = has_key deps x"
  by (auto simp: has_key_map_of add_dep_map)

lemma add_dep_deps_of:
  "deps_of (add_dep a b deps) x =
     (if x = a \<and> has_key deps a \<and> has_key deps b \<and> b \<notin> set (deps_of deps a)
      then deps_of deps a @ [b] else deps_of deps x)"
  unfolding deps_of_def [of "add_dep a b deps"] add_dep_map by (simp add: deps_of_def)

lemma add_dep_deps:
  "set (deps_of (add_dep a b deps) x)
   = set (deps_of deps x) \<union> (if x = a \<and> has_key deps a \<and> has_key deps b then {b} else {})"
  by (auto simp: add_dep_deps_of)

lemma fold_add_dep:
  "has_key (fold (\<lambda>r d. add_dep a (before_dot r) d) rs deps) x = has_key deps x \<and>
   set (deps_of (fold (\<lambda>r d. add_dep a (before_dot r) d) rs deps) x)
   = set (deps_of deps x) \<union> (if x = a \<and> has_key deps a then {b \<in> before_dot ` set rs. has_key deps b} else {})"
proof (induction rs arbitrary: deps)
  case (Cons r rs)
  show ?case
    using Cons.IH [of "add_dep a (before_dot r) deps"] by (auto simp: add_dep_keys add_dep_deps)
qed simp

lemma topo_deps_spec:
  "has_key (topo_deps t) x \<longleftrightarrow> x \<in> node_ids t" "set (deps_of (topo_deps t) x) = {b. edge t x b}"
proof -
  let ?f = "\<lambda>n d. fold (\<lambda>r d. add_dep (n_id n) (before_dot r) d) (map snd (n_inputs n)) d"
  have gen: "has_key (fold ?f ns deps) x = has_key deps x \<and>
    set (deps_of (fold ?f ns deps) x) = set (deps_of deps x) \<union>
      {b. has_key deps b \<and> has_key deps x \<and> (\<exists>n \<in> set ns. n_id n = x \<and> b \<in> before_dot ` snd ` set (n_inputs n))}"
    for ns deps x
  proof (induction ns arbitrary: deps)
    case (Cons n ns)
    note keys = fold_add_dep [of "n_id n" "map snd (n_inputs n)" deps]
    show ?case
      using Cons.IH [of "?f n deps"] keys by (auto simp: image_image)
  qed simp
  have e: "has_key (empty_deps t) x \<longleftrightarrow> x \<in> node_ids t" "deps_of (empty_deps t) x = []" for x
    by (simp_all add: has_key_def deps_of_def empty_deps_map)
  show "has_key (topo_deps t) x \<longleftrightarrow> x \<in> node_ids t"
    using gen [of "t_nodes t" "empty_deps t" x] e by (simp add: topo_deps_def)
  show "set (deps_of (topo_deps t) x) = {b. edge t x b}"
    using gen [of "t_nodes t" "empty_deps t" x] e
    by (auto simp: topo_deps_def edge_def node_ids_def)
qed

section \<open>The sort\<close>

definition topological :: "(string \<Rightarrow> string list) \<Rightarrow> string list \<Rightarrow> bool" where
  "topological ds order \<longleftrightarrow>
     (\<forall>xs x ys. order = xs @ x # ys \<longrightarrow> x \<notin> set xs \<and> set (ds x) \<subseteq> set xs)"

lemma topological_Nil [simp]: "topological ds []"
  by (simp add: topological_def)

lemma topological_snoc:
  "topological ds (xs @ [x]) \<longleftrightarrow> topological ds xs \<and> x \<notin> set xs \<and> set (ds x) \<subseteq> set xs"
proof
  assume a: "topological ds (xs @ [x])"
  have "topological ds xs"
    unfolding topological_def
  proof (intro allI impI)
    fix us u vs
    assume "xs = us @ u # vs"
    then have "xs @ [x] = us @ u # (vs @ [x])" by simp
    then show "u \<notin> set us \<and> set (ds u) \<subseteq> set us" using a unfolding topological_def by blast
  qed
  moreover have "x \<notin> set xs \<and> set (ds x) \<subseteq> set xs"
    using a unfolding topological_def by blast
  ultimately show "topological ds xs \<and> x \<notin> set xs \<and> set (ds x) \<subseteq> set xs" by blast
next
  assume a: "topological ds xs \<and> x \<notin> set xs \<and> set (ds x) \<subseteq> set xs"
  show "topological ds (xs @ [x])"
    unfolding topological_def
  proof (intro allI impI)
    fix us u vs
    assume eq: "xs @ [x] = us @ u # vs"
    show "u \<notin> set us \<and> set (ds u) \<subseteq> set us"
    proof (cases vs rule: rev_cases)
      case Nil
      then show ?thesis using eq a by simp
    next
      case (snoc ws w)
      then have "xs = us @ u # ws" using eq by simp
      then show ?thesis using a unfolding topological_def by blast
    qed
  qed
qed

lemma topological_distinct: "topological ds order \<Longrightarrow> distinct order"
  by (induction order rule: rev_induct) (simp_all add: topological_snoc)

lemma topological_no_cycle:
  assumes "topological ds order" "a \<in> set order" "(\<lambda>x y. y \<in> set (ds x))\<^sup>+\<^sup>+ a b"
  shows "\<exists>xs ys zs. order = xs @ b # ys @ a # zs"
  using assms(3,2)
proof (induction rule: tranclp_induct)
  case (base b)
  from split_list [OF base.prems] obtain us zs where o: "order = us @ a # zs" by blast
  with assms(1) base.hyps have "b \<in> set us" unfolding topological_def by blast
  then obtain ps qs where "us = ps @ b # qs" by (meson split_list)
  with o have "order = ps @ b # qs @ a # zs" by simp
  then show ?case by blast
next
  case (step b c)
  from step.IH [OF step.prems] obtain us ys zs where o: "order = us @ b # ys @ a # zs" by blast
  with assms(1) step.hyps have "c \<in> set us" unfolding topological_def by blast
  then obtain ps qs where "us = ps @ c # qs" by (meson split_list)
  with o have "order = ps @ c # (qs @ b # ys) @ a # zs" by simp
  then show ?case by blast
qed

lemma topological_acyclic:
  assumes "topological ds order" "a \<in> set order"
  shows "\<not> (\<lambda>x y. y \<in> set (ds x))\<^sup>+\<^sup>+ a a"
proof
  assume "(\<lambda>x y. y \<in> set (ds x))\<^sup>+\<^sup>+ a a"
  from topological_no_cycle [OF assms this] topological_distinct [OF assms(1)]
  show False by auto
qed

lemma visit_topological:
  "visit deps visiting nid order = Inr order' \<Longrightarrow> topological (deps_of deps) order \<Longrightarrow>
   topological (deps_of deps) order' \<and> nid \<in> set order'
     \<and> (\<exists>zs. order' = order @ zs \<and> set zs \<inter> set visiting = {} \<and> set zs \<subseteq> set (dkeys deps))"
  "visit_all deps visiting ds order = Inr order' \<Longrightarrow> topological (deps_of deps) order \<Longrightarrow>
   topological (deps_of deps) order' \<and> set ds \<subseteq> set order'
     \<and> (\<exists>zs. order' = order @ zs \<and> set zs \<inter> set visiting = {} \<and> set zs \<subseteq> set (dkeys deps))"
proof (induction deps visiting nid order and deps visiting ds order arbitrary: order' and order'
    rule: visit_visit_all.induct)
  case (1 deps visiting nid order)
  show ?case
  proof (cases "nid \<in> set order")
    case True
    then show ?thesis using 1 by (simp add: visit.simps)
  next
    case False
    with 1(2) obtain ds o1 where ds: "nid \<notin> set visiting" "map_of deps nid = Some ds"
        "visit_all deps (nid # visiting) ds order = Inr o1" "order' = o1 @ [nid]"
      by (auto simp: visit.simps [of deps visiting nid] rbind_eq_Inr split: if_splits option.splits)
    from 1(1) [OF False ds(1-3) 1(3)] obtain zs where o1: "topological (deps_of deps) o1"
      "set ds \<subseteq> set o1" "o1 = order @ zs" "set zs \<inter> set (nid # visiting) = {}"
      "set zs \<subseteq> set (dkeys deps)" by blast
    have "nid \<notin> set o1" using o1(3,4) False by auto
    moreover have "nid \<in> set (dkeys deps)" using ds(2) by (force dest: map_of_SomeD)
    moreover have "deps_of deps nid = ds" using ds(2) by (simp add: deps_of_def)
    ultimately have "topological (deps_of deps) order'"
      using o1(1,2) ds(4) by (simp add: topological_snoc)
    then show ?thesis using o1 ds \<open>nid \<in> set (dkeys deps)\<close> by auto
  qed
next
  case (2 deps visiting order)
  then show ?case by simp
next
  case (3 deps visiting d ds order)
  from 3(3) obtain o1 where o1: "visit deps visiting d order = Inr o1"
      "visit_all deps visiting ds o1 = Inr order'"
    by (auto simp: rbind_eq_Inr)
  from 3(1) [OF o1(1) 3(4)] obtain zs where z: "topological (deps_of deps) o1" "d \<in> set o1"
    "o1 = order @ zs" "set zs \<inter> set visiting = {}" "set zs \<subseteq> set (dkeys deps)" by blast
  from 3(2) [OF o1(1) o1(2) z(1)] obtain ws where w: "topological (deps_of deps) order'"
    "set ds \<subseteq> set order'" "order' = o1 @ ws" "set ws \<inter> set visiting = {}"
    "set ws \<subseteq> set (dkeys deps)" by blast
  show ?case using z w by auto
qed

lemma visit_error:
  "visit deps visiting nid order = Inl e \<Longrightarrow> (\<And>x y. y \<in> set (deps_of deps x) \<Longrightarrow> has_key deps y) \<Longrightarrow>
   has_key deps nid \<Longrightarrow> (\<And>v. v \<in> set visiting \<Longrightarrow> (\<lambda>x y. y \<in> set (deps_of deps x))\<^sup>+\<^sup>+ v nid) \<Longrightarrow>
   \<exists>n. e = Cycle n \<and> (\<lambda>x y. y \<in> set (deps_of deps x))\<^sup>+\<^sup>+ n n"
  "visit_all deps visiting ds order = Inl e \<Longrightarrow> (\<And>x y. y \<in> set (deps_of deps x) \<Longrightarrow> has_key deps y) \<Longrightarrow>
   (\<And>d. d \<in> set ds \<Longrightarrow> has_key deps d) \<Longrightarrow>
   (\<And>v d. v \<in> set visiting \<Longrightarrow> d \<in> set ds \<Longrightarrow> (\<lambda>x y. y \<in> set (deps_of deps x))\<^sup>+\<^sup>+ v d) \<Longrightarrow>
   \<exists>n. e = Cycle n \<and> (\<lambda>x y. y \<in> set (deps_of deps x))\<^sup>+\<^sup>+ n n"
proof (induction deps visiting nid order and deps visiting ds order arbitrary: e and e
    rule: visit_visit_all.induct)
  case (1 deps visiting nid order)
  let ?E = "\<lambda>x y. y \<in> set (deps_of deps x)"
  have n: "nid \<notin> set order" using 1(2) by (auto simp: visit.simps)
  show ?case
  proof (cases "nid \<in> set visiting")
    case True
    then have "e = Cycle nid" using 1(2) n by (simp add: visit.simps)
    then show ?thesis using 1(5) True by blast
  next
    case False
    from 1(4) obtain ds where ds: "map_of deps nid = Some ds" by (auto simp: has_key_map_of)
    have va: "visit_all deps (nid # visiting) ds order = Inl e"
      using 1(2) n False ds by (auto simp: visit.simps [of deps visiting nid] rbind_def split: sum.splits)
    have dn: "?E nid d" if "d \<in> set ds" for d using that ds by (simp add: deps_of_def)
    show ?thesis
    proof (rule 1(1) [OF n False ds va 1(3)])
      show "has_key deps d" if "d \<in> set ds" for d using 1(3) [OF dn [OF that]] .
      show "?E\<^sup>+\<^sup>+ v d" if "v \<in> set (nid # visiting)" "d \<in> set ds" for v d
        using that 1(5) dn [OF that(2)]
        by (auto intro: tranclp.r_into_trancl tranclp.trancl_into_trancl)
    qed
  qed
next
  case (2 deps visiting order)
  then show ?case by simp
next
  case (3 deps visiting d ds order)
  show ?case
  proof (cases "visit deps visiting d order")
    case (Inl e')
    have "e' = e" using 3(3) Inl by (simp add: rbind_def)
    then show ?thesis using 3(1) [OF Inl 3(4)] 3(5,6) by simp
  next
    case (Inr o1)
    then have "visit_all deps visiting ds o1 = Inl e" using 3(3) by (simp add: rbind_def)
    from 3(2) [OF Inr this 3(4)] 3(5,6) show ?thesis by simp
  qed
qed

lemma deps_edge: "(\<lambda>x y. y \<in> set (deps_of (topo_deps t) x)) = edge t"
  by (intro ext) (simp add: topo_deps_spec)

lemma topo_order_topological:
  assumes "topo_order t = Inr order"
  shows "topological (deps_of (topo_deps t)) order" and "set order = node_ids t"
proof -
  have v: "visit_all (topo_deps t) [] (map n_id (t_nodes t)) [] = Inr order"
    using assms by (simp add: topo_order_def)
  from visit_topological(2) [OF v topological_Nil]
  have r: "topological (deps_of (topo_deps t)) order" "node_ids t \<subseteq> set order"
    "set order \<subseteq> set (dkeys (topo_deps t))"
    by (auto simp: node_ids_def)
  moreover have "set (dkeys (topo_deps t)) = node_ids t"
    using topo_deps_spec(1) [of t] by (auto simp: has_key_iff)
  ultimately show "topological (deps_of (topo_deps t)) order" "set order = node_ids t" by auto
qed

lemma successors_spec:
  "set (deps_of (successors t) b) = {a. edge t a b}"
proof -
  let ?f = "\<lambda>n d. fold (\<lambda>r d. add_successor (n_id n) (before_dot r) d) (map snd (n_inputs n)) d"
  have one: "has_key (add_successor a b d) x = has_key d x \<and> set (deps_of (add_successor a b d) x)
      = set (deps_of d x) \<union> (if x = b \<and> has_key d x then {a} else {})" for a b d x
    by (auto simp: add_successor_def deps_of_def has_key_map_of split: option.splits)
  have node: "has_key (fold (\<lambda>r d. add_successor a (before_dot r) d) rs d) x = has_key d x \<and>
      set (deps_of (fold (\<lambda>r d. add_successor a (before_dot r) d) rs d) x)
      = set (deps_of d x) \<union> (if has_key d x \<and> x \<in> before_dot ` set rs then {a} else {})" for a rs d x
  proof (induction rs arbitrary: d)
    case (Cons r rs)
    show ?case using Cons.IH [of "add_successor a (before_dot r) d"]
        one [of a "before_dot r" d x] by auto
  qed simp
  have gen: "set (deps_of (fold ?f ns d) x) = set (deps_of d x) \<union>
      {a. has_key d x \<and> (\<exists>n \<in> set ns. n_id n = a \<and> x \<in> before_dot ` snd ` set (n_inputs n))}"
    for ns d x
  proof (induction ns arbitrary: d)
    case (Cons n ns)
    show ?case using Cons.IH [of "?f n d"] node [of "n_id n" "map snd (n_inputs n)" d x]
      by (auto simp: image_image)
  qed simp
  show ?thesis
    using gen [of "t_nodes t" "empty_successors t" b]
    by (auto simp: successors_def empty_successors_def has_key_map_of deps_of_def empty_deps_map edge_def)
qed

text \<open>
  The execution order lists every node of the template exactly once and puts every node
  after all the nodes whose outputs it reads.
\<close>

theorem topo_order_sorts:
  assumes "topo_order t = Inr order"
  shows "distinct order \<and> set order = node_ids t
    \<and> (\<forall>before a behind b. order = before @ a # behind \<longrightarrow> edge t a b \<longrightarrow> b \<in> set before)"
proof -
  note o = topo_order_topological [OF assms]
  have "b \<in> set before" if "order = before @ a # behind" "edge t a b" for before a behind b
  proof -
    have "b \<in> set (deps_of (topo_deps t) a)" using that(2) by (simp add: topo_deps_spec)
    then show ?thesis using o(1) that(1) unfolding topological_def by blast
  qed
  then show ?thesis using o topological_distinct [OF o(1)] by blast
qed

definition demo_node :: "string \<Rightarrow> (string, string) dict \<Rightarrow> node_spec" where
  "demo_node nid inputs =
     \<lparr>n_id = nid, n_kind = nid, n_variant = None, n_params = [], n_inputs = inputs,
      n_ui_depends_on = None\<rparr>"

definition demo_graph :: template where
  "demo_graph =
     \<lparr>t_id = ''t'', t_version = 1, t_description = '''', t_profile = None,
      t_nodes =
        [demo_node ''png'' [(''image'', ''stack.image'')],
         demo_node ''stack'' [(''lights'', ''convert.seq''), (''dark'', ''ext.dark'')],
         demo_node ''convert'' []],
      t_outputs = [(''preview'', ''png.image'')]\<rparr>"

lemma topo_order_sorts_witness:
  "topo_order demo_graph = Inr [''convert'', ''stack'', ''png'']
   \<and> distinct [''convert'', ''stack'', ''png'']
   \<and> set [''convert'', ''stack'', ''png''] = node_ids demo_graph"
proof -
  have o: "topo_order demo_graph = Inr [''convert'', ''stack'', ''png'']" by code_simp
  from topo_order_sorts [OF this] o show ?thesis by blast
qed

text \<open>
  C38: the sort fails exactly on the templates whose nodes read each other in a cycle, and then
  with the cycle error; a node id that is not in the dependency table is never looked up.
\<close>

theorem topo_order_fails_iff_cycle:
  "((\<exists>nid. topo_order t = Inl (Cycle nid)) \<longleftrightarrow> (\<exists>a. (edge t)\<^sup>+\<^sup>+ a a))
   \<and> topo_order t \<noteq> Inl (Unknown_Node nid)"
proof -
  have err: "\<exists>n. e = Cycle n \<and> (edge t)\<^sup>+\<^sup>+ n n" if "topo_order t = Inl e" for e
  proof -
    have v: "visit_all (topo_deps t) [] (map n_id (t_nodes t)) [] = Inl e"
      using that by (simp add: topo_order_def)
    have "has_key (topo_deps t) y" if "y \<in> set (deps_of (topo_deps t) x)" for x y
      using that by (simp add: topo_deps_spec edge_def)
    then show ?thesis
      using visit_error(2) [OF v] by (simp add: topo_deps_spec node_ids_def deps_edge)
  qed
  have ok: "\<not> (edge t)\<^sup>+\<^sup>+ a a" if "topo_order t = Inr order" for order a
  proof
    assume c: "(edge t)\<^sup>+\<^sup>+ a a"
    then have "\<exists>z. edge t a z" by (meson tranclpD)
    then have "a \<in> node_ids t" by (auto simp: edge_def node_ids_def)
    with topo_order_topological [OF that] have "\<not> (edge t)\<^sup>+\<^sup>+ a a"
      using topological_acyclic [of "deps_of (topo_deps t)" order a] by (simp add: deps_edge)
    then show False using c by blast
  qed
  show ?thesis
  proof (cases "topo_order t")
    case (Inl e)
    then show ?thesis using err [OF Inl] by auto
  next
    case (Inr order)
    then show ?thesis using ok [OF Inr] by auto
  qed
qed

end
