(* ===== verification/Cache.thy ===== *)
theory Cache
  imports Node_Model
begin

text \<open>
  \<open>server/cache.py\<close>, the content-addressed cache. The cache directory is a dictionary from entry
  names (node hashes) to entry directories; an entry directory is a dictionary from relative posix
  paths to what lies there. A file is its size and what \<open>json.loads\<close> makes of its text (None when
  it is not JSON). Directories need no key of their own: a key below them makes them exist.
  Paths are taken resolved (no symbolic links to follow, no \<open>..\<close>); stray non-directories in the
  cache root and I/O errors, which the code skips or suppresses, do not occur in the model.

  \<open>text_size j\<close> stands for the length of \<open>json.dumps(j, indent=2)\<close>; \<open>outside\<close> tells which
  paths outside the cache root exist.
\<close>

section \<open>State\<close>

datatype fnode = Dir | Link | File nat "json option"

type_synonym entry = "(string, fnode) dict"

record cache =
  cache_root :: string
  cache_entries :: "(string, entry) dict"

definition DONE_MARKER :: string where
  "DONE_MARKER = ''_done''"

definition OUTPUTS_MANIFEST :: string where
  "OUTPUTS_MANIFEST = ''_outputs.json''"

definition WARNINGS_MANIFEST :: string where
  "WARNINGS_MANIFEST = ''_warnings.json''"

definition INUSE_PREFIX :: string where
  "INUSE_PREFIX = ''_inuse_''"

definition entry_dir :: "cache \<Rightarrow> string \<Rightarrow> string" where
  "entry_dir c h = cache_root c @ ''/'' @ h"

definition entry_of :: "cache \<Rightarrow> string \<Rightarrow> entry option" where
  "entry_of c h = map_of (cache_entries c) h"

definition put_entry :: "string \<Rightarrow> entry \<Rightarrow> cache \<Rightarrow> cache" where
  "put_entry h e c = c\<lparr>cache_entries := dput h e (cache_entries c)\<rparr>"

definition drop_entry :: "string \<Rightarrow> cache \<Rightarrow> cache" where
  "drop_entry h c = c\<lparr>cache_entries := dpop h (cache_entries c)\<rparr>"

definition entry_has :: "entry \<Rightarrow> string \<Rightarrow> bool" where
  "entry_has e rel =
     (rel = '''' \<or> has_key e rel \<or> list_ex (\<lambda>k. starts_with (rel @ ''/'') k) (dkeys e))"

definition touch :: "string \<Rightarrow> entry \<Rightarrow> entry" where
  "touch name e = (if has_key e name then e else dput name (File 0 None) e)"

fun node_size :: "fnode \<Rightarrow> nat" where
  "node_size (File n _) = n"
| "node_size _ = 0"

fun is_file :: "fnode \<Rightarrow> bool" where
  "is_file (File _ _) = True"
| "is_file _ = False"

definition entry_bytes :: "entry \<Rightarrow> nat" where
  "entry_bytes e = sum_list (map (node_size \<circ> snd) e)"

text \<open>A path below the cache root, as (entry, path relative to it).\<close>

definition locate :: "cache \<Rightarrow> string \<Rightarrow> (string \<times> string) option" where
  "locate c p =
     (if starts_with (cache_root c @ ''/'') p then
        let q = drop (length (cache_root c) + 1) p; h = takeWhile (\<lambda>x. x \<noteq> CHR ''/'') q
        in Some (h, drop (length h + 1) q)
      else None)"

definition path_exists :: "(string \<Rightarrow> bool) \<Rightarrow> cache \<Rightarrow> string \<Rightarrow> bool" where
  "path_exists outside c p =
     (case locate c p of
        None \<Rightarrow> outside p
      | Some (h, rel) \<Rightarrow> (case entry_of c h of None \<Rightarrow> False | Some e \<Rightarrow> entry_has e rel))"

text \<open>\<open>p.resolve().relative_to(d.resolve())\<close>: None is the ValueError.\<close>

definition relative_to :: "string \<Rightarrow> string \<Rightarrow> string option" where
  "relative_to d p =
     (if p = d then Some ''.''
      else if starts_with (d @ ''/'') p then Some (drop (length d + 1) p) else None)"

definition path_join :: "string \<Rightarrow> string \<Rightarrow> string" where
  "path_join d rel =
     (if starts_with ''/'' rel then rel
      else if rel = ''.'' \<or> rel = '''' then d else d @ ''/'' @ rel)"

section \<open>Operations\<close>

datatype cache_error =
    Not_Reserved string
  | Output_Missing string string
  | Output_Escapes string string
  | Attribute_Error

definition is_committed :: "cache \<Rightarrow> string \<Rightarrow> bool" where
  "is_committed c h = (case entry_of c h of None \<Rightarrow> False | Some e \<Rightarrow> has_key e DONE_MARKER)"

definition cache_lookup :: "cache \<Rightarrow> string \<Rightarrow> string option" where
  "cache_lookup c h = (if is_committed c h then Some (entry_dir c h) else None)"

definition reserve :: "cache \<Rightarrow> string \<Rightarrow> bool \<Rightarrow> cache" where
  "reserve c h force =
     (case entry_of c h of
        None \<Rightarrow> put_entry h [] c
      | Some e \<Rightarrow> if force \<or> \<not> is_committed c h then put_entry h [] c else c)"

definition commit_output ::
  "(string \<Rightarrow> bool) \<Rightarrow> cache \<Rightarrow> string \<Rightarrow> string \<times> ref \<Rightarrow> params \<Rightarrow> cache_error + params" where
  "commit_output outside c h = (\<lambda>(port, r) manifest.
     if \<not> path_exists outside c (r_path r) then Inl (Output_Missing port (r_path r))
     else case relative_to (entry_dir c h) (r_path r) of
       None \<Rightarrow> Inl (Output_Escapes port (r_path r))
     | Some rel \<Rightarrow> Inr (dput port
         (JDict [(''path'', JStr rel), (''type'', JStr (port_type_value (r_type r))),
                 (''display_ready'', JBool (r_display_ready r))]) manifest))"

text \<open>The files \<open>commit\<close> writes, in order: the manifest, the warnings if any, the marker last.\<close>

definition commit_writes :: "(json \<Rightarrow> nat) \<Rightarrow> params \<Rightarrow> params list \<Rightarrow> (entry \<Rightarrow> entry) list" where
  "commit_writes text_size manifest warnings =
     (let write = (\<lambda>name j. dput name (File (text_size j) (Some j))) in
      [write OUTPUTS_MANIFEST (JDict manifest)]
      @ (if warnings = [] then [] else [write WARNINGS_MANIFEST (JList (map JDict warnings))])
      @ [touch DONE_MARKER])"

definition commit ::
  "(string \<Rightarrow> bool) \<Rightarrow> (json \<Rightarrow> nat) \<Rightarrow> cache \<Rightarrow> string \<Rightarrow> (string, ref) dict \<Rightarrow> params list
   \<Rightarrow> cache_error + cache" where
  "commit outside text_size c h outputs warnings =
     (case entry_of c h of
        None \<Rightarrow> Inl (Not_Reserved h)
      | Some e \<Rightarrow>
          rbind (fold_res (commit_output outside c h) outputs []) (\<lambda>manifest.
            Inr (put_entry h (fold (\<lambda>write. write) (commit_writes text_size manifest warnings) e) c)))"

definition load_warnings :: "cache \<Rightarrow> string \<Rightarrow> params list" where
  "load_warnings c h =
     (case entry_of c h of
        None \<Rightarrow> []
      | Some e \<Rightarrow>
          if \<not> has_key e DONE_MARKER then []
          else case map_of e WARNINGS_MANIFEST of
            Some (File _ (Some (JList ws))) \<Rightarrow>
              List.map_filter (\<lambda>w. case w of JDict d \<Rightarrow> Some d | _ \<Rightarrow> None) ws
          | _ \<Rightarrow> [])"

fun load_entries ::
  "string \<Rightarrow> string \<Rightarrow> (string \<times> json) list \<Rightarrow> cache_error + (string, ref) dict option" where
  "load_entries d h [] = Inr (Some [])"
| "load_entries d h ((port, entry) # rest) =
     (case entry of
        JDict m \<Rightarrow>
          (case (map_of m ''path'', map_of m ''type'') of
             (Some (JStr rel), Some (JStr ty)) \<Rightarrow>
               (case parse_port_type ty of
                  None \<Rightarrow> Inr None
                | Some pt \<Rightarrow>
                    rbind (load_entries d h rest) (\<lambda>out. Inr (map_option (\<lambda>refs.
                      (port, \<lparr>r_node_hash = h, r_port = port, r_path = path_join d rel, r_type = pt,
                        r_display_ready = (case map_of m ''display_ready'' of
                           None \<Rightarrow> False | Some v \<Rightarrow> truthy v)\<rparr>) # refs) out)))
           | _ \<Rightarrow> Inr None)
      | _ \<Rightarrow> Inl Attribute_Error)"

definition load_outputs :: "cache \<Rightarrow> string \<Rightarrow> cache_error + (string, ref) dict option" where
  "load_outputs c h =
     (case entry_of c h of
        None \<Rightarrow> Inr None
      | Some e \<Rightarrow>
          if \<not> has_key e DONE_MARKER then Inr None
          else case map_of e OUTPUTS_MANIFEST of
            Some (File _ (Some raw)) \<Rightarrow>
              (case raw of JDict m \<Rightarrow> load_entries (entry_dir c h) h m | _ \<Rightarrow> Inl Attribute_Error)
          | _ \<Rightarrow> Inr None)"

definition evict :: "cache \<Rightarrow> string \<Rightarrow> cache \<times> nat" where
  "evict c h =
     (case entry_of c h of None \<Rightarrow> (c, 0) | Some e \<Rightarrow> (drop_entry h c, entry_bytes e))"

definition all_committed_hashes :: "cache \<Rightarrow> string list" where
  "all_committed_hashes c = map fst (filter (\<lambda>(h, e). has_key e DONE_MARKER) (cache_entries c))"

definition mark_in_use :: "cache \<Rightarrow> string \<Rightarrow> string \<Rightarrow> cache" where
  "mark_in_use c h job_id =
     (case entry_of c h of None \<Rightarrow> c | Some e \<Rightarrow> put_entry h (touch (INUSE_PREFIX @ job_id) e) c)"

definition release_job_marks :: "cache \<Rightarrow> string \<Rightarrow> cache \<times> nat" where
  "release_job_marks c job_id =
     (let m = INUSE_PREFIX @ job_id in
      (c\<lparr>cache_entries := map (\<lambda>(h, e). (h, dpop m e)) (cache_entries c)\<rparr>,
       length (filter (\<lambda>(h, e). has_key e m) (cache_entries c))))"

text \<open>The marker files among the children of an entry directory (names without a slash).\<close>

definition is_marker :: "string \<times> fnode \<Rightarrow> bool" where
  "is_marker = (\<lambda>(k, n). is_file n \<and> CHR ''/'' \<notin> set k \<and> starts_with INUSE_PREFIX k)"

definition marker_job :: "string \<Rightarrow> string" where
  "marker_job k = drop (length INUSE_PREFIX) k"

definition in_use_by :: "cache \<Rightarrow> string \<Rightarrow> string list" where
  "in_use_by c h =
     (case entry_of c h of None \<Rightarrow> [] | Some e \<Rightarrow> map (marker_job \<circ> fst) (filter is_marker e))"

definition is_in_use :: "cache \<Rightarrow> string \<Rightarrow> string list \<Rightarrow> cache \<times> bool" where
  "is_in_use c h alive =
     (case entry_of c h of
        None \<Rightarrow> (c, False)
      | Some e \<Rightarrow>
          (put_entry h (filter (\<lambda>p. \<not> (is_marker p \<and> marker_job (fst p) \<notin> set alive)) e) c,
           list_ex (\<lambda>p. is_marker p \<and> marker_job (fst p) \<in> set alive) e))"

definition entry_size :: "cache \<Rightarrow> string \<Rightarrow> nat" where
  "entry_size c h = (case entry_of c h of None \<Rightarrow> 0 | Some e \<Rightarrow> entry_bytes e)"

section \<open>Basic facts\<close>

named_theorems cache_simps "how cache operations change what an entry holds"

lemma entry_of_put [simp, cache_simps]:
  "entry_of (put_entry h e c) h' = (if h' = h then Some e else entry_of c h')"
  by (simp add: entry_of_def put_entry_def)

lemma entry_of_drop [simp, cache_simps]:
  "entry_of (drop_entry h c) h' = (if h' = h then None else entry_of c h')"
  by (simp add: entry_of_def drop_entry_def)

lemma root_put [simp, cache_simps]: "cache_root (put_entry h e c) = cache_root c"
  by (simp add: put_entry_def)

lemma root_drop [simp, cache_simps]: "cache_root (drop_entry h c) = cache_root c"
  by (simp add: drop_entry_def)

lemma entry_dir_put [simp, cache_simps]: "entry_dir (put_entry h e c) h' = entry_dir c h'"
  by (simp add: entry_dir_def)

lemma has_key_touch [simp, cache_simps]: "has_key (touch n e) k \<longleftrightarrow> k = n \<or> has_key e k"
  by (auto simp: touch_def)

lemma map_of_touch [cache_simps]:
  "map_of (touch n e) k = (if k = n \<and> map_of e n = None then Some (File 0 None) else map_of e k)"
  by (auto simp: touch_def has_key_def)

lemma marker_names [simp]:
  "DONE_MARKER \<noteq> OUTPUTS_MANIFEST" "DONE_MARKER \<noteq> WARNINGS_MANIFEST"
  "OUTPUTS_MANIFEST \<noteq> WARNINGS_MANIFEST" "OUTPUTS_MANIFEST \<noteq> DONE_MARKER"
  "WARNINGS_MANIFEST \<noteq> DONE_MARKER" "WARNINGS_MANIFEST \<noteq> OUTPUTS_MANIFEST"
  "DONE_MARKER \<noteq> INUSE_PREFIX @ j" "INUSE_PREFIX @ j \<noteq> DONE_MARKER"
  by (simp_all add: DONE_MARKER_def OUTPUTS_MANIFEST_def WARNINGS_MANIFEST_def INUSE_PREFIX_def)

lemma done_not_marker [simp]: "\<not> is_marker (DONE_MARKER, n)"
  by (simp add: is_marker_def DONE_MARKER_def INUSE_PREFIX_def starts_with_def)

lemma marker_job_append [simp]: "marker_job (INUSE_PREFIX @ j) = j"
  by (simp add: marker_job_def)

section \<open>Commit and load\<close>

lemma is_committed_put [simp, cache_simps]:
  "is_committed (put_entry h e c) h' = (if h' = h then has_key e DONE_MARKER else is_committed c h')"
  by (simp add: is_committed_def)

lemma reserve_exists: "entry_of (reserve c h force) h \<noteq> None"
  by (auto simp: reserve_def split: option.splits)

lemma reserve_keeps_committed: "is_committed c h \<Longrightarrow> reserve c h False = c"
  by (auto simp: reserve_def is_committed_def split: option.splits)

lemma reserve_fresh:
  "force \<or> \<not> is_committed c h \<Longrightarrow> entry_of (reserve c h force) h = Some []"
  by (auto simp: reserve_def split: option.splits)

lemma reserve_other: "h' \<noteq> h \<Longrightarrow> entry_of (reserve c h force) h' = entry_of c h'"
  by (auto simp: reserve_def split: option.splits)

lemma root_reserve [simp]: "cache_root (reserve c h force) = cache_root c"
  by (simp add: reserve_def split: option.splits)

lemma commit_Inr_iff:
  "commit outside ts c h outputs ws = Inr c' \<longleftrightarrow>
   (\<exists>e manifest. entry_of c h = Some e
     \<and> fold_res (commit_output outside c h) outputs [] = Inr manifest
     \<and> c' = put_entry h (fold (\<lambda>w. w) (commit_writes ts manifest ws) e) c)"
  by (auto simp: commit_def rbind_eq_Inr split: option.splits)

lemma commit_is_committed: "commit outside ts c h outputs ws = Inr c' \<Longrightarrow> is_committed c' h"
  by (auto simp: commit_Inr_iff commit_writes_def Let_def)

lemma commit_other: "commit outside ts c h outputs ws = Inr c' \<Longrightarrow> h' \<noteq> h \<Longrightarrow> entry_of c' h' = entry_of c h'"
  by (auto simp: commit_Inr_iff)

lemma root_commit: "commit outside ts c h outputs ws = Inr c' \<Longrightarrow> cache_root c' = cache_root c"
  by (auto simp: commit_Inr_iff)

text \<open>
  C25: a crash in the middle of a commit never leaves an entry that counts as committed: after any
  proper prefix of the writes the entry still lacks its marker, so the entry is invisible to lookups
  and to the storage accounting.
\<close>

theorem interrupted_commit_not_committed:
  assumes "entry_of c h = Some e" "\<not> is_committed c h"
    and "k < length (commit_writes ts manifest ws)"
  shows "cache_lookup (put_entry h (fold (\<lambda>w. w) (take k (commit_writes ts manifest ws)) e) c) h = None"
proof -
  have e: "\<not> has_key e DONE_MARKER" using assms(1,2) by (simp add: is_committed_def)
  have "k < (if ws = [] then 2 else 3)" using assms(3) by (cases "ws = []") (simp_all add: commit_writes_def Let_def)
  then have "k = 0 \<or> k = 1 \<or> (k = 2 \<and> ws \<noteq> [])" by (auto split: if_splits)
  then show ?thesis
    using e by (auto simp: cache_lookup_def commit_writes_def Let_def numeral_2_eq_2)
qed

theorem interrupted_commit_not_committed_witness:
  "cache_lookup (put_entry ''h'' (fold (\<lambda>w. w) (take 1 (commit_writes (\<lambda>_. 2) [] [])) [])
     \<lparr>cache_root = ''/c'', cache_entries = [(''h'', [])]\<rparr>) ''h'' = None"
  by (rule interrupted_commit_not_committed)
     (simp_all add: entry_of_def is_committed_def has_key_def commit_writes_def)

text \<open>The manifest entry of a ref, and the loop that builds the manifest.\<close>

definition manifest_entry :: "string \<Rightarrow> ref \<Rightarrow> json" where
  "manifest_entry rel r = JDict [(''path'', JStr rel), (''type'', JStr (port_type_value (r_type r))),
     (''display_ready'', JBool (r_display_ready r))]"

lemma dput_append_new: "k \<notin> set (dkeys d) \<Longrightarrow> dput k v d = d @ [(k, v)]"
  by (induction d) auto

lemma manifest_built:
  assumes "fold_res (commit_output outside c h) outputs m = Inr manifest"
    and "distinct (dkeys m @ ks)" "ks = dkeys outputs"
  shows "\<exists>rels. length rels = length outputs
     \<and> manifest = m @ map (\<lambda>((port, r), rel). (port, manifest_entry rel r)) (zip outputs rels)
     \<and> list_all2 (\<lambda>(port, r) rel. relative_to (entry_dir c h) (r_path r) = Some rel) outputs rels"
  using assms
proof (induction outputs arbitrary: m ks)
  case (Cons pr outputs)
  obtain port r where pr: "pr = (port, r)" by (cases pr)
  from Cons.prems(1) pr obtain rel where rel: "relative_to (entry_dir c h) (r_path r) = Some rel"
    and rest: "fold_res (commit_output outside c h) outputs (dput port (manifest_entry rel r) m) = Inr manifest"
    by (auto simp: rbind_eq_Inr commit_output_def manifest_entry_def split: if_splits option.splits)
  have new: "dput port (manifest_entry rel r) m = m @ [(port, manifest_entry rel r)]"
    using Cons.prems(2,3) pr by (intro dput_append_new) auto
  have "distinct (dkeys (m @ [(port, manifest_entry rel r)]) @ dkeys outputs)"
    using Cons.prems(2,3) pr by auto
  from Cons.IH [OF _ this refl] rest new obtain rels where
    "length rels = length outputs"
    "manifest = (m @ [(port, manifest_entry rel r)])
      @ map (\<lambda>((port, r), rel). (port, manifest_entry rel r)) (zip outputs rels)"
    "list_all2 (\<lambda>(port, r) rel. relative_to (entry_dir c h) (r_path r) = Some rel) outputs rels"
    by auto
  then show ?case
    using pr rel by (intro exI [of _ "rel # rels"]) auto
qed auto

text \<open>A path inside an entry that \<open>relative_to\<close> and \<open>/\<close> take apart and put together again.\<close>

definition tidy_path :: "string \<Rightarrow> string \<Rightarrow> bool" where
  "tidy_path d p = (case relative_to d p of None \<Rightarrow> False | Some rel \<Rightarrow> path_join d rel = p)"

lemma load_entries_manifest:
  assumes "list_all2 (\<lambda>(port, r) rel. relative_to d (r_path r) = Some rel) outputs rels"
    and "\<And>port r. (port, r) \<in> set outputs \<Longrightarrow> r_node_hash r = h \<and> r_port r = port \<and> tidy_path d (r_path r)"
  shows "load_entries d h (map (\<lambda>((port, r), rel). (port, manifest_entry rel r)) (zip outputs rels))
    = Inr (Some outputs)"
  using assms
proof (induction rule: list_all2_induct)
  case (Cons pr outputs rel rels)
  obtain port r where pr: "pr = (port, r)" by (cases pr)
  have r: "r_node_hash r = h" "r_port r = port" "path_join d rel = r_path r"
    using Cons.prems [of port r] Cons.hyps(1) pr by (auto simp: tidy_path_def)
  then have "\<lparr>r_node_hash = h, r_port = port, r_path = path_join d rel, r_type = r_type r,
      r_display_ready = r_display_ready r\<rparr> = r"
    by (intro ref.equality) simp_all
  moreover have "load_entries d h (map (\<lambda>((port, r), rel). (port, manifest_entry rel r)) (zip outputs rels))
      = Inr (Some outputs)"
    by (rule Cons.IH) (use Cons.prems in auto)
  ultimately show ?case
    using pr by (simp add: manifest_entry_def)
qed simp

text \<open>
  what a node commits is what the next run reads back. After a successful commit into an entry
  without a leftover warnings sidecar, \<open>load_outputs\<close> returns exactly the committed refs and
  \<open>load_warnings\<close> exactly the warnings of the run.
\<close>

theorem commit_load_roundtrip:
  assumes ok: "commit outside ts c h outputs ws = Inr c'"
    and wf: "wf_dict outputs"
    and refs: "\<And>port r. (port, r) \<in> set outputs \<Longrightarrow>
        r_node_hash r = h \<and> r_port r = port \<and> tidy_path (entry_dir c h) (r_path r)"
    and fresh: "\<And>e. entry_of c h = Some e \<Longrightarrow> map_of e WARNINGS_MANIFEST = None"
  shows "load_outputs c' h = Inr (Some outputs) \<and> load_warnings c' h = ws"
proof
  from ok obtain e manifest where e: "entry_of c h = Some e"
    and manifest: "fold_res (commit_output outside c h) outputs [] = Inr manifest"
    and c': "c' = put_entry h (fold (\<lambda>w. w) (commit_writes ts manifest ws) e) c"
    by (auto simp: commit_Inr_iff)
  from manifest_built [OF manifest _ refl] wf obtain rels where
    m: "manifest = map (\<lambda>((port, r), rel). (port, manifest_entry rel r)) (zip outputs rels)"
    and rels: "list_all2 (\<lambda>(port, r) rel. relative_to (entry_dir c h) (r_path r) = Some rel) outputs rels"
    by auto
  have "load_entries (entry_dir c h) h manifest = Inr (Some outputs)"
    unfolding m using rels refs by (rule load_entries_manifest)
  then show "load_outputs c' h = Inr (Some outputs)"
    by (simp add: load_outputs_def c' commit_writes_def Let_def map_of_touch)
  have dicts: "List.map_filter (\<lambda>w. case w of JDict d \<Rightarrow> Some d | _ \<Rightarrow> None) (map JDict ws) = ws"
    by (induction ws) (simp_all add: List.map_filter_def)
  show "load_warnings c' h = ws"
    using fresh [OF e] dicts
    by (auto simp: load_warnings_def c' commit_writes_def Let_def map_of_touch)
qed

definition demo_ref :: ref where
  "demo_ref = \<lparr>r_node_hash = ''h'', r_port = ''image'', r_path = ''/c/h/image.fit'', r_type = IMAGE_FITS,
     r_display_ready = True\<rparr>"

definition demo_cache :: cache where
  "demo_cache = \<lparr>cache_root = ''/c'', cache_entries = [(''h'', [(''image.fit'', File 10 None)])]\<rparr>"

theorem commit_load_roundtrip_witness:
  "\<exists>c'. commit (\<lambda>_. False) (\<lambda>_. 2) demo_cache ''h'' [(''image'', demo_ref)] [[(''kind'', JStr ''partial'')]] = Inr c'
     \<and> load_outputs c' ''h'' = Inr (Some [(''image'', demo_ref)])
     \<and> load_warnings c' ''h'' = [[(''kind'', JStr ''partial'')]]"
proof -
  let ?r = "commit (\<lambda>_. False) (\<lambda>_. 2) demo_cache ''h'' [(''image'', demo_ref)] [[(''kind'', JStr ''partial'')]]"
  obtain c' where c': "?r = Inr c'"
    by (simp add: commit_def demo_cache_def demo_ref_def entry_of_def commit_output_def path_exists_def
        locate_def starts_with_def entry_has_def has_key_def relative_to_def entry_dir_def Let_def)
  have "load_outputs c' ''h'' = Inr (Some [(''image'', demo_ref)])
      \<and> load_warnings c' ''h'' = [[(''kind'', JStr ''partial'')]]"
    by (rule commit_load_roundtrip [OF c'])
       (auto simp: demo_ref_def demo_cache_def tidy_path_def relative_to_def entry_dir_def entry_of_def
         starts_with_def path_join_def WARNINGS_MANIFEST_def)
  with c' show ?thesis by blast
qed

section \<open>In-use markers\<close>

text \<open>An entry is held when a live job has a marker in it.\<close>

definition held :: "string list \<Rightarrow> cache \<Rightarrow> string \<Rightarrow> bool" where
  "held alive c h = (\<exists>j \<in> set (in_use_by c h). j \<in> set alive)"

definition present :: "cache \<Rightarrow> string \<Rightarrow> bool" where
  "present c h = (entry_of c h \<noteq> None)"

lemma held_iff:
  "held alive c h \<longleftrightarrow> (\<exists>e. entry_of c h = Some e \<and> (\<exists>p \<in> set e. is_marker p \<and> marker_job (fst p) \<in> set alive))"
  by (cases "entry_of c h") (force simp: held_def in_use_by_def)+

lemma is_in_use_answer: "snd (is_in_use c h alive) = held alive c h"
  by (auto simp: is_in_use_def held_iff list_ex_iff split: option.splits)

lemma is_in_use_entry:
  "entry_of (fst (is_in_use c h alive)) h' =
   (if h' = h then map_option (filter (\<lambda>p. \<not> (is_marker p \<and> marker_job (fst p) \<notin> set alive))) (entry_of c h)
    else entry_of c h')"
  by (auto simp: is_in_use_def split: option.splits)

lemma is_in_use_held: "held alive (fst (is_in_use c h alive)) h' = held alive c h'"
  by (cases "h' = h") (fastforce simp: held_iff is_in_use_entry)+

lemma evict_entry: "entry_of (fst (evict c h)) h' = (if h' = h then None else entry_of c h')"
  by (auto simp: evict_def split: option.splits)

text \<open>
  The contract a cleanup relies on: probing an entry tells whether a live job holds it and changes
  neither which entries exist nor which are held; dropping an entry affects that entry only.
\<close>

locale guarded_store =
  fixes exists_in :: "'s \<Rightarrow> 'h \<Rightarrow> bool"
    and is_held :: "'s \<Rightarrow> 'h \<Rightarrow> bool"
    and probe :: "'s \<Rightarrow> 'h \<Rightarrow> 's \<times> bool"
    and discard :: "'s \<Rightarrow> 'h \<Rightarrow> 's \<times> nat"
  assumes probe_answer: "snd (probe s h) = is_held s h"
    and probe_exists: "exists_in (fst (probe s h)) h' = exists_in s h'"
    and probe_held: "is_held (fst (probe s h)) h' = is_held s h'"
    and discard_exists: "exists_in (fst (discard s h)) h' = (h' \<noteq> h \<and> exists_in s h')"
    and discard_held: "h' \<noteq> h \<Longrightarrow> is_held (fst (discard s h)) h' = is_held s h'"
begin

lemma guarded_discard_keeps_held:
  assumes "exists_in s k" "is_held s k" "\<not> snd (probe s h)"
  shows "exists_in (fst (discard (fst (probe s h)) h)) k \<and> is_held (fst (discard (fst (probe s h)) h)) k"
proof -
  have "k \<noteq> h" using assms(2,3) probe_answer by auto
  then show ?thesis
    using assms(1,2) by (simp add: discard_exists discard_held probe_exists probe_held)
qed

lemma probe_keeps:
  "exists_in s k \<Longrightarrow> is_held s k \<Longrightarrow> exists_in (fst (probe s h)) k \<and> is_held (fst (probe s h)) k"
  by (simp add: probe_exists probe_held)

lemma guarded_discard_only:
  "exists_in (fst (discard (fst (probe s h)) h)) k \<longleftrightarrow> k \<noteq> h \<and> exists_in s k"
  by (simp add: discard_exists probe_exists)

end

interpretation cache_store: guarded_store present "held alive" "\<lambda>c h. is_in_use c h alive" evict
  for alive
proof
  fix s h h'
  show "snd (is_in_use s h alive) = held alive s h" by (rule is_in_use_answer)
  show "present (fst (is_in_use s h alive)) h' = present s h'"
    by (simp add: present_def is_in_use_entry)
  show "held alive (fst (is_in_use s h alive)) h' = held alive s h'" by (rule is_in_use_held)
  show "present (fst (evict s h)) h' = (h' \<noteq> h \<and> present s h')"
    by (simp add: present_def evict_entry)
  show "held alive (fst (evict s h)) h' = held alive s h'" if "h' \<noteq> h"
    using that by (simp add: held_iff evict_entry)
qed

lemma release_clears: "job \<notin> set (in_use_by (fst (release_job_marks c job)) h)"
proof
  assume "job \<in> set (in_use_by (fst (release_job_marks c job)) h)"
  then obtain x p where x: "entry_of (fst (release_job_marks c job)) h = Some x"
    and p: "p \<in> set x" "is_marker p" "job = marker_job (fst p)"
    by (cases "entry_of (fst (release_job_marks c job)) h") (auto simp: in_use_by_def)
  obtain k n where kn: "(k, n) \<in> set x" "is_marker (k, n)" "job = marker_job k"
    using p by (metis prod.collapse)
  have "k = INUSE_PREFIX @ job"
    using kn(2,3) by (auto simp: is_marker_def marker_job_def elim: starts_withE)
  moreover have "\<not> has_key x (INUSE_PREFIX @ job)"
    using x by (auto simp: release_job_marks_def Let_def entry_of_def map_of_map_snd)
  ultimately show False using kn(1) by (force simp: has_key_iff)
qed

lemma mark_in_use_entry:
  "entry_of c h = Some e \<Longrightarrow> entry_of (mark_in_use c h job) h = Some (touch (INUSE_PREFIX @ job) e)"
  by (simp add: mark_in_use_def)

lemma wf_marker_pair:
  assumes "CHR ''/'' \<notin> set job" "\<And>n. map_of e (INUSE_PREFIX @ job) = Some n \<Longrightarrow> is_file n"
  shows "\<exists>p \<in> set (touch (INUSE_PREFIX @ job) e). is_marker p \<and> marker_job (fst p) = job"
proof -
  have "CHR ''/'' \<notin> set INUSE_PREFIX" by (simp add: INUSE_PREFIX_def)
  then have name: "CHR ''/'' \<notin> set (INUSE_PREFIX @ job)" using assms(1) by simp
  obtain n where n: "map_of (touch (INUSE_PREFIX @ job) e) (INUSE_PREFIX @ job) = Some n" "is_file n"
  proof (cases "map_of e (INUSE_PREFIX @ job)")
    case None
    then show ?thesis using that [of "File 0 None"] by (simp add: map_of_touch)
  next
    case (Some m)
    then show ?thesis using that [of m] assms(2) by (simp add: map_of_touch)
  qed
  then have "(INUSE_PREFIX @ job, n) \<in> set (touch (INUSE_PREFIX @ job) e)" by (simp add: map_of_SomeD)
  moreover have "is_marker (INUSE_PREFIX @ job, n)"
    using n(2) name by (simp add: is_marker_def)
  ultimately show ?thesis by (intro bexI [where x = "(INUSE_PREFIX @ job, n)"]) simp_all
qed

text \<open>
  the in-use protocol. After \<open>mark_in_use\<close> by a live job an existing entry reads as in use; a
  probe removes no entry's commit marker and no live marker; after \<open>release_job_marks\<close> no entry
  names the job any more.
\<close>

theorem in_use_protocol:
  assumes e: "entry_of c h = Some e"
    and job: "CHR ''/'' \<notin> set job" "job \<in> set alive"
    and marker: "\<And>n. map_of e (INUSE_PREFIX @ job) = Some n \<Longrightarrow> is_file n"
  shows "snd (is_in_use (mark_in_use c h job) h alive)
    \<and> is_committed (fst (is_in_use (mark_in_use c h job) h' alive')) h'' = is_committed c h''
    \<and> job \<notin> set (in_use_by (fst (release_job_marks (mark_in_use c h job) job)) h'')"
proof (intro conjI)
  show "snd (is_in_use (mark_in_use c h job) h alive)"
    using wf_marker_pair [OF job(1) marker] job(2) e
    by (auto simp: is_in_use_answer held_iff mark_in_use_entry)
  have done_kept: "has_key (filter (\<lambda>p. is_marker p \<longrightarrow> marker_job (fst p) \<in> set alive') x) DONE_MARKER
      = has_key x DONE_MARKER" for x
    by (force simp: has_key_iff)
  have mark: "is_committed (mark_in_use c h job) h'' = is_committed c h''"
    using e by (auto simp: mark_in_use_def is_committed_def)
  show "is_committed (fst (is_in_use (mark_in_use c h job) h' alive')) h'' = is_committed c h''"
    unfolding mark [symmetric]
    by (auto simp: is_committed_def is_in_use_entry done_kept split: option.splits)
  show "job \<notin> set (in_use_by (fst (release_job_marks (mark_in_use c h job) job)) h'')"
    by (rule release_clears)
qed

theorem in_use_protocol_witness:
  "snd (is_in_use (mark_in_use demo_cache ''h'' ''j1'') ''h'' [''j1''])
   \<and> is_committed (fst (is_in_use (mark_in_use demo_cache ''h'' ''j1'') ''h'' [])) ''h'' = is_committed demo_cache ''h''
   \<and> ''j1'' \<notin> set (in_use_by (fst (release_job_marks (mark_in_use demo_cache ''h'' ''j1'') ''j1'')) ''h'')"
  by (rule in_use_protocol) (auto simp: demo_cache_def entry_of_def INUSE_PREFIX_def)

end
