(* ===== verification/Catalog_DB.thy ===== *)
theory Catalog_DB
  imports Node_Model
begin

text \<open>
  The rows of the catalog database (\<open>server/catalog/db.py\<close>) that jobs, projects and storage
  share. A table is the list of its rows in rowid order; a SELECT is a filter, an UPDATE a map over
  the rows, an INSERT appends. JSON columns hold what \<open>json.loads\<close> makes of them: a NULL or empty
  text, a text that does not parse, or a value. Template, job and override columns are written by
  pydantic's own dump; they are held as the value, with None for a template that no longer
  validates. Timestamps are ISO texts in UTC, compared as texts, as the code and SQLite do.
\<close>

datatype json_col = Null_Col | Bad_Col | Json_Col json

datatype job_status = Queued | Running | Completed | Failed | Interrupted

record job_row =
  jr_id :: string
  jr_status :: job_status
  jr_template :: template
  jr_job :: job
  jr_outputs :: json_col
  jr_error :: "string option"
  jr_submitted_at :: string
  jr_started_at :: "string option"
  jr_finished_at :: "string option"
  jr_force :: bool
  jr_cancel_requested :: bool
  jr_worker_pid :: "int option"
  jr_heartbeat_at :: "string option"
  jr_node_hashes :: json_col
  jr_quality :: json_col

record project_row =
  pr_id :: string
  pr_name :: string
  pr_template :: "template option"
  pr_base_job :: job
  pr_current_seq :: int
  pr_draft_mode :: bool
  pr_source_session_ids :: "string list"
  pr_created_at :: string
  pr_updated_at :: string
  pr_cover_seq :: "int option"
  pr_description :: "string option"

record history_row =
  hr_project_id :: string
  hr_seq :: int
  hr_job_id :: string
  hr_overrides :: overrides
  hr_label :: "string option"
  hr_created_at :: string
  hr_published :: bool
  hr_kind :: string
  hr_snapshot :: json_col

record storage_db =
  db_projects :: "project_row list"
  db_history :: "history_row list"
  db_jobs :: "job_row list"
  db_settings :: "(string, json_col) dict"

text \<open>\<open>SELECT id FROM jobs WHERE status IN ('queued', 'running')\<close>.\<close>

definition is_live :: "job_row \<Rightarrow> bool" where
  "is_live r = (jr_status r = Queued \<or> jr_status r = Running)"

end
