(* ===== verification/Storage.thy ===== *)
theory Storage
  imports Cache Catalog_DB
begin

text \<open>
  \<open>server/storage.py\<close>: which project owns which cache entry, the eviction order, the sweep that
  brings the cache under its budget, the per-project purge, the disk headroom check before a node
  writes, and the settings store. The free bytes of the disk holding the cache are a function
  \<open>disk_free\<close> of the cache state; log lines and the UI snapshot's disk figures carry no logic.
\<close>

section \<open>Reachability\<close>

record cache_entry_info =
  ce_node_hash :: string
  ce_bytes :: int
  ce_owners :: "string list"
  ce_tier :: tier
  ce_oldest_owner_updated_at :: "string option"

datatype storage_error = Invalid_Template string | Malformed_Outputs

text \<open>The payload of \<open>node_hashes_json\<close>: the dict form, or the legacy list form.\<close>

definition json_strings :: "json list \<Rightarrow> string list" where
  "json_strings xs = List.map_filter (\<lambda>v. case v of JStr s \<Rightarrow> Some s | _ \<Rightarrow> None) xs"

definition string_items :: "params \<Rightarrow> (string \<times> string) list" where
  "string_items d =
     List.map_filter (\<lambda>(k, v). case v of JStr s \<Rightarrow> Some (k, s) | _ \<Rightarrow> None) d"

fun hashes_payload :: "json_col \<Rightarrow> ((string \<times> string) list + string list) option" where
  "hashes_payload (Json_Col (JDict d)) = Some (Inl (string_items d))"
| "hashes_payload (Json_Col (JList xs)) = Some (Inr (json_strings xs))"
| "hashes_payload _ = None"

definition node_tier_map :: "'w registry \<Rightarrow> template \<Rightarrow> (string, tier) dict" where
  "node_tier_map reg t =
     fold (\<lambda>spec out. case registry_lookup reg (n_kind spec) (n_variant spec) of
             None \<Rightarrow> out | Some cls \<Rightarrow> dput (n_id spec) (cls_tier cls) out) (t_nodes t) []"

text \<open>(node id, hash) pairs of one job: a legacy list pairs by position in the template.\<close>

fun hash_pairs :: "template \<Rightarrow> (string \<times> string) list + string list \<Rightarrow> (string \<times> string) list" where
  "hash_pairs t (Inl pairs) = pairs"
| "hash_pairs t (Inr hashes) = zip (map n_id (t_nodes t)) hashes"

fun tier_rank :: "tier \<Rightarrow> nat" where
  "tier_rank Bulk = 0"
| "tier_rank Keep = 1"

definition claimed ::
  "'w registry \<Rightarrow> string \<Rightarrow> string \<Rightarrow> template \<Rightarrow> string \<Rightarrow> cache_entry_info \<Rightarrow> cache_entry_info" where
  "claimed reg pid updated t node_id e =
     (let e1 = e\<lparr>ce_owners := (if pid \<in> set (ce_owners e) then ce_owners e else ce_owners e @ [pid])\<rparr>;
          e2 = (if node_id \<in> set (map n_id (t_nodes t)) then
                  let tier = (case map_of (node_tier_map reg t) node_id of None \<Rightarrow> Bulk | Some x \<Rightarrow> x)
                  in if tier_rank (ce_tier e1) < tier_rank tier then e1\<lparr>ce_tier := tier\<rparr> else e1
                else e1)
      in case ce_oldest_owner_updated_at e2 of
           None \<Rightarrow> e2\<lparr>ce_oldest_owner_updated_at := Some updated\<rparr>
         | Some old \<Rightarrow> if updated < old
             then e2\<lparr>ce_oldest_owner_updated_at := Some updated\<rparr> else e2)"

definition claim_entry ::
  "'w registry \<Rightarrow> string \<Rightarrow> string \<Rightarrow> template \<Rightarrow> string \<times> string
   \<Rightarrow> (string, cache_entry_info) dict \<Rightarrow> (string, cache_entry_info) dict" where
  "claim_entry reg pid updated t = (\<lambda>(node_id, h) entries.
     case map_of entries h of
       None \<Rightarrow> entries
     | Some e \<Rightarrow> dput h (claimed reg pid updated t node_id e) entries)"

text \<open>The job rows as \<open>job_hashes_raw\<close>: id to payload, later rows overwrite.\<close>

definition job_hashes_raw ::
  "job_row list \<Rightarrow> (string, (string \<times> string) list + string list) dict" where
  "job_hashes_raw rows =
     fold (\<lambda>j out. case hashes_payload (jr_node_hashes j) of None \<Rightarrow> out | Some p \<Rightarrow> dput (jr_id j) p out)
       rows []"

definition project_history :: "storage_db \<Rightarrow> string \<Rightarrow> history_row list" where
  "project_history db pid = sort_key hr_seq (filter (\<lambda>h. hr_project_id h = pid) (db_history db))"

definition claim_project ::
  "'w registry \<Rightarrow> storage_db \<Rightarrow> project_row \<Rightarrow> (string, cache_entry_info) dict
   \<Rightarrow> storage_error + (string, cache_entry_info) dict" where
  "claim_project reg db p entries =
     (case pr_template p of
        None \<Rightarrow> Inl (Invalid_Template (pr_id p))
      | Some t \<Rightarrow>
          Inr (fold (\<lambda>h es. case map_of (job_hashes_raw (db_jobs db)) (hr_job_id h) of
                  None \<Rightarrow> es
                | Some raw \<Rightarrow> fold (claim_entry reg (pr_id p) (pr_updated_at p) t) (hash_pairs t raw) es)
               (project_history db (pr_id p)) entries))"

definition initial_entries :: "cache \<Rightarrow> (string, cache_entry_info) dict" where
  "initial_entries c =
     map (\<lambda>h. (h, \<lparr>ce_node_hash = h, ce_bytes = int (entry_size c h), ce_owners = [], ce_tier = Bulk,
                   ce_oldest_owner_updated_at = None\<rparr>)) (all_committed_hashes c)"

definition build_reachability ::
  "'w registry \<Rightarrow> storage_db \<Rightarrow> cache \<Rightarrow> storage_error + (string, cache_entry_info) dict" where
  "build_reachability reg db c = fold_res (claim_project reg db) (db_projects db) (initial_entries c)"

section \<open>The storage snapshot\<close>

record project_storage =
  ps_project_id :: string
  ps_name :: string
  ps_updated_at :: string
  ps_owned_bytes :: int
  ps_shared_bytes :: int
  ps_entry_count :: nat

record storage_snapshot =
  ss_total_bytes :: int
  ss_entry_count :: nat
  ss_unreachable_bytes :: int
  ss_unreachable_count :: nat
  ss_per_project :: "project_storage list"

definition sum_bytes :: "cache_entry_info list \<Rightarrow> int" where
  "sum_bytes es = sum_list (map ce_bytes es)"

definition project_breakdown :: "cache_entry_info list \<Rightarrow> project_row \<Rightarrow> project_storage" where
  "project_breakdown es p =
     (let mine = filter (\<lambda>e. pr_id p \<in> set (ce_owners e)) es in
      \<lparr>ps_project_id = pr_id p, ps_name = pr_name p, ps_updated_at = pr_updated_at p,
       ps_owned_bytes = sum_bytes (filter (\<lambda>e. set (ce_owners e) = {pr_id p}) mine),
       ps_shared_bytes = sum_bytes (filter (\<lambda>e. set (ce_owners e) \<noteq> {pr_id p}) mine),
       ps_entry_count = length mine\<rparr>)"

text \<open>\<open>sort(key=updated_at, reverse=True)\<close> keeps equal keys in their original order.\<close>

definition sort_desc :: "('a \<Rightarrow> 'k :: linorder) \<Rightarrow> 'a list \<Rightarrow> 'a list" where
  "sort_desc f xs = rev (sort_key f (rev xs))"

definition system_storage ::
  "'w registry \<Rightarrow> storage_db \<Rightarrow> cache \<Rightarrow> storage_error + storage_snapshot" where
  "system_storage reg db c =
     rbind (build_reachability reg db c) (\<lambda>entries.
       let es = map snd entries in
       Inr \<lparr>ss_total_bytes = sum_bytes es, ss_entry_count = length es,
            ss_unreachable_bytes = sum_bytes (filter (\<lambda>e. ce_owners e = []) es),
            ss_unreachable_count = length (filter (\<lambda>e. ce_owners e = []) es),
            ss_per_project = sort_desc ps_updated_at (map (project_breakdown es) (db_projects db))\<rparr>)"

section \<open>Purging a project\<close>

definition alive_job_ids :: "storage_db \<Rightarrow> string list" where
  "alive_job_ids db = map jr_id (filter is_live (db_jobs db))"

fun ref_hashes :: "(string \<times> json) list \<Rightarrow> storage_error + string list" where
  "ref_hashes [] = Inr []"
| "ref_hashes ((_, v) # rest) =
     (case v of
        JDict m \<Rightarrow> rbind (ref_hashes rest) (\<lambda>hs. Inr (case map_of m ''node_hash'' of
            Some (JStr h) \<Rightarrow> h # hs | _ \<Rightarrow> hs))
      | _ \<Rightarrow> Inl Malformed_Outputs)"

definition output_hashes :: "json_col \<Rightarrow> storage_error + string list" where
  "output_hashes col =
     (case col of
        Null_Col \<Rightarrow> Inr []
      | Bad_Col \<Rightarrow> Inr []
      | Json_Col (JDict payload) \<Rightarrow> ref_hashes payload
      | Json_Col _ \<Rightarrow> Inl Malformed_Outputs)"

text \<open>The join of the project's history with the jobs table, folded over the matching rows.\<close>

definition terminal_output_hashes :: "storage_db \<Rightarrow> string \<Rightarrow> storage_error + string list" where
  "terminal_output_hashes db pid =
     fold_res (\<lambda>j out. rbind (output_hashes (jr_outputs j)) (\<lambda>hs. Inr (out @ hs)))
       (concat (map (\<lambda>h. filter (\<lambda>j. jr_id j = hr_job_id h) (db_jobs db))
          (filter (\<lambda>h. hr_project_id h = pid) (db_history db)))) []"

fun purge_loop :: "string list \<Rightarrow> string list \<Rightarrow> cache \<Rightarrow> nat \<Rightarrow> nat \<Rightarrow> cache \<times> nat \<times> nat" where
  "purge_loop alive [] c evicted freed = (c, evicted, freed)"
| "purge_loop alive (h # hs) c evicted freed =
     (let (c1, busy) = is_in_use c h alive in
      if busy then purge_loop alive hs c1 evicted freed
      else let (c2, b) = evict c1 h in purge_loop alive hs c2 (evicted + 1) (freed + b))"

definition purge_candidates :: "(string, cache_entry_info) dict \<Rightarrow> string \<Rightarrow> string list \<Rightarrow> string list" where
  "purge_candidates entries pid keep =
     map fst (filter (\<lambda>(h, e). set (ce_owners e) = {pid} \<and> h \<notin> set keep) entries)"

definition purge_project_cache ::
  "'w registry \<Rightarrow> storage_db \<Rightarrow> cache \<Rightarrow> string \<Rightarrow> bool \<Rightarrow> storage_error + cache \<times> nat \<times> nat" where
  "purge_project_cache reg db c pid keep_outputs =
     rbind (build_reachability reg db c) (\<lambda>entries.
     rbind (if keep_outputs then terminal_output_hashes db pid else Inr []) (\<lambda>keep.
       Inr (purge_loop (alive_job_ids db) (purge_candidates entries pid keep) c 0 0)))"

text \<open>Deleting the project row cascades to its history.\<close>

definition delete_project ::
  "'w registry \<Rightarrow> storage_db \<Rightarrow> cache \<Rightarrow> string \<Rightarrow> storage_error + storage_db \<times> cache \<times> nat \<times> nat" where
  "delete_project reg db c pid =
     rbind (purge_project_cache reg db c pid False) (\<lambda>(c', evicted, freed).
       Inr (db\<lparr>db_projects := filter (\<lambda>p. pr_id p \<noteq> pid) (db_projects db),
               db_history := filter (\<lambda>h. hr_project_id h \<noteq> pid) (db_history db)\<rparr>, c', evicted, freed))"

section \<open>The sweep\<close>

definition NO_DATE :: string where
  "NO_DATE = [CHR 0xEF, CHR 0xBF, CHR 0xBF]"

definition eviction_key :: "cache_entry_info \<Rightarrow> nat \<times> nat \<times> string" where
  "eviction_key e =
     (if ce_owners e = [] then 0 else 1, tier_rank (ce_tier e),
      case ce_oldest_owner_updated_at e of
        None \<Rightarrow> NO_DATE | Some s \<Rightarrow> if s = '''' then NO_DATE else s)"

record cleanup_result =
  cr_evicted_count :: nat
  cr_bytes_freed :: int
  cr_bytes_remaining :: int
  cr_over_budget :: bool
  cr_skipped_in_use :: nat

fun cleanup_loop ::
  "string list \<Rightarrow> int \<Rightarrow> int \<Rightarrow> string list \<Rightarrow> cache \<times> nat \<times> int \<times> nat \<Rightarrow> cache \<times> nat \<times> int \<times> nat" where
  "cleanup_loop alive tot max_bytes [] st = st"
| "cleanup_loop alive tot max_bytes (h # hs) (c, evicted, freed, skipped) =
     (if tot - freed \<le> max_bytes then (c, evicted, freed, skipped)
      else let (c1, busy) = is_in_use c h alive in
        if busy then cleanup_loop alive tot max_bytes hs (c1, evicted, freed, skipped + 1)
        else let (c2, b) = evict c1 h in
          cleanup_loop alive tot max_bytes hs (c2, evicted + 1, freed + int b, skipped))"

definition eviction_order :: "(string, cache_entry_info) dict \<Rightarrow> string list" where
  "eviction_order entries = map ce_node_hash (sort_key eviction_key (map snd entries))"

definition run_cleanup ::
  "'w registry \<Rightarrow> storage_db \<Rightarrow> cache \<Rightarrow> int \<Rightarrow> storage_error + cache \<times> cleanup_result" where
  "run_cleanup reg db c max_bytes =
     rbind (build_reachability reg db c) (\<lambda>entries.
       let total = sum_bytes (map snd entries) in
       if total \<le> max_bytes then
         Inr (c, \<lparr>cr_evicted_count = 0, cr_bytes_freed = 0, cr_bytes_remaining = total,
                  cr_over_budget = False, cr_skipped_in_use = 0\<rparr>)
       else
         let (c', evicted, freed, skipped) =
               cleanup_loop (alive_job_ids db) total max_bytes (eviction_order entries) (c, 0, 0, 0)
         in Inr (c', \<lparr>cr_evicted_count = evicted, cr_bytes_freed = freed,
                  cr_bytes_remaining = total - freed,
                  cr_over_budget = (max_bytes < total - freed), cr_skipped_in_use = skipped\<rparr>))"

section \<open>Disk headroom\<close>

datatype headroom_error =
    Insufficient_Storage int int int
  | Storage_Failure storage_error

text \<open>The cache size the sweep aims for, from whichever constraint is binding.\<close>

definition sweep_target :: "int \<Rightarrow> int \<Rightarrow> int \<Rightarrow> int \<Rightarrow> int" where
  "sweep_target free cache_used need_bytes cache_max_bytes =
     (let budget_headroom = max 0 (cache_max_bytes - cache_used);
          disk_deficit = max 0 (need_bytes - free);
          budget_deficit = max 0 (need_bytes - budget_headroom)
      in max 0 (min (cache_max_bytes - need_bytes) (cache_used - max disk_deficit budget_deficit)))"

definition ensure_disk_headroom ::
  "(cache \<Rightarrow> int) \<Rightarrow> 'w registry \<Rightarrow> storage_db \<Rightarrow> cache \<Rightarrow> int \<Rightarrow> int
   \<Rightarrow> cache \<times> (headroom_error + cleanup_result option)" where
  "ensure_disk_headroom disk_free reg db c need_bytes cache_max_bytes =
     (case build_reachability reg db c of
        Inl e \<Rightarrow> (c, Inl (Storage_Failure e))
      | Inr entries \<Rightarrow>
          if need_bytes \<le> min (disk_free c) (max 0 (cache_max_bytes - sum_bytes (map snd entries)))
          then (c, Inr None)
          else case run_cleanup reg db c
              (sweep_target (disk_free c) (sum_bytes (map snd entries)) need_bytes cache_max_bytes) of
            Inl e \<Rightarrow> (c, Inl (Storage_Failure e))
          | Inr (c', result) \<Rightarrow>
              if disk_free c' < need_bytes
              then (c', Inl (Insufficient_Storage need_bytes (disk_free c') (cr_bytes_freed result)))
              else (c', Inr (Some result)))"

section \<open>Settings\<close>

definition DEFAULT_CACHE_MAX_BYTES :: int where
  "DEFAULT_CACHE_MAX_BYTES = 200 * 1024 * 1024 * 1024"

definition MIN_CACHE_MAX_BYTES :: int where
  "MIN_CACHE_MAX_BYTES = 1024 * 1024 * 1024"

definition default_cache_max_bytes_for :: "int \<Rightarrow> int" where
  "default_cache_max_bytes_for disk_total =
     (if disk_total \<le> 0 then DEFAULT_CACHE_MAX_BYTES
      else max MIN_CACHE_MAX_BYTES (disk_total div 2))"

definition get_setting :: "storage_db \<Rightarrow> string \<Rightarrow> json \<Rightarrow> json" where
  "get_setting db key def =
     (case map_of (db_settings db) key of
        Some (Json_Col v) \<Rightarrow> v
      | _ \<Rightarrow> def)"

definition set_setting :: "storage_db \<Rightarrow> string \<Rightarrow> json \<Rightarrow> storage_db" where
  "set_setting db key value = db\<lparr>db_settings := dput key (Json_Col value) (db_settings db)\<rparr>"

section \<open>Reachability: keys, sizes and owners\<close>

text \<open>
  Every step of \<open>build_reachability\<close> keeps the table's keys, and each record's hash and size.
\<close>

definition entries_ok :: "cache \<Rightarrow> (string, cache_entry_info) dict \<Rightarrow> bool" where
  "entries_ok c entries =
     (dkeys entries = all_committed_hashes c
      \<and> (\<forall>(h, e) \<in> set entries. ce_node_hash e = h \<and> ce_bytes e = int (entry_size c h)))"

lemma set_dput_subset: "p \<in> set (dput k v d) \<Longrightarrow> p = (k, v) \<or> p \<in> set d"
  by (induction d) (auto split: if_splits)

lemma dkeys_dput_old: "map_of d k = Some w \<Longrightarrow> dkeys (dput k v d) = dkeys d"
  by (induction d) (auto split: if_splits)

lemma claimed_fields [simp]:
  "ce_node_hash (claimed reg pid u t n e) = ce_node_hash e"
  "ce_bytes (claimed reg pid u t n e) = ce_bytes e"
  "set (ce_owners (claimed reg pid u t n e)) = insert pid (set (ce_owners e))"
  by (auto simp: claimed_def Let_def split: option.splits)

lemma claim_entry_ok:
  assumes ok: "entries_ok c es"
  shows "entries_ok c (claim_entry reg pid u t nh es)"
proof -
  obtain n h where nh: "nh = (n, h)" by (cases nh)
  show ?thesis
  proof (cases "map_of es h")
    case None
    then show ?thesis using ok nh by (simp add: claim_entry_def)
  next
    case (Some e)
    then have "(h, e) \<in> set es" by (rule map_of_SomeD)
    then have "ce_node_hash v = k \<and> ce_bytes v = int (entry_size c k)"
      if "(k, v) \<in> set (dput h (claimed reg pid u t n e) es)" for k v
      using set_dput_subset [OF that] ok by (auto simp: entries_ok_def)
    then show ?thesis
      using ok Some nh by (auto simp: entries_ok_def claim_entry_def dkeys_dput_old)
  qed
qed

lemma fold_invariant: "P s \<Longrightarrow> (\<And>x s. x \<in> set xs \<Longrightarrow> P s \<Longrightarrow> P (f x s)) \<Longrightarrow> P (fold f xs s)"
  by (induction xs arbitrary: s) auto

lemma claim_project_ok:
  "claim_project reg db p es = Inr es' \<Longrightarrow> entries_ok c es \<Longrightarrow> entries_ok c es'"
  by (auto simp: claim_project_def split: option.splits intro!: fold_invariant [where P = "entries_ok c"]
      intro: claim_entry_ok)

lemma initial_entries_ok: "entries_ok c (initial_entries c)"
  by (auto simp: entries_ok_def initial_entries_def comp_def)

lemma build_reachability_ok:
  assumes "build_reachability reg db c = Inr entries"
  shows "entries_ok c entries"
  by (rule fold_res_invariant [OF assms [unfolded build_reachability_def], where P = "entries_ok c"])
     (auto intro: initial_entries_ok claim_project_ok)

definition wf_cache :: "cache \<Rightarrow> bool" where
  "wf_cache c = wf_dict (cache_entries c)"

lemma committed_iff:
  assumes "wf_cache c"
  shows "h \<in> set (all_committed_hashes c) \<longleftrightarrow> is_committed c h"
proof -
  have "h \<in> set (all_committed_hashes c) \<longleftrightarrow> (\<exists>e. (h, e) \<in> set (cache_entries c) \<and> has_key e DONE_MARKER)"
    by (force simp: all_committed_hashes_def)
  also have "\<dots> \<longleftrightarrow> (\<exists>e. map_of (cache_entries c) h = Some e \<and> has_key e DONE_MARKER)"
    using assms by (simp add: wf_cache_def)
  also have "\<dots> \<longleftrightarrow> is_committed c h"
    by (cases "map_of (cache_entries c) h") (simp_all add: is_committed_def entry_of_def)
  finally show ?thesis .
qed

lemma distinct_committed: "wf_cache c \<Longrightarrow> distinct (all_committed_hashes c)"
  unfolding wf_cache_def all_committed_hashes_def by (rule distinct_map_filter)

lemma entry_hashes: "entries_ok c es \<Longrightarrow> map ce_node_hash (map snd es) = all_committed_hashes c"
proof -
  assume ok: "entries_ok c es"
  have "map (ce_node_hash \<circ> snd) es = map fst es"
    by (rule map_cong) (use ok in \<open>auto simp: entries_ok_def\<close>)
  moreover have "map fst es = all_committed_hashes c" using ok by (simp add: entries_ok_def)
  ultimately show ?thesis by (simp only: map_map)
qed

lemma eviction_order_set: "entries_ok c es \<Longrightarrow> set (eviction_order es) = set (all_committed_hashes c)"
  unfolding eviction_order_def by (simp only: set_map set_sort entry_hashes [symmetric])

lemma eviction_order_distinct:
  assumes "entries_ok c es" "wf_cache c"
  shows "distinct (eviction_order es)"
proof -
  have "distinct (map ce_node_hash (map snd es))"
    unfolding entry_hashes [OF assms(1)] using assms(2) by (rule distinct_committed)
  then have "distinct (map ce_node_hash (sort_key eviction_key (map snd es)))"
    unfolding distinct_map [of ce_node_hash] by (simp only: distinct_sort set_sort)
  then show ?thesis by (simp add: eviction_order_def)
qed

text \<open>A smaller key comes earlier in the eviction order.\<close>

lemma eviction_order_before:
  assumes "(h, e) \<in> set es" "(h', e') \<in> set es" "eviction_key e < eviction_key e'" "entries_ok c es"
  obtains us vs where "eviction_order es = us @ h # vs" "h' \<in> set vs"
proof -
  let ?xs = "sort_key eviction_key (map snd es)"
  have "e \<in> set ?xs" "e' \<in> set ?xs" using assms(1,2) by force+
  then obtain us vs where xs: "?xs = us @ e # vs" by (meson split_list)
  have "sorted (map eviction_key ?xs)" by simp
  then have "\<forall>u \<in> set us. eviction_key u \<le> eviction_key e"
    unfolding xs by (auto simp: sorted_append)
  then have "e' \<notin> set us" "e' \<noteq> e" using assms(3) by auto
  then have "e' \<in> set vs" using \<open>e' \<in> set ?xs\<close> xs by auto
  moreover have "ce_node_hash e = h" "ce_node_hash e' = h'" using assms by (auto simp: entries_ok_def)
  ultimately show ?thesis
    using that [of "map ce_node_hash us" "map ce_node_hash vs"] xs by (force simp: eviction_order_def)
qed

section \<open>The sweep\<close>

lemma evict_committed: "is_committed (fst (evict c h)) h' \<longleftrightarrow> h' \<noteq> h \<and> is_committed c h'"
  by (auto simp: is_committed_def evict_entry)

lemma probe_committed: "is_committed (fst (is_in_use c h alive)) h' = is_committed c h'"
proof -
  have "has_key (filter (\<lambda>p. is_marker p \<longrightarrow> marker_job (fst p) \<in> set alive) x) DONE_MARKER
      = has_key x DONE_MARKER" for x
    by (force simp: has_key_iff)
  then show ?thesis by (auto simp: is_committed_def is_in_use_entry split: option.splits)
qed

interpretation committed_store: guarded_store is_committed "held alive" "\<lambda>c h. is_in_use c h alive" evict
  for alive
proof
  fix s h h'
  show "snd (is_in_use s h alive) = held alive s h" by (rule is_in_use_answer)
  show "is_committed (fst (is_in_use s h alive)) h' = is_committed s h'" by (rule probe_committed)
  show "held alive (fst (is_in_use s h alive)) h' = held alive s h'" by (rule is_in_use_held)
  show "is_committed (fst (evict s h)) h' = (h' \<noteq> h \<and> is_committed s h')" by (rule evict_committed)
  show "held alive (fst (evict s h)) h' = held alive s h'" if "h' \<noteq> h"
    using that by (rule cache_store.discard_held)
qed

text \<open>One round of the loop: the state after probing and, when the entry is free, evicting.\<close>

definition sweep_one :: "string list \<Rightarrow> cache \<Rightarrow> string \<Rightarrow> cache" where
  "sweep_one alive c h =
     (if held alive c h then fst (is_in_use c h alive) else fst (evict (fst (is_in_use c h alive)) h))"

lemma sweep_one_committed:
  "is_committed (sweep_one alive c h) k \<longleftrightarrow> is_committed c k \<and> (k = h \<longrightarrow> held alive c h)"
  by (auto simp: sweep_one_def probe_committed evict_committed)

lemma sweep_one_held: "k \<noteq> h \<Longrightarrow> held alive (sweep_one alive c h) k = held alive c k"
  by (simp add: sweep_one_def committed_store.discard_held is_in_use_held)

lemma cleanup_loop_step:
  obtains n' f' s' where
    "cleanup_loop alive t m (h # hs) (c, n, f, s) =
      (if t - f \<le> m then (c, n, f, s) else cleanup_loop alive t m hs (sweep_one alive c h, n', f', s'))"
    "f \<le> f'"
proof (cases "held alive c h")
  case True
  then show ?thesis
    using that [of n f "s + 1"] is_in_use_answer [of c h alive]
    by (cases "is_in_use c h alive") (simp add: sweep_one_def)
next
  case False
  then show ?thesis
    using that [of "n + 1" "f + int (snd (evict (fst (is_in_use c h alive)) h))" s] is_in_use_answer [of c h alive]
    by (cases "is_in_use c h alive"; cases "evict (fst (is_in_use c h alive)) h") (simp add: sweep_one_def)
qed

lemmas cleanup_loop_Cons = cleanup_loop.simps(2)

declare cleanup_loop.simps(2) [simp del]

lemma cleanup_loop_break: "t - f \<le> m \<Longrightarrow> cleanup_loop alive t m hs (c, n, f, s) = (c, n, f, s)"
  by (cases hs) (simp_all add: cleanup_loop_Cons)

lemma cleanup_loop_other:
  "k \<notin> set hs \<Longrightarrow> cleanup_loop alive t m hs (c, n, f, s) = (c', rest) \<Longrightarrow> is_committed c' k = is_committed c k"
proof (induction hs arbitrary: c n f s)
  case (Cons h hs)
  show ?case
    by (rule cleanup_loop_step [of alive t m h hs c n f s])
       (use Cons in \<open>auto simp: sweep_one_committed split: if_splits\<close>)
qed simp

lemma cleanup_loop_mono:
  "cleanup_loop alive t m hs (c, n, f, s) = (c', rest) \<Longrightarrow> is_committed c' k \<Longrightarrow> is_committed c k"
proof (induction hs arbitrary: c n f s)
  case (Cons h hs)
  obtain n1 f1 s1 where step: "cleanup_loop alive t m (h # hs) (c, n, f, s) =
      (if t - f \<le> m then (c, n, f, s) else cleanup_loop alive t m hs (sweep_one alive c h, n1, f1, s1))"
    by (rule cleanup_loop_step)
  show ?case
  proof (cases "t - f \<le> m")
    case True
    then show ?thesis using step Cons.prems by simp
  next
    case False
    then have "is_committed (sweep_one alive c h) k"
      using step Cons.prems Cons.IH [of "sweep_one alive c h" n1 f1 s1] by simp
    then show ?thesis by (simp add: sweep_one_committed)
  qed
qed simp

lemma cleanup_loop_keeps_held:
  "cleanup_loop alive t m hs (c, n, f, s) = (c', rest) \<Longrightarrow> is_committed c k \<Longrightarrow> held alive c k \<Longrightarrow>
   is_committed c' k"
proof (induction hs arbitrary: c n f s)
  case (Cons h hs)
  have "is_committed (sweep_one alive c h) k \<and> held alive (sweep_one alive c h) k"
    using Cons.prems(2,3) by (cases "k = h") (simp_all add: sweep_one_committed sweep_one_held, simp add: sweep_one_def is_in_use_held)
  then show ?case
    by (rule_tac cleanup_loop_step [of alive t m h hs c n f s])
       (use Cons in \<open>auto split: if_splits\<close>)
qed simp

lemma cleanup_loop_over_budget:
  "cleanup_loop alive t m hs (c, n, f, s) = (c', n', f', s') \<Longrightarrow> m < t - f' \<Longrightarrow> distinct hs \<Longrightarrow>
   k \<in> set hs \<Longrightarrow> is_committed c' k \<Longrightarrow> held alive c k"
proof (induction hs arbitrary: c n f s)
  case (Cons h hs)
  obtain n1 f1 s1 where step: "cleanup_loop alive t m (h # hs) (c, n, f, s) =
      (if t - f \<le> m then (c, n, f, s) else cleanup_loop alive t m hs (sweep_one alive c h, n1, f1, s1))"
    by (rule cleanup_loop_step)
  have nb: "\<not> t - f \<le> m" using Cons.prems(1,2) step by (auto split: if_splits)
  have rest: "cleanup_loop alive t m hs (sweep_one alive c h, n1, f1, s1) = (c', n', f', s')"
    using step nb Cons.prems(1) by simp
  show ?case
  proof (cases "k = h")
    case True
    have "is_committed (sweep_one alive c h) h"
      using cleanup_loop_mono [OF rest] Cons.prems(5) True by simp
    then show ?thesis using True by (simp add: sweep_one_committed)
  next
    case False
    then have "held alive (sweep_one alive c h) k"
      using Cons.IH [OF rest Cons.prems(2)] Cons.prems(3,4,5) by simp
    then show ?thesis using False by (simp add: sweep_one_held)
  qed
qed simp

lemma cleanup_loop_order:
  assumes "cleanup_loop alive t m (us @ x # vs) (c, n, f, s) = (c', rest)" "distinct (us @ x # vs)"
    and "y \<in> set vs" "is_committed c y" "\<not> is_committed c' y"
  shows "\<not> is_committed c' x \<or> held alive c x"
  using assms
proof (induction us arbitrary: c n f s)
  case Nil
  obtain n1 f1 s1 where step: "cleanup_loop alive t m (x # vs) (c, n, f, s) =
      (if t - f \<le> m then (c, n, f, s) else cleanup_loop alive t m vs (sweep_one alive c x, n1, f1, s1))"
    by (rule cleanup_loop_step)
  have "\<not> t - f \<le> m" using Nil.prems(1,4,5) step by (auto split: if_splits)
  then have rest: "cleanup_loop alive t m vs (sweep_one alive c x, n1, f1, s1) = (c', rest)"
    using step Nil.prems(1) by simp
  have "is_committed c' x = is_committed (sweep_one alive c x) x"
    by (rule cleanup_loop_other [OF _ rest]) (use Nil.prems(2) in simp)
  then show ?case by (simp add: sweep_one_committed)
next
  case (Cons u us)
  obtain n1 f1 s1 where step: "cleanup_loop alive t m (u # us @ x # vs) (c, n, f, s) =
      (if t - f \<le> m then (c, n, f, s) else cleanup_loop alive t m (us @ x # vs) (sweep_one alive c u, n1, f1, s1))"
    by (rule cleanup_loop_step)
  have "\<not> t - f \<le> m" using Cons.prems(1,4,5) step by (auto split: if_splits)
  then have rest: "cleanup_loop alive t m (us @ x # vs) (sweep_one alive c u, n1, f1, s1) = (c', rest)"
    using step Cons.prems(1) by simp
  have ux: "u \<noteq> x" "u \<noteq> y" using Cons.prems(2,3) by auto
  have "\<not> is_committed c' x \<or> held alive (sweep_one alive c u) x"
    by (rule Cons.IH [OF rest]) (use Cons.prems ux in \<open>auto simp: sweep_one_committed\<close>)
  then show ?case using ux by (simp add: sweep_one_held)
qed

lemma run_cleanup_Inr:
  assumes "run_cleanup reg db c m = Inr (c', r)"
  obtains entries where "build_reachability reg db c = Inr entries" "entries_ok c entries"
    "c' = c \<and> sum_bytes (map snd entries) \<le> m \<and> cr_bytes_freed r = 0 \<and> \<not> cr_over_budget r
     \<or> (\<exists>n f s. m < sum_bytes (map snd entries)
         \<and> cleanup_loop (alive_job_ids db) (sum_bytes (map snd entries)) m (eviction_order entries) (c, 0, 0, 0)
           = (c', n, f, s)
         \<and> cr_bytes_freed r = f \<and> cr_over_budget r = (m < sum_bytes (map snd entries) - f))"
proof -
  from assms obtain entries where e: "build_reachability reg db c = Inr entries"
    by (auto simp: run_cleanup_def rbind_eq_Inr)
  show ?thesis
    by (rule that [OF e build_reachability_ok [OF e]])
       (use assms e in \<open>auto simp: run_cleanup_def Let_def split: if_splits prod.splits\<close>)
qed

text \<open>
  C14: a sweep never takes an entry away from a running job: an entry that is committed and holds a
  marker of a queued or running job is still committed afterwards, whatever the budget.
\<close>

theorem cleanup_keeps_in_use:
  assumes "run_cleanup reg db c max_bytes = Inr (c', r)"
    and "is_committed c h" and "held (alive_job_ids db) c h"
  shows "is_committed c' h"
  using assms(1)
proof (rule run_cleanup_Inr)
  fix entries
  assume "c' = c \<and> sum_bytes (map snd entries) \<le> max_bytes \<and> cr_bytes_freed r = 0 \<and> \<not> cr_over_budget r
    \<or> (\<exists>n f s. max_bytes < sum_bytes (map snd entries)
         \<and> cleanup_loop (alive_job_ids db) (sum_bytes (map snd entries)) max_bytes (eviction_order entries) (c, 0, 0, 0)
           = (c', n, f, s)
         \<and> cr_bytes_freed r = f \<and> cr_over_budget r = (max_bytes < sum_bytes (map snd entries) - f))"
  then show ?thesis using assms(2,3) cleanup_loop_keeps_held by blast
qed

text \<open>
  The documented order of victims: entries nobody owns first, then bulk before keep, then the longest
  untouched owner first, an unknown date last.
\<close>

definition touched_before :: "cache_entry_info \<Rightarrow> cache_entry_info \<Rightarrow> bool" where
  "touched_before e1 e2 =
     (let date = (\<lambda>e. case ce_oldest_owner_updated_at e of None \<Rightarrow> NO_DATE | Some s \<Rightarrow> if s = [] then NO_DATE else s)
      in date e1 < date e2)"

definition victim_before :: "cache_entry_info \<Rightarrow> cache_entry_info \<Rightarrow> bool" where
  "victim_before e1 e2 =
     (if ce_owners e1 = [] \<longleftrightarrow> ce_owners e2 = [] then
        (if ce_tier e1 = ce_tier e2 then touched_before e1 e2 else ce_tier e1 = Bulk)
      else ce_owners e1 = [])"

lemma victim_before_key: "victim_before e1 e2 \<Longrightarrow> eviction_key e1 < eviction_key e2"
  by (cases "ce_tier e1"; cases "ce_tier e2")
     (auto simp: victim_before_def touched_before_def eviction_key_def Let_def split: if_splits)

text \<open>
  the eviction order is respected: when an entry was evicted, every entry that ranks strictly
  before it (an orphan before any owned entry, then bulk before keep, then older owner first) was
  evicted as well or is held by a live job.
\<close>

theorem cleanup_respects_order:
  assumes "run_cleanup reg db c max_bytes = Inr (c', r)" "wf_cache c"
    and "build_reachability reg db c = Inr entries"
    and "(h1, e1) \<in> set entries" "(h2, e2) \<in> set entries" "victim_before e1 e2"
    and "is_committed c h2" "\<not> is_committed c' h2"
  shows "\<not> is_committed c' h1 \<or> held (alive_job_ids db) c h1"
  using assms(1)
proof (rule run_cleanup_Inr)
  fix es
  assume es: "build_reachability reg db c = Inr es" "entries_ok c es"
    and loop: "c' = c \<and> sum_bytes (map snd es) \<le> max_bytes \<and> cr_bytes_freed r = 0 \<and> \<not> cr_over_budget r
    \<or> (\<exists>n f s. max_bytes < sum_bytes (map snd es)
         \<and> cleanup_loop (alive_job_ids db) (sum_bytes (map snd es)) max_bytes (eviction_order es) (c, 0, 0, 0)
           = (c', n, f, s)
         \<and> cr_bytes_freed r = f \<and> cr_over_budget r = (max_bytes < sum_bytes (map snd es) - f))"
  have "es = entries" using es(1) assms(3) by simp
  then obtain us vs where order: "eviction_order es = us @ h1 # vs" "h2 \<in> set vs"
    using eviction_order_before [OF assms(4,5) victim_before_key [OF assms(6)]] es(2) by metis
  from loop assms(7,8) order(1) obtain rest tot where
    "cleanup_loop (alive_job_ids db) tot max_bytes (us @ h1 # vs) (c, 0, 0, 0) = (c', rest)"
    by auto
  then show ?thesis
    by (rule cleanup_loop_order)
       (use eviction_order_distinct [OF es(2) assms(2)] order assms(7,8) in auto)
qed

text \<open>
  a sweep that reports it is still over budget has tried everything: every entry left in the
  cache is held by a live job. One that does not report it accounts for at most the budget.
\<close>

theorem cleanup_over_budget_only_in_use:
  assumes "run_cleanup reg db c max_bytes = Inr (c', r)" "wf_cache c"
  shows "(cr_over_budget r \<longrightarrow> is_committed c' h \<longrightarrow> held (alive_job_ids db) c h)
    \<and> (\<not> cr_over_budget r \<longrightarrow> cr_bytes_remaining r \<le> max_bytes)"
proof (intro conjI impI)
  assume over: "cr_over_budget r" and h: "is_committed c' h"
  show "held (alive_job_ids db) c h"
    using assms(1)
  proof (rule run_cleanup_Inr)
    fix es
    assume es: "entries_ok c es"
      and loop: "c' = c \<and> sum_bytes (map snd es) \<le> max_bytes \<and> cr_bytes_freed r = 0 \<and> \<not> cr_over_budget r
      \<or> (\<exists>n f s. max_bytes < sum_bytes (map snd es)
         \<and> cleanup_loop (alive_job_ids db) (sum_bytes (map snd es)) max_bytes (eviction_order es) (c, 0, 0, 0)
           = (c', n, f, s)
         \<and> cr_bytes_freed r = f \<and> cr_over_budget r = (max_bytes < sum_bytes (map snd es) - f))"
    from loop over obtain n f s where
      l: "cleanup_loop (alive_job_ids db) (sum_bytes (map snd es)) max_bytes (eviction_order es) (c, 0, 0, 0)
        = (c', n, f, s)" "max_bytes < sum_bytes (map snd es) - f"
      by auto
    have "is_committed c h" using cleanup_loop_mono [OF l(1) h] .
    then have "h \<in> set (eviction_order es)"
      by (simp add: eviction_order_set [OF es] committed_iff [OF assms(2)])
    then show ?thesis
      by (rule cleanup_loop_over_budget [OF l eviction_order_distinct [OF es assms(2)] _ h])
  qed
next
  assume "\<not> cr_over_budget r"
  then show "cr_bytes_remaining r \<le> max_bytes"
    using assms(1) by (auto simp: run_cleanup_def rbind_eq_Inr Let_def split: if_splits prod.splits)
qed

section \<open>The purge\<close>

lemma purge_loop_step:
  obtains n' f' where "purge_loop alive (h # hs) c n f = purge_loop alive hs (sweep_one alive c h) n' f'"
proof (cases "held alive c h")
  case True
  then show ?thesis
    using that [of n f] is_in_use_answer [of c h alive]
    by (cases "is_in_use c h alive") (simp add: sweep_one_def)
next
  case False
  then show ?thesis
    using that [of "n + 1" "f + snd (evict (fst (is_in_use c h alive)) h)"] is_in_use_answer [of c h alive]
    by (cases "is_in_use c h alive"; cases "evict (fst (is_in_use c h alive)) h") (simp add: sweep_one_def)
qed

lemma purge_loop_committed:
  "distinct hs \<Longrightarrow> purge_loop alive hs c n f = (c', rest) \<Longrightarrow>
   is_committed c' k \<longleftrightarrow> is_committed c k \<and> (k \<in> set hs \<longrightarrow> held alive c k)"
proof (induction hs arbitrary: c n f)
  case (Cons h hs)
  obtain n1 f1 where step: "purge_loop alive (h # hs) c n f = purge_loop alive hs (sweep_one alive c h) n1 f1"
    by (rule purge_loop_step)
  have "is_committed c' k \<longleftrightarrow> is_committed (sweep_one alive c h) k
      \<and> (k \<in> set hs \<longrightarrow> held alive (sweep_one alive c h) k)"
    using Cons step by simp
  then show ?case
    using Cons.prems(1) by (cases "k = h") (auto simp: sweep_one_committed sweep_one_held)
qed simp

lemma purge_candidates_iff:
  "h \<in> set (purge_candidates entries pid keep) \<longleftrightarrow>
   (\<exists>e. (h, e) \<in> set entries \<and> set (ce_owners e) = {pid} \<and> h \<notin> set keep)"
  by (auto simp: purge_candidates_def intro: rev_image_eqI)

text \<open>
  C27: purging a project removes exactly the entries it alone owns, minus those a live job holds
  and, with keep_outputs, minus the terminal outputs of its history. Everything shared with another
  project, and every orphan, survives.
\<close>

theorem purge_removes_exactly_own:
  assumes ok: "purge_project_cache reg db c pid keep_outputs = Inr (c', rest)"
    and wf: "wf_cache c"
    and entries: "build_reachability reg db c = Inr entries"
    and keep: "(if keep_outputs then terminal_output_hashes db pid else Inr []) = Inr keep"
    and h: "map_of entries h = Some e"
  shows "is_committed c' h \<longleftrightarrow>
     \<not> (set (ce_owners e) = {pid} \<and> h \<notin> set keep \<and> \<not> held (alive_job_ids db) c h)"
proof -
  have eok: "entries_ok c entries" by (rule build_reachability_ok [OF entries])
  have keys: "dkeys entries = all_committed_hashes c" using eok by (simp add: entries_ok_def)
  have distinct: "wf_dict entries" unfolding keys using wf by (rule distinct_committed)
  have committed: "is_committed c h"
    using h keys committed_iff [OF wf, of h] by (metis map_of_SomeD image_eqI fst_conv set_map)
  have candidate: "h \<in> set (purge_candidates entries pid keep) \<longleftrightarrow> set (ce_owners e) = {pid} \<and> h \<notin> set keep"
  proof -
    have mem: "(h, x) \<in> set entries \<longleftrightarrow> x = e" for x
      using Some_eq_map_of_iff [OF distinct, of x h] h by auto
    show ?thesis by (simp only: purge_candidates_iff mem simp_thms)
  qed
  have d: "distinct (purge_candidates entries pid keep)"
    unfolding purge_candidates_def using distinct by (rule distinct_map_filter)
  have "Inr (purge_loop (alive_job_ids db) (purge_candidates entries pid keep) c 0 0) = (Inr (c', rest) :: storage_error + _)"
    using ok unfolding purge_project_cache_def entries keep by (simp only: rbind_Inr)
  then have "purge_loop (alive_job_ids db) (purge_candidates entries pid keep) c 0 0 = (c', rest)"
    by simp
  from purge_loop_committed [OF d this, of h] show ?thesis
    using committed candidate by blast
qed

section \<open>Disk headroom\<close>

lemma headroom_cases:
  assumes "ensure_disk_headroom disk_free reg db c need cache_max = (c', res)"
  obtains (failed) e where "res = Inl (Storage_Failure e)" "c' = c"
  | (fits) entries where "res = Inr None" "c' = c" "build_reachability reg db c = Inr entries"
      "need \<le> min (disk_free c) (max 0 (cache_max - sum_bytes (map snd entries)))"
  | (full) result :: cleanup_result where "res = Inl (Insufficient_Storage need (disk_free c') (cr_bytes_freed result))"
      "disk_free c' < need"
  | (swept) result :: cleanup_result and entries where "res = Inr (Some result)" "need \<le> disk_free c'"
      "build_reachability reg db c = Inr entries"
      "run_cleanup reg db c (sweep_target (disk_free c) (sum_bytes (map snd entries)) need cache_max) = Inr (c', result)"
proof (cases "build_reachability reg db c")
  case (Inl e)
  then show ?thesis using assms failed [of e] by (simp add: ensure_disk_headroom_def)
next
  case (Inr entries)
  let ?fits = "need \<le> min (disk_free c) (max 0 (cache_max - sum_bytes (map snd entries)))"
  let ?run = "run_cleanup reg db c (sweep_target (disk_free c) (sum_bytes (map snd entries)) need cache_max)"
  have eq: "ensure_disk_headroom disk_free reg db c need cache_max =
     (if ?fits then (c, Inr None)
      else case ?run of Inl e \<Rightarrow> (c, Inl (Storage_Failure e))
        | Inr (c', result) \<Rightarrow>
            if disk_free c' < need
            then (c', Inl (Insufficient_Storage need (disk_free c') (cr_bytes_freed result)))
            else (c', Inr (Some result)))"
    unfolding ensure_disk_headroom_def Inr by (simp only: sum.case)
  show ?thesis
  proof (cases ?fits)
    case True
    then have "c' = c" "res = Inr None" using assms unfolding eq by (simp_all only: if_True prod.inject)
    then show ?thesis using fits Inr True by blast
  next
    case no: False
    show ?thesis
    proof (cases ?run)
      case (Inl e)
      then show ?thesis using assms no failed [of e] unfolding eq by (simp only: if_False sum.case prod.inject)
    next
      case run: (Inr p)
      obtain c1 result where p: "p = (c1, result)" by (cases p)
      have "(if disk_free c1 < need then (c1, Inl (Insufficient_Storage need (disk_free c1) (cr_bytes_freed result)))
          else (c1, Inr (Some result))) = (c', res)"
        using assms no run unfolding eq p by (simp only: if_False sum.case prod.case)
      then show ?thesis
        using full [of result] swept [of result entries] run Inr p by (cases "disk_free c1 < need") auto
    qed
  qed
qed

text \<open>
  what the headroom check promises. Without a sweep the bytes fit both the disk and the budget
  and the cache is untouched; after a sweep they fit the disk; it raises InsufficientStorageError
  only when the disk is still too full after the sweep.
\<close>

theorem headroom_contract:
  assumes "ensure_disk_headroom disk_free reg db c need cache_max = (c', res)" "0 < need"
  shows "(res = Inr None \<longrightarrow> c' = c \<and> need \<le> disk_free c
      \<and> (\<exists>entries. build_reachability reg db c = Inr entries \<and> sum_bytes (map snd entries) + need \<le> cache_max))
    \<and> (res = Inr (Some r) \<longrightarrow> need \<le> disk_free c')
    \<and> (res = Inl (Insufficient_Storage n f b) \<longrightarrow> disk_free c' < need \<and> n = need \<and> f = disk_free c')"
  using assms(2)
  by (cases rule: headroom_cases [OF assms(1)]; auto simp: max_def split: if_splits)+

section \<open>Instances\<close>

definition demo_template :: template where
  "demo_template = \<lparr>t_id = ''t'', t_version = 1, t_description = '''', t_profile = None,
     t_nodes = [\<lparr>n_id = ''s'', n_kind = ''stack'', n_variant = None, n_params = [], n_inputs = [],
       n_ui_depends_on = None\<rparr>], t_outputs = []\<rparr>"

definition demo_job :: job where
  "demo_job = \<lparr>j_template_id = ''t'', j_template_version = 1, j_profile_id = None, j_target_id = None,
     j_session_ids = [], j_calibration = \<lparr>cal_mode = Auto, cal_master_ids = []\<rparr>, j_param_overrides = [],
     j_inputs = [], j_preview_only = False\<rparr>"

definition demo_job_row :: "string \<Rightarrow> job_status \<Rightarrow> json_col \<Rightarrow> job_row" where
  "demo_job_row jid status hashes = \<lparr>jr_id = jid, jr_status = status, jr_template = demo_template,
     jr_job = demo_job, jr_outputs = Null_Col, jr_error = None, jr_submitted_at = ''2026-01-01'',
     jr_started_at = None, jr_finished_at = None, jr_force = False, jr_cancel_requested = False,
     jr_worker_pid = None, jr_heartbeat_at = None, jr_node_hashes = hashes, jr_quality = Null_Col\<rparr>"

definition demo_project_row :: "string \<Rightarrow> project_row" where
  "demo_project_row pid = \<lparr>pr_id = pid, pr_name = pid, pr_template = Some demo_template,
     pr_base_job = demo_job, pr_current_seq = 0, pr_draft_mode = False, pr_source_session_ids = [],
     pr_created_at = ''2026-01-01'', pr_updated_at = ''2026-01-02'', pr_cover_seq = None,
     pr_description = None\<rparr>"

definition demo_history_row :: "string \<Rightarrow> string \<Rightarrow> history_row" where
  "demo_history_row pid jid = \<lparr>hr_project_id = pid, hr_seq = 0, hr_job_id = jid, hr_overrides = [],
     hr_label = None, hr_created_at = ''2026-01-01'', hr_published = False, hr_kind = ''edit'',
     hr_snapshot = Null_Col\<rparr>"

text \<open>
  Three committed entries: \<open>own\<close> belongs to project p through the finished job j0, \<open>old\<close> is an
  orphan, \<open>busy\<close> is an orphan that the running job j1 holds.
\<close>

definition demo_entries :: cache where
  "demo_entries = \<lparr>cache_root = ''/c'', cache_entries =
     [(''own'', [(''a.fit'', File 40 None), (''_done'', File 0 None)]),
      (''old'', [(''b.fit'', File 30 None), (''_done'', File 0 None)]),
      (''busy'', [(''c.fit'', File 100 None), (''_done'', File 0 None), (''_inuse_j1'', File 0 None)])]\<rparr>"

definition demo_db :: storage_db where
  "demo_db = \<lparr>db_projects = [demo_project_row ''p''], db_history = [demo_history_row ''p'' ''j0''],
     db_jobs = [demo_job_row ''j0'' Completed (Json_Col (JDict [(''s'', JStr ''own'')])),
                demo_job_row ''j1'' Running Null_Col],
     db_settings = []\<rparr>"

abbreviation no_nodes :: "unit registry" where
  "no_nodes \<equiv> []"

lemma demo_sweep:
  "\<exists>c' r. run_cleanup no_nodes demo_db demo_entries 150 = Inr (c', r)
     \<and> \<not> cr_over_budget r \<and> is_committed c' ''own'' \<and> \<not> is_committed c' ''old'' \<and> is_committed c' ''busy''"
proof -
  have "(case run_cleanup no_nodes demo_db demo_entries 150 of Inl e \<Rightarrow> False
     | Inr (c', r) \<Rightarrow> \<not> cr_over_budget r \<and> is_committed c' ''own'' \<and> \<not> is_committed c' ''old''
        \<and> is_committed c' ''busy'')"
    by code_simp
  then show ?thesis by (auto split: sum.splits)
qed

theorem cleanup_keeps_in_use_witness:
  "\<exists>c' r. run_cleanup no_nodes demo_db demo_entries 150 = Inr (c', r) \<and> is_committed c' ''busy''"
proof -
  obtain c' r where run: "run_cleanup no_nodes demo_db demo_entries 150 = Inr (c', r)"
    using demo_sweep by blast
  moreover have "is_committed c' ''busy''"
    by (rule cleanup_keeps_in_use [OF run]) code_simp+
  ultimately show ?thesis by blast
qed

theorem cleanup_respects_order_witness:
  "\<exists>c' r. run_cleanup no_nodes demo_db demo_entries 101 = Inr (c', r)
     \<and> \<not> is_committed c' ''own'' \<and> (\<not> is_committed c' ''old'' \<or> held (alive_job_ids demo_db) demo_entries ''old'')"
proof -
  have run: "(case run_cleanup no_nodes demo_db demo_entries 101 of Inl e \<Rightarrow> False
     | Inr (c', r) \<Rightarrow> \<not> is_committed c' ''own'')"
    by code_simp
  then obtain c' r where c': "run_cleanup no_nodes demo_db demo_entries 101 = Inr (c', r)"
      "\<not> is_committed c' ''own''"
    by (auto split: sum.splits)
  have "(case build_reachability no_nodes demo_db demo_entries of Inl e \<Rightarrow> False
     | Inr es \<Rightarrow> (case (map_of es ''old'', map_of es ''own'') of
         (Some e1, Some e2) \<Rightarrow> victim_before e1 e2 | _ \<Rightarrow> False))"
    by code_simp
  then obtain es e1 e2 where es: "build_reachability no_nodes demo_db demo_entries = Inr es"
      "(''old'', e1) \<in> set es" "(''own'', e2) \<in> set es" "victim_before e1 e2"
    by (auto split: sum.splits option.splits dest: map_of_SomeD)
  have "\<not> is_committed c' ''old'' \<or> held (alive_job_ids demo_db) demo_entries ''old''"
    by (rule cleanup_respects_order [OF c'(1) _ es _ c'(2)]) code_simp+
  with c' show ?thesis by blast
qed

theorem cleanup_over_budget_only_in_use_witness:
  "\<exists>c' r. run_cleanup no_nodes demo_db demo_entries 50 = Inr (c', r)
     \<and> cr_over_budget r \<and> held (alive_job_ids demo_db) demo_entries ''busy''"
proof -
  have "(case run_cleanup no_nodes demo_db demo_entries 50 of Inl e \<Rightarrow> False
     | Inr (c', r) \<Rightarrow> cr_over_budget r \<and> is_committed c' ''busy'')"
    by code_simp
  then obtain c' r where c': "run_cleanup no_nodes demo_db demo_entries 50 = Inr (c', r)"
      "cr_over_budget r" "is_committed c' ''busy''"
    by (auto split: sum.splits)
  have "wf_cache demo_entries" by code_simp
  then have "held (alive_job_ids demo_db) demo_entries ''busy''"
    using cleanup_over_budget_only_in_use [OF c'(1)] c'(2,3) by blast
  with c' show ?thesis by blast
qed

theorem purge_removes_exactly_own_witness:
  "\<exists>c' rest. purge_project_cache no_nodes demo_db demo_entries ''p'' False = Inr (c', rest)
     \<and> \<not> is_committed c' ''own''"
proof -
  have "(case purge_project_cache no_nodes demo_db demo_entries ''p'' False of Inl e \<Rightarrow> False | Inr _ \<Rightarrow> True)"
    by code_simp
  then obtain c' rest where c': "purge_project_cache no_nodes demo_db demo_entries ''p'' False = Inr (c', rest)"
    by (auto split: sum.splits)
  have "(case build_reachability no_nodes demo_db demo_entries of Inl e \<Rightarrow> False
     | Inr es \<Rightarrow> (case map_of es ''own'' of Some e \<Rightarrow> set (ce_owners e) = {''p''} | _ \<Rightarrow> False))"
    by code_simp
  then obtain es e where es: "build_reachability no_nodes demo_db demo_entries = Inr es"
      "map_of es ''own'' = Some e" "set (ce_owners e) = {''p''}"
    by (auto split: sum.splits option.splits)
  have "wf_cache demo_entries" "\<not> held (alive_job_ids demo_db) demo_entries ''own''" by code_simp+
  then have "\<not> is_committed c' ''own''"
    using purge_removes_exactly_own [OF c' _ es(1) _ es(2), of "[]"] es(3) by simp
  with c' show ?thesis by blast
qed

theorem headroom_contract_witness:
  "\<exists>c'. ensure_disk_headroom (\<lambda>_. 1000) no_nodes demo_db demo_entries 20 200 = (c', Inr None) \<and> c' = demo_entries"
proof -
  have "(case ensure_disk_headroom (\<lambda>_. 1000) no_nodes demo_db demo_entries 20 200 of
      (_, Inr None) \<Rightarrow> True | _ \<Rightarrow> False)"
    by code_simp
  then obtain c' where c': "ensure_disk_headroom (\<lambda>_. 1000) no_nodes demo_db demo_entries 20 200 = (c', Inr None)"
    by (auto split: prod.splits sum.splits option.splits)
  have "c' = demo_entries"
    using headroom_contract [OF c'] by simp
  with c' show ?thesis by blast
qed

text \<open>
  the budget half of the headroom contract is not enforced after a sweep. The docstring of
  \<open>ensure_disk_headroom\<close> says that both the disk and the cache budget apply. With a disk that has
  room, a budget of 120 bytes and a running job holding a 100-byte entry, a request for 50 bytes
  sweeps, stays over what the budget allows, and is still granted.
\<close>

theorem headroom_ignores_budget_after_sweep:
  "case ensure_disk_headroom (\<lambda>_. 1000) no_nodes demo_db demo_entries 50 120 of
     (c', Inr (Some r)) \<Rightarrow> cr_over_budget r \<and> 120 < cr_bytes_remaining r + 50
   | _ \<Rightarrow> False"
  by code_simp

end
