(* ===== verification/Runtime.thy ===== *)
theory Runtime
  imports Topo Canonical Storage
begin

text \<open>
  \<open>server/runtime.py\<close>: how a job runs. Pass 1 (\<open>plan_pass\<close>) hashes every node in topological
  order and looks its key up in the cache, pass 2 (\<open>must_run\<close>) decides which misses have to run, pass 3
  (\<open>exec_pass\<close>) replays hits, skips the misses nobody needs and runs the rest, and \<open>publics\<close> maps
  the template's declared outputs to refs.

  A run failing half-way leaves cache and event stream as they are at that point, so the passes that touch
  them return the state next to the error. Node code is the field \<open>cls_run\<close> of the registered class;
  the cancel flag a job's thread may set at any time is the answer it gives at each check, by node id. Temporary
  directories and log lines are not modelled.
\<close>

section \<open>Vocabulary\<close>

record env =
  e_sha256 :: "string \<Rightarrow> string"
  e_float_text :: "rat \<Rightarrow> string"
  e_siril_version :: string
  e_registry :: "cache registry"
  e_outside :: "string \<Rightarrow> bool"
  e_text_size :: "json \<Rightarrow> nat"
  e_disk_free :: "cache \<Rightarrow> int"
  e_db :: storage_db

record run_opts =
  o_profile :: "profile option"
  o_force :: bool
  o_job_id :: "string option"
  o_cache_max_bytes :: "int option"
  o_cancel :: "string \<Rightarrow> bool"

datatype fail_reason =
    Cycle_Detected
  | No_Edge_No_External string
  | Unresolved_Edge string string
  | Missing_Outputs string "string list"
  | No_Disk_Space int int int
  | Run_Raised string
  | Wrong_Outputs
  | Output_Escapes_Cache string
  | Unresolved_Output string string
  | Skipped_Output string
  | List_Output string

text \<open>
  \<open>RunError\<close>, \<open>JobCancelled\<close> and the exceptions of other modules that pass through: KeyError of the
  registry, pydantic's ValidationError, the ValueError of the hash, those of cache and storage, and the
  KeyError of a dict lookup.
\<close>

datatype run_error =
    Run_Error string fail_reason
  | Job_Cancelled string
  | Unknown_Kind string "string option"
  | Invalid_Params string
  | Hash_Failure hash_error
  | Cache_Failure cache_error
  | Sweep_Failure storage_error
  | Key_Error string

type_synonym refs = "(string, node_input) dict"

text \<open>The dicts handed to \<open>on_event\<close>.\<close>

definition node_event :: "string \<Rightarrow> string \<Rightarrow> params \<Rightarrow> params" where
  "node_event ty nid rest = dupdate [(''type'', JStr ty), (''node_id'', JStr nid)] rest"

record run_state =
  rs_cache :: cache
  rs_refs :: refs
  rs_events :: "params list"
  rs_progress :: "(rat \<times> string) list"

definition emit :: "params \<Rightarrow> run_state \<Rightarrow> run_state" where
  "emit ev s = s\<lparr>rs_events := rs_events s @ [ev]\<rparr>"

definition report :: "rat \<Rightarrow> string \<Rightarrow> run_state \<Rightarrow> run_state" where
  "report f m s = s\<lparr>rs_progress := rs_progress s @ [(f, m)]\<rparr>"

section \<open>Inputs and parameters\<close>

definition port_key :: "string \<Rightarrow> string \<Rightarrow> string" where
  "port_key nid port = nid @ ''.'' @ port"

definition resolve_port ::
  "string \<Rightarrow> node_spec \<Rightarrow> 'w node_cls \<Rightarrow> refs \<Rightarrow> string \<Rightarrow> refs \<Rightarrow> run_error + refs" where
  "resolve_port nid spec cls refs port resolved =
     (case map_of (n_inputs spec) port of
        None \<Rightarrow>
          (case map_of refs (port_key nid port) of
             Some v \<Rightarrow> Inr (dput port v resolved)
           | None \<Rightarrow> if port \<in> set (cls_optional_inputs cls) then Inr resolved
                     else Inl (Run_Error nid (No_Edge_No_External port)))
      | Some src \<Rightarrow>
          (case map_of refs src of
             None \<Rightarrow> Inl (Run_Error nid (Unresolved_Edge src port))
           | Some v \<Rightarrow> Inr (dput port v resolved)))"

definition resolve_inputs :: "string \<Rightarrow> node_spec \<Rightarrow> 'w node_cls \<Rightarrow> refs \<Rightarrow> run_error + refs" where
  "resolve_inputs nid spec cls refs = fold_res (resolve_port nid spec cls refs) (dkeys (cls_inputs cls)) []"

definition overrides_for :: "overrides \<Rightarrow> string \<Rightarrow> params" where
  "overrides_for ov key = (case map_of ov key of None \<Rightarrow> [] | Some p \<Rightarrow> p)"

definition merged_params :: "string \<Rightarrow> string \<Rightarrow> params \<Rightarrow> profile option \<Rightarrow> job \<Rightarrow> params" where
  "merged_params node_id kind raw prof j =
     (let defaults = (case prof of
            None \<Rightarrow> []
          | Some p \<Rightarrow> dupdate (dupdate [] (overrides_for (p_pipeline_defaults p) kind))
                        (overrides_for (p_pipeline_defaults p) node_id))
      in dupdate (dupdate defaults raw) (overrides_for (j_param_overrides j) node_id))"

definition resolved_params ::
  "string \<Rightarrow> string \<Rightarrow> params \<Rightarrow> profile option \<Rightarrow> job \<Rightarrow> (params \<Rightarrow> params option) \<Rightarrow> run_error + params" where
  "resolved_params node_id kind raw prof j validate =
     (case validate (merged_params node_id kind raw prof j) of
        None \<Rightarrow> Inl (Invalid_Params node_id)
      | Some p \<Rightarrow> Inr p)"

section \<open>Pass 1: the plan\<close>

record node_plan =
  pl_spec :: node_spec
  pl_cls :: "cache node_cls"
  pl_hash :: string
  pl_is_hit :: bool
  pl_params :: params

type_synonym plan = "(string, node_plan) dict"

definition by_id :: "template \<Rightarrow> (string, node_spec) dict" where
  "by_id t = fold (\<lambda>n d. dput (n_id n) n d) (t_nodes t) []"

definition placeholder :: "cache \<Rightarrow> string \<Rightarrow> string \<Rightarrow> port_type \<Rightarrow> ref" where
  "placeholder c h port ty =
     \<lparr>r_node_hash = h, r_port = port, r_path = path_join (entry_dir c h) port, r_type = ty,
      r_display_ready = False\<rparr>"

definition add_placeholders :: "cache \<Rightarrow> string \<Rightarrow> string \<Rightarrow> (string, port_type) dict \<Rightarrow> refs \<Rightarrow> refs" where
  "add_placeholders c nid h outputs refs =
     fold (\<lambda>(port, ty) refs. if has_key refs (port_key nid port) then refs
                              else dput (port_key nid port) (One (placeholder c h port ty)) refs)
       outputs refs"

definition plan_hash :: "env \<Rightarrow> 'w node_cls \<Rightarrow> refs \<Rightarrow> params \<Rightarrow> hash_error + string" where
  "plan_hash env cls inputs ps =
     node_hash (e_sha256 env) (e_float_text env) (cls_id cls) (cls_version cls) inputs (cls_fields cls) ps
       (if cls_uses_siril cls then [(''siril_version'', e_siril_version env)] else [])"

definition plan_node ::
  "env \<Rightarrow> run_opts \<Rightarrow> template \<Rightarrow> job \<Rightarrow> cache \<Rightarrow> string \<Rightarrow> plan \<times> refs \<Rightarrow> run_error + plan \<times> refs" where
  "plan_node env opts t j c nid = (\<lambda>(pl, refs).
     case map_of (by_id t) nid of
       None \<Rightarrow> Inl (Key_Error nid)
     | Some spec \<Rightarrow>
     (case registry_lookup (e_registry env) (n_kind spec) (n_variant spec) of
        None \<Rightarrow> Inl (Unknown_Kind (n_kind spec) (n_variant spec))
      | Some cls \<Rightarrow>
          rbind (resolve_inputs nid spec cls refs) (\<lambda>inputs.
          rbind (resolved_params nid (n_kind spec) (n_params spec) (o_profile opts) j (cls_validate cls)) (\<lambda>ps.
          case plan_hash env cls inputs ps of
            Inl e \<Rightarrow> Inl (Hash_Failure e)
          | Inr h \<Rightarrow>
              Inr (dput nid \<lparr>pl_spec = spec, pl_cls = cls, pl_hash = h,
                             pl_is_hit = (\<not> o_force opts \<and> is_committed c h), pl_params = ps\<rparr> pl,
                   add_placeholders c nid h (cls_outputs cls) refs)))))"

definition plan_pass ::
  "env \<Rightarrow> run_opts \<Rightarrow> template \<Rightarrow> job \<Rightarrow> cache \<Rightarrow> string list \<Rightarrow> run_error + plan \<times> refs" where
  "plan_pass env opts t j c order = fold_res (plan_node env opts t j c) order ([], dupdate [] (j_inputs j))"

section \<open>Pass 2: which misses must run\<close>

definition output_sources :: "template \<Rightarrow> string list" where
  "output_sources t = map (before_dot \<circ> snd) (t_outputs t)"

definition must_run_step :: "template \<Rightarrow> plan \<Rightarrow> string \<Rightarrow> string list \<Rightarrow> string list" where
  "must_run_step t pl nid must =
     (case map_of pl nid of
        None \<Rightarrow> must
      | Some p \<Rightarrow>
          if pl_is_hit p then must
          else if nid \<in> set (output_sources t) then nid # must
          else if list_ex (\<lambda>succ. succ \<in> set must) (deps_of (successors t) nid) then nid # must
          else must)"

definition must_run :: "template \<Rightarrow> plan \<Rightarrow> string list \<Rightarrow> string list" where
  "must_run t pl order = fold (must_run_step t pl) (rev order) []"

section \<open>Pass 3: execution\<close>

text \<open>
  \<open>_locate_port_artifact\<close>: the directory \<open><entry>/<port>\<close>, else the first of the sorted children
  \<open><port>.*\<close>. A key below the directory makes it exist; children of the entry are the first
  components of its keys.
\<close>

definition child_name :: "string \<Rightarrow> string" where
  "child_name k = takeWhile (\<lambda>x. x \<noteq> CHR ''/'') k"

definition is_dir_in :: "entry \<Rightarrow> string \<Rightarrow> bool" where
  "is_dir_in e rel = (map_of e rel = Some Dir \<or> list_ex (\<lambda>k. starts_with (rel @ ''/'') k) (dkeys e))"

definition locate_port_artifact :: "cache \<Rightarrow> string \<Rightarrow> string \<Rightarrow> string option" where
  "locate_port_artifact c h port =
     (case entry_of c h of
        None \<Rightarrow> None
      | Some e \<Rightarrow>
          if is_dir_in e port then Some (path_join (entry_dir c h) port)
          else case sort (filter (\<lambda>n. starts_with (port @ ''.'') n \<and> n \<noteq> DONE_MARKER)
                            (map child_name (dkeys e))) of
            [] \<Rightarrow> None
          | n # _ \<Rightarrow> Some (path_join (entry_dir c h) n))"

definition hit_port ::
  "env \<Rightarrow> cache \<Rightarrow> string \<Rightarrow> string \<Rightarrow> (string, ref) dict option \<Rightarrow> string \<times> port_type
   \<Rightarrow> refs \<times> string list \<Rightarrow> refs \<times> string list" where
  "hit_port env c nid h manifest = (\<lambda>(port, ty) (refs, missing).
     let found = (case manifest of
           Some m \<Rightarrow>
             (case map_of m port of
                Some r \<Rightarrow> if path_exists (e_outside env) c (r_path r) then Some (r_path r) else None
              | None \<Rightarrow> locate_port_artifact c h port)
         | None \<Rightarrow> locate_port_artifact c h port)
     in case found of
          None \<Rightarrow> (refs, missing @ [port])
        | Some p \<Rightarrow>
            (dput (port_key nid port)
               (One \<lparr>r_node_hash = h, r_port = port, r_path = p, r_type = ty, r_display_ready = False\<rparr>) refs,
             missing))"

definition exec_hit :: "env \<Rightarrow> string \<Rightarrow> node_plan \<Rightarrow> run_state \<Rightarrow> run_state \<times> run_error option" where
  "exec_hit env nid p s =
     (let h = pl_hash p; c = rs_cache s;
          s1 = emit (node_event ''node_cached'' nid [(''hash'', JStr h)])
                 (report 0 (nid @ '': cached'') s);
          s2 = fold (\<lambda>w. emit (node_event ''node_warning'' nid w)) (load_warnings c h) s1
      in case load_outputs c h of
           Inl e \<Rightarrow> (s2, Some (Cache_Failure e))
         | Inr manifest \<Rightarrow>
             let (refs, missing) =
                   fold (hit_port env c nid h manifest) (cls_outputs (pl_cls p)) (rs_refs s2, [])
             in (s2\<lparr>rs_refs := refs\<rparr>,
                 if missing = [] then None else Some (Run_Error nid (Missing_Outputs h (sort missing)))))"

definition input_node_hashes :: "refs \<Rightarrow> string list" where
  "input_node_hashes resolved =
     remdups (concat (map (\<lambda>(_, v). case v of One r \<Rightarrow> [r_node_hash r] | Many rs \<Rightarrow> map r_node_hash rs) resolved))"

text \<open>Both the output entry and every input entry are marked before the node runs.\<close>

definition stamp_in_use :: "string option \<Rightarrow> string \<Rightarrow> refs \<Rightarrow> cache \<Rightarrow> cache" where
  "stamp_in_use job_id h inputs c =
     (case job_id of
        None \<Rightarrow> c
      | Some j \<Rightarrow> fold (\<lambda>i c. mark_in_use c i j) (input_node_hashes inputs) (mark_in_use c h j))"

definition write_files :: "string \<Rightarrow> (string \<times> nat) list \<Rightarrow> cache \<Rightarrow> cache" where
  "write_files h files c =
     (case entry_of c h of
        None \<Rightarrow> c
      | Some e \<Rightarrow> put_entry h (fold (\<lambda>(rel, n) e. dput rel (File n None) e) files e) c)"

text \<open>\<open>ctx.progress\<close> and \<open>ctx.warn\<close>; the warnings are also buffered for the sidecar.\<close>

definition warn_entry :: "string \<Rightarrow> string \<Rightarrow> params option \<Rightarrow> params" where
  "warn_entry kind message details =
     [(''kind'', JStr kind), (''message'', JStr message)]
     @ (case details of None \<Rightarrow> [] | Some d \<Rightarrow> [(''details'', JDict d)])"

fun node_call_effect :: "string \<Rightarrow> node_call \<Rightarrow> run_state \<Rightarrow> run_state" where
  "node_call_effect nid (Progress_Call f m) s =
     emit (node_event ''node_progress'' nid [(''fraction'', JFloat (Fin f)), (''message'', JStr m)])
       (report f (nid @ '': '' @ m) s)"
| "node_call_effect nid (Warn_Call kind message details) s =
     emit (node_event ''node_warning'' nid (warn_entry kind message details)) s"

definition node_warnings :: "node_call list \<Rightarrow> params list" where
  "node_warnings calls =
     List.map_filter (\<lambda>call. case call of
        Warn_Call kind message details \<Rightarrow> Some (warn_entry kind message details) | _ \<Rightarrow> None) calls"

definition node_failed :: "string \<Rightarrow> string \<Rightarrow> params" where
  "node_failed nid err = node_event ''node_failed'' nid [(''error'', JStr err)]"

text \<open>\<open>str(InsufficientStorageError)\<close>; one decimal of gigabytes, rounded half to even.\<close>

definition gb_text :: "int \<Rightarrow> string" where
  "gb_text n =
     (let tenths = round_half_even (of_int n / 100000000)
      in (if n < 0 then ''-'' else '''') @ show_int (\<bar>tenths\<bar> div 10) @ ''.'' @ show_int (\<bar>tenths\<bar> mod 10) @ '' GB'')"

definition no_space_text :: "int \<Rightarrow> int \<Rightarrow> int \<Rightarrow> string" where
  "no_space_text need free evicted =
     ''not enough disk space: need '' @ gb_text need @ '', only '' @ gb_text free
     @ '' free after evicting '' @ gb_text evicted @ '' from cache''"

definition preflight ::
  "env \<Rightarrow> run_opts \<Rightarrow> string \<Rightarrow> nat option \<Rightarrow> run_state \<Rightarrow> run_state \<times> run_error option" where
  "preflight env opts nid estimate s =
     (case (estimate, o_cache_max_bytes opts) of
        (Some n, Some cap) \<Rightarrow>
          if n = 0 then (s, None)
          else (case ensure_disk_headroom (e_disk_free env) (e_registry env) (e_db env) (rs_cache s) (int n) cap of
             (c, Inr _) \<Rightarrow> (s\<lparr>rs_cache := c\<rparr>, None)
           | (c, Inl (Insufficient_Storage need free evicted)) \<Rightarrow>
               (emit (node_failed nid (no_space_text need free evicted)) (s\<lparr>rs_cache := c\<rparr>),
                Some (Run_Error nid (No_Disk_Space need free evicted)))
           | (c, Inl (Storage_Failure e)) \<Rightarrow> (s\<lparr>rs_cache := c\<rparr>, Some (Sweep_Failure e)))
      | _ \<Rightarrow> (s, None))"

definition commit_ref ::
  "string \<Rightarrow> string \<Rightarrow> string \<Rightarrow> (string, port_type) dict \<Rightarrow> string \<times> ref \<Rightarrow> (string, ref) dict
   \<Rightarrow> run_error + (string, ref) dict" where
  "commit_ref nid h out_dir outputs = (\<lambda>(port, r) committed.
     if relative_to out_dir (r_path r) = None then Inl (Run_Error nid (Output_Escapes_Cache port))
     else Inr (dput port
       \<lparr>r_node_hash = h, r_port = port, r_path = r_path r,
        r_type = (case map_of outputs port of Some ty \<Rightarrow> ty | None \<Rightarrow> r_type r),
        r_display_ready = r_display_ready r\<rparr> committed))"

text \<open>What follows a \<open>run\<close> that returned \<open>produced\<close>.\<close>

definition settle ::
  "env \<Rightarrow> string \<Rightarrow> node_plan \<Rightarrow> (string, ref) dict \<Rightarrow> params list \<Rightarrow> run_state \<Rightarrow> run_state \<times> run_error option" where
  "settle env nid p produced warns s =
     (let h = pl_hash p; outputs = cls_outputs (pl_cls p); out_dir = entry_dir (rs_cache s) h in
      if set (dkeys produced) \<noteq> set (dkeys outputs) then (s, Some (Run_Error nid Wrong_Outputs))
      else case fold_res (commit_ref nid h out_dir outputs) produced [] of
        Inl e \<Rightarrow> (s, Some e)
      | Inr committed \<Rightarrow>
          (case commit (e_outside env) (e_text_size env) (rs_cache s) h committed warns of
             Inl e \<Rightarrow> (s, Some (Cache_Failure e))
           | Inr c \<Rightarrow>
               (emit (node_event ''node_completed'' nid [(''hash'', JStr h)])
                  (s\<lparr>rs_cache := c,
                     rs_refs := fold (\<lambda>(port, r). dput (port_key nid port) (One r)) committed (rs_refs s)\<rparr>),
                None)))"

definition drop_dir :: "string \<Rightarrow> run_state \<Rightarrow> run_state" where
  "drop_dir h s = s\<lparr>rs_cache := drop_entry h (rs_cache s)\<rparr>"

definition run_node :: "env \<Rightarrow> run_opts \<Rightarrow> string \<Rightarrow> node_plan \<Rightarrow> refs \<Rightarrow> run_state \<Rightarrow> run_state \<times> run_error option" where
  "run_node env opts nid p inputs s =
     (let h = pl_hash p; c = stamp_in_use (o_job_id opts) h inputs (reserve (rs_cache s) h (o_force opts));
          res = cls_run (pl_cls p) c inputs (pl_params p) (entry_dir c h);
          s1 = fold (node_call_effect nid) (nr_calls res) (s\<lparr>rs_cache := write_files h (nr_files res) c\<rparr>)
      in case nr_outcome res of
           Cancelled \<Rightarrow> (emit (node_failed nid ''cancelled'') (drop_dir h s1), Some (Job_Cancelled nid))
         | Raised err \<Rightarrow> (emit (node_failed nid err) (drop_dir h s1), Some (Run_Error nid (Run_Raised err)))
         | Produced produced \<Rightarrow> settle env nid p produced (node_warnings (nr_calls res)) s1)"

definition exec_miss :: "env \<Rightarrow> run_opts \<Rightarrow> string \<Rightarrow> node_plan \<Rightarrow> run_state \<Rightarrow> run_state \<times> run_error option" where
  "exec_miss env opts nid p s =
     (case resolve_inputs nid (pl_spec p) (pl_cls p) (rs_refs s) of
        Inl e \<Rightarrow> (s, Some e)
      | Inr inputs \<Rightarrow>
          (case preflight env opts nid (cls_estimate (pl_cls p) (rs_cache s) inputs (pl_params p)) s of
             (s1, Some e) \<Rightarrow> (s1, Some e)
           | (s1, None) \<Rightarrow> run_node env opts nid p inputs s1))"

definition exec_node ::
  "env \<Rightarrow> run_opts \<Rightarrow> plan \<Rightarrow> string list \<Rightarrow> string \<Rightarrow> run_state \<Rightarrow> run_state \<times> run_error option" where
  "exec_node env opts pl must nid s =
     (if o_cancel opts nid then (s, Some (Job_Cancelled nid))
      else case map_of pl nid of
        None \<Rightarrow> (s, Some (Key_Error nid))
      | Some p \<Rightarrow>
          let h = pl_hash p;
              s1 = emit (node_event ''node_started'' nid
                          [(''kind'', JStr (n_kind (pl_spec p))), (''hash'', JStr h)]) s
          in if pl_is_hit p then exec_hit env nid p s1
             else if nid \<notin> set must then (emit (node_event ''node_skipped'' nid [(''hash'', JStr h)]) s1, None)
             else exec_miss env opts nid p s1)"

fun exec_pass ::
  "env \<Rightarrow> run_opts \<Rightarrow> plan \<Rightarrow> string list \<Rightarrow> string list \<Rightarrow> run_state \<Rightarrow> run_state \<times> run_error option" where
  "exec_pass env opts pl must [] s = (s, None)"
| "exec_pass env opts pl must (nid # nids) s =
     (case exec_node env opts pl must nid s of
        (s1, Some e) \<Rightarrow> (s1, Some e)
      | (s1, None) \<Rightarrow> exec_pass env opts pl must nids s1)"

section \<open>The job\<close>

definition public_output ::
  "plan \<Rightarrow> string list \<Rightarrow> refs \<Rightarrow> string \<times> string \<Rightarrow> (string, ref) dict \<Rightarrow> run_error + (string, ref) dict" where
  "public_output pl must refs = (\<lambda>(name, internal) public.
     case map_of refs internal of
       None \<Rightarrow> Inl (Run_Error ''<template>'' (Unresolved_Output name internal))
     | Some v \<Rightarrow>
         let src = before_dot internal in
         if (case map_of pl src of None \<Rightarrow> False | Some p \<Rightarrow> \<not> pl_is_hit p \<and> src \<notin> set must)
         then Inl (Run_Error src (Skipped_Output name))
         else (case v of
                 Many _ \<Rightarrow> Inl (Run_Error ''<template>'' (List_Output name))
               | One r \<Rightarrow> Inr (dput name r public)))"

definition publics :: "template \<Rightarrow> plan \<Rightarrow> string list \<Rightarrow> refs \<Rightarrow> run_error + (string, ref) dict" where
  "publics t pl must refs = fold_res (public_output pl must refs) (t_outputs t) []"

definition run_job ::
  "env \<Rightarrow> run_opts \<Rightarrow> template \<Rightarrow> job \<Rightarrow> cache \<Rightarrow> run_state \<times> (run_error + (string, ref) dict)" where
  "run_job env opts t j c =
     (let s0 = \<lparr>rs_cache = c, rs_refs = dupdate [] (j_inputs j), rs_events = [], rs_progress = []\<rparr> in
      case topo_order t of
        Inl (Cycle nid) \<Rightarrow> (s0, Inl (Run_Error nid Cycle_Detected))
      | Inl (Unknown_Node nid) \<Rightarrow> (s0, Inl (Key_Error nid))
      | Inr order \<Rightarrow>
          (case plan_pass env opts t j c order of
             Inl e \<Rightarrow> (s0, Inl e)
           | Inr (pl, refs) \<Rightarrow>
               let must = must_run t pl order in
               (case exec_pass env opts pl must order (s0\<lparr>rs_refs := refs\<rparr>) of
                  (s, Some e) \<Rightarrow> (s, Inl e)
                | (s, None) \<Rightarrow> (s, publics t pl must (rs_refs s)))))"

section \<open>The re-run set\<close>

text \<open>The specification: a miss is needed when an output comes from it or a needed node reads it.\<close>

inductive needed :: "template \<Rightarrow> plan \<Rightarrow> string \<Rightarrow> bool" for t pl where
  source: "map_of pl n = Some p \<Longrightarrow> \<not> pl_is_hit p \<Longrightarrow> n \<in> set (output_sources t) \<Longrightarrow> needed t pl n"
| reader: "map_of pl n = Some p \<Longrightarrow> \<not> pl_is_hit p \<Longrightarrow> edge t a n \<Longrightarrow> needed t pl a \<Longrightarrow> needed t pl n"

inductive_simps needed_iff: "needed t pl n"

lemma must_run_suffix:
  assumes "topo_order t = Inr order" "order = xs @ ys"
  shows "set (fold (must_run_step t pl) (rev ys) []) = {n \<in> set ys. needed t pl n}"
  using assms(2)
proof (induction ys arbitrary: xs)
  case (Cons y ys)
  let ?must = "fold (must_run_step t pl) (rev ys) []"
  have must: "set ?must = {n \<in> set ys. needed t pl n}" using Cons by simp
  note sorted = topo_order_topological [OF assms(1)]
  have dist: "y \<notin> set ys" using topological_distinct [OF sorted(1)] Cons.prems by simp
  have later: "a \<in> set ys" if e: "edge t a y" for a
  proof -
    have "a \<in> set order" using e sorted(2) by (auto simp: edge_def node_ids_def)
    then obtain us vs where o: "order = us @ a # vs" by (meson split_list)
    have "y \<in> set (deps_of (topo_deps t) a)" using e by (simp add: topo_deps_spec)
    with sorted(1) o have "y \<in> set us" unfolding topological_def by blast
    then obtain ps qs where us: "us = ps @ y # qs" by (meson split_list)
    have "y \<notin> set xs" using topological_distinct [OF sorted(1)] unfolding Cons.prems by simp
    moreover note dist
    moreover have "xs @ y # ys = ps @ y # (qs @ a # vs)" using o us Cons.prems by simp
    ultimately have "ys = qs @ a # vs" using append_Cons_eq_iff [of y xs ys ps "qs @ a # vs"] by simp
    then show ?thesis by simp
  qed
  have succ: "list_ex (\<lambda>succ. succ \<in> set ?must) (deps_of (successors t) y)
      \<longleftrightarrow> (\<exists>a. edge t a y \<and> needed t pl a)"
    using later must by (auto simp: list_ex_iff successors_spec)
  have "y \<in> set (must_run_step t pl y ?must) \<longleftrightarrow> needed t pl y"
    using dist must succ needed_iff [of t pl y]
    by (auto simp: must_run_step_def split: option.splits)
  moreover have "n \<in> set (must_run_step t pl y ?must) \<longleftrightarrow> n \<in> set ys \<and> needed t pl n" if "n \<noteq> y" for n
    using that must by (auto simp: must_run_step_def split: option.splits)
  ultimately have "n \<in> set (must_run_step t pl y ?must) \<longleftrightarrow> n \<in> set (y # ys) \<and> needed t pl n" for n
    by (cases "n = y") simp_all
  then show ?case by auto
qed simp

lemma must_run_needed:
  assumes "topo_order t = Inr order"
  shows "set (must_run t pl order) = {n \<in> node_ids t. needed t pl n}"
  using must_run_suffix [OF assms, of "[]" order pl] topo_order_topological(2) [OF assms]
  by (simp add: must_run_def)

section \<open>What execution does to the cache\<close>

lemma mark_in_use_committed [simp]: "is_committed (mark_in_use c h j) h' = is_committed c h'"
  by (auto simp: mark_in_use_def is_committed_def split: option.splits)

lemma mark_in_use_root [simp]: "cache_root (mark_in_use c h j) = cache_root c"
  by (simp add: mark_in_use_def split: option.splits)

lemma mark_all_committed:
  "is_committed (fold (\<lambda>i c. mark_in_use c i j) is c) h' = is_committed c h'
   \<and> cache_root (fold (\<lambda>i c. mark_in_use c i j) is c) = cache_root c"
  by (induction "is" arbitrary: c) simp_all

lemma stamp_in_use_committed [simp]:
  "is_committed (stamp_in_use jid h inputs c) h' = is_committed c h'"
  "cache_root (stamp_in_use jid h inputs c) = cache_root c"
  using mark_all_committed by (auto simp: stamp_in_use_def split: option.splits)

lemma write_files_keys: "has_key e k \<Longrightarrow> has_key (fold (\<lambda>(rel, n) e. dput rel (File n None) e) fs e) k"
  by (induction fs arbitrary: e) (auto simp: has_key_map_of)

lemma write_files_committed: "is_committed c h' \<Longrightarrow> is_committed (write_files h fs c) h'"
  by (auto simp: write_files_def is_committed_def write_files_keys split: option.splits)

lemma write_files_root [simp]: "cache_root (write_files h fs c) = cache_root c"
  by (simp add: write_files_def split: option.splits)

lemma write_files_other [simp]: "h' \<noteq> h \<Longrightarrow> entry_of (write_files h fs c) h' = entry_of c h'"
  by (simp add: write_files_def split: option.splits)

lemma emit_fields [simp]:
  "rs_cache (emit ev s) = rs_cache s" "rs_refs (emit ev s) = rs_refs s"
  "rs_cache (report f m s) = rs_cache s" "rs_refs (report f m s) = rs_refs s"
  by (simp_all add: emit_def report_def)

lemma drop_dir_cache [simp]: "rs_cache (drop_dir h s) = drop_entry h (rs_cache s)"
  by (simp add: drop_dir_def)

lemma node_calls_cache [simp]: "rs_cache (fold (node_call_effect nid) calls s) = rs_cache s"
proof (induction calls arbitrary: s)
  case (Cons call calls)
  then show ?case by (cases call) simp_all
qed simp

lemma replay_cache [simp]:
  "rs_cache (fold (\<lambda>w. emit (node_event ''node_warning'' nid w)) ws s) = rs_cache s"
  by (induction ws arbitrary: s) simp_all

lemma reserve_committed_other: "h' \<noteq> h \<Longrightarrow> is_committed (reserve c h force) h' = is_committed c h'"
  by (simp add: is_committed_def reserve_other)

lemma drop_entry_committed [simp]:
  "is_committed (drop_entry h c) h' \<longleftrightarrow> h' \<noteq> h \<and> is_committed c h'"
  by (simp add: is_committed_def)

lemma commit_committed_other:
  "commit outside ts c h outputs ws = Inr c' \<Longrightarrow> h' \<noteq> h \<Longrightarrow> is_committed c' h' = is_committed c h'"
  by (simp add: is_committed_def commit_other)

lemma settle_cases:
  assumes "settle env nid p produced warns s = (s', e)"
  obtains (failed) err where "e = Some err" "s' = s" "\<And>n name. err \<noteq> Run_Error n (Skipped_Output name)"
  | (ok) committed c where "e = None" "rs_cache s' = c"
      "commit (e_outside env) (e_text_size env) (rs_cache s) (pl_hash p) committed warns = Inr c"
proof -
  have cr: "e \<noteq> Run_Error n (Skipped_Output name)"
    if "fold_res (commit_ref a b c d) produced acc = Inl e" for e a b c d acc n name
    using that
    by (induction produced arbitrary: acc) (auto simp: rbind_eq_Inl commit_ref_def split: if_splits)
  show ?thesis
    using assms that cr
    by (auto simp: settle_def Let_def split: if_splits sum.splits)
qed

text \<open>
  One executed node: every entry but its own keeps its commit marker; its own entry is committed when
  the node succeeds and gone when it raised or was cancelled.
\<close>

lemma run_node_cache:
  assumes "run_node env opts nid p inputs s = (s', e)"
  shows "cache_root (rs_cache s') = cache_root (rs_cache s)"
    "h' \<noteq> pl_hash p \<Longrightarrow> is_committed (rs_cache s) h' \<Longrightarrow> is_committed (rs_cache s') h'"
    "e = None \<Longrightarrow> is_committed (rs_cache s') (pl_hash p)"
    "e \<noteq> Some (Run_Error n (Skipped_Output name))"
proof -
  let ?h = "pl_hash p"
  let ?c = "stamp_in_use (o_job_id opts) ?h inputs (reserve (rs_cache s) ?h (o_force opts))"
  let ?res = "cls_run (pl_cls p) ?c inputs (pl_params p) (entry_dir ?c ?h)"
  let ?s1 = "fold (node_call_effect nid) (nr_calls ?res) (s\<lparr>rs_cache := write_files ?h (nr_files ?res) ?c\<rparr>)"
  have c1: "rs_cache ?s1 = write_files ?h (nr_files ?res) ?c" by simp
  have keep: "is_committed (rs_cache ?s1) h'" if "h' \<noteq> ?h" "is_committed (rs_cache s) h'" for h'
    unfolding c1 using that by (intro write_files_committed) (simp add: reserve_committed_other)
  have root: "cache_root (rs_cache ?s1) = cache_root (rs_cache s)" unfolding c1 by simp
  have out: "(s', e) = (case nr_outcome ?res of
           Cancelled \<Rightarrow> (emit (node_failed nid ''cancelled'') (drop_dir ?h ?s1), Some (Job_Cancelled nid))
         | Raised err \<Rightarrow> (emit (node_failed nid err) (drop_dir ?h ?s1), Some (Run_Error nid (Run_Raised err)))
         | Produced produced \<Rightarrow> settle env nid p produced (node_warnings (nr_calls ?res)) ?s1)"
    using assms unfolding run_node_def Let_def by simp
  have "cache_root (rs_cache s') = cache_root (rs_cache s)
    \<and> (h' \<noteq> ?h \<longrightarrow> is_committed (rs_cache s) h' \<longrightarrow> is_committed (rs_cache s') h')
    \<and> (e = None \<longrightarrow> is_committed (rs_cache s') ?h) \<and> e \<noteq> Some (Run_Error n (Skipped_Output name))"
  proof (cases "nr_outcome ?res")
    case (Produced produced)
    with out have "settle env nid p produced (node_warnings (nr_calls ?res)) ?s1 = (s', e)" by simp
    then show ?thesis
    proof (cases rule: settle_cases)
      case (failed err)
      then show ?thesis using keep root by auto
    next
      case (ok committed c)
      note ok_root = root_commit [OF ok(3)] and ok_other = commit_committed_other [OF ok(3)]
        and ok_own = commit_is_committed [OF ok(3)]
      show ?thesis using ok(1,2) ok_root ok_other ok_own keep root by auto
    qed
  next
    case Cancelled
    then show ?thesis using out keep root by simp
  next
    case (Raised err)
    then show ?thesis using out keep root by simp
  qed
  then show "cache_root (rs_cache s') = cache_root (rs_cache s)"
    "h' \<noteq> ?h \<Longrightarrow> is_committed (rs_cache s) h' \<Longrightarrow> is_committed (rs_cache s') h'"
    "e = None \<Longrightarrow> is_committed (rs_cache s') ?h" "e \<noteq> Some (Run_Error n (Skipped_Output name))"
    by blast+
qed

lemma exec_hit_cache:
  assumes "exec_hit env nid p s = (s', e)"
  shows "rs_cache s' = rs_cache s" "e \<noteq> Some (Run_Error n (Skipped_Output name))"
  using assms by (auto simp: exec_hit_def Let_def split: sum.splits prod.splits if_splits)

lemma resolve_inputs_error:
  assumes "resolve_inputs nid spec cls refs = Inl e"
  shows "\<exists>r. e = Run_Error nid r \<and> (\<forall>name. r \<noteq> Skipped_Output name)"
proof -
  have "\<exists>r. e = Run_Error nid r \<and> (\<forall>name. r \<noteq> Skipped_Output name)"
    if "fold_res (resolve_port nid spec cls refs) ports acc = Inl e" for ports acc
    using that
    by (induction ports arbitrary: acc)
       (auto simp: rbind_eq_Inl resolve_port_def split: option.splits if_splits)
  then show ?thesis using assms by (simp add: resolve_inputs_def)
qed

lemma preflight_cases:
  assumes "preflight env opts nid est s = (s', e)"
  obtains (none) "s' = s" "e = None" "o_cache_max_bytes opts = None \<or> est = None \<or> est = Some 0"
  | (swept) "o_cache_max_bytes opts \<noteq> None" "\<And>n name. e \<noteq> Some (Run_Error n (Skipped_Output name))"
  using assms by (auto simp: preflight_def split: option.splits if_splits prod.splits sum.splits headroom_error.splits)

lemma exec_miss_cache:
  assumes "exec_miss env opts nid p s = (s', e)" "o_cache_max_bytes opts = None"
  shows "cache_root (rs_cache s') = cache_root (rs_cache s)"
    "h' \<noteq> pl_hash p \<Longrightarrow> is_committed (rs_cache s) h' \<Longrightarrow> is_committed (rs_cache s') h'"
    "e = None \<Longrightarrow> is_committed (rs_cache s') (pl_hash p)"
proof -
  have "(\<exists>er. s' = s \<and> e = Some er) \<or> (\<exists>inputs. run_node env opts nid p inputs s = (s', e))"
    using assms by (auto simp: exec_miss_def preflight_def split: sum.splits option.splits prod.splits)
  then show "cache_root (rs_cache s') = cache_root (rs_cache s)"
    "h' \<noteq> pl_hash p \<Longrightarrow> is_committed (rs_cache s) h' \<Longrightarrow> is_committed (rs_cache s') h'"
    "e = None \<Longrightarrow> is_committed (rs_cache s') (pl_hash p)"
    using run_node_cache by (auto 0 3)
qed

lemma exec_miss_not_skipped:
  assumes "exec_miss env opts nid p s = (s', e)"
  shows "e \<noteq> Some (Run_Error n (Skipped_Output name))"
proof (cases "resolve_inputs nid (pl_spec p) (pl_cls p) (rs_refs s)")
  case (Inl err)
  then show ?thesis using assms resolve_inputs_error [OF Inl] by (auto simp: exec_miss_def)
next
  case (Inr inputs)
  let ?est = "cls_estimate (pl_cls p) (rs_cache s) inputs (pl_params p)"
  obtain s1 e1 where pf: "preflight env opts nid ?est s = (s1, e1)" by fastforce
  have e1: "e1 \<noteq> Some (Run_Error n (Skipped_Output name))"
    by (cases rule: preflight_cases [OF pf]) auto
  show ?thesis
  proof (cases e1)
    case None
    then have "run_node env opts nid p inputs s1 = (s', e)" using assms Inr pf by (simp add: exec_miss_def)
    then show ?thesis by (rule run_node_cache(4))
  next
    case (Some err)
    then show ?thesis using assms Inr pf e1 by (simp add: exec_miss_def)
  qed
qed

lemma exec_node_cases:
  assumes "exec_node env opts pl must nid s = (s', e)"
  obtains (cancelled) "s' = s" "e = Some (Job_Cancelled nid)" "o_cancel opts nid"
  | (unplanned) "s' = s" "e = Some (Key_Error nid)" "map_of pl nid = None"
  | (hit) p ev where "map_of pl nid = Some p" "pl_is_hit p" "exec_hit env nid p (emit ev s) = (s', e)"
  | (skip) p ev where "map_of pl nid = Some p" "\<not> pl_is_hit p" "nid \<notin> set must" "e = None"
      "rs_cache s' = rs_cache s"
  | (miss) p ev where "map_of pl nid = Some p" "\<not> pl_is_hit p" "nid \<in> set must"
      "exec_miss env opts nid p (emit ev s) = (s', e)"
  using assms by (auto simp: exec_node_def Let_def split: if_splits option.splits)

lemma exec_node_root:
  assumes "exec_node env opts pl must nid s = (s', e)" "o_cache_max_bytes opts = None"
  shows "cache_root (rs_cache s') = cache_root (rs_cache s)"
  using assms(1)
proof (cases rule: exec_node_cases)
  case (hit p ev)
  from exec_hit_cache(1) [OF hit(3)] show ?thesis by simp
next
  case (miss p ev)
  from exec_miss_cache(1) [OF miss(4) assms(2)] show ?thesis by simp
qed simp_all

lemma exec_node_keeps:
  assumes "exec_node env opts pl must nid s = (s', e)" "o_cache_max_bytes opts = None"
    and "is_committed (rs_cache s) h"
    and safe: "\<And>p. map_of pl nid = Some p \<Longrightarrow> h = pl_hash p \<Longrightarrow> pl_is_hit p \<or> e = None"
  shows "is_committed (rs_cache s') h"
  using assms(1)
proof (cases rule: exec_node_cases)
  case (hit p ev)
  from exec_hit_cache(1) [OF hit(3)] assms(3) show ?thesis by simp
next
  case (miss p ev)
  note m = exec_miss_cache [OF miss(4) assms(2)]
  show ?thesis
  proof (cases "h = pl_hash p")
    case True
    then show ?thesis using m(3) safe miss(1,2) by blast
  next
    case False
    then show ?thesis using m(2) assms(3) by simp
  qed
qed (use assms(3) in simp_all)



lemma exec_node_not_skipped:
  assumes "exec_node env opts pl must nid s = (s', e)"
  shows "e \<noteq> Some (Run_Error n (Skipped_Output name))"
  by (cases rule: exec_node_cases [OF assms]) (auto dest: exec_hit_cache(2) exec_miss_not_skipped)

lemma exec_pass_not_skipped:
  "exec_pass env opts pl must nids s = (s', e) \<Longrightarrow> e \<noteq> Some (Run_Error n (Skipped_Output name))"
proof (induction nids arbitrary: s)
  case (Cons nid nids)
  obtain s1 e1 where n: "exec_node env opts pl must nid s = (s1, e1)" by fastforce
  then show ?case
    using Cons exec_node_not_skipped [OF n] by (cases e1) auto
qed simp


lemma exec_pass_keeps:
  "exec_pass env opts pl must nids s = (s', e) \<Longrightarrow> o_cache_max_bytes opts = None \<Longrightarrow>
   is_committed (rs_cache s) h \<Longrightarrow>
   (\<And>nid p. map_of pl nid = Some p \<Longrightarrow> h = pl_hash p \<Longrightarrow> pl_is_hit p \<or> e = None) \<Longrightarrow>
   is_committed (rs_cache s') h \<and> cache_root (rs_cache s') = cache_root (rs_cache s)"
proof (induction nids arbitrary: s)
  case (Cons nid nids)
  obtain s1 e1 where n: "exec_node env opts pl must nid s = (s1, e1)" by fastforce
  have e1: "e1 \<noteq> None \<Longrightarrow> s' = s1 \<and> e = e1" using Cons.prems(1) n by (cases e1) auto
  have "is_committed (rs_cache s1) h"
    by (rule exec_node_keeps [OF n Cons.prems(2,3)]) (use Cons.prems(4) e1 in \<open>cases e1; auto\<close>)
  moreover have "cache_root (rs_cache s1) = cache_root (rs_cache s)"
    using exec_node_root [OF n Cons.prems(2)] .
  ultimately show ?case
    using Cons.IH [of s1] Cons.prems n e1 by (cases e1) auto
qed simp


section \<open>The plan\<close>

definition plan_ok :: "run_opts \<Rightarrow> cache \<Rightarrow> string set \<Rightarrow> plan \<Rightarrow> bool" where
  "plan_ok opts c ids pl \<longleftrightarrow> (\<forall>n p. map_of pl n = Some p \<longrightarrow>
     n \<in> ids \<and> pl_is_hit p = (\<not> o_force opts \<and> is_committed c (pl_hash p)))"

lemma plan_node_Inr:
  assumes "plan_node env opts t j c nid (pl, refs) = Inr (pl', refs')"
  obtains p where "pl' = dput nid p pl" "pl_is_hit p = (\<not> o_force opts \<and> is_committed c (pl_hash p))"
proof -
  from assms obtain spec cls inputs ps where
    "(case plan_hash env cls inputs ps of Inl e \<Rightarrow> Inl (Hash_Failure e)
      | Inr h \<Rightarrow> Inr (dput nid \<lparr>pl_spec = spec, pl_cls = cls, pl_hash = h,
                         pl_is_hit = (\<not> o_force opts \<and> is_committed c h), pl_params = ps\<rparr> pl,
                       add_placeholders c nid h (cls_outputs cls) refs)) = Inr (pl', refs')"
    by (auto simp: plan_node_def rbind_eq_Inr split: option.split_asm)
  then show ?thesis
    by (cases "plan_hash env cls inputs ps") (auto intro: that)
qed

lemma plan_fold_ok:
  "fold_res (plan_node env opts t j c) order (pl, refs) = Inr (pl', refs') \<Longrightarrow>
   plan_ok opts c ids pl \<Longrightarrow> set order \<subseteq> ids \<Longrightarrow>
   plan_ok opts c ids pl' \<and> (\<forall>n. has_key pl' n = (has_key pl n \<or> n \<in> set order))"
proof (induction order arbitrary: pl refs)
  case (Cons nid order)
  then obtain pl1 refs1 where one: "plan_node env opts t j c nid (pl, refs) = Inr (pl1, refs1)"
      "fold_res (plan_node env opts t j c) order (pl1, refs1) = Inr (pl', refs')"
    by (auto simp: rbind_eq_Inr)
  from plan_node_Inr [OF one(1)] obtain p where
    p: "pl1 = dput nid p pl" "pl_is_hit p = (\<not> o_force opts \<and> is_committed c (pl_hash p))" .
  have "plan_ok opts c ids pl1"
    using Cons.prems(2,3) p(2) unfolding plan_ok_def p(1) by auto
  from Cons.IH [OF one(2) this] Cons.prems(3) show ?case by (auto simp: p(1))
qed simp

lemma plan_pass_ok:
  assumes "plan_pass env opts t j c order = Inr (pl, refs)"
  shows "plan_ok opts c (set order) pl" "has_key pl n \<longleftrightarrow> n \<in> set order"
proof -
  have "plan_ok opts c (set order) []" by (simp add: plan_ok_def)
  from plan_fold_ok [OF assms [unfolded plan_pass_def] this] 
  show "plan_ok opts c (set order) pl" "has_key pl n \<longleftrightarrow> n \<in> set order"
    by (simp_all add: has_key_def)
qed







section \<open>Properties of a run\<close>

lemma run_job_unfold:
  assumes "topo_order t = Inr order" "plan_pass env opts t j c order = Inr (pl, refs)"
  shows "run_job env opts t j c =
    (case exec_pass env opts pl (must_run t pl order) order
        \<lparr>rs_cache = c, rs_refs = refs, rs_events = [], rs_progress = []\<rparr> of
       (s, Some e) \<Rightarrow> (s, Inl e)
     | (s, None) \<Rightarrow> (s, publics t pl (must_run t pl order) (rs_refs s)))"
  using assms by (simp add: run_job_def Let_def)

lemma run_job_cases:
  assumes "run_job env opts t j c = (s, r)"
  obtains (unplanned) e where "r = Inl e" "rs_cache s = c" "\<And>n name. e \<noteq> Run_Error n (Skipped_Output name)"
  | (ran) order pl refs er where "topo_order t = Inr order" "plan_pass env opts t j c order = Inr (pl, refs)"
      "exec_pass env opts pl (must_run t pl order) order
         \<lparr>rs_cache = c, rs_refs = refs, rs_events = [], rs_progress = []\<rparr> = (s, er)"
      "r = (case er of Some e \<Rightarrow> Inl e | None \<Rightarrow> publics t pl (must_run t pl order) (rs_refs s))"
proof (cases "topo_order t")
  case (Inl e)
  then show ?thesis using assms unplanned by (cases e) (auto simp: run_job_def Let_def)
next
  case (Inr order)
  have node: "e \<noteq> Run_Error n (Skipped_Output name)"
    if "plan_node env opts t j c nid st = Inl e" for e nid st n name
  proof (cases st)
    case (Pair pl refs)
    have hash: "err \<noteq> Run_Error n (Skipped_Output name)"
      if "(case x of Inl e \<Rightarrow> Inl (Hash_Failure e) | Inr h \<Rightarrow> Inr (f h)) = Inl err" for x f err
      using that by (cases x) auto
    from that show ?thesis
      unfolding Pair plan_node_def
      by (auto simp: rbind_eq_Inl resolved_params_def dest!: resolve_inputs_error
          split: option.split_asm dest: hash)
  qed
  have pass: "e \<noteq> Run_Error n (Skipped_Output name)"
    if "fold_res (plan_node env opts t j c) nids st = Inl e" for e nids st n name
    using that by (induction nids arbitrary: st) (auto simp: rbind_eq_Inl dest: node)
  show ?thesis
  proof (cases "plan_pass env opts t j c order")
    case (Inl e)
    then show ?thesis using assms Inr unplanned pass by (auto simp: run_job_def plan_pass_def)
  next
    case plan: (Inr res)
    obtain pl refs where res: "res = (pl, refs)" by fastforce
    obtain s1 er where ex: "exec_pass env opts pl (must_run t pl order) order
         \<lparr>rs_cache = c, rs_refs = refs, rs_events = [], rs_progress = []\<rparr> = (s1, er)" by fastforce
    have "s1 = s \<and> r = (case er of Some e \<Rightarrow> Inl e | None \<Rightarrow> publics t pl (must_run t pl order) (rs_refs s))"
      using assms unfolding run_job_unfold [OF Inr plan [unfolded res]] ex by (cases er) auto
    then show ?thesis using ran [OF Inr plan [unfolded res]] ex by simp
  qed
qed

lemma public_output_skipped:
  assumes "public_output pl must refs (name', internal) acc = Inl (Run_Error nid (Skipped_Output name))"
  shows "name' = name \<and> (\<exists>p. map_of pl (before_dot internal) = Some p \<and> \<not> pl_is_hit p)
    \<and> before_dot internal \<notin> set must"
  using assms
  by (auto simp: public_output_def Let_def split: option.split_asm if_split_asm node_input.split_asm)

lemma publics_skipped:
  "fold_res (public_output pl must refs) outs acc = Inl (Run_Error nid (Skipped_Output name)) \<Longrightarrow>
   \<exists>internal p. (name, internal) \<in> set outs \<and> map_of pl (before_dot internal) = Some p \<and> \<not> pl_is_hit p
     \<and> before_dot internal \<notin> set must"
proof (induction outs arbitrary: acc)
  case (Cons out outs)
  obtain name' internal where o: "out = (name', internal)" by fastforce
  show ?case
  proof (cases "public_output pl must refs (name', internal) acc")
    case (Inl e)
    then have "e = Run_Error nid (Skipped_Output name)" using Cons.prems o by simp
    from public_output_skipped [OF Inl [unfolded this]] show ?thesis using o by auto
  next
    case (Inr acc')
    then show ?thesis using Cons.IH [of acc'] Cons.prems o by auto
  qed
qed simp

text \<open>
  C13: the planner marks exactly the nodes that are needed: the misses that feed a declared output, or
  feed another needed node. So every node a must-run node reads from is a hit or runs itself, and what
  is skipped is never read.
\<close>

theorem must_run_exactly_needed:
  assumes "topo_order t = Inr order"
  shows "set (must_run t pl order) = {n \<in> node_ids t. needed t pl n}
    \<and> (\<forall>a b p. a \<in> set (must_run t pl order) \<longrightarrow> edge t a b \<longrightarrow> map_of pl b = Some p
         \<longrightarrow> pl_is_hit p \<or> b \<in> set (must_run t pl order))"
proof (intro conjI allI impI)
  show "set (must_run t pl order) = {n \<in> node_ids t. needed t pl n}" by (rule must_run_needed [OF assms])
  fix a b p
  assume "a \<in> set (must_run t pl order)" and e: "edge t a b" and p: "map_of pl b = Some p"
  then have "needed t pl a" using must_run_needed [OF assms, of pl] by simp
  then have "\<not> pl_is_hit p \<Longrightarrow> needed t pl b" by (intro needed.reader [OF p _ e])
  moreover have "b \<in> node_ids t" using e by (simp add: edge_def)
  ultimately show "pl_is_hit p \<or> b \<in> set (must_run t pl order)"
    using must_run_needed [OF assms, of pl] by blast
qed

text \<open>
  the fail-loudly check on the public outputs never fires: a run never ends with the error that
  a template output resolved to a skipped node.
\<close>

theorem skipped_output_unreachable:
  "snd (run_job env opts t j c) \<noteq> Inl (Run_Error nid (Skipped_Output name))"
proof
  assume bad: "snd (run_job env opts t j c) = Inl (Run_Error nid (Skipped_Output name))"
  obtain s where r: "run_job env opts t j c = (s, Inl (Run_Error nid (Skipped_Output name)))"
    using bad by (metis prod.collapse)
  from r show False
  proof (cases rule: run_job_cases)
    case (unplanned e)
    then show ?thesis by blast
  next
    case (ran order pl refs er)
    have "er = None" using ran(4) exec_pass_not_skipped [OF ran(3), of nid name] by (cases er) auto
    with ran(4) have pub: "publics t pl (must_run t pl order) (rs_refs s) = Inl (Run_Error nid (Skipped_Output name))"
      by simp
    from publics_skipped [OF pub [unfolded publics_def]] obtain internal p where
      p: "(name, internal) \<in> set (t_outputs t)" "map_of pl (before_dot internal) = Some p" "\<not> pl_is_hit p"
        "before_dot internal \<notin> set (must_run t pl order)" by blast
    have "before_dot internal \<in> set (output_sources t)" using p(1) by (force simp: output_sources_def)
    then have "needed t pl (before_dot internal)" by (rule needed.source [OF p(2,3)])
    moreover have "before_dot internal \<in> node_ids t"
      using plan_pass_ok(1) [OF ran(2)] p(2) topo_order_topological(2) [OF ran(1)] by (auto simp: plan_ok_def)
    ultimately show False using p(4) must_run_needed [OF ran(1)] by auto
  qed
qed

text \<open>
  running does not cost results. Without \<open>force\<close> and without the disk preflight, an entry that
  was committed before the run is still committed after it, however the run ends.
\<close>

theorem run_keeps_committed:
  assumes "run_job env opts t j c = (s, r)" "\<not> o_force opts" "o_cache_max_bytes opts = None" "is_committed c h"
  shows "is_committed (rs_cache s) h"
  using assms(1)
proof (cases rule: run_job_cases)
  case (unplanned e)
  then show ?thesis using assms(4) by simp
next
  case (ran order pl refs er)
  have "pl_is_hit p" if "map_of pl nid = Some p" "h = pl_hash p" for nid p
    using plan_pass_ok(1) [OF ran(2)] that assms(2,4) by (auto simp: plan_ok_def)
  with exec_pass_keeps [OF ran(3) assms(3), of h] assms(4) show ?thesis by auto
qed


text \<open>
  C40: a node that raises or is cancelled leaves nothing behind: its half-written entry directory
  is gone, no other entry lost its marker, and the last event the UI saw is the node's failure.
\<close>

theorem failed_node_leaves_no_entry:
  assumes "run_node env opts nid p inputs s = (s', Some e)"
    and "e = Job_Cancelled nid \<or> (\<exists>err. e = Run_Error nid (Run_Raised err))"
  shows "entry_of (rs_cache s') (pl_hash p) = None
    \<and> (h \<noteq> pl_hash p \<longrightarrow> is_committed (rs_cache s) h \<longrightarrow> is_committed (rs_cache s') h)
    \<and> (\<exists>err. last (rs_events s') = node_failed nid err)"
proof -
  let ?h = "pl_hash p"
  let ?c = "stamp_in_use (o_job_id opts) ?h inputs (reserve (rs_cache s) ?h (o_force opts))"
  let ?res = "cls_run (pl_cls p) ?c inputs (pl_params p) (entry_dir ?c ?h)"
  have settled: "e' \<noteq> Job_Cancelled nid \<and> (\<forall>err. e' \<noteq> Run_Error nid (Run_Raised err))"
    if "settle env nid p produced ws s1 = (s2, Some e')" for produced ws s1 s2 e'
  proof -
    have "e' \<noteq> Job_Cancelled nid \<and> (\<forall>err. e' \<noteq> Run_Error nid (Run_Raised err))"
      if "fold_res (commit_ref nid a b d) outs acc = Inl e'" for a b d outs acc
      using that
      by (induction outs arbitrary: acc) (auto simp: rbind_eq_Inl commit_ref_def split: if_splits)
    with that show ?thesis
      by (auto simp: settle_def Let_def split: if_split_asm sum.split_asm)
  qed
  have "(\<exists>err. nr_outcome ?res = Raised err) \<or> nr_outcome ?res = Cancelled"
  proof (cases "nr_outcome ?res")
    case (Produced produced)
    then have "\<exists>ws s1. settle env nid p produced ws s1 = (s', Some e)"
      using assms(1) by (auto simp: run_node_def Let_def)
    then show ?thesis using settled assms(2) by blast
  qed auto
  then obtain s1 err where s': "s' = emit (node_failed nid err) (drop_dir ?h s1)"
    using assms(1) by (auto simp: run_node_def Let_def)
  have gone: "entry_of (rs_cache s') ?h = None" unfolding s' by simp
  have last_event: "last (rs_events s') = node_failed nid err" unfolding s' by (simp add: emit_def)
  show ?thesis
    using gone last_event run_node_cache(2) [OF assms(1)] by blast
qed

section \<open>Instances\<close>

text \<open>A node that opens each of its inputs and writes one image.\<close>

definition demo_cls_run :: "cache \<Rightarrow> refs \<Rightarrow> params \<Rightarrow> string \<Rightarrow> node_result" where
  "demo_cls_run c inputs ps out_dir =
     \<lparr>nr_files = [(''image.fit'', 10)], nr_calls = [Progress_Call 1 ''done''],
      nr_outcome =
        (if list_all (\<lambda>(port, v). case v of One r \<Rightarrow> path_exists (\<lambda>_. False) c (r_path r) | Many _ \<Rightarrow> True) inputs
         then Produced [(''image'',
           \<lparr>r_node_hash = '''', r_port = ''image'', r_path = out_dir @ ''/image.fit'', r_type = IMAGE_FITS,
            r_display_ready = True\<rparr>)]
         else Raised ''FileNotFoundError'')\<rparr>"

definition demo_stage :: "string \<Rightarrow> nat option \<Rightarrow> (string, port_type) dict \<Rightarrow> cache node_cls" where
  "demo_stage kind estimate inputs = (demo_cls kind)
     \<lparr>cls_inputs := inputs, cls_outputs := [(''image'', IMAGE_FITS)],
      cls_estimate := (\<lambda>_ _ _. estimate), cls_run := demo_cls_run\<rparr>"

definition demo_env :: env where
  "demo_env = \<lparr>e_sha256 = (\<lambda>s. show_nat (length s)), e_float_text = (\<lambda>_. ''q''), e_siril_version = ''1'',
     e_registry =
       [((''src'', None), demo_stage ''src'' None []),
        ((''finish'', None), demo_stage ''finish'' (Some 50) [(''image'', IMAGE_FITS)])],
     e_outside = (\<lambda>_. False), e_text_size = (\<lambda>_. 1),
     e_disk_free = (\<lambda>c. 80 - int (sum_list (map (entry_bytes \<circ> snd) (cache_entries c)))),
     e_db = \<lparr>db_projects = [], db_history = [], db_jobs = [demo_job_row ''j1'' Running Null_Col],
             db_settings = []\<rparr>\<rparr>"

definition demo_opts :: run_opts where
  "demo_opts = \<lparr>o_profile = None, o_force = False, o_job_id = Some ''j1'', o_cache_max_bytes = None,
     o_cancel = (\<lambda>_. False)\<rparr>"

definition demo_chain :: template where
  "demo_chain =
     \<lparr>t_id = ''t'', t_version = 1, t_description = '''', t_profile = None,
      t_nodes = [demo_node ''src'' [], demo_node ''finish'' [(''image'', ''src.image'')]],
      t_outputs = [(''preview'', ''finish.image'')]\<rparr>"

definition empty_cache :: cache where
  "empty_cache = \<lparr>cache_root = ''/c'', cache_entries = []\<rparr>"

definition demo_plan :: plan where
  "demo_plan =
     map (\<lambda>(n, hit). (n, \<lparr>pl_spec = demo_node n [], pl_cls = demo_cls n, pl_hash = n, pl_is_hit = hit,
                          pl_params = []\<rparr>))
       [(''convert'', False), (''stack'', True), (''png'', False)]"

lemma must_run_exactly_needed_witness:
  "set (must_run demo_graph demo_plan [''convert'', ''stack'', ''png''])
     = {n \<in> node_ids demo_graph. needed demo_graph demo_plan n}
   \<and> must_run demo_graph demo_plan [''convert'', ''stack'', ''png''] = [''png'']"
proof -
  have "topo_order demo_graph = Inr [''convert'', ''stack'', ''png'']" by code_simp
  from must_run_exactly_needed [OF this] have "set (must_run demo_graph demo_plan [''convert'', ''stack'', ''png''])
     = {n \<in> node_ids demo_graph. needed demo_graph demo_plan n}" by blast
  moreover have "must_run demo_graph demo_plan [''convert'', ''stack'', ''png''] = [''png'']" by code_simp
  ultimately show ?thesis ..
qed

definition demo_ran :: cache where
  "demo_ran = rs_cache (fst (run_job demo_env demo_opts demo_chain demo_job empty_cache))"

lemma run_keeps_committed_witness:
  "is_committed demo_ran ''28''
   \<and> is_committed (rs_cache (fst (run_job demo_env demo_opts demo_chain demo_job demo_ran))) ''28''"
proof -
  have c: "is_committed demo_ran ''28''" by code_simp
  obtain s r where r: "run_job demo_env demo_opts demo_chain demo_job demo_ran = (s, r)" by fastforce
  have "is_committed (rs_cache s) ''28''"
    by (rule run_keeps_committed [OF r _ _ c]) (simp_all add: demo_opts_def)
  with c r show ?thesis by simp
qed


definition demo_state :: run_state where
  "demo_state = \<lparr>rs_cache = empty_cache, rs_refs = [(''src.image'', One demo_ref)], rs_events = [], rs_progress = []\<rparr>"

definition demo_finish :: node_plan where
  "demo_finish =
     \<lparr>pl_spec = demo_node ''finish'' [(''image'', ''src.image'')],
      pl_cls = demo_stage ''finish'' None [(''image'', IMAGE_FITS)], pl_hash = ''46'', pl_is_hit = False,
      pl_params = []\<rparr>"

lemma failed_node_leaves_no_entry_witness:
  "\<exists>s'. run_node demo_env demo_opts ''finish'' demo_finish (rs_refs demo_state) demo_state
        = (s', Some (Run_Error ''finish'' (Run_Raised ''FileNotFoundError'')))
     \<and> entry_of (rs_cache s') ''46'' = None"
proof -
  have "snd (run_node demo_env demo_opts ''finish'' demo_finish (rs_refs demo_state) demo_state)
      = Some (Run_Error ''finish'' (Run_Raised ''FileNotFoundError''))"
    by code_simp
  then obtain s' where s': "run_node demo_env demo_opts ''finish'' demo_finish (rs_refs demo_state) demo_state
        = (s', Some (Run_Error ''finish'' (Run_Raised ''FileNotFoundError'')))"
    by (metis prod.collapse)
  have "pl_hash demo_finish = ''46''" by (simp add: demo_finish_def)
  with failed_node_leaves_no_entry [OF s', of "''x''"] s' show ?thesis by auto
qed

text \<open>
  a cache hit loses \<open>display_ready\<close>. The manifest records the flag, and \<open>load_outputs\<close> reads it
  back, but the hit path of \<open>run_job\<close> rebuilds its refs without it: the first run of this job
  publishes a display-ready image, the second run publishes the same image as not display-ready.
\<close>

theorem cache_hit_loses_display_ready:
  "(case run_job demo_env demo_opts demo_chain demo_job empty_cache of
      (_, Inr [(_, r)]) \<Rightarrow> r_display_ready r \<and> r_path r = ''/c/46/image.fit'' | _ \<Rightarrow> False)
   \<and> (case run_job demo_env demo_opts demo_chain demo_job demo_ran of
      (_, Inr [(_, r)]) \<Rightarrow> \<not> r_display_ready r \<and> r_path r = ''/c/46/image.fit'' | _ \<Rightarrow> False)
   \<and> load_outputs demo_ran ''46'' = Inr (Some [(''image'',
        \<lparr>r_node_hash = ''46'', r_port = ''image'', r_path = ''/c/46/image.fit'', r_type = IMAGE_FITS,
         r_display_ready = True\<rparr>)])"
  by code_simp

definition demo_half :: cache where
  "demo_half = drop_entry ''46'' (fst (release_job_marks demo_ran ''j1''))"

text \<open>
  the disk preflight can evict the inputs of the node it is run for. \<open>run_job\<close> sweeps before it
  stamps the in-use markers, and a cache hit is never stamped: with the source node's output
  cached and unowned by any project yet, the running job j1 finishes when there is no budget, and
  fails on a missing input file when a budget of 55 bytes makes the preflight sweep.
\<close>

theorem preflight_evicts_own_input:
  "(case run_job demo_env demo_opts demo_chain demo_job demo_half of
      (_, Inr _) \<Rightarrow> True | _ \<Rightarrow> False)
   \<and> (case run_job demo_env (demo_opts\<lparr>o_cache_max_bytes := Some 55\<rparr>) demo_chain demo_job demo_half of
      (s, Inl e) \<Rightarrow> e = Run_Error ''finish'' (Run_Raised ''FileNotFoundError'')
         \<and> is_committed demo_half ''28'' \<and> \<not> is_committed (rs_cache s) ''28''
         \<and> ''j1'' \<in> set (alive_job_ids (e_db demo_env))
    | _ \<Rightarrow> False)"
  by code_simp

end
