(* ===== verification/Jobs.thy ===== *)
theory Jobs
  imports Runtime Times
begin

text \<open>
  \<open>server/jobs.py\<close> and \<open>server/worker.py\<close>: the job queue in the catalog database, shared by the
  API process (submit, cancel, reads) and any number of worker processes (claim, emit, heartbeat,
  terminate, reclaim).

  One SQL transaction is one step. Where the code reads outside a transaction and writes later (the
  SELECT of a claim, the scan of \<open>reclaim_stale\<close>), the model has two steps, so that other processes
  can act in between. Clock readings, fresh ids and process liveness are arguments.
\<close>

section \<open>Events and rows\<close>

record event =
  ev_type :: string
  ev_timestamp :: string
  ev_node_id :: json
  ev_fraction :: json
  ev_message :: json
  ev_error :: json
  ev_extra :: params

definition plain_event :: "string \<Rightarrow> string \<Rightarrow> json \<Rightarrow> event" where
  "plain_event ty ts err =
     \<lparr>ev_type = ty, ev_timestamp = ts, ev_node_id = JNull, ev_fraction = JNull, ev_message = JNull,
      ev_error = err, ev_extra = []\<rparr>"

definition event_to_dict :: "event \<Rightarrow> params" where
  "event_to_dict ev =
     (let opt = (\<lambda>k v d. if v = JNull then d else dput k v d)
      in dupdate (opt ''error'' (ev_error ev) (opt ''message'' (ev_message ev)
           (opt ''fraction'' (ev_fraction ev) (opt ''node_id'' (ev_node_id ev)
              [(''type'', JStr (ev_type ev)), (''timestamp'', JStr (ev_timestamp ev))]))))
         (ev_extra ev))"

record event_row =
  er_job_id :: string
  er_seq :: int
  er_event :: event

record jobs_db =
  jb_db :: storage_db
  jb_events :: "event_row list"

definition jb_jobs :: "jobs_db \<Rightarrow> job_row list" where
  "jb_jobs db = db_jobs (jb_db db)"

definition find_job :: "jobs_db \<Rightarrow> string \<Rightarrow> job_row option" where
  "find_job db jid = find (\<lambda>r. jr_id r = jid) (jb_jobs db)"

text \<open>\<open>UPDATE jobs SET ... WHERE ...\<close> and its rowcount.\<close>

definition update_jobs :: "(job_row \<Rightarrow> bool) \<Rightarrow> (job_row \<Rightarrow> job_row) \<Rightarrow> jobs_db \<Rightarrow> jobs_db" where
  "update_jobs P f db =
     db\<lparr>jb_db := (jb_db db)\<lparr>db_jobs := map (\<lambda>r. if P r then f r else r) (jb_jobs db)\<rparr>\<rparr>"

definition row_count :: "(job_row \<Rightarrow> bool) \<Rightarrow> jobs_db \<Rightarrow> nat" where
  "row_count P db = length (filter P (jb_jobs db))"

section \<open>The event log\<close>

definition job_seqs :: "jobs_db \<Rightarrow> string \<Rightarrow> int list" where
  "job_seqs db jid = map er_seq (filter (\<lambda>r. er_job_id r = jid) (jb_events db))"

text \<open>\<open>COALESCE(MAX(seq), -1)\<close>.\<close>

definition max_seq :: "jobs_db \<Rightarrow> string \<Rightarrow> int" where
  "max_seq db jid = (case job_seqs db jid of [] \<Rightarrow> -1 | s # ss \<Rightarrow> fold max ss s)"

definition persist_event :: "jobs_db \<Rightarrow> string \<Rightarrow> event \<Rightarrow> int option \<Rightarrow> jobs_db \<times> int" where
  "persist_event db jid ev seq =
     (let n = (case seq of None \<Rightarrow> max_seq db jid + 1 | Some n \<Rightarrow> n)
      in (db\<lparr>jb_events := jb_events db @ [\<lparr>er_job_id = jid, er_seq = n, er_event = ev\<rparr>]\<rparr>, n))"

definition load_events :: "jobs_db \<Rightarrow> string \<Rightarrow> int \<Rightarrow> event list" where
  "load_events db jid after_seq =
     map er_event (sort_key er_seq (filter (\<lambda>r. er_job_id r = jid \<and> after_seq < er_seq r) (jb_events db)))"

section \<open>Records\<close>

definition outputs_to_json :: "(string, ref) dict option \<Rightarrow> json_col" where
  "outputs_to_json outputs =
     (case outputs of
        None \<Rightarrow> Null_Col
      | Some out \<Rightarrow> Json_Col (JDict (map (\<lambda>(k, v). (k, JDict
          [(''path'', JStr (r_path v)), (''type'', JStr (port_type_value (r_type v))),
           (''node_hash'', JStr (r_node_hash v)), (''port'', JStr (r_port v))])) out)))"

text \<open>\<open>_outputs_from_json\<close>: None is the KeyError or ValueError of a malformed payload.\<close>

fun output_ref :: "json \<Rightarrow> ref option" where
  "output_ref (JDict m) =
     (case (map_of m ''node_hash'', map_of m ''port'', map_of m ''path'', map_of m ''type'') of
        (Some (JStr h), Some (JStr port), Some (JStr p), Some (JStr ty)) \<Rightarrow>
          map_option (\<lambda>pt. \<lparr>r_node_hash = h, r_port = port, r_path = p, r_type = pt, r_display_ready = False\<rparr>)
            (parse_port_type ty)
      | _ \<Rightarrow> None)"
| "output_ref _ = None"

fun refs_from_items :: "(string \<times> json) list \<Rightarrow> (string, ref) dict option" where
  "refs_from_items [] = Some []"
| "refs_from_items ((k, v) # rest) =
     (case output_ref v of
        None \<Rightarrow> None
      | Some r \<Rightarrow> map_option (\<lambda>out. (k, r) # out) (refs_from_items rest))"

definition outputs_from_json :: "json_col \<Rightarrow> (string, ref) dict option option" where
  "outputs_from_json col =
     (case col of
        Null_Col \<Rightarrow> Some None
      | Json_Col (JDict d) \<Rightarrow> map_option Some (refs_from_items d)
      | _ \<Rightarrow> None)"

text \<open>The legacy list form pairs by position, skipping values that are not strings.\<close>

definition legacy_hashes :: "template \<Rightarrow> json list \<Rightarrow> (string, string) dict" where
  "legacy_hashes t hashes =
     fold (\<lambda>(n, v) out. case v of JStr h \<Rightarrow> dput (n_id n) h out | _ \<Rightarrow> out) (zip (t_nodes t) hashes) []"

definition node_hashes_from_json :: "json_col \<Rightarrow> template \<Rightarrow> (string, string) dict" where
  "node_hashes_from_json col t =
     (case col of
        Json_Col (JDict d) \<Rightarrow> string_items d
      | Json_Col (JList hashes) \<Rightarrow> legacy_hashes t hashes
      | _ \<Rightarrow> [])"

definition node_hashes_to_json :: "(string, string) dict \<Rightarrow> json_col" where
  "node_hashes_to_json hashes =
     (if hashes = [] then Null_Col else Json_Col (JDict (map (\<lambda>(k, v). (k, JStr v)) hashes)))"

record job_record =
  rec_id :: string
  rec_status :: job_status
  rec_template :: template
  rec_job :: job
  rec_submitted_at :: string
  rec_started_at :: "string option"
  rec_finished_at :: "string option"
  rec_outputs :: "(string, ref) dict option"
  rec_error :: "string option"
  rec_force :: bool
  rec_quality :: "json option"
  rec_node_hashes :: "(string, string) dict"

definition row_to_record :: "job_row \<Rightarrow> job_record option" where
  "row_to_record r =
     map_option (\<lambda>outputs.
       \<lparr>rec_id = jr_id r, rec_status = jr_status r, rec_template = jr_template r, rec_job = jr_job r,
        rec_submitted_at = jr_submitted_at r, rec_started_at = jr_started_at r,
        rec_finished_at = jr_finished_at r, rec_outputs = outputs, rec_error = jr_error r,
        rec_force = jr_force r,
        rec_quality = (case jr_quality r of Json_Col v \<Rightarrow> Some v | _ \<Rightarrow> None),
        rec_node_hashes = node_hashes_from_json (jr_node_hashes r) (jr_template r)\<rparr>)
     (outputs_from_json (jr_outputs r))"

definition node_outputs :: "'w registry \<Rightarrow> string \<Rightarrow> string option \<Rightarrow> (string, string) dict" where
  "node_outputs reg kind variant =
     (case registry_lookup reg kind variant of
        None \<Rightarrow> []
      | Some cls \<Rightarrow> map (\<lambda>(port, ty). (port, port_type_value ty)) (cls_outputs cls))"

fun status_text :: "job_status \<Rightarrow> string" where
  "status_text Queued = ''queued''"
| "status_text Running = ''running''"
| "status_text Completed = ''completed''"
| "status_text Failed = ''failed''"
| "status_text Interrupted = ''interrupted''"

definition opt_str :: "string option \<Rightarrow> json" where
  "opt_str s = (case s of None \<Rightarrow> JNull | Some x \<Rightarrow> JStr x)"

text \<open>\<open>public_dict\<close>; \<open>dump\<close> stands for \<open>template.model_dump\<close>, whose node dicts get their ports.\<close>

definition public_dict :: "job_record \<Rightarrow> params" where
  "public_dict r =
     [(''id'', JStr (rec_id r)), (''status'', JStr (status_text (rec_status r))),
      (''template_id'', JStr (t_id (rec_template r))), (''template_version'', JInt (t_version (rec_template r))),
      (''submitted_at'', JStr (rec_submitted_at r)), (''started_at'', opt_str (rec_started_at r)),
      (''finished_at'', opt_str (rec_finished_at r)), (''error'', opt_str (rec_error r)),
      (''outputs'', case rec_outputs r of
         None \<Rightarrow> JNull
       | Some out \<Rightarrow> JDict (map (\<lambda>(k, v). (k, JDict [(''path'', JStr (r_path v)),
           (''type'', JStr (port_type_value (r_type v))), (''node_hash'', JStr (r_node_hash v))])) out))]
     @ (case rec_quality r of None \<Rightarrow> [] | Some q \<Rightarrow> [(''quality'', q)])"

section \<open>The API side\<close>

definition new_job_row :: "string \<Rightarrow> string \<Rightarrow> template \<Rightarrow> job \<Rightarrow> bool \<Rightarrow> job_row" where
  "new_job_row jid now t j force =
     \<lparr>jr_id = jid, jr_status = Queued, jr_template = t, jr_job = j, jr_outputs = Null_Col,
      jr_error = None, jr_submitted_at = now, jr_started_at = None, jr_finished_at = None,
      jr_force = force, jr_cancel_requested = False, jr_worker_pid = None, jr_heartbeat_at = None,
      jr_node_hashes = Null_Col, jr_quality = Null_Col\<rparr>"

text \<open>None is the IntegrityError of an id that exists.\<close>

definition submit :: "string \<Rightarrow> string \<Rightarrow> template \<Rightarrow> job \<Rightarrow> bool \<Rightarrow> jobs_db \<Rightarrow> jobs_db option" where
  "submit jid now t j force db =
     (if find_job db jid \<noteq> None then None
      else let db1 = db\<lparr>jb_db := (jb_db db)\<lparr>db_jobs := jb_jobs db @ [new_job_row jid now t j force]\<rparr>\<rparr>
        in Some (fst (persist_event db1 jid (plain_event ''job_queued'' now JNull) (Some 0))))"

definition cancel_job :: "string \<Rightarrow> jobs_db \<Rightarrow> jobs_db \<times> bool" where
  "cancel_job jid db =
     (let P = (\<lambda>r. jr_id r = jid \<and> is_live r)
      in (update_jobs P (\<lambda>r. r\<lparr>jr_cancel_requested := True\<rparr>) db, 0 < row_count P db))"

definition get_job :: "string \<Rightarrow> jobs_db \<Rightarrow> job_record option option" where
  "get_job jid db = (case find_job db jid of None \<Rightarrow> Some None | Some r \<Rightarrow> map_option Some (row_to_record r))"

definition list_jobs :: "jobs_db \<Rightarrow> job_record option list" where
  "list_jobs db = map row_to_record (sort_key jr_submitted_at (jb_jobs db))"

section \<open>The worker side\<close>

text \<open>\<open>claim_next_queued\<close>: the SELECT, then the guarded UPDATE with its event.\<close>

definition pick_queued :: "jobs_db \<Rightarrow> string option" where
  "pick_queued db =
     (case sort_key jr_submitted_at (filter (\<lambda>r. jr_status r = Queued) (jb_jobs db)) of
        [] \<Rightarrow> None | r # _ \<Rightarrow> Some (jr_id r))"

definition take_job :: "int \<Rightarrow> string \<Rightarrow> string \<Rightarrow> jobs_db \<Rightarrow> jobs_db \<times> bool" where
  "take_job pid now jid db =
     (let P = (\<lambda>r. jr_id r = jid \<and> jr_status r = Queued);
          db1 = update_jobs P (\<lambda>r. r\<lparr>jr_status := Running, jr_started_at := Some now,
                                    jr_worker_pid := Some pid, jr_heartbeat_at := Some now\<rparr>) db
      in if row_count P db \<noteq> 1 then (db1, False)
         else (fst (persist_event db1 jid (plain_event ''job_started'' now JNull) None), True))"

definition claim_next_queued :: "int \<Rightarrow> string \<Rightarrow> jobs_db \<Rightarrow> jobs_db \<times> job_record option" where
  "claim_next_queued pid now db =
     (case pick_queued db of
        None \<Rightarrow> (db, None)
      | Some jid \<Rightarrow>
          (case take_job pid now jid db of
             (db1, False) \<Rightarrow> (db1, None)
           | (db1, True) \<Rightarrow> (db1, Option.bind (find_job db1 jid) row_to_record)))"

definition STALE_HEARTBEAT_SECONDS :: int where
  "STALE_HEARTBEAT_SECONDS = 120"

definition stale_by_time :: "int \<Rightarrow> job_row \<Rightarrow> bool" where
  "stale_by_time now r =
     (let cutoff = Aware (now - STALE_HEARTBEAT_SECONDS * 1000000);
          raw = (case jr_heartbeat_at r of
                   Some h \<Rightarrow> if h = '''' then jr_started_at r else Some h
                 | None \<Rightarrow> jr_started_at r)
      in case raw of
           None \<Rightarrow> True
         | Some s \<Rightarrow> if s = '''' then True
             else (case fromisoformat s of None \<Rightarrow> True | Some d \<Rightarrow> dt_less d cutoff = Some True))"

definition scan_stale :: "(int \<Rightarrow> bool) \<Rightarrow> int \<Rightarrow> jobs_db \<Rightarrow> string list" where
  "scan_stale pid_alive now db =
     map jr_id (filter (\<lambda>r. jr_status r = Running \<and>
         \<not> ((case jr_worker_pid r of None \<Rightarrow> False | Some pid \<Rightarrow> pid_alive pid) \<and> \<not> stale_by_time now r))
       (jb_jobs db))"

definition CRASHED :: string where
  "CRASHED = ''worker crashed before this job finished''"

text \<open>One row of \<open>reclaim_stale\<close>: the UPDATE is guarded, the event is not.\<close>

definition interrupt_stale :: "string \<Rightarrow> string \<Rightarrow> jobs_db \<Rightarrow> jobs_db" where
  "interrupt_stale finished jid db =
     fst (persist_event
       (update_jobs (\<lambda>r. jr_id r = jid \<and> jr_status r = Running)
          (\<lambda>r. r\<lparr>jr_status := Interrupted, jr_error := Some CRASHED, jr_finished_at := Some finished\<rparr>) db)
       jid (plain_event ''job_interrupted'' finished (JStr CRASHED)) None)"

definition reclaim_stale ::
  "(int \<Rightarrow> bool) \<Rightarrow> int \<Rightarrow> string \<Rightarrow> jobs_db \<times> cache \<Rightarrow> (jobs_db \<times> cache) \<times> nat" where
  "reclaim_stale pid_alive now finished st =
     (let ids = scan_stale pid_alive now (fst st)
      in (fold (\<lambda>jid (db, c). (interrupt_stale finished jid db, fst (release_job_marks c jid))) ids st,
          length ids))"

definition emit_event :: "string \<Rightarrow> event \<Rightarrow> jobs_db \<Rightarrow> jobs_db" where
  "emit_event jid ev db = fst (persist_event db jid ev None)"

definition heartbeat :: "string \<Rightarrow> string \<Rightarrow> jobs_db \<Rightarrow> jobs_db" where
  "heartbeat jid now db = update_jobs (\<lambda>r. jr_id r = jid) (\<lambda>r. r\<lparr>jr_heartbeat_at := Some now\<rparr>) db"

definition read_cancel :: "string \<Rightarrow> jobs_db \<Rightarrow> bool" where
  "read_cancel jid db = (case find_job db jid of None \<Rightarrow> False | Some r \<Rightarrow> jr_cancel_requested r)"

definition terminal_event :: "job_status \<Rightarrow> string \<Rightarrow> string option \<Rightarrow> event" where
  "terminal_event status finished err =
     (case status of
        Completed \<Rightarrow> plain_event ''job_completed'' finished JNull
      | Interrupted \<Rightarrow> plain_event ''job_interrupted'' finished (opt_str err)
      | _ \<Rightarrow> plain_event ''job_failed'' finished (opt_str err))"

text \<open>\<open>quality\<close> is what \<open>compute_quality_for_record\<close> gives (None when it fails or has nothing).\<close>

definition terminate ::
  "job_record \<Rightarrow> job_status \<Rightarrow> string option \<Rightarrow> string \<Rightarrow> json option \<Rightarrow> jobs_db \<Rightarrow> jobs_db" where
  "terminate r status err finished quality db =
     fst (persist_event
       (update_jobs (\<lambda>row. jr_id row = rec_id r)
          (\<lambda>row. row\<lparr>jr_status := status, jr_outputs := outputs_to_json (rec_outputs r), jr_error := err,
                     jr_finished_at := Some finished, jr_node_hashes := node_hashes_to_json (rec_node_hashes r),
                     jr_quality := (case (status, quality) of
                        (Completed, Some q) \<Rightarrow> Json_Col q | _ \<Rightarrow> Null_Col)\<rparr>) db)
       (rec_id r) (terminal_event status finished err) None)"

section \<open>Running a claimed job\<close>

text \<open>
  What \<open>_run\<close> uses from elsewhere: the clock (the text of the n-th reading), the rendering of an
  error (\<open>str(exc)\<close>), the quality metrics of a finished job and the disk size behind the cache.
\<close>

record worker_env =
  w_clock :: "nat \<Rightarrow> string"
  w_error_text :: "run_error \<Rightarrow> string"
  w_quality :: "job_record \<Rightarrow> event list \<Rightarrow> json option"
  w_disk_total :: int

text \<open>\<open>payload.get(k)\<close>.\<close>

definition jget :: "params \<Rightarrow> string \<Rightarrow> json" where
  "jget d k = (case map_of d k of None \<Rightarrow> JNull | Some v \<Rightarrow> v)"

definition sink_event :: "string \<Rightarrow> params \<Rightarrow> event" where
  "sink_event now payload =
     \<lparr>ev_type = (case jget payload ''type'' of JStr s \<Rightarrow> s | _ \<Rightarrow> ''''), ev_timestamp = now,
      ev_node_id = jget payload ''node_id'', ev_fraction = jget payload ''fraction'',
      ev_message = jget payload ''message'', ev_error = jget payload ''error'',
      ev_extra = filter (\<lambda>(k, v). k \<notin> {''type'', ''node_id'', ''fraction'', ''message'', ''error''}) payload\<rparr>"

definition note_hash :: "params \<Rightarrow> (string, string) dict \<Rightarrow> (string, string) dict" where
  "note_hash payload hashes =
     (case (jget payload ''hash'', jget payload ''node_id'') of
        (JStr h, JStr nid) \<Rightarrow> dput nid h hashes
      | _ \<Rightarrow> hashes)"

text \<open>\<open>int(value)\<close> of a setting; None when it raises.\<close>

fun setting_int :: "json \<Rightarrow> int option" where
  "setting_int (JInt n) = Some n"
| "setting_int (JBool b) = Some (of_bool b)"
| "setting_int (JFloat (Fin x)) = Some (trunc x)"
| "setting_int (JFloat Neg_Zero) = Some 0"
| "setting_int (JStr s) = number_of s"
| "setting_int _ = None"

definition cache_budget :: "worker_env \<Rightarrow> jobs_db \<Rightarrow> int option" where
  "cache_budget w db =
     setting_int (get_setting (jb_db db) ''cache_max_bytes'' (JInt (default_cache_max_bytes_for (w_disk_total w))))"

definition sweep_cache :: "worker_env \<Rightarrow> 'w registry \<Rightarrow> jobs_db \<Rightarrow> cache \<Rightarrow> cache" where
  "sweep_cache w reg db c =
     (case cache_budget w db of
        None \<Rightarrow> c
      | Some n \<Rightarrow> (case run_cleanup reg (jb_db db) c n of Inl _ \<Rightarrow> c | Inr (c', _) \<Rightarrow> c'))"

definition single_quoted :: "string \<Rightarrow> string" where
  "single_quoted s = CHR 0x27 # s @ [CHR 0x27]"

definition verdict :: "worker_env \<Rightarrow> run_error + (string, ref) dict \<Rightarrow> job_status \<times> string option" where
  "verdict w res =
     (case res of
        Inr _ \<Rightarrow> (Completed, None)
      | Inl (Job_Cancelled nid) \<Rightarrow>
          (Interrupted, Some (if nid = '''' then ''cancelled'' else ''cancelled at node '' @ single_quoted nid))
      | Inl e \<Rightarrow> (Failed, Some (w_error_text w e)))"

fun persist_all :: "(nat \<Rightarrow> string) \<Rightarrow> nat \<Rightarrow> string \<Rightarrow> params list \<Rightarrow> jobs_db \<Rightarrow> jobs_db" where
  "persist_all clock n jid [] db = db"
| "persist_all clock n jid (p # ps) db =
     persist_all clock (Suc n) jid ps (emit_event jid (sink_event (clock n) p) db)"

text \<open>None is the exception of a budget setting that is no number: it escapes \<open>_run\<close>.\<close>

definition run_claimed ::
  "worker_env \<Rightarrow> env \<Rightarrow> (string \<Rightarrow> bool) \<Rightarrow> job_record \<Rightarrow> jobs_db \<Rightarrow> cache \<Rightarrow> (jobs_db \<times> cache) option" where
  "run_claimed w env cancel r db c =
     (if read_cancel (rec_id r) db then
        Some (terminate r Interrupted (Some ''cancelled while queued'') (w_clock w 0) None db, c)
      else case cache_budget w db of
        None \<Rightarrow> None
      | Some budget \<Rightarrow>
          let c1 = sweep_cache w (e_registry env) db c;
              (s, res) = run_job (env\<lparr>e_db := jb_db db\<rparr>)
                \<lparr>o_profile = None, o_force = rec_force r, o_job_id = Some (rec_id r),
                 o_cache_max_bytes = Some budget, o_cancel = cancel\<rparr> (rec_template r) (rec_job r) c1;
              n = length (rs_events s);
              db1 = persist_all (w_clock w) 0 (rec_id r) (rs_events s) db;
              r1 = r\<lparr>rec_node_hashes := fold note_hash (rs_events s) (rec_node_hashes r),
                     rec_outputs := (case res of Inr out \<Rightarrow> Some out | Inl _ \<Rightarrow> rec_outputs r)\<rparr>;
              (status, err) = verdict w res;
              quality = (if status = Completed then w_quality w r1 (load_events db1 (rec_id r) (-1)) else None)
          in Some (terminate r1 status err (w_clock w n) quality db1,
                   fst (release_job_marks (rs_cache s) (rec_id r))))"

section \<open>The worker process\<close>

record shutdown =
  sd_stop :: bool
  sd_cancel_current :: bool

definition on_usr1 :: "shutdown \<Rightarrow> shutdown" where
  "on_usr1 sd = sd\<lparr>sd_stop := True\<rparr>"

definition on_term :: "shutdown \<Rightarrow> shutdown" where
  "on_term sd = sd\<lparr>sd_stop := True, sd_cancel_current := True\<rparr>"

text \<open>
  \<open>_run_loop\<close> by fuel, one unit per turn of the while loop. Signals arrive at any point: \<open>sig n p\<close>
  is what the handlers do to the flags in turn n, before the loop test (p = 0), while the claim
  runs (p = 1) and while the job runs (p = 2). A job that raised out of \<open>_run\<close> ends the loop.
\<close>

fun run_loop ::
  "worker_env \<Rightarrow> env \<Rightarrow> int \<Rightarrow> (nat \<Rightarrow> nat \<Rightarrow> shutdown \<Rightarrow> shutdown) \<Rightarrow> (string \<Rightarrow> bool) \<Rightarrow> nat \<Rightarrow> nat
   \<Rightarrow> jobs_db \<Rightarrow> cache \<Rightarrow> shutdown \<Rightarrow> jobs_db \<times> cache \<times> shutdown" where
  "run_loop w env pid sig cancel 0 n db c sd = (db, c, sd)"
| "run_loop w env pid sig cancel (Suc fuel) n db c sd =
     (let sd0 = sig n 0 sd in
      if sd_stop sd0 then (db, c, sd0)
      else let (db1, claimed) = claim_next_queued pid (w_clock w n) db; sd1 = sig n 1 sd0 in
        case claimed of
          None \<Rightarrow> run_loop w env pid sig cancel fuel (Suc n) db1 c sd1
        | Some r \<Rightarrow>
            let (db2, sd2) = (if sd_cancel_current sd1
                  then (fst (cancel_job (rec_id r) db1), sd1\<lparr>sd_cancel_current := False\<rparr>) else (db1, sd1))
            in (case run_claimed w env cancel r db2 c of
                  None \<Rightarrow> (db2, c, sig n 2 sd2)
                | Some (db3, c3) \<Rightarrow> run_loop w env pid sig cancel fuel (Suc n) db3 c3 (sig n 2 sd2)))"

section \<open>Append-only sequences\<close>

text \<open>
  The contract of a per-key log that numbers its entries \<open>MAX(seq) + 1\<close>: appending to one key adds the
  next number to its column and leaves the others alone. Every log that starts empty is then numbered
  \<open>0, 1, 2, ...\<close> without gaps, whatever the interleaving of the writers.
\<close>

definition next_seq :: "int list \<Rightarrow> int" where
  "next_seq ss = (case ss of [] \<Rightarrow> 0 | s # rest \<Rightarrow> fold max rest s + 1)"

definition gap_free :: "int list \<Rightarrow> bool" where
  "gap_free ss \<longleftrightarrow> ss = map int [0..<length ss]"

lemma gap_free_next: "gap_free ss \<Longrightarrow> next_seq ss = int (length ss)"
proof (cases ss)
  case (Cons s rest)
  assume gf: "gap_free ss"
  have "insert s (set rest) = int ` {0..<length ss}"
    using gf Cons unfolding gap_free_def by (metis list.set_map list.simps(15) set_upt)
  moreover have "Max (int ` {0..<length ss}) = int (length ss) - 1"
    using Cons by (intro Max_eqI) auto
  ultimately show ?thesis using Cons by (simp add: next_seq_def Max.set_eq_fold [symmetric])
qed (simp add: next_seq_def)

lemma gap_free_snoc: "gap_free ss \<Longrightarrow> gap_free (ss @ [next_seq ss])"
  by (simp add: gap_free_next) (simp add: gap_free_def)

lemma gap_free_Nil [simp]: "gap_free []"
  by (simp add: gap_free_def)

locale seq_log =
  fixes seqs :: "'s \<Rightarrow> 'k \<Rightarrow> int list"
    and append :: "'k \<Rightarrow> 'e \<Rightarrow> 's \<Rightarrow> 's"
  assumes append_seqs: "seqs (append k e s) k' = (if k' = k then seqs s k @ [next_seq (seqs s k)] else seqs s k')"
begin

lemma append_gap_free: "gap_free (seqs s k') \<Longrightarrow> gap_free (seqs (append k e s) k')"
  by (cases "k' = k") (simp_all add: append_seqs gap_free_snoc)

lemma append_all_gap_free:
  "gap_free (seqs s k') \<Longrightarrow> gap_free (seqs (fold (\<lambda>(k, e). append k e) kes s) k')"
  by (induction kes arbitrary: s) (auto simp: append_gap_free)

lemma append_all_length:
  "length (seqs (fold (\<lambda>(k, e). append k e) kes s) k')
   = length (seqs s k') + length (filter (\<lambda>(k, e). k = k') kes)"
  by (induction kes arbitrary: s) (auto simp: append_seqs)

end

lemma max_seq_next: "max_seq db jid + 1 = next_seq (job_seqs db jid)"
  by (simp add: max_seq_def next_seq_def split: list.splits)

lemma persist_seqs:
  "job_seqs (fst (persist_event db jid ev None)) k
   = (if k = jid then job_seqs db jid @ [next_seq (job_seqs db jid)] else job_seqs db k)"
  unfolding persist_event_def Let_def max_seq_next [symmetric]
  by (simp add: job_seqs_def)

interpretation event_log: seq_log job_seqs emit_event
  by unfold_locales (simp add: emit_event_def persist_seqs)

section \<open>The queue as a transition system\<close>

record queue =
  q_db :: jobs_db
  q_picked :: "nat \<Rightarrow> string option"
  q_running :: "nat \<Rightarrow> string option"
  q_stale :: "nat \<Rightarrow> string list"

text \<open>
  Any number of workers (numbered) and API processes take turns. \<open>pick\<close> and \<open>take\<close> are the two halves of a
  claim, \<open>scan\<close> and \<open>reclaim\<close> those of \<open>reclaim_stale\<close>; a crash stops a worker without a word to the
  database.
\<close>

inductive step :: "queue \<Rightarrow> queue \<Rightarrow> bool" where
  submit: "submit jid now t j force (q_db q) = Some db \<Longrightarrow> step q (q\<lparr>q_db := db\<rparr>)"
| cancel: "step q (q\<lparr>q_db := fst (cancel_job jid (q_db q))\<rparr>)"
| pick: "q_running q w = None \<Longrightarrow> step q (q\<lparr>q_picked := (q_picked q)(w := pick_queued (q_db q))\<rparr>)"
| take: "q_picked q w = Some jid \<Longrightarrow> q_running q w = None \<Longrightarrow> take_job pid now jid (q_db q) = (db, won) \<Longrightarrow>
    step q (q\<lparr>q_db := db, q_picked := (q_picked q)(w := None),
              q_running := (q_running q)(w := if won then Some jid else None)\<rparr>)"
| emit: "q_running q w = Some jid \<Longrightarrow> ev_type ev \<noteq> ''job_started'' \<Longrightarrow>
    step q (q\<lparr>q_db := emit_event jid ev (q_db q)\<rparr>)"
| beat: "q_running q w = Some jid \<Longrightarrow> step q (q\<lparr>q_db := heartbeat jid now (q_db q)\<rparr>)"
| finish: "q_running q w = Some (rec_id r) \<Longrightarrow> status \<in> {Completed, Failed, Interrupted} \<Longrightarrow>
    step q (q\<lparr>q_db := terminate r status err now quality (q_db q), q_running := (q_running q)(w := None)\<rparr>)"
| crash: "step q (q\<lparr>q_picked := (q_picked q)(w := None), q_running := (q_running q)(w := None),
              q_stale := (q_stale q)(w := [])\<rparr>)"
| scan: "step q (q\<lparr>q_stale := (q_stale q)(w := scan_stale alive now (q_db q))\<rparr>)"
| reclaim: "q_stale q w = jid # rest \<Longrightarrow>
    step q (q\<lparr>q_db := interrupt_stale now jid (q_db q), q_stale := (q_stale q)(w := rest)\<rparr>)"

inductive_cases step_cases: "step q q'"

definition init_queue :: queue where
  "init_queue = \<lparr>q_db = \<lparr>jb_db = \<lparr>db_projects = [], db_history = [], db_jobs = [], db_settings = []\<rparr>, jb_events = []\<rparr>,
     q_picked = (\<lambda>_. None), q_running = (\<lambda>_. None), q_stale = (\<lambda>_. [])\<rparr>"

inductive reachable :: "queue \<Rightarrow> bool" where
  start: "reachable init_queue"
| next_state: "reachable q \<Longrightarrow> step q q' \<Longrightarrow> reachable q'"

text \<open>Status and number of starts of a job, as the invariant needs them.\<close>

definition statuses :: "jobs_db \<Rightarrow> (string \<times> job_status) list" where
  "statuses db = map (\<lambda>r. (jr_id r, jr_status r)) (jb_jobs db)"

definition starts :: "jobs_db \<Rightarrow> string \<Rightarrow> nat" where
  "starts db jid =
     length (filter (\<lambda>r. er_job_id r = jid \<and> ev_type (er_event r) = ''job_started'') (jb_events db))"

definition set_status :: "string \<Rightarrow> (job_status \<Rightarrow> job_status) \<Rightarrow> (string \<times> job_status) list \<Rightarrow> (string \<times> job_status) list" where
  "set_status jid f = map (\<lambda>(k, st). (k, if k = jid then f st else st))"

lemma persist_jobs [simp]: "jb_jobs (fst (persist_event db jid ev seq)) = jb_jobs db"
  by (simp add: persist_event_def Let_def jb_jobs_def)

lemma persist_statuses [simp]: "statuses (fst (persist_event db jid ev seq)) = statuses db"
  by (simp add: statuses_def)

lemma update_statuses:
  assumes "\<And>r. jr_id (f r) = jr_id r"
  shows "statuses (update_jobs P f db)
    = map (\<lambda>r. (jr_id r, if P r then jr_status (f r) else jr_status r)) (jb_jobs db)"
  using assms by (simp add: statuses_def update_jobs_def jb_jobs_def)

lemma update_events [simp]:
  "jb_events (update_jobs P f db) = jb_events db" "job_seqs (update_jobs P f db) = job_seqs db"
  "starts (update_jobs P f db) = starts db"
  by (simp_all add: update_jobs_def job_seqs_def starts_def fun_eq_iff)

lemma starts_persist:
  "starts (fst (persist_event db jid ev seq)) k
   = starts db k + (if k = jid \<and> ev_type ev = ''job_started'' then 1 else 0)"
  by (simp add: starts_def persist_event_def Let_def)

definition stat :: "jobs_db \<Rightarrow> string \<Rightarrow> job_status option" where
  "stat db jid = map_of (statuses db) jid"

definition job_ids :: "jobs_db \<Rightarrow> string list" where
  "job_ids db = map jr_id (jb_jobs db)"

lemma stat_None: "stat db jid = None \<longleftrightarrow> jid \<notin> set (job_ids db)"
  by (simp add: stat_def map_of_eq_None_iff statuses_def job_ids_def image_image)

lemma stat_persist [simp]: "stat (fst (persist_event db jid ev seq)) = stat db"
  by (simp add: stat_def fun_eq_iff)

lemma job_ids_persist [simp]: "job_ids (fst (persist_event db jid ev seq)) = job_ids db"
  by (simp add: job_ids_def)

lemma job_ids_update: "(\<And>r. jr_id (f r) = jr_id r) \<Longrightarrow> job_ids (update_jobs P f db) = job_ids db"
  by (simp add: job_ids_def update_jobs_def jb_jobs_def)

lemma stat_update:
  assumes f: "\<And>r. jr_id (f r) = jr_id r" "\<And>r. jr_status (f r) = g (jr_status r)"
    and P: "\<And>r. P r \<longleftrightarrow> jr_id r = jid \<and> Q (jr_status r)"
  shows "stat (update_jobs P f db) k
    = (if k = jid then map_option (\<lambda>st. if Q st then g st else st) (stat db jid) else stat db k)"
proof -
  have "map_of (map (\<lambda>r. (jr_id r, if P r then jr_status (f r) else jr_status r)) rs) k
    = (if k = jid then map_option (\<lambda>st. if Q st then g st else st) (map_of (map (\<lambda>r. (jr_id r, jr_status r)) rs) jid)
       else map_of (map (\<lambda>r. (jr_id r, jr_status r)) rs) k)" for rs
    by (induction rs) (auto simp: f(2) P)
  then show ?thesis unfolding stat_def update_statuses [of f, OF f(1)] by (simp add: statuses_def)
qed

lemma stat_update_same:
  "(\<And>r. jr_id (f r) = jr_id r) \<Longrightarrow> (\<And>r. jr_status (f r) = jr_status r) \<Longrightarrow> stat (update_jobs P f db) = stat db"
  unfolding stat_def by (subst update_statuses) (simp_all add: statuses_def fun_eq_iff cong: if_cong)

lemma stat_update_all:
  assumes "\<And>r. jr_id (f r) = jr_id r" "\<And>r. jr_status (f r) = st"
  shows "stat (update_jobs (\<lambda>r. jr_id r = jid) f db) k
    = (if k = jid then map_option (\<lambda>_. st) (stat db k) else stat db k)"
  using stat_update [of f "\<lambda>_. st" "\<lambda>r. jr_id r = jid" jid "\<lambda>_. True" db k] assms
  by (cases "stat db jid") simp_all

lemma row_count_queued:
  assumes "distinct (job_ids db)"
  shows "row_count (\<lambda>r. jr_id r = jid \<and> jr_status r = Queued) db = (if stat db jid = Some Queued then 1 else 0)"
proof -
  have "length (filter (\<lambda>r. jr_id r = jid \<and> jr_status r = Queued) rs)
    = (if map_of (map (\<lambda>r. (jr_id r, jr_status r)) rs) jid = Some Queued then 1 else 0)"
    if "distinct (map jr_id rs)" for rs
    using that
  proof (induction rs)
    case (Cons r rs)
    have none: "filter (\<lambda>r. jr_id r = jid \<and> jr_status r = Queued) rs = []" if "jr_id r = jid"
      using Cons.prems that by (auto simp: filter_empty_conv) (metis image_eqI)
    show ?case using Cons none by auto
  qed simp
  from this [OF assms [unfolded job_ids_def]] show ?thesis
    unfolding row_count_def stat_def statuses_def .
qed

text \<open>What each operation does to status, sequence numbers and start events.\<close>

lemma submit_effect:
  assumes "submit jid now t j force db = Some db'"
  shows "stat db jid = None" "job_ids db' = job_ids db @ [jid]" "stat db' = (stat db)(jid := Some Queued)"
    "job_seqs db' k = (if k = jid then job_seqs db jid @ [0] else job_seqs db k)" "starts db' = starts db"
proof -
  let ?db1 = "db\<lparr>jb_db := (jb_db db)\<lparr>db_jobs := jb_jobs db @ [new_job_row jid now t j force]\<rparr>\<rparr>"
  have r: "find_job db jid = None"
    "db' = fst (persist_event ?db1 jid (plain_event ''job_queued'' now JNull) (Some 0))"
    using assms by (auto simp: submit_def Let_def split: if_splits)
  have new: "jid \<notin> set (job_ids db)"
    using r(1) by (auto simp: find_job_def find_None_iff job_ids_def)
  then show "stat db jid = None" by (simp add: stat_None)
  have ids: "job_ids ?db1 = job_ids db @ [jid]"
    by (simp add: job_ids_def jb_jobs_def new_job_row_def)
  show "job_ids db' = job_ids db @ [jid]" unfolding r(2) by (simp add: ids)
  have "statuses ?db1 = statuses db @ [(jid, Queued)]"
    by (simp add: statuses_def jb_jobs_def new_job_row_def)
  then have "stat ?db1 k = ((stat db)(jid := Some Queued)) k" for k
    using \<open>stat db jid = None\<close> by (simp add: stat_def map_add_def split: option.splits)
  then show "stat db' = (stat db)(jid := Some Queued)" unfolding r(2) by (simp add: fun_eq_iff)
  show "job_seqs db' k = (if k = jid then job_seqs db jid @ [0] else job_seqs db k)"
    unfolding r(2) by (simp add: job_seqs_def persist_event_def)
  show "starts db' = starts db"
    unfolding r(2) by (simp add: fun_eq_iff starts_persist plain_event_def) (simp add: starts_def)
qed

lemma cancel_effect:
  "stat (fst (cancel_job jid db)) = stat db" "job_ids (fst (cancel_job jid db)) = job_ids db"
  "job_seqs (fst (cancel_job jid db)) = job_seqs db" "starts (fst (cancel_job jid db)) = starts db"
  by (simp_all add: cancel_job_def Let_def job_ids_update)
     (rule stat_update_same; simp)

lemma take_effect:
  assumes "take_job pid now jid db = (db', won)" "distinct (job_ids db)"
  shows "won \<longleftrightarrow> stat db jid = Some Queued" "job_ids db' = job_ids db"
    "stat db' = (if won then (stat db)(jid := Some Running) else stat db)"
    "job_seqs db' k = (if won \<and> k = jid then job_seqs db jid @ [next_seq (job_seqs db jid)] else job_seqs db k)"
    "starts db' k = starts db k + (if won \<and> k = jid then 1 else 0)"
proof -
  let ?P = "\<lambda>r. jr_id r = jid \<and> jr_status r = Queued"
  let ?f = "\<lambda>r. r\<lparr>jr_status := Running, jr_started_at := Some now, jr_worker_pid := Some pid,
                   jr_heartbeat_at := Some now\<rparr>"
  let ?db1 = "update_jobs ?P ?f db"
  have r: "(db', won) = (if stat db jid \<noteq> Some Queued then (?db1, False)
      else (fst (persist_event ?db1 jid (plain_event ''job_started'' now JNull) None), True))"
    unfolding assms(1) [symmetric] take_job_def Let_def row_count_queued [OF assms(2)] by simp
  have st: "stat ?db1 k = (if k = jid then map_option (\<lambda>st. if st = Queued then Running else st) (stat db jid)
      else stat db k)" for k
    by (rule stat_update) auto
  show won: "won \<longleftrightarrow> stat db jid = Some Queued" using r by (simp split: if_splits)
  have db': "db' = (if won then fst (persist_event ?db1 jid (plain_event ''job_started'' now JNull) None) else ?db1)"
    using r won by (simp split: if_splits)
  show "job_ids db' = job_ids db" by (simp add: db' job_ids_update)
  have "stat ?db1 = (if won then (stat db)(jid := Some Running) else stat db)"
    using won by (cases "stat db jid") (simp_all add: fun_eq_iff st)
  then show "stat db' = (if won then (stat db)(jid := Some Running) else stat db)" by (simp add: db')
  show "job_seqs db' k = (if won \<and> k = jid then job_seqs db jid @ [next_seq (job_seqs db jid)] else job_seqs db k)"
    by (simp add: db' persist_seqs)
  show "starts db' k = starts db k + (if won \<and> k = jid then 1 else 0)"
    by (simp add: db' starts_persist plain_event_def)
qed

lemma emit_effect:
  "stat (emit_event jid ev db) = stat db" "job_ids (emit_event jid ev db) = job_ids db"
  "starts (emit_event jid ev db) k = starts db k + (if k = jid \<and> ev_type ev = ''job_started'' then 1 else 0)"
  by (simp_all add: emit_event_def starts_persist)

lemma heartbeat_effect:
  "stat (heartbeat jid now db) = stat db" "job_ids (heartbeat jid now db) = job_ids db"
  "job_seqs (heartbeat jid now db) = job_seqs db" "starts (heartbeat jid now db) = starts db"
  by (simp_all add: heartbeat_def job_ids_update)
     (rule stat_update_same; simp)

lemma terminate_effect:
  "stat (terminate r status err now q db) k
   = (if k = rec_id r then map_option (\<lambda>_. status) (stat db k) else stat db k)"
  "job_ids (terminate r status err now q db) = job_ids db"
  "job_seqs (terminate r status err now q db) k
   = (if k = rec_id r then job_seqs db k @ [next_seq (job_seqs db k)] else job_seqs db k)"
  "starts (terminate r status err now q db) = starts db"
  by (simp_all add: terminate_def job_ids_update persist_seqs fun_eq_iff starts_persist terminal_event_def
      plain_event_def stat_update_all [where st = status]
      split: job_status.splits)

lemma interrupt_effect:
  "stat (interrupt_stale now jid db) k
   = (if k = jid then map_option (\<lambda>st. if st = Running then Interrupted else st) (stat db k) else stat db k)"
  "job_ids (interrupt_stale now jid db) = job_ids db"
  "job_seqs (interrupt_stale now jid db) k
   = (if k = jid then job_seqs db k @ [next_seq (job_seqs db k)] else job_seqs db k)"
  "starts (interrupt_stale now jid db) = starts db"
  by (simp_all add: interrupt_stale_def job_ids_update persist_seqs fun_eq_iff starts_persist
      plain_event_def stat_update [where g = "\<lambda>_. Interrupted" and jid = jid and Q = "\<lambda>st. st = Running"])

lemmas queue_effects = cancel_effect emit_effect heartbeat_effect terminate_effect interrupt_effect
  event_log.append_seqs

section \<open>The invariant of the queue\<close>

definition queue_ok :: "queue \<Rightarrow> bool" where
  "queue_ok q \<longleftrightarrow>
     distinct (job_ids (q_db q))
     \<and> (\<forall>jid. gap_free (job_seqs (q_db q) jid))
     \<and> (\<forall>jid. stat (q_db q) jid = None \<longrightarrow> job_seqs (q_db q) jid = [])
     \<and> (\<forall>jid. starts (q_db q) jid = (if stat (q_db q) jid \<in> {None, Some Queued} then 0 else 1))
     \<and> (\<forall>w jid. q_running q w = Some jid \<longrightarrow> stat (q_db q) jid \<notin> {None, Some Queued})
     \<and> (\<forall>w w' jid. q_running q w = Some jid \<longrightarrow> q_running q w' = Some jid \<longrightarrow> w = w')
     \<and> (\<forall>w jid. jid \<in> set (q_stale q w) \<longrightarrow> stat (q_db q) jid \<notin> {None, Some Queued})"

lemma queue_okD:
  assumes "queue_ok q"
  shows "distinct (job_ids (q_db q))" "gap_free (job_seqs (q_db q) jid)"
    "stat (q_db q) jid = None \<Longrightarrow> job_seqs (q_db q) jid = []"
    "starts (q_db q) jid = (if stat (q_db q) jid \<in> {None, Some Queued} then 0 else 1)"
    "q_running q w = Some jid \<Longrightarrow> stat (q_db q) jid \<notin> {None, Some Queued}"
    "q_running q w = Some jid \<Longrightarrow> q_running q w' = Some jid \<Longrightarrow> w = w'"
    "jid \<in> set (q_stale q w) \<Longrightarrow> stat (q_db q) jid \<notin> {None, Some Queued}"
  using assms unfolding queue_ok_def by blast+

text \<open>
  A database step that keeps ids, numbers like an append (or not at all), starts no job, and moves
  no job into or out of the queue keeps the invariant, whatever happens to the workers' bookkeeping.
\<close>

lemma queue_ok_db:
  assumes ok: "queue_ok q"
    and ids: "job_ids db = job_ids (q_db q)"
    and seqs: "\<And>k. job_seqs db k = job_seqs (q_db q) k \<or>
        (stat (q_db q) k \<noteq> None \<and> job_seqs db k = job_seqs (q_db q) k @ [next_seq (job_seqs (q_db q) k)])"
    and starts: "\<And>k. starts db k = starts (q_db q) k"
    and stat: "\<And>k. (stat db k \<in> {None, Some Queued}) = (stat (q_db q) k \<in> {None, Some Queued})"
    and running: "\<And>w. running w = q_running q w \<or> running w = None"
    and stale: "\<And>w. set (stale w) \<subseteq> set (q_stale q w) \<or>
        (\<forall>jid \<in> set (stale w). stat (q_db q) jid \<notin> {None, Some Queued})"
  shows "queue_ok \<lparr>q_db = db, q_picked = picked, q_running = running, q_stale = stale\<rparr>"
  unfolding queue_ok_def queue.simps
proof (intro conjI allI impI)
  show "distinct (job_ids db)" using queue_okD(1) [OF ok] ids by simp
  fix k
  show "gap_free (job_seqs db k)" using seqs [of k] queue_okD(2) [OF ok, of k] gap_free_snoc by auto
  show "starts db k = (if stat db k \<in> {None, Some Queued} then 0 else 1)"
    using starts stat queue_okD(4) [OF ok, of k] by simp
  have none: "stat db k = None \<longleftrightarrow> stat (q_db q) k = None" by (simp add: stat_None ids)
  show "job_seqs db k = []" if "stat db k = None"
    using that none seqs [of k] queue_okD(3) [OF ok, of k] by auto
  fix w
  show "stat db k \<notin> {None, Some Queued}" if "running w = Some k"
    using that running [of w] queue_okD(5) [OF ok, of w k] stat [of k] by auto
  show "stat db k \<notin> {None, Some Queued}" if "k \<in> set (stale w)"
    using that stale [of w] queue_okD(7) [OF ok, of k w] stat [of k] by blast
  fix w'
  show "w = w'" if "running w = Some k" "running w' = Some k"
    using that running [of w] running [of w'] queue_okD(6) [OF ok, of w k w'] by auto
qed

lemma init_queue_ok: "queue_ok init_queue"
  by (simp add: queue_ok_def init_queue_def job_ids_def jb_jobs_def job_seqs_def stat_def statuses_def starts_def)

lemma submit_ok:
  assumes ok: "queue_ok q" and s: "submit jid now t j force (q_db q) = Some db"
  shows "queue_ok (q\<lparr>q_db := db\<rparr>)"
  unfolding queue_ok_def
proof (intro conjI allI impI)
  note e = submit_effect [OF s]
  have new: "jid \<notin> set (job_ids (q_db q))" using e(1) by (simp add: stat_None)
  show "distinct (job_ids (q_db (q\<lparr>q_db := db\<rparr>)))" using e(2) new queue_okD(1) [OF ok] by simp
  have none: "job_seqs (q_db q) jid = []" "starts (q_db q) jid = 0"
    using queue_okD(3,4) [OF ok, of jid] e(1) by simp_all
  fix k
  show "gap_free (job_seqs (q_db (q\<lparr>q_db := db\<rparr>)) k)"
    using queue_okD(2) [OF ok, of k] none(1) by (simp add: e(4)) (simp add: gap_free_def)
  show "job_seqs (q_db (q\<lparr>q_db := db\<rparr>)) k = []" if "stat (q_db (q\<lparr>q_db := db\<rparr>)) k = None"
    using that queue_okD(3) [OF ok, of k] by (simp add: e(3,4) split: if_splits)
  show "starts (q_db (q\<lparr>q_db := db\<rparr>)) k = (if stat (q_db (q\<lparr>q_db := db\<rparr>)) k \<in> {None, Some Queued} then 0 else 1)"
    using queue_okD(4) [OF ok, of k] none(2) e(1) by (simp add: e(3,5))
  fix w
  show "stat (q_db (q\<lparr>q_db := db\<rparr>)) k \<notin> {None, Some Queued}" if "q_running (q\<lparr>q_db := db\<rparr>) w = Some k"
    using that queue_okD(5) [OF ok, of w k] e(1) by (auto simp: e(3))
  show "stat (q_db (q\<lparr>q_db := db\<rparr>)) k \<notin> {None, Some Queued}" if "k \<in> set (q_stale (q\<lparr>q_db := db\<rparr>) w)"
    using that queue_okD(7) [OF ok, of k w] e(1) by (auto simp: e(3))
  fix w'
  show "w = w'" if "q_running (q\<lparr>q_db := db\<rparr>) w = Some k" "q_running (q\<lparr>q_db := db\<rparr>) w' = Some k"
    using that queue_okD(6) [OF ok, of w k w'] by simp
qed

lemma won_ok:
  assumes ok: "queue_ok q" and t: "take_job pid now jid (q_db q) = (db, True)"
  shows "queue_ok (q\<lparr>q_db := db, q_picked := p, q_running := (q_running q)(w := Some jid)\<rparr>)"
    (is "queue_ok ?q")
  unfolding queue_ok_def
proof (intro conjI allI impI)
  note e = take_effect [OF t queue_okD(1) [OF ok], simplified]
  have idle: "q_running q v \<noteq> Some jid" for v using queue_okD(5) [OF ok, of v jid] e(1) by auto
  show "distinct (job_ids (q_db ?q))" using e(2) queue_okD(1) [OF ok] by simp
  fix k
  show "gap_free (job_seqs (q_db ?q) k)" using queue_okD(2) [OF ok, of k] by (auto simp: e(4) gap_free_snoc)
  show "job_seqs (q_db ?q) k = []" if "stat (q_db ?q) k = None"
    using that queue_okD(3) [OF ok, of k] by (auto simp: e(3,4) split: if_splits)
  show "starts (q_db ?q) k = (if stat (q_db ?q) k \<in> {None, Some Queued} then 0 else 1)"
    using queue_okD(4) [OF ok, of k] e(1) by (simp add: e(3,5))
  fix v
  show "stat (q_db ?q) k \<notin> {None, Some Queued}" if "q_running ?q v = Some k"
    using that queue_okD(5) [OF ok, of v k] by (auto simp: e(3) split: if_splits)
  show "stat (q_db ?q) k \<notin> {None, Some Queued}" if "k \<in> set (q_stale ?q v)"
    using that queue_okD(7) [OF ok, of k v] by (auto simp: e(3))
  fix v'
  show "v = v'" if "q_running ?q v = Some k" "q_running ?q v' = Some k"
    using that queue_okD(6) [OF ok, of v k v'] idle by (auto split: if_splits)
qed

lemma step_ok:
  assumes ok: "queue_ok q" and s: "step q q'"
  shows "queue_ok q'"
  using s
proof (cases rule: step.cases)
  case (submit jid now t j force db)
  then show ?thesis using submit_ok [OF ok] by simp
next
  case (cancel jid)
  have "queue_ok \<lparr>q_db = fst (cancel_job jid (q_db q)), q_picked = q_picked q, q_running = q_running q, q_stale = q_stale q\<rparr>"
    by (rule queue_ok_db [OF ok]) (simp_all add: queue_effects)
  then show ?thesis using cancel by (cases q) simp
next
  case (pick w)
  have "queue_ok \<lparr>q_db = q_db q, q_picked = (q_picked q)(w := pick_queued (q_db q)), q_running = q_running q, q_stale = q_stale q\<rparr>"
    by (rule queue_ok_db [OF ok]) simp_all
  then show ?thesis using pick by (cases q) simp
next
  case (take w jid pid now db won)
  note e = take_effect [OF take(4) queue_okD(1) [OF ok]]
  show ?thesis
  proof (cases won)
    case True
    then have "take_job pid now jid (q_db q) = (db, True)" using take(4) by simp
    from won_ok [OF ok this] show ?thesis using take(1) True by simp
  next
    case False
    have "queue_ok \<lparr>q_db = db, q_picked = (q_picked q)(w := None), q_running = (q_running q)(w := None), q_stale = q_stale q\<rparr>"
      by (rule queue_ok_db [OF ok]) (use False e in simp_all)
    then show ?thesis using take(1) False by (cases q) simp
  qed
next
  case (emit w jid ev)
  have "queue_ok \<lparr>q_db = emit_event jid ev (q_db q), q_picked = q_picked q, q_running = q_running q, q_stale = q_stale q\<rparr>"
    by (rule queue_ok_db [OF ok])
       (use emit(3) queue_okD(5) [OF ok emit(2)] in \<open>auto simp: queue_effects event_log.append_seqs\<close>)
  then show ?thesis using emit(1) by (cases q) simp
next
  case (beat w jid now)
  have "queue_ok \<lparr>q_db = heartbeat jid now (q_db q), q_picked = q_picked q, q_running = q_running q, q_stale = q_stale q\<rparr>"
    by (rule queue_ok_db [OF ok]) (simp_all add: queue_effects)
  then show ?thesis using beat(1) by (cases q) simp
next
  case (finish w r status err now quality)
  have "queue_ok \<lparr>q_db = terminate r status err now quality (q_db q), q_picked = q_picked q,
      q_running = (q_running q)(w := None), q_stale = q_stale q\<rparr>"
    by (rule queue_ok_db [OF ok])
       (use finish(3) queue_okD(5) [OF ok finish(2)] in \<open>auto simp: queue_effects\<close>)
  then show ?thesis using finish(1) by (cases q) simp
next
  case (crash w)
  have "queue_ok \<lparr>q_db = q_db q, q_picked = (q_picked q)(w := None), q_running = (q_running q)(w := None),
      q_stale = (q_stale q)(w := [])\<rparr>"
    by (rule queue_ok_db [OF ok]) simp_all
  then show ?thesis using crash by (cases q) simp
next
  case (scan w alive now)
  have "\<forall>jid \<in> set (scan_stale alive now (q_db q)). stat (q_db q) jid = Some Running"
  proof
    fix jid assume "jid \<in> set (scan_stale alive now (q_db q))"
    then obtain r where "r \<in> set (jb_jobs (q_db q))" "jr_id r = jid" "jr_status r = Running"
      by (auto simp: scan_stale_def)
    then have "(jid, Running) \<in> set (statuses (q_db q))" by (force simp: statuses_def)
    moreover have "distinct (map fst (statuses (q_db q)))"
      using queue_okD(1) [OF ok] by (simp add: statuses_def job_ids_def comp_def)
    ultimately show "stat (q_db q) jid = Some Running" by (simp add: stat_def)
  qed
  then have "queue_ok \<lparr>q_db = q_db q, q_picked = q_picked q, q_running = q_running q,
      q_stale = (q_stale q)(w := scan_stale alive now (q_db q))\<rparr>"
    by (intro queue_ok_db [OF ok]) auto
  then show ?thesis using scan by (cases q) simp
next
  case (reclaim w jid rest now)
  have "stat (q_db q) jid \<notin> {None, Some Queued}" using queue_okD(7) [OF ok, of jid w] reclaim(2) by simp
  moreover have "queue_ok \<lparr>q_db = interrupt_stale now jid (q_db q), q_picked = q_picked q, q_running = q_running q,
      q_stale = (q_stale q)(w := rest)\<rparr>"
    by (rule queue_ok_db [OF ok])
       (use calculation reclaim(2) in \<open>auto simp: queue_effects split: option.splits if_splits\<close>)
  ultimately show ?thesis using reclaim(1) by (cases q) simp
qed

lemma reachable_ok: "reachable q \<Longrightarrow> queue_ok q"
  by (induction rule: reachable.induct) (auto intro: init_queue_ok step_ok)

section \<open>Properties of the queue\<close>

lemma gap_free_rows:
  assumes "map er_seq rows = map int [0..<length rows]"
  shows "filter (\<lambda>r. int n - 1 < er_seq r) rows = drop n rows"
proof -
  have seq: "er_seq (rows ! i) = int i" if "i < length rows" for i
    using arg_cong [OF assms, of "\<lambda>xs. xs ! i"] that by simp
  have "filter (\<lambda>r. int n - 1 < er_seq r) (take n rows) = []"
    by (auto simp: filter_empty_conv in_set_conv_nth seq)
  moreover have "filter (\<lambda>r. int n - 1 < er_seq r) (drop n rows) = drop n rows"
    by (rule filter_True) (auto simp: in_set_conv_nth seq)
  ultimately show ?thesis
    by (metis append_Nil append_take_drop_id filter_append)
qed

text \<open>
  C1: the event stream of a job. Whatever API calls and workers interleave, the events of a job carry the
  numbers 0, 1, 2, ... in the order they were committed, and tailing the log after number n - 1
  yields exactly the events from the n-th on: nothing is skipped, repeated or reordered.
\<close>

theorem event_log_gap_free:
  assumes "reachable q"
  shows "job_seqs (q_db q) jid = map int [0..<length (job_seqs (q_db q) jid)]
    \<and> load_events (q_db q) jid (int n - 1)
      = drop n (map er_event (filter (\<lambda>r. er_job_id r = jid) (jb_events (q_db q))))"
proof
  let ?rows = "filter (\<lambda>r. er_job_id r = jid) (jb_events (q_db q))"
  show seqs: "job_seqs (q_db q) jid = map int [0..<length (job_seqs (q_db q) jid)]"
    using queue_okD(2) [OF reachable_ok [OF assms]] by (simp add: gap_free_def)
  then have rows: "map er_seq ?rows = map int [0..<length ?rows]" by (simp add: job_seqs_def)
  have "filter (\<lambda>r. er_job_id r = jid \<and> int n - 1 < er_seq r) (jb_events (q_db q)) = drop n ?rows"
    using gap_free_rows [OF rows, of n] by (simp add: conj_commute)
  moreover have "sorted (map er_seq (drop n ?rows))"
    unfolding drop_map [symmetric] rows by (simp add: drop_map sorted_map)
  ultimately show "load_events (q_db q) jid (int n - 1) = drop n (map er_event ?rows)"
    by (simp add: load_events_def sort_key_id_if_sorted drop_map)
qed

text \<open>
  C2: no double claim. However the SELECT and UPDATE halves of the claims of several workers
  interleave, a job is started at most once in its life, and two workers never run the same job.
\<close>

theorem job_claimed_once:
  assumes "reachable q"
  shows "starts (q_db q) jid \<le> 1
    \<and> (q_running q w = Some jid \<longrightarrow> q_running q w' = Some jid \<longrightarrow> w = w')"
  using queue_okD(4) [OF reachable_ok [OF assms], of jid] queue_okD(6) [OF reachable_ok [OF assms], of w jid w']
  by auto

lemma find_job_update:
  assumes "\<And>row. jr_id (f row) = jr_id row"
  shows "find_job (update_jobs (\<lambda>row. jr_id row = k) f db) k = map_option f (find_job db k)"
proof -
  have "find (\<lambda>row. jr_id row = k) (map (\<lambda>row. if jr_id row = k then f row else row) rows)
      = map_option f (find (\<lambda>row. jr_id row = k) rows)" for rows
    using assms by (induction rows) auto
  then show ?thesis by (simp add: find_job_def update_jobs_def jb_jobs_def)
qed

lemma find_job_persist: "find_job (fst (persist_event db jid ev seq)) k = find_job db k"
  by (simp add: find_job_def)

text \<open>
  what a finished job leaves in its row is what a later read returns: status, error, time, every
  node hash, and the outputs apart from their display-ready flag, which the row does not hold.
\<close>

theorem terminate_then_get:
  assumes "find_job db (rec_id r) \<noteq> None"
  shows "\<exists>r'. get_job (rec_id r) (terminate r status err now quality db) = Some (Some r')
    \<and> rec_status r' = status \<and> rec_error r' = err \<and> rec_finished_at r' = Some now
    \<and> rec_node_hashes r' = rec_node_hashes r
    \<and> rec_outputs r' = map_option (map (\<lambda>(k, v). (k, v\<lparr>r_display_ready := False\<rparr>))) (rec_outputs r)"
proof -
  let ?f = "\<lambda>row. row\<lparr>jr_status := status, jr_outputs := outputs_to_json (rec_outputs r), jr_error := err,
                     jr_finished_at := Some now, jr_node_hashes := node_hashes_to_json (rec_node_hashes r),
                     jr_quality := (case (status, quality) of
                        (Completed, Some q) \<Rightarrow> Json_Col q | _ \<Rightarrow> Null_Col)\<rparr>"
  obtain row where row: "find_job db (rec_id r) = Some row" using assms by auto
  have now: "find_job (terminate r status err now quality db) (rec_id r) = Some (?f row)"
    unfolding terminate_def find_job_persist
    by (subst find_job_update) (simp_all add: row)
  have refs: "refs_from_items (map (\<lambda>(k, v). (k, JDict
          [(''path'', JStr (r_path v)), (''type'', JStr (port_type_value (r_type v))),
           (''node_hash'', JStr (r_node_hash v)), (''port'', JStr (r_port v))])) out)
      = Some (map (\<lambda>(k, v). (k, v\<lparr>r_display_ready := False\<rparr>)) out)" for out
    by (induction out) auto
  have outs: "outputs_from_json (outputs_to_json (rec_outputs r))
      = Some (map_option (map (\<lambda>(k, v). (k, v\<lparr>r_display_ready := False\<rparr>))) (rec_outputs r))"
    by (cases "rec_outputs r") (simp_all add: outputs_from_json_def outputs_to_json_def refs)
  have "string_items (map (\<lambda>(k, v). (k, JStr v)) hs) = hs" for hs
    by (induction hs) (auto simp: string_items_def List.map_filter_def)
  then have hashes: "node_hashes_from_json (node_hashes_to_json (rec_node_hashes r)) t = rec_node_hashes r" for t
    by (simp add: node_hashes_from_json_def node_hashes_to_json_def)
  show ?thesis
    unfolding get_job_def now by (simp add: row_to_record_def outs hashes)
qed

lemma persist_all_effect:
  "stat (persist_all clock n jid ps db) = stat db" "jb_jobs (persist_all clock n jid ps db) = jb_jobs db"
  by (induction ps arbitrary: n db) (simp_all add: emit_effect emit_event_def)

lemma run_claimed_cases:
  assumes "run_claimed w env cancel r db c = Some (db', c')"
  obtains (queued) "read_cancel (rec_id r) db" "c' = c"
      "db' = terminate r Interrupted (Some ''cancelled while queued'') (w_clock w 0) None db"
  | (ran) r1 :: job_record and st err now q and s :: run_state where "\<not> read_cancel (rec_id r) db" "rec_id r1 = rec_id r"
      "st \<in> {Completed, Failed, Interrupted}" "c' = fst (release_job_marks (rs_cache s) (rec_id r))"
      "db' = terminate r1 st err now q (persist_all (w_clock w) 0 (rec_id r) (rs_events s) db)"
proof (cases "read_cancel (rec_id r) db")
  case True
  then show ?thesis using assms queued by (auto simp: run_claimed_def)
next
  case False
  then obtain budget where b: "cache_budget w db = Some budget"
    using assms by (auto simp: run_claimed_def split: option.splits)
  let ?opts = "\<lparr>o_profile = None, o_force = rec_force r, o_job_id = Some (rec_id r),
     o_cache_max_bytes = Some budget, o_cancel = cancel\<rparr>"
  obtain s res where run: "run_job (env\<lparr>e_db := jb_db db\<rparr>) ?opts (rec_template r) (rec_job r)
      (sweep_cache w (e_registry env) db c) = (s, res)" by fastforce
  obtain st err where v: "verdict w res = (st, err)" by fastforce
  have st: "st \<in> {Completed, Failed, Interrupted}"
    using v by (auto simp: verdict_def split: sum.splits run_error.splits)
  let ?r1 = "r\<lparr>rec_node_hashes := fold note_hash (rs_events s) (rec_node_hashes r),
               rec_outputs := (case res of Inr out \<Rightarrow> Some out | Inl _ \<Rightarrow> rec_outputs r)\<rparr>"
  let ?db1 = "persist_all (w_clock w) 0 (rec_id r) (rs_events s) db"
  have "db' = terminate ?r1 st err (w_clock w (length (rs_events s)))
      (if st = Completed then w_quality w ?r1 (load_events ?db1 (rec_id r) (-1)) else None) ?db1"
    "c' = fst (release_job_marks (rs_cache s) (rec_id r))"
    using assms by (simp_all add: run_claimed_def False b run v Let_def)
  then show ?thesis by (intro ran [OF False _ st]) simp_all
qed

text \<open>
  C29: a job that ran has ended. Whenever \<open>_run\<close> returns, the row is completed, failed or interrupted,
  the last event of the log is the matching terminal event, and no cache entry is marked in use by the
  job any more, unless it was cancelled before it started, when the cache is untouched.
\<close>

theorem run_claimed_ends_job:
  assumes "run_claimed w env cancel r db c = Some (db', c')" "stat db (rec_id r) \<noteq> None"
  shows "\<exists>status \<in> {Completed, Failed, Interrupted}. stat db' (rec_id r) = Some status
      \<and> ev_type (er_event (last (jb_events db'))) = ev_type (terminal_event status '''' None)
      \<and> er_job_id (last (jb_events db')) = rec_id r
      \<and> (if read_cancel (rec_id r) db then status = Interrupted \<and> c' = c
         else rec_id r \<notin> set (in_use_by c' h))"
proof -
  have ends: "stat (terminate r1 st err now q d) (rec_id r1) = Some st
      \<and> ev_type (er_event (last (jb_events (terminate r1 st err now q d)))) = ev_type (terminal_event st '''' None)
      \<and> er_job_id (last (jb_events (terminate r1 st err now q d))) = rec_id r1"
    if "stat d (rec_id r1) \<noteq> None" for r1 st err now q d
    using that
    by (auto simp: terminate_effect) (simp_all add: terminate_def persist_event_def Let_def terminal_event_def
        plain_event_def split: job_status.splits)
  from assms(1) show ?thesis
  proof (cases rule: run_claimed_cases)
    case queued
    then show ?thesis
      using ends [OF assms(2), of Interrupted "Some ''cancelled while queued''" "w_clock w 0" None] by auto
  next
    case (ran r1 st err now q s)
    have "stat (persist_all (w_clock w) 0 (rec_id r) (rs_events s) db) (rec_id r1) \<noteq> None"
      using assms(2) by (simp add: persist_all_effect ran(2))
    note e = ends [OF this, of st err now q, folded ran(5), unfolded ran(2)]
    show ?thesis
      by (intro bexI [OF _ ran(3)]) (use e ran(1) release_clears [of "rec_id r" "rs_cache s" h, folded ran(4)] in simp)
  qed
qed

lemma run_loop_cong:
  "(\<And>m p. n \<le> m \<Longrightarrow> sig m p = sig' m p) \<Longrightarrow>
   run_loop w env pid sig cancel fuel n db c sd = run_loop w env pid sig' cancel fuel n db c sd"
proof (induction fuel arbitrary: n db c sd)
  case (Suc fuel)
  have now: "sig n p = sig' n p" for p using Suc.prems by simp
  have later: "run_loop w env pid sig cancel fuel (Suc n) db c sd = run_loop w env pid sig' cancel fuel (Suc n) db c sd"
    for db c sd by (rule Suc.IH) (simp add: Suc.prems)
  show ?case by (simp only: run_loop.simps now later)
qed simp

text \<open>Signals of a worker whose only signal comes while its first job runs.\<close>

definition during_first_job :: "(shutdown \<Rightarrow> shutdown) \<Rightarrow> nat \<Rightarrow> nat \<Rightarrow> shutdown \<Rightarrow> shutdown" where
  "during_first_job f n p = (if n = 0 \<and> p = 2 then f else id)"

lemma run_loop_stopped:
  "sd_stop sd \<Longrightarrow> run_loop w env pid (during_first_job f) cancel fuel (Suc n) db c sd = (db, c, sd)"
  by (cases fuel) (simp_all add: during_first_job_def)

text \<open>
  SIGTERM does not cancel the job in flight. The module promises that SIGUSR1 drains and that SIGTERM
  drains and cancels the running job. The loop looks at \<open>cancel_current\<close> only right after a claim, and a
  signal during the job also stops the loop, so a worker that gets SIGTERM while it runs its
  job does to the database and the cache exactly what it would do on SIGUSR1.
\<close>

theorem sigterm_during_job_only_drains:
  "fst (run_loop w env pid (during_first_job on_term) cancel fuel 0 db c \<lparr>sd_stop = False, sd_cancel_current = False\<rparr>)
     = fst (run_loop w env pid (during_first_job on_usr1) cancel fuel 0 db c \<lparr>sd_stop = False, sd_cancel_current = False\<rparr>)
   \<and> fst (snd (run_loop w env pid (during_first_job on_term) cancel fuel 0 db c \<lparr>sd_stop = False, sd_cancel_current = False\<rparr>))
     = fst (snd (run_loop w env pid (during_first_job on_usr1) cancel fuel 0 db c \<lparr>sd_stop = False, sd_cancel_current = False\<rparr>))"
proof (cases fuel)
  case (Suc k)
  have quiet: "during_first_job f 0 p sd = sd" if "p \<noteq> 2" for f p sd
    using that by (simp add: during_first_job_def)
  have idle: "run_loop w env pid (during_first_job on_term) cancel k 1 d c sd
      = run_loop w env pid (during_first_job on_usr1) cancel k 1 d c sd" for d sd
    by (rule run_loop_cong) (simp add: during_first_job_def)
  have stops: "sd_stop (during_first_job on_term 0 2 sd)" "sd_stop (during_first_job on_usr1 0 2 sd)" for sd
    by (simp_all add: during_first_job_def on_term_def on_usr1_def)
  show ?thesis
    unfolding Suc
    by (simp add: quiet idle [simplified] Let_def split_beta run_loop_stopped [OF stops(1)] run_loop_stopped [OF stops(2)]
        split: option.split)
qed simp

lemma reclaim_fold:
  "fold (\<lambda>jid (db, c). (interrupt_stale finished jid db, fst (release_job_marks c jid))) ids (db, c) = (db', c') \<Longrightarrow>
   jb_jobs db' = map (\<lambda>r. if jr_id r \<in> set ids \<and> jr_status r = Running
      then r\<lparr>jr_status := Interrupted, jr_error := Some CRASHED, jr_finished_at := Some finished\<rparr> else r) (jb_jobs db)"
proof (induction ids arbitrary: db c)
  case (Cons jid ids)
  have one: "jb_jobs (interrupt_stale finished jid db) = map (\<lambda>r. if jr_id r = jid \<and> jr_status r = Running
      then r\<lparr>jr_status := Interrupted, jr_error := Some CRASHED, jr_finished_at := Some finished\<rparr> else r) (jb_jobs db)"
    by (simp add: interrupt_stale_def) (simp add: update_jobs_def jb_jobs_def)
  have "jb_jobs db' = map (\<lambda>r. if jr_id r \<in> set ids \<and> jr_status r = Running
      then r\<lparr>jr_status := Interrupted, jr_error := Some CRASHED, jr_finished_at := Some finished\<rparr> else r)
      (jb_jobs (interrupt_stale finished jid db))"
    by (rule Cons.IH) (use Cons.prems in simp)
  then show ?case unfolding one by auto
qed simp

text \<open>
  what a worker start-up leaves. After \<open>reclaim_stale\<close> no running row is stale any more; rows that
  are not running, or whose worker is alive with a fresh heartbeat, are as they were; and the count it
  returns is the number of stale rows.
\<close>

theorem reclaim_stale_complete:
  assumes "reclaim_stale alive now finished (db, c) = ((db', c'), n)"
  shows "scan_stale alive now db' = [] \<and> n = length (scan_stale alive now db)
    \<and> (\<forall>r \<in> set (jb_jobs db). jr_id r \<notin> set (scan_stale alive now db) \<or> jr_status r \<noteq> Running \<longrightarrow> r \<in> set (jb_jobs db'))"
proof -
  let ?ids = "scan_stale alive now db"
  let ?f = "\<lambda>r. if jr_id r \<in> set ?ids \<and> jr_status r = Running
      then r\<lparr>jr_status := Interrupted, jr_error := Some CRASHED, jr_finished_at := Some finished\<rparr> else r"
  have n: "n = length ?ids" and jobs: "jb_jobs db' = map ?f (jb_jobs db)"
    using assms reclaim_fold [of finished ?ids db c db' c'] by (auto simp: reclaim_stale_def Let_def)
  let ?P = "\<lambda>r. jr_status r = Running \<and>
      \<not> ((case jr_worker_pid r of None \<Rightarrow> False | Some pid \<Rightarrow> alive pid) \<and> \<not> stale_by_time now r)"
  have row: "\<not> ?P (?f r)" if "r \<in> set (jb_jobs db)" for r
  proof (cases "?P r")
    case True
    then have "jr_id r \<in> set ?ids" using that by (auto simp: scan_stale_def)
    then show ?thesis using True by simp
  next
    case False
    then show ?thesis by auto
  qed
  have "\<not> ?P r'" if "r' \<in> set (jb_jobs db')" for r'
  proof -
    from that obtain r where r: "r \<in> set (jb_jobs db)" "r' = ?f r" unfolding jobs by auto
    show ?thesis unfolding r(2) by (rule row [OF r(1)])
  qed
  then have "filter ?P (jb_jobs db') = []" by (simp only: filter_empty_conv) blast
  then have "scan_stale alive now db' = []" by (simp only: scan_stale_def list.map(1))
  moreover have "r \<in> set (jb_jobs db')"
    if "r \<in> set (jb_jobs db)" "jr_id r \<notin> set ?ids \<or> jr_status r \<noteq> Running" for r
    unfolding jobs using that by force
  ultimately show ?thesis using n by blast
qed

section \<open>Instances\<close>

definition q_submitted :: queue where
  "q_submitted = init_queue\<lparr>q_db := the (submit ''j'' ''t0'' demo_chain demo_job False (q_db init_queue))\<rparr>"

definition q_claimed :: queue where
  "q_claimed = q_submitted\<lparr>q_db := fst (take_job 7 ''t1'' ''j'' (q_db q_submitted)),
     q_picked := (\<lambda>_. None)(1 := Some ''j'', 1 := None), q_running := (\<lambda>_. None)(1 := Some ''j'')\<rparr>"

text \<open>Worker 2 scans while worker 1, whose process it takes for dead, still runs the job.\<close>

definition q_scanned :: queue where
  "q_scanned = q_claimed\<lparr>q_stale := (\<lambda>_. [])(2 := scan_stale (\<lambda>_. False) 0 (q_db q_claimed))\<rparr>"

definition demo_record :: job_record where
  "demo_record =
     \<lparr>rec_id = ''j'', rec_status = Running, rec_template = demo_chain, rec_job = demo_job,
      rec_submitted_at = ''t0'', rec_started_at = Some ''t1'', rec_finished_at = None,
      rec_outputs = Some [(''image'', demo_ref)], rec_error = None, rec_force = False, rec_quality = None,
      rec_node_hashes = [(''src'', ''28''), (''finish'', ''46'')]\<rparr>"

definition q_finished :: queue where
  "q_finished = q_scanned\<lparr>q_db := terminate demo_record Completed None ''t2'' None (q_db q_scanned),
     q_running := (q_running q_scanned)(1 := None)\<rparr>"

definition q_reclaimed :: queue where
  "q_reclaimed = q_finished\<lparr>q_db := interrupt_stale ''t3'' ''j'' (q_db q_finished), q_stale := (q_stale q_finished)(2 := [])\<rparr>"

lemma demo_queue:
  "submit ''j'' ''t0'' demo_chain demo_job False (q_db init_queue) = Some (q_db q_submitted)"
  "pick_queued (q_db q_submitted) = Some ''j''"
  "snd (take_job 7 ''t1'' ''j'' (q_db q_submitted))"
  "scan_stale (\<lambda>_. False) 0 (q_db q_claimed) = [''j'']"
  by code_simp+

lemma q_claimed_reachable: "reachable q_claimed"
proof -
  have s: "reachable q_submitted"
    using reachable.next_state [OF reachable.start step.submit [OF demo_queue(1)]]
    by (simp add: q_submitted_def demo_queue(1) [unfolded q_submitted_def, symmetric])
  have idle: "q_running q_submitted = (\<lambda>_. None)" "q_picked q_submitted = (\<lambda>_. None)"
    by (simp_all add: q_submitted_def init_queue_def)
  let ?p = "q_submitted\<lparr>q_picked := (q_picked q_submitted)(1 := pick_queued (q_db q_submitted))\<rparr>"
  have p: "reachable ?p"
    by (rule reachable.next_state [OF s step.pick]) (simp add: idle)
  obtain db where t: "take_job 7 ''t1'' ''j'' (q_db q_submitted) = (db, True)"
    using demo_queue(3) by (cases "take_job 7 ''t1'' ''j'' (q_db q_submitted)") auto
  have "step ?p (?p\<lparr>q_db := db, q_picked := (q_picked ?p)(1 := None), q_running := (q_running ?p)(1 := Some ''j'')\<rparr>)"
    using step.take [of ?p 1 "''j''" 7 "''t1''" db True] t demo_queue(2) by (simp add: idle)
  from reachable.next_state [OF p this] show ?thesis
    by (simp add: q_claimed_def t idle demo_queue(2))
qed

lemma event_log_gap_free_witness:
  "job_seqs (q_db q_claimed) ''j'' = [0, 1]
   \<and> map ev_type (load_events (q_db q_claimed) ''j'' (int 1 - 1)) = [''job_started'']"
proof -
  have e: "map ev_type (map er_event (filter (\<lambda>r. er_job_id r = ''j'') (jb_events (q_db q_claimed))))
      = [''job_queued'', ''job_started'']" "job_seqs (q_db q_claimed) ''j'' = [0, 1]"
    by code_simp+
  have "load_events (q_db q_claimed) ''j'' (int 1 - 1)
      = drop 1 (map er_event (filter (\<lambda>r. er_job_id r = ''j'') (jb_events (q_db q_claimed))))"
    using event_log_gap_free [OF q_claimed_reachable, of "''j''" 1] by blast
  then have "map ev_type (load_events (q_db q_claimed) ''j'' (int 1 - 1)) = drop 1 [''job_queued'', ''job_started'']"
    unfolding e(1) [symmetric] by (simp only: drop_map)
  with e(2) show ?thesis by simp
qed

lemma job_claimed_once_witness:
  "starts (q_db q_claimed) ''j'' \<le> 1 \<and> q_running q_claimed 1 = Some ''j'' \<and> q_running q_claimed 2 \<noteq> Some ''j''"
  using job_claimed_once [OF q_claimed_reachable, of "''j''" 1 2] by (simp add: q_claimed_def)

lemma terminate_then_get_witness:
  "\<exists>r'. get_job ''j'' (terminate demo_record Completed None ''t2'' None (q_db q_claimed)) = Some (Some r')
     \<and> rec_node_hashes r' = [(''src'', ''28''), (''finish'', ''46'')]"
proof -
  have "find_job (q_db q_claimed) ''j'' \<noteq> None" by code_simp
  then have "find_job (q_db q_claimed) (rec_id demo_record) \<noteq> None" by (simp add: demo_record_def)
  from terminate_then_get [OF this, of Completed None "''t2''" None] show ?thesis
    by (auto simp: demo_record_def)
qed

definition demo_worker :: worker_env where
  "demo_worker = \<lparr>w_clock = (\<lambda>_. ''t''), w_error_text = (\<lambda>_. ''error''), w_quality = (\<lambda>_ _. None), w_disk_total = 0\<rparr>"

lemma run_claimed_ends_job_witness:
  "\<exists>db' c' status. run_claimed demo_worker demo_env (\<lambda>_. False) demo_record (q_db q_claimed) empty_cache = Some (db', c')
     \<and> status \<in> {Completed, Failed, Interrupted} \<and> stat db' ''j'' = Some status
     \<and> ''j'' \<notin> set (in_use_by c' ''46'')"
proof -
  have "(case run_claimed demo_worker demo_env (\<lambda>_. False) demo_record (q_db q_claimed) empty_cache of
      None \<Rightarrow> False | Some _ \<Rightarrow> True)"
    by code_simp
  then obtain db' c' where r: "run_claimed demo_worker demo_env (\<lambda>_. False) demo_record (q_db q_claimed) empty_cache = Some (db', c')"
    by (auto split: option.splits)
  have s: "stat (q_db q_claimed) ''j'' = Some Running" "\<not> read_cancel ''j'' (q_db q_claimed)" by code_simp+
  have id: "rec_id demo_record = ''j''" by (simp add: demo_record_def)
  show ?thesis
    using run_claimed_ends_job [OF r, of "''46''"] r s unfolding id by auto
qed

lemma reclaim_stale_complete_witness:
  "\<exists>db' c'. reclaim_stale (\<lambda>_. False) 0 ''t3'' (q_db q_claimed, empty_cache) = ((db', c'), 1)
     \<and> scan_stale (\<lambda>_. False) 0 db' = []"
proof -
  obtain db' c' n where r: "reclaim_stale (\<lambda>_. False) 0 ''t3'' (q_db q_claimed, empty_cache) = ((db', c'), n)"
    by (metis prod.collapse)
  from reclaim_stale_complete [OF r] demo_queue(4) r show ?thesis by auto
qed

lemma event_types:
  "map (\<lambda>r. ev_type (er_event r)) (filter (\<lambda>r. er_job_id r = k) (jb_events (terminate r st err now q db)))
   = map (\<lambda>r. ev_type (er_event r)) (filter (\<lambda>r. er_job_id r = k) (jb_events db))
     @ (if rec_id r = k then [ev_type (terminal_event st now err)] else [])"
  "map (\<lambda>r. ev_type (er_event r)) (filter (\<lambda>r. er_job_id r = k) (jb_events (interrupt_stale now j db)))
   = map (\<lambda>r. ev_type (er_event r)) (filter (\<lambda>r. er_job_id r = k) (jb_events db))
     @ (if j = k then [''job_interrupted''] else [])"
  "ev_type (terminal_event Completed now err) = ''job_completed''"
  by (simp_all add: terminate_def interrupt_stale_def persist_event_def Let_def terminal_event_def plain_event_def)

text \<open>
  a reclaim that races with the end of a job writes a false event. The UPDATE of \<open>reclaim_stale\<close> is
  guarded by the status, the event it appends is not: when the worker, taken for dead, finishes its job
  between the scan and the UPDATE, the row stays completed, and the log of the completed job ends
  with \<open>job_interrupted\<close> after \<open>job_completed\<close>.
\<close>

theorem reclaim_race_false_event:
  "\<exists>q. reachable q \<and> stat (q_db q) ''j'' = Some Completed
     \<and> map (\<lambda>r. ev_type (er_event r)) (filter (\<lambda>r. er_job_id r = ''j'') (jb_events (q_db q)))
       = [''job_queued'', ''job_started'', ''job_completed'', ''job_interrupted'']"
proof -
  have scanned: "reachable q_scanned"
    using reachable.next_state [OF q_claimed_reachable step.scan [of q_claimed 2 "\<lambda>_. False" 0]]
    by (simp add: q_scanned_def q_claimed_def q_submitted_def init_queue_def)
  have "q_running q_scanned 1 = Some (rec_id demo_record)"
    by (simp add: q_scanned_def q_claimed_def demo_record_def)
  from reachable.next_state [OF scanned step.finish [OF this, of Completed None "''t2''" None]]
  have finished: "reachable q_finished" by (simp add: q_finished_def)
  have "q_stale q_finished 2 = ''j'' # []"
    by (simp add: q_finished_def q_scanned_def demo_queue(4))
  from reachable.next_state [OF finished step.reclaim [OF this, of "''t3''"]]
  have reached: "reachable q_reclaimed" by (simp add: q_reclaimed_def)
  have db: "q_db q_reclaimed = interrupt_stale ''t3'' ''j'' (terminate demo_record Completed None ''t2'' None (q_db q_claimed))"
    by (simp add: q_reclaimed_def q_finished_def q_scanned_def)
  have id: "rec_id demo_record = ''j''" by (simp add: demo_record_def)
  have "stat (q_db q_claimed) ''j'' = Some Running" by code_simp
  then have "stat (q_db q_reclaimed) ''j'' = Some Completed"
    by (simp add: db id interrupt_effect terminate_effect)
  have "map (\<lambda>r. ev_type (er_event r)) (filter (\<lambda>r. er_job_id r = ''j'') (jb_events (q_db q_claimed)))
      = [''job_queued'', ''job_started'']" by code_simp
  then have "map (\<lambda>r. ev_type (er_event r)) (filter (\<lambda>r. er_job_id r = ''j'') (jb_events (q_db q_reclaimed)))
      = [''job_queued'', ''job_started'', ''job_completed'', ''job_interrupted'']"
    unfolding db event_types by (simp add: id)
  with reached \<open>stat (q_db q_reclaimed) ''j'' = Some Completed\<close> show ?thesis
    by (intro exI [of _ q_reclaimed] conjI)
qed

end
