(* ===== verification/Projects.thy ===== *)
theory Projects
  imports Py_Text Jobs
begin

text \<open>
  \<open>server/projects.py\<close> and \<open>server/template_migrations.py\<close>: projects, their edit history and its
  mirror in the catalog database. \<open>ProjectManager\<close> keeps records in memory and writes every change
  through; the record \<open>pm\<close> holds both. Project and job ids and clock readings are arguments
  (one reading per operation). Failures to open or write the database, which the code logs and ignores,
  do not occur, except the constraint violations the tables themselves impose. A failing call is an
  \<open>Inl\<close> with its exception; what the call had done before raising (a cancelled job, a field already
  assigned in memory) is not part of that value.
\<close>

section \<open>Override merging\<close>

text \<open>A patch: None for a node drops its overrides, JNull for a parameter resets it.\<close>

type_synonym patch = "(string, params option) dict"

definition node_overrides :: "overrides \<Rightarrow> string \<Rightarrow> params" where
  "node_overrides ov nid = (case map_of ov nid of None \<Rightarrow> [] | Some p \<Rightarrow> p)"

definition merge_node :: "params \<Rightarrow> params \<Rightarrow> params" where
  "merge_node cur partial =
     fold (\<lambda>(k, v) cur. if v = JNull then dpop k cur else dput k v cur) partial cur"

definition merge_step :: "string \<times> params option \<Rightarrow> overrides \<Rightarrow> overrides" where
  "merge_step = (\<lambda>(nid, partial) out.
     case partial of
       None \<Rightarrow> dpop nid out
     | Some p \<Rightarrow>
         let cur = merge_node (node_overrides out nid) p
         in if cur = [] then dpop nid out else dput nid cur out)"

definition deep_merge_overrides :: "overrides \<Rightarrow> patch \<Rightarrow> overrides" where
  "deep_merge_overrides base patch = fold merge_step patch base"

section \<open>Labels\<close>

text \<open>Python's \<open>==\<close> on JSON values: numbers of any kind by value, dicts regardless of order.\<close>

fun json_number :: "json \<Rightarrow> pyfloat option" where
  "json_number (JInt n) = Some (Fin (of_int n))"
| "json_number (JBool b) = Some (Fin (of_bool b))"
| "json_number (JFloat Neg_Zero) = Some (Fin 0)"
| "json_number (JFloat x) = Some x"
| "json_number _ = None"

function py_eq :: "json \<Rightarrow> json \<Rightarrow> bool" where
  "py_eq (JList xs) w = (case w of JList ys \<Rightarrow> list_all2 py_eq xs ys | _ \<Rightarrow> False)"
| "py_eq (JDict d) w =
     (case w of JDict e \<Rightarrow> length d = length e
        \<and> list_all (\<lambda>(k, v). case map_of e k of None \<Rightarrow> False | Some u \<Rightarrow> py_eq v u) d
      | _ \<Rightarrow> False)"
| "py_eq (JModel d) w =
     (case w of JModel e \<Rightarrow> length d = length e
        \<and> list_all (\<lambda>(k, v). case map_of e k of None \<Rightarrow> False | Some u \<Rightarrow> py_eq v u) d
      | _ \<Rightarrow> False)"
| "py_eq JNull w = (w = JNull)"
| "py_eq (JStr s) w = (w = JStr s)"
| "py_eq (JInt n) w = (json_number w = Some (Fin (of_int n)))"
| "py_eq (JBool b) w = (json_number w = Some (Fin (of_bool b)))"
| "py_eq (JFloat x) w = (x \<noteq> NaN \<and> json_number w = json_number (JFloat x))"
  by pat_completeness auto
termination
  by (relation "measure (\<lambda>(v, w). size v)")
     (auto simp: json_size_dict json_size_dict_char size_list_estimation' less_Suc_eq_le)

definition params_eq :: "params \<Rightarrow> params \<Rightarrow> bool" where
  "params_eq d e \<longleftrightarrow> py_eq (JDict d) (JDict e)"

definition overrides_eq :: "overrides \<Rightarrow> overrides \<Rightarrow> bool" where
  "overrides_eq d e \<longleftrightarrow> py_eq (JDict (map (\<lambda>(k, p). (k, JDict p)) d)) (JDict (map (\<lambda>(k, p). (k, JDict p)) e))"

text \<open>\<open>text\<close> renders a value that is no string (\<open>f"{v:g}"\<close> of a float, \<open>str(v)\<close> of the rest).\<close>

definition fmt_value :: "(json \<Rightarrow> string) \<Rightarrow> json \<Rightarrow> string" where
  "fmt_value rendered v = (case v of JStr s \<Rightarrow> s | _ \<Rightarrow> rendered v)"

definition sorted_set :: "string list \<Rightarrow> string list" where
  "sorted_set xs = sort (remdups xs)"

definition param_or_default :: "params \<Rightarrow> string \<Rightarrow> json" where
  "param_or_default p k = (case map_of p k of None \<Rightarrow> JStr ''<default>'' | Some v \<Rightarrow> v)"

definition ARROW :: string where
  "ARROW = [CHR 0x20, CHR 0xE2, CHR 0x86, CHR 0x92, CHR 0x20]"

definition node_changes :: "(json \<Rightarrow> string) \<Rightarrow> overrides \<Rightarrow> overrides \<Rightarrow> string \<Rightarrow> string list" where
  "node_changes rendered prev cur_ov nid =
     (let p = node_overrides prev nid; c = node_overrides cur_ov nid
      in List.map_filter (\<lambda>k.
           let pv = param_or_default p k; cv = param_or_default c k
           in if py_eq pv cv then None
              else Some (nid @ ''.'' @ k @ '' '' @ fmt_value rendered pv @ ARROW @ fmt_value rendered cv))
         (sorted_set (dkeys p @ dkeys c)))"

definition diff_changes :: "(json \<Rightarrow> string) \<Rightarrow> overrides \<Rightarrow> overrides \<Rightarrow> string list" where
  "diff_changes rendered prev cur_ov =
     concat (map (node_changes rendered prev cur_ov) (sorted_set (dkeys prev @ dkeys cur_ov)))"

definition diff_label :: "(json \<Rightarrow> string) \<Rightarrow> overrides \<Rightarrow> overrides \<Rightarrow> nat \<Rightarrow> string" where
  "diff_label rendered prev cur_ov max_changes =
     (let changes = diff_changes rendered prev cur_ov
      in if changes = [] then ''no changes''
         else if length changes \<le> max_changes then join '', '' changes
         else join '', '' (take max_changes changes) @ '', +'' @ show_nat (length changes - max_changes) @ '' more'')"

section \<open>Template migrations\<close>

type_synonym migrations = "(string, int \<Rightarrow> int \<Rightarrow> overrides \<Rightarrow> overrides) dict"

definition register_migration :: "string \<Rightarrow> (int \<Rightarrow> int \<Rightarrow> overrides \<Rightarrow> overrides) \<Rightarrow> migrations \<Rightarrow> migrations" where
  "register_migration tid fn ms = dput tid fn ms"

definition clear_migrations :: "migrations \<Rightarrow> migrations" where
  "clear_migrations ms = []"

definition migrate_node ::
  "'w registry \<Rightarrow> template \<Rightarrow> string \<times> params \<Rightarrow> overrides \<times> string list \<Rightarrow> overrides \<times> string list" where
  "migrate_node reg t = (\<lambda>(nid, ps) (survived, dropped).
     case map_of (by_id t) nid of
       None \<Rightarrow> (survived, dropped @ [nid @ '': node removed in v'' @ show_int (t_version t)])
     | Some spec \<Rightarrow>
         (case registry_lookup reg (n_kind spec) (n_variant spec) of
            None \<Rightarrow> (survived, dropped @ [nid @ '': kind '' @ single_quoted (n_kind spec)
                       @ '' is not registered in the runtime''])
          | Some cls \<Rightarrow>
              let known = (\<lambda>k. k \<in> set (dkeys (cls_fields cls)));
                  kept = filter (\<lambda>(k, v). known k) ps;
                  gone = map (\<lambda>k. nid @ ''.'' @ k @ '': param removed in v'' @ show_int (t_version t))
                           (filter (\<lambda>k. \<not> known k) (dkeys ps))
              in (if kept = [] then survived else dput nid kept survived, dropped @ gone)))"

definition migrate_param_overrides ::
  "migrations \<Rightarrow> 'w registry \<Rightarrow> template \<Rightarrow> int \<Rightarrow> overrides \<Rightarrow> overrides \<times> string list" where
  "migrate_param_overrides ms reg t old_version ov =
     (let ov' = (case map_of ms (t_id t) of None \<Rightarrow> ov | Some fn \<Rightarrow> fn old_version (t_version t) ov)
      in fold (migrate_node reg t) ov' ([], []))"

section \<open>Records\<close>

record history_entry =
  he_seq :: int
  he_job_id :: string
  he_overrides :: overrides
  he_label :: "string option"
  he_created_at :: string
  he_published :: bool
  he_kind :: string
  he_snapshot :: "params option"

record project =
  pj_id :: string
  pj_name :: string
  pj_template :: template
  pj_base_job :: job
  pj_current_seq :: int
  pj_draft_mode :: bool
  pj_source_session_ids :: "string list"
  pj_created_at :: string
  pj_updated_at :: string
  pj_history :: "history_entry list"
  pj_cover_seq :: "int option"
  pj_description :: "string option"

definition edit_entry :: "int \<Rightarrow> string \<Rightarrow> overrides \<Rightarrow> string option \<Rightarrow> string \<Rightarrow> history_entry" where
  "edit_entry seq jid ov label now =
     \<lparr>he_seq = seq, he_job_id = jid, he_overrides = ov, he_label = label, he_created_at = now,
      he_published = False, he_kind = ''edit'', he_snapshot = None\<rparr>"

text \<open>None is the StopIteration of a \<open>current_seq\<close> that no entry has.\<close>

definition current_entry :: "project \<Rightarrow> history_entry option" where
  "current_entry p = find (\<lambda>e. he_seq e = pj_current_seq p) (pj_history p)"

text \<open>
  The public dictionaries. \<open>dump_template\<close> and \<open>dump_job\<close> are pydantic's \<open>model_dump\<close>. None is the
  StopIteration of \<open>current_entry\<close>.
\<close>

definition json_opt :: "('a \<Rightarrow> json) \<Rightarrow> 'a option \<Rightarrow> json" where
  "json_opt f x = (case x of None \<Rightarrow> JNull | Some a \<Rightarrow> f a)"

definition json_overrides :: "overrides \<Rightarrow> json" where
  "json_overrides ov = JDict (map (\<lambda>(nid, p). (nid, JDict p)) ov)"

definition entry_to_dict :: "history_entry \<Rightarrow> params" where
  "entry_to_dict h =
     [(''seq'', JInt (he_seq h)), (''job_id'', JStr (he_job_id h)), (''overrides'', json_overrides (he_overrides h)),
      (''label'', json_opt JStr (he_label h)), (''created_at'', JStr (he_created_at h)),
      (''published'', JBool (he_published h)), (''kind'', JStr (he_kind h)),
      (''snapshot'', json_opt JDict (he_snapshot h))]"

definition to_public_dict :: "(template \<Rightarrow> json) \<Rightarrow> (job \<Rightarrow> json) \<Rightarrow> project \<Rightarrow> params option" where
  "to_public_dict dump_template dump_job p =
     (case current_entry p of
        None \<Rightarrow> None
      | Some e \<Rightarrow> Some
          [(''id'', JStr (pj_id p)), (''name'', JStr (pj_name p)),
           (''template_id'', JStr (t_id (pj_template p))), (''template_version'', JInt (t_version (pj_template p))),
           (''template'', dump_template (pj_template p)), (''base_job'', dump_job (pj_base_job p)),
           (''current_seq'', JInt (pj_current_seq p)), (''draft_mode'', JBool (pj_draft_mode p)),
           (''source_session_ids'', JList (map JStr (pj_source_session_ids p))),
           (''history'', JList (map (JDict \<circ> entry_to_dict) (pj_history p))),
           (''current_job_id'', JStr (he_job_id e)), (''current_overrides'', json_overrides (he_overrides e)),
           (''created_at'', JStr (pj_created_at p)), (''updated_at'', JStr (pj_updated_at p)),
           (''cover_seq'', json_opt JInt (pj_cover_seq p)), (''description'', json_opt JStr (pj_description p))])"

definition next_history_seq :: "project \<Rightarrow> int" where
  "next_history_seq p =
     (case map he_seq (pj_history p) of [] \<Rightarrow> -1 | s # ss \<Rightarrow> fold max ss s) + 1"

definition overrides_before :: "project \<Rightarrow> int \<Rightarrow> overrides" where
  "overrides_before p seq =
     (let prior = sort_key he_seq (filter (\<lambda>h. he_seq h < seq) (pj_history p))
      in if prior = [] then [] else he_overrides (last prior))"

record pm =
  pm_records :: "(string, project) dict"
  pm_db :: jobs_db

datatype pm_error =
    Project_Not_Found string
  | No_History_Seq int
  | Template_Mismatch
  | Not_Forward
  | No_Current_Entry
  | Submit_Failed
  | Bad_Job_Row

section \<open>Persistence\<close>

definition on_storage :: "(storage_db \<Rightarrow> storage_db) \<Rightarrow> jobs_db \<Rightarrow> jobs_db" where
  "on_storage f db = db\<lparr>jb_db := f (jb_db db)\<rparr>"

definition project_row_of :: "project \<Rightarrow> project_row" where
  "project_row_of p =
     \<lparr>pr_id = pj_id p, pr_name = pj_name p, pr_template = Some (pj_template p), pr_base_job = pj_base_job p,
      pr_current_seq = pj_current_seq p, pr_draft_mode = pj_draft_mode p,
      pr_source_session_ids = pj_source_session_ids p, pr_created_at = pj_created_at p,
      pr_updated_at = pj_updated_at p, pr_cover_seq = None, pr_description = pj_description p\<rparr>"

text \<open>The INSERT leaves \<open>cover_seq\<close> NULL; a row with the id already there makes it fail.\<close>

definition persist_project_insert :: "project \<Rightarrow> storage_db \<Rightarrow> storage_db" where
  "persist_project_insert p db =
     (if pj_id p \<in> set (map pr_id (db_projects db)) then db
      else db\<lparr>db_projects := db_projects db @ [project_row_of p]\<rparr>)"

definition update_project_row :: "string \<Rightarrow> (project_row \<Rightarrow> project_row) \<Rightarrow> storage_db \<Rightarrow> storage_db" where
  "update_project_row pid f db =
     db\<lparr>db_projects := map (\<lambda>r. if pr_id r = pid then f r else r) (db_projects db)\<rparr>"

definition persist_project_update :: "project \<Rightarrow> storage_db \<Rightarrow> storage_db" where
  "persist_project_update p =
     update_project_row (pj_id p) (\<lambda>r. r\<lparr>pr_name := pj_name p, pr_current_seq := pj_current_seq p,
       pr_draft_mode := pj_draft_mode p, pr_cover_seq := pj_cover_seq p, pr_updated_at := pj_updated_at p,
       pr_description := pj_description p\<rparr>)"

definition persist_project_full :: "project \<Rightarrow> storage_db \<Rightarrow> storage_db" where
  "persist_project_full p =
     update_project_row (pj_id p) (\<lambda>r. r\<lparr>pr_name := pj_name p, pr_base_job := pj_base_job p,
       pr_current_seq := pj_current_seq p, pr_draft_mode := pj_draft_mode p,
       pr_source_session_ids := pj_source_session_ids p, pr_cover_seq := pj_cover_seq p,
       pr_updated_at := pj_updated_at p, pr_description := pj_description p\<rparr>)"

definition persist_project_template :: "project \<Rightarrow> storage_db \<Rightarrow> storage_db" where
  "persist_project_template p =
     update_project_row (pj_id p) (\<lambda>r. r\<lparr>pr_template := Some (pj_template p), pr_base_job := pj_base_job p,
       pr_current_seq := pj_current_seq p, pr_updated_at := pj_updated_at p\<rparr>)"

definition history_row_of :: "string \<Rightarrow> history_entry \<Rightarrow> history_row" where
  "history_row_of pid e =
     \<lparr>hr_project_id = pid, hr_seq = he_seq e, hr_job_id = he_job_id e, hr_overrides = he_overrides e,
      hr_label = he_label e, hr_created_at = he_created_at e, hr_published = he_published e,
      hr_kind = he_kind e,
      hr_snapshot = (case he_snapshot e of None \<Rightarrow> Null_Col | Some s \<Rightarrow> Json_Col (JDict s))\<rparr>"

text \<open>\<open>UNIQUE (project_id, seq)\<close> makes the INSERT of a known number fail.\<close>

definition persist_history_entry :: "string \<Rightarrow> history_entry \<Rightarrow> storage_db \<Rightarrow> storage_db" where
  "persist_history_entry pid e db =
     (if list_ex (\<lambda>h. hr_project_id h = pid \<and> hr_seq h = he_seq e) (db_history db) then db
      else db\<lparr>db_history := db_history db @ [history_row_of pid e]\<rparr>)"

definition update_history_row :: "string \<Rightarrow> int \<Rightarrow> (history_row \<Rightarrow> history_row) \<Rightarrow> storage_db \<Rightarrow> storage_db" where
  "update_history_row pid seq f db =
     db\<lparr>db_history := map (\<lambda>h. if hr_project_id h = pid \<and> hr_seq h = seq then f h else h) (db_history db)\<rparr>"

definition persist_history_replace :: "string \<Rightarrow> history_entry \<Rightarrow> storage_db \<Rightarrow> storage_db" where
  "persist_history_replace pid e =
     update_history_row pid (he_seq e) (\<lambda>h. h\<lparr>hr_job_id := he_job_id e, hr_overrides := he_overrides e,
       hr_label := he_label e, hr_created_at := he_created_at e, hr_published := he_published e\<rparr>)"

definition persist_history_published :: "string \<Rightarrow> int \<Rightarrow> bool \<Rightarrow> storage_db \<Rightarrow> storage_db" where
  "persist_history_published pid seq published =
     update_history_row pid seq (\<lambda>h. h\<lparr>hr_published := published\<rparr>)"

section \<open>Reading back\<close>

definition entry_of_row :: "history_row \<Rightarrow> history_entry" where
  "entry_of_row h =
     \<lparr>he_seq = hr_seq h, he_job_id = hr_job_id h, he_overrides = hr_overrides h, he_label = hr_label h,
      he_created_at = hr_created_at h, he_published = hr_published h,
      he_kind = (if hr_kind h = '''' then ''edit'' else hr_kind h),
      he_snapshot = (case hr_snapshot h of Json_Col (JDict s) \<Rightarrow> Some s | _ \<Rightarrow> None)\<rparr>"

text \<open>None is the validation error of a template that no longer parses; the project is skipped.\<close>

definition row_to_project :: "storage_db \<Rightarrow> project_row \<Rightarrow> project option" where
  "row_to_project db r =
     map_option (\<lambda>t.
       \<lparr>pj_id = pr_id r, pj_name = pr_name r, pj_template = t, pj_base_job = pr_base_job r,
        pj_current_seq = pr_current_seq r, pj_draft_mode = pr_draft_mode r,
        pj_source_session_ids = pr_source_session_ids r, pj_created_at = pr_created_at r,
        pj_updated_at = pr_updated_at r, pj_history = map entry_of_row (project_history db (pr_id r)),
        pj_cover_seq = pr_cover_seq r, pj_description = pr_description r\<rparr>)
     (pr_template r)"

definition rehydrate :: "pm \<Rightarrow> pm" where
  "rehydrate s =
     s\<lparr>pm_records := fold (\<lambda>r out. case row_to_project (jb_db (pm_db s)) r of
           None \<Rightarrow> out | Some p \<Rightarrow> dput (pj_id p) p out)
         (sort_desc pr_updated_at (db_projects (jb_db (pm_db s)))) []\<rparr>"

section \<open>Operations\<close>

definition submit_with_overrides ::
  "string \<Rightarrow> string \<Rightarrow> project \<Rightarrow> overrides \<Rightarrow> bool \<Rightarrow> jobs_db \<Rightarrow> pm_error + jobs_db" where
  "submit_with_overrides jid now p ov force db =
     (case submit jid now (pj_template p) ((pj_base_job p)\<lparr>j_param_overrides := ov\<rparr>) force db of
        None \<Rightarrow> Inl Submit_Failed
      | Some db' \<Rightarrow> Inr db')"

definition save :: "project \<Rightarrow> (storage_db \<Rightarrow> storage_db) \<Rightarrow> jobs_db \<Rightarrow> pm \<Rightarrow> pm" where
  "save p write db s = \<lparr>pm_records = dput (pj_id p) p (pm_records s), pm_db = on_storage write db\<rparr>"

definition create ::
  "string \<Rightarrow> string \<Rightarrow> string \<Rightarrow> string \<Rightarrow> template \<Rightarrow> job \<Rightarrow> string list \<Rightarrow> pm \<Rightarrow> pm_error + pm \<times> project" where
  "create pid jid now name t base_job sessions s =
     (let p = \<lparr>pj_id = pid, pj_name = name, pj_template = t,
               pj_base_job = base_job\<lparr>j_param_overrides := []\<rparr>, pj_current_seq = 0, pj_draft_mode = False,
               pj_source_session_ids = sessions, pj_created_at = now, pj_updated_at = now, pj_history = [],
               pj_cover_seq = None, pj_description = None\<rparr>;
          ov = j_param_overrides base_job
      in rbind (submit_with_overrides jid now p ov False (pm_db s)) (\<lambda>db.
           let e = edit_entry 0 jid ov (Some ''initial render'') now; p1 = p\<lparr>pj_history := [e]\<rparr>
           in Inr (save p1 (persist_history_entry pid e \<circ> persist_project_insert p1) db s, p1)))"

definition get_project :: "string \<Rightarrow> pm \<Rightarrow> project option" where
  "get_project pid s = map_of (pm_records s) pid"

definition list_projects :: "pm \<Rightarrow> project list" where
  "list_projects s = map snd (pm_records s)"

definition project_for_job :: "string \<Rightarrow> pm \<Rightarrow> project option" where
  "project_for_job jid s =
     find (\<lambda>p. list_ex (\<lambda>e. he_job_id e = jid) (pj_history p)) (map snd (pm_records s))"

definition forget :: "string \<Rightarrow> pm \<Rightarrow> pm \<times> bool" where
  "forget pid s = (s\<lparr>pm_records := dpop pid (pm_records s)\<rparr>, has_key (pm_records s) pid)"

definition with_project :: "string \<Rightarrow> pm \<Rightarrow> (project \<Rightarrow> pm_error + 'a) \<Rightarrow> pm_error + 'a" where
  "with_project pid s f =
     (case get_project pid s of None \<Rightarrow> Inl (Project_Not_Found pid) | Some p \<Rightarrow> f p)"

definition with_current :: "project \<Rightarrow> (history_entry \<Rightarrow> pm_error + 'a) \<Rightarrow> pm_error + 'a" where
  "with_current p f = (case current_entry p of None \<Rightarrow> Inl No_Current_Entry | Some e \<Rightarrow> f e)"

definition patch_label ::
  "(json \<Rightarrow> string) \<Rightarrow> string option \<Rightarrow> bool \<Rightarrow> overrides \<Rightarrow> overrides \<Rightarrow> string" where
  "patch_label rendered label force baseline new_ov =
     (case label of
        Some l \<Rightarrow> l
      | None \<Rightarrow> if force \<and> overrides_eq new_ov baseline then ''Reprocess (cache bypass)''
                else diff_label rendered baseline new_ov 3)"

text \<open>The job row of the previous entry, after the cancel: does the new state overwrite the entry?\<close>

definition tombstone :: "string \<Rightarrow> jobs_db \<Rightarrow> pm_error + jobs_db \<times> bool" where
  "tombstone jid db =
     (case get_job jid db of
        None \<Rightarrow> Inl Bad_Job_Row
      | Some rec \<Rightarrow>
          let interrupted = (case rec of None \<Rightarrow> False | Some r \<Rightarrow> rec_status r = Interrupted);
              (db', live) = cancel_job jid db
          in Inr (db', interrupted \<or> live))"

text \<open>\<open>next(i for i, h in enumerate(hs) if h.seq == seq)\<close>.\<close>

fun index_of_seq :: "int \<Rightarrow> history_entry list \<Rightarrow> nat option" where
  "index_of_seq seq [] = None"
| "index_of_seq seq (h # hs) = (if he_seq h = seq then Some 0 else map_option Suc (index_of_seq seq hs))"

definition replace_entry :: "history_entry \<Rightarrow> history_entry list \<Rightarrow> history_entry list" where
  "replace_entry e hs =
     (case index_of_seq (he_seq e) hs of None \<Rightarrow> hs | Some i \<Rightarrow> hs[i := e])"

definition append_entry :: "history_entry \<Rightarrow> string \<Rightarrow> project \<Rightarrow> project" where
  "append_entry e now p =
     p\<lparr>pj_history := pj_history p @ [e], pj_current_seq := he_seq e, pj_updated_at := now\<rparr>"

definition patch_project ::
  "(json \<Rightarrow> string) \<Rightarrow> string \<Rightarrow> string \<Rightarrow> string \<Rightarrow> patch option \<Rightarrow> bool option \<Rightarrow> string option \<Rightarrow> bool
   \<Rightarrow> pm \<Rightarrow> pm_error + pm \<times> project" where
  "patch_project rendered pid jid now ov draft label force s =
     with_project pid s (\<lambda>p0. with_current p0 (\<lambda>prev.
       let new_ov = (case ov of None \<Rightarrow> he_overrides prev | Some pt \<Rightarrow> deep_merge_overrides (he_overrides prev) pt);
           p = (case draft of None \<Rightarrow> p0 | Some d \<Rightarrow> p0\<lparr>pj_draft_mode := d\<rparr>)
       in rbind (tombstone (he_job_id prev) (pm_db s)) (\<lambda>(db1, collapse).
          let baseline = (if collapse then overrides_before p (he_seq prev) else he_overrides prev)
          in rbind (submit_with_overrides jid now p new_ov force db1) (\<lambda>db2.
             let l = Some (patch_label rendered label force baseline new_ov)
             in if collapse then
                  let e = (edit_entry (he_seq prev) jid new_ov l now)\<lparr>he_published := he_published prev\<rparr>;
                      p1 = p\<lparr>pj_history := replace_entry e (pj_history p), pj_updated_at := now\<rparr>
                  in Inr (save p1 (persist_history_replace pid e \<circ> persist_project_update p1) db2 s, p1)
                else
                  let e = edit_entry (next_history_seq p) jid new_ov l now; p1 = append_entry e now p
                  in Inr (save p1 (persist_history_entry pid e \<circ> persist_project_update p1) db2 s, p1)))))"

definition known_seq :: "project \<Rightarrow> int \<Rightarrow> bool" where
  "known_seq p seq = (seq \<in> set (map he_seq (pj_history p)))"

definition set_cover :: "string \<Rightarrow> int option \<Rightarrow> string \<Rightarrow> pm \<Rightarrow> pm_error + pm \<times> project" where
  "set_cover pid seq now s =
     with_project pid s (\<lambda>p.
       case seq of
         Some n \<Rightarrow>
           if \<not> known_seq p n then Inl (No_History_Seq n)
           else let p1 = p\<lparr>pj_cover_seq := seq, pj_updated_at := now\<rparr>
             in Inr (save p1 (persist_project_update p1) (pm_db s) s, p1)
       | None \<Rightarrow> let p1 = p\<lparr>pj_cover_seq := None, pj_updated_at := now\<rparr>
           in Inr (save p1 (persist_project_update p1) (pm_db s) s, p1))"

text \<open>\<open>entry.published = ...\<close> mutates the first entry with that number.\<close>

definition publish_entry :: "int \<Rightarrow> bool \<Rightarrow> history_entry list \<Rightarrow> history_entry list" where
  "publish_entry seq published hs =
     (case index_of_seq seq hs of
        None \<Rightarrow> hs | Some i \<Rightarrow> hs[i := (hs ! i)\<lparr>he_published := published\<rparr>])"

definition set_published :: "string \<Rightarrow> int \<Rightarrow> bool \<Rightarrow> string \<Rightarrow> pm \<Rightarrow> pm_error + pm \<times> project" where
  "set_published pid seq published now s =
     with_project pid s (\<lambda>p.
       if \<not> known_seq p seq then Inl (No_History_Seq seq)
       else let p1 = p\<lparr>pj_history := publish_entry seq published (pj_history p), pj_updated_at := now\<rparr>
         in Inr (save p1 (persist_project_update p1 \<circ> persist_history_published pid seq published) (pm_db s) s, p1))"

definition set_description :: "string \<Rightarrow> string option \<Rightarrow> string \<Rightarrow> pm \<Rightarrow> pm_error + pm \<times> project" where
  "set_description pid description now s =
     with_project pid s (\<lambda>p.
       let normalized = (case description of None \<Rightarrow> None | Some d \<Rightarrow> if strip d = '''' then None else Some (strip d));
           p1 = p\<lparr>pj_description := normalized, pj_updated_at := now\<rparr>
       in Inr (save p1 (persist_project_update p1) (pm_db s) s, p1))"

definition swap_label :: "nat \<Rightarrow> string" where
  "swap_label n = ''swap sessions ('' @ show_nat n @ '' session'' @ (if n \<noteq> 1 then ''s'' else '''') @ '')''"

definition as_patch :: "overrides \<Rightarrow> patch" where
  "as_patch ov = map (\<lambda>(nid, p). (nid, Some p)) ov"

definition swap_sessions ::
  "string \<Rightarrow> string \<Rightarrow> string \<Rightarrow> job \<Rightarrow> string list \<Rightarrow> params \<Rightarrow> bool \<Rightarrow> pm
   \<Rightarrow> pm_error + pm \<times> project \<times> string option" where
  "swap_sessions pid jid now new_base new_sessions snapshot auto_render s =
     with_project pid s (\<lambda>p0. with_current p0 (\<lambda>prev.
       let db1 = fst (cancel_job (he_job_id prev) (pm_db s));
           lifted = j_param_overrides new_base;
           ov = (if lifted = [] then he_overrides prev
                 else deep_merge_overrides lifted (as_patch (he_overrides prev)));
           p = p0\<lparr>pj_base_job := new_base\<lparr>j_param_overrides := []\<rparr>, pj_source_session_ids := new_sessions\<rparr>
       in rbind (if auto_render then rbind (submit_with_overrides jid now p ov False db1) (\<lambda>db2. Inr (db2, Some jid))
                 else Inr (db1, None)) (\<lambda>(db2, new_job).
          let e = (edit_entry (next_history_seq p) (if auto_render then jid else he_job_id prev) ov
                     (Some (swap_label (length new_sessions))) now)
                  \<lparr>he_kind := ''swap_sessions'', he_snapshot := Some snapshot\<rparr>;
              p1 = append_entry e now p
          in Inr (save p1 (persist_history_entry pid e \<circ> persist_project_full p1) db2 s, p1, new_job))))"

definition upgrade_template ::
  "migrations \<Rightarrow> 'w registry \<Rightarrow> string \<Rightarrow> string \<Rightarrow> string \<Rightarrow> template \<Rightarrow> pm
   \<Rightarrow> pm_error + pm \<times> project \<times> string list" where
  "upgrade_template ms reg pid jid now t s =
     with_project pid s (\<lambda>p0.
       if t_id t \<noteq> t_id (pj_template p0) then Inl Template_Mismatch
       else if t_version t \<le> t_version (pj_template p0) then Inl Not_Forward
       else with_current p0 (\<lambda>prev.
         let old = t_version (pj_template p0);
             (ov, dropped) = migrate_param_overrides ms reg t old (he_overrides prev);
             db1 = fst (cancel_job (he_job_id prev) (pm_db s));
             p = p0\<lparr>pj_template := t, pj_base_job := (pj_base_job p0)\<lparr>j_template_version := t_version t\<rparr>\<rparr>
         in rbind (submit_with_overrides jid now p ov False db1) (\<lambda>db2.
            let e = (edit_entry (next_history_seq p) jid ov
                       (Some (''upgrade template (v'' @ show_int old @ '' -> v'' @ show_int (t_version t) @ '')'')) now)
                    \<lparr>he_kind := ''template_upgrade'',
                     he_snapshot := Some [(''from_version'', JInt old), (''to_version'', JInt (t_version t)),
                                          (''dropped_overrides'', JList (map JStr dropped))]\<rparr>;
                p1 = append_entry e now p
            in Inr (save p1 (persist_history_entry pid e \<circ> persist_project_template p1) db2 s, p1, dropped))))"

definition revert :: "string \<Rightarrow> int \<Rightarrow> string \<Rightarrow> pm \<Rightarrow> pm_error + pm \<times> project" where
  "revert pid seq now s =
     with_project pid s (\<lambda>p.
       if \<not> known_seq p seq then Inl (No_History_Seq seq)
       else let p1 = p\<lparr>pj_current_seq := seq, pj_updated_at := now\<rparr>
         in Inr (save p1 (persist_project_update p1) (pm_db s) s, p1))"

section \<open>Merging, specified\<close>

lemma merge_node_lookup:
  "wf_dict partial \<Longrightarrow> map_of (merge_node cur partial) k
   = (case map_of partial k of None \<Rightarrow> map_of cur k | Some v \<Rightarrow> if v = JNull then None else Some v)"
proof (induction partial arbitrary: cur)
  case (Cons kv partial)
  obtain j v where kv: "kv = (j, v)" by (cases kv)
  have w: "wf_dict partial" "map_of partial j = None"
    using Cons.prems by (auto simp: kv map_of_eq_None_iff)
  let ?cur = "if v = JNull then dpop j cur else dput j v cur"
  have "map_of (merge_node cur (kv # partial)) k = map_of (merge_node ?cur partial) k"
    by (simp add: merge_node_def kv)
  also have "\<dots> = (case map_of partial k of None \<Rightarrow> map_of ?cur k | Some v \<Rightarrow> if v = JNull then None else Some v)"
    by (rule Cons.IH [OF w(1)])
  also have "\<dots> = (case map_of (kv # partial) k of None \<Rightarrow> map_of cur k | Some v \<Rightarrow> if v = JNull then None else Some v)"
    using w(2) by (auto simp: kv split: option.splits)
  finally show ?case .
qed (simp add: merge_node_def)

lemma merge_step_lookup:
  "node_overrides (merge_step (nid, partial) out) n
   = (if n = nid then (case partial of None \<Rightarrow> [] | Some p \<Rightarrow> merge_node (node_overrides out nid) p)
      else node_overrides out n)"
  by (auto simp: merge_step_def node_overrides_def Let_def split: option.splits)

lemma deep_merge_node:
  "wf_dict patch \<Longrightarrow> node_overrides (deep_merge_overrides base patch) n
   = (case map_of patch n of None \<Rightarrow> node_overrides base n
      | Some None \<Rightarrow> [] | Some (Some p) \<Rightarrow> merge_node (node_overrides base n) p)"
proof (induction patch arbitrary: base)
  case (Cons np patch)
  obtain m partial where np: "np = (m, partial)" by (cases np)
  have w: "wf_dict patch" "map_of patch m = None"
    using Cons.prems by (auto simp: np map_of_eq_None_iff)
  have "node_overrides (deep_merge_overrides base (np # patch)) n
      = node_overrides (deep_merge_overrides (merge_step np base) patch) n"
    by (simp add: deep_merge_overrides_def)
  also have "\<dots> = (case map_of patch n of None \<Rightarrow> node_overrides (merge_step np base) n
      | Some None \<Rightarrow> [] | Some (Some p) \<Rightarrow> merge_node (node_overrides (merge_step np base) n) p)"
    by (rule Cons.IH [OF w(1)])
  also have "\<dots> = (case map_of (np # patch) n of None \<Rightarrow> node_overrides base n
      | Some None \<Rightarrow> [] | Some (Some p) \<Rightarrow> merge_node (node_overrides base n) p)"
    using w(2) by (auto simp: np merge_step_lookup split: option.splits)
  finally show ?case .
qed (simp add: deep_merge_overrides_def)

text \<open>
  what a PATCH of the sliders means. After merging, a parameter has the patched value where the
  patch gives one, is back to the template default where the patch says null (for the parameter or for its
  whole node), and keeps its earlier override everywhere else.
\<close>

theorem deep_merge_lookup:
  assumes "wf_dict patch" "\<And>nid p. map_of patch nid = Some (Some p) \<Longrightarrow> wf_dict p"
  shows "map_of (node_overrides (deep_merge_overrides base patch) nid) k
    = (case map_of patch nid of
         None \<Rightarrow> map_of (node_overrides base nid) k
       | Some None \<Rightarrow> None
       | Some (Some p) \<Rightarrow> (case map_of p k of
             None \<Rightarrow> map_of (node_overrides base nid) k
           | Some v \<Rightarrow> if v = JNull then None else Some v))"
  by (auto simp: deep_merge_node [OF assms(1)] merge_node_lookup [OF assms(2)] split: option.splits)

lemma deep_merge_lookup_witness:
  "map_of (node_overrides (deep_merge_overrides [(''stretch'', [(''mid'', JInt 3), (''bp'', JInt 1)])]
      [(''stretch'', Some [(''mid'', JNull), (''wp'', JInt 9)]), (''crop'', None)]) ''stretch'') ''bp'' = Some (JInt 1)"
  by (subst deep_merge_lookup) (auto simp: node_overrides_def split: if_splits)

section \<open>Memory and database\<close>

definition prow :: "storage_db \<Rightarrow> string \<Rightarrow> project_row option" where
  "prow db pid = find (\<lambda>r. pr_id r = pid) (db_projects db)"

definition hrows :: "storage_db \<Rightarrow> string \<Rightarrow> history_row list" where
  "hrows db pid = filter (\<lambda>h. hr_project_id h = pid) (db_history db)"

text \<open>What a restart would load for the project.\<close>

definition read_back :: "storage_db \<Rightarrow> string \<Rightarrow> project option" where
  "read_back db pid = Option.bind (prow db pid) (row_to_project db)"

definition plain_entry :: "history_entry \<Rightarrow> history_entry" where
  "plain_entry e = e\<lparr>he_kind := ''edit'', he_snapshot := None\<rparr>"

definition plain_project :: "project \<Rightarrow> project" where
  "plain_project p = p\<lparr>pj_history := map plain_entry (pj_history p)\<rparr>"

lemma prow_update:
  assumes "\<And>r. pr_id (f r) = pr_id r"
  shows "prow (update_project_row pid f db) k = (if k = pid then map_option f (prow db pid) else prow db k)"
proof -
  have "find (\<lambda>r. pr_id r = k) (map (\<lambda>r. if pr_id r = pid then f r else r) rs)
      = (if k = pid then map_option f (find (\<lambda>r. pr_id r = pid) rs) else find (\<lambda>r. pr_id r = k) rs)" for rs
    using assms by (induction rs) auto
  then show ?thesis by (simp add: prow_def update_project_row_def)
qed

lemma hrows_update [simp]: "hrows (update_project_row pid f db) k = hrows db k"
  by (simp add: hrows_def update_project_row_def)

lemma ids_update:
  assumes "\<And>r. pr_id (f r) = pr_id r"
  shows "map pr_id (db_projects (update_project_row pid f db)) = map pr_id (db_projects db)"
  using assms by (simp add: update_project_row_def)

lemma ids_history [simp]:
  "db_projects (persist_history_entry pid e db) = db_projects db"
  "db_projects (update_history_row pid seq g db) = db_projects db"
  by (simp_all add: persist_history_entry_def update_history_row_def)

lemma prow_history [simp]:
  "prow (persist_history_entry pid e db) k = prow db k"
  "prow (update_history_row pid seq g db) k = prow db k"
  by (simp_all add: prow_def persist_history_entry_def update_history_row_def)

lemma hrows_persist:
  "hrows (persist_history_entry pid e db) k
   = (if k = pid \<and> he_seq e \<notin> hr_seq ` set (hrows db pid) then hrows db pid @ [history_row_of pid e] else hrows db k)"
  by (force simp: hrows_def persist_history_entry_def history_row_of_def list_ex_iff)

lemma hrows_update_history:
  assumes "\<And>h. hr_project_id (g h) = hr_project_id h"
  shows "hrows (update_history_row pid seq g db) k
    = (if k = pid then map (\<lambda>h. if hr_seq h = seq then g h else h) (hrows db pid) else hrows db k)"
proof -
  have "filter (\<lambda>h. hr_project_id h = k) (map (\<lambda>h. if hr_project_id h = pid \<and> hr_seq h = seq then g h else h) hs)
      = (if k = pid then map (\<lambda>h. if hr_seq h = seq then g h else h) (filter (\<lambda>h. hr_project_id h = pid) hs)
         else filter (\<lambda>h. hr_project_id h = k) hs)" for hs
    using assms by (induction hs) auto
  then show ?thesis by (simp add: hrows_def update_history_row_def)
qed

lemma sort_key_snoc:
  assumes "\<And>y. y \<in> set xs \<Longrightarrow> f y \<le> f x"
  shows "sort_key f (xs @ [x]) = sort_key f xs @ [x]"
proof -
  have ins: "insort_key f y (zs @ [x]) = insort_key f y zs @ [x]" if "f y \<le> f x" for y zs
    using that by (induction zs) auto
  show ?thesis using assms by (induction xs) (simp_all add: ins)
qed

lemma sort_key_map:
  assumes "\<And>y. f (g y) = f y"
  shows "sort_key f (map g xs) = map g (sort_key f xs)"
proof (induction xs)
  case (Cons x xs)
  have "insort_key f (g x) (map g ys) = map g (insort_key f x ys)" for ys
    using assms by (induction ys) auto
  then show ?case using Cons by simp
qed simp

text \<open>
  The invariant. In memory: entries are numbered strictly upwards, and the current and the cover number
  are numbers of entries. Against the database: a restart would load the same project, up to the
  kind and snapshot of its entries.
\<close>

definition project_ok :: "project \<Rightarrow> bool" where
  "project_ok p \<longleftrightarrow>
     sorted_wrt (<) (map he_seq (pj_history p)) \<and> known_seq p (pj_current_seq p)
     \<and> (\<forall>n. pj_cover_seq p = Some n \<longrightarrow> known_seq p n)"

definition mirrored :: "storage_db \<Rightarrow> project \<Rightarrow> bool" where
  "mirrored db p \<longleftrightarrow> map_option plain_project (read_back db (pj_id p)) = Some (plain_project p)"

definition pm_ok :: "pm \<Rightarrow> bool" where
  "pm_ok s \<longleftrightarrow>
     (\<forall>pid p. map_of (pm_records s) pid = Some p \<longrightarrow>
        pj_id p = pid \<and> project_ok p \<and> mirrored (jb_db (pm_db s)) p)
     \<and> (\<forall>k. prow (jb_db (pm_db s)) k = None \<longrightarrow> hrows (jb_db (pm_db s)) k = [])
     \<and> distinct (map pr_id (db_projects (jb_db (pm_db s))))"

definition stored :: "storage_db \<Rightarrow> project \<Rightarrow> project_row \<Rightarrow> bool" where
  "stored db p r \<longleftrightarrow> prow db (pj_id p) = Some r
     \<and> map (plain_entry \<circ> entry_of_row) (sort_key hr_seq (hrows db (pj_id p))) = map plain_entry (pj_history p)
     \<and> r = (project_row_of p)\<lparr>pr_cover_seq := pj_cover_seq p\<rparr>"

lemma mirrored_iff: "mirrored db p \<longleftrightarrow> (\<exists>r. stored db p r)"
proof
  assume "mirrored db p"
  then obtain r q where r: "prow db (pj_id p) = Some r" "row_to_project db r = Some q"
      "plain_project q = plain_project p"
    by (auto simp: mirrored_def read_back_def split: Option.bind_splits)
  have id: "pr_id r = pj_id p" using r(1) by (auto simp: prow_def dest: find_Some_iff [THEN iffD1])
  from r(2) obtain t where t: "pr_template r = Some t" and q: "q = \<lparr>pj_id = pr_id r, pj_name = pr_name r, pj_template = t,
        pj_base_job = pr_base_job r, pj_current_seq = pr_current_seq r, pj_draft_mode = pr_draft_mode r,
        pj_source_session_ids = pr_source_session_ids r, pj_created_at = pr_created_at r,
        pj_updated_at = pr_updated_at r, pj_history = map entry_of_row (project_history db (pr_id r)),
        pj_cover_seq = pr_cover_seq r, pj_description = pr_description r\<rparr>"
    by (auto simp: row_to_project_def)
  have "stored db p r"
    using r(3) r(1) t id unfolding q stored_def plain_project_def
    by (cases p; cases r) (simp add: project_row_of_def project_history_def hrows_def)
  then show "\<exists>r. stored db p r" ..
next
  assume "\<exists>r. stored db p r"
  then obtain r where r: "stored db p r" ..
  show "mirrored db p"
    using r by (cases p) (simp add: mirrored_def stored_def read_back_def row_to_project_def project_row_of_def
        plain_project_def project_history_def hrows_def)
qed

lemma stored_seqs:
  assumes "stored db p r"
  shows "hr_seq ` set (hrows db (pj_id p)) = he_seq ` set (pj_history p)"
proof -
  have "map (he_seq \<circ> (plain_entry \<circ> entry_of_row)) (sort_key hr_seq (hrows db (pj_id p)))
      = map (he_seq \<circ> plain_entry) (pj_history p)"
    using assms unfolding stored_def by (metis map_map)
  then have "map hr_seq (sort_key hr_seq (hrows db (pj_id p))) = map he_seq (pj_history p)"
    by (simp add: comp_def plain_entry_def entry_of_row_def)
  then have "set (map hr_seq (sort_key hr_seq (hrows db (pj_id p)))) = set (map he_seq (pj_history p))" by simp
  then show ?thesis by simp
qed

text \<open>One write-through: what is left to check about an operation.\<close>

lemma save_ok:
  assumes ok: "pm_ok s"
    and db: "db_projects (jb_db db) = db_projects (jb_db (pm_db s))" "db_history (jb_db db) = db_history (jb_db (pm_db s))"
    and p: "project_ok p" "stored (write (jb_db db)) p r"
    and ids: "distinct (map pr_id (db_projects (jb_db db))) \<Longrightarrow> distinct (map pr_id (db_projects (write (jb_db db))))"
    and others: "\<And>k. k \<noteq> pj_id p \<Longrightarrow> prow (write (jb_db db)) k = prow (jb_db db) k
        \<and> hrows (write (jb_db db)) k = hrows (jb_db db) k"
  shows "pm_ok (save p write db s)"
proof -
  have same: "prow (jb_db db) k = prow (jb_db (pm_db s)) k" "hrows (jb_db db) k = hrows (jb_db (pm_db s)) k" for k
    using db by (simp_all add: prow_def hrows_def)
  have keep: "mirrored (write (jb_db db)) q" if "mirrored (jb_db (pm_db s)) q" "pj_id q \<noteq> pj_id p" for q
    using that others [of "pj_id q"] same by (simp add: mirrored_iff stored_def)
  have old: "pj_id q = pid \<and> project_ok q \<and> mirrored (jb_db (pm_db s)) q"
    if "map_of (pm_records s) pid = Some q" for pid q
    using ok that unfolding pm_ok_def by blast
  have empty: "hrows (jb_db (pm_db s)) k = []" if "prow (jb_db (pm_db s)) k = None" for k
    using ok that unfolding pm_ok_def by blast
  have none: "hrows (write (jb_db db)) k = []" if "prow (write (jb_db db)) k = None" for k
  proof (cases "k = pj_id p")
    case True
    then show ?thesis using that p(2) by (simp add: stored_def)
  next
    case False
    then show ?thesis using that others [OF False] empty [of k] by (simp add: same)
  qed
  have recs: "pj_id q = pid \<and> project_ok q \<and> mirrored (write (jb_db db)) q"
    if "map_of (dput (pj_id p) p (pm_records s)) pid = Some q" for pid q
  proof (cases "pid = pj_id p")
    case True
    then have "q = p" using that by simp
    have "mirrored (write (jb_db db)) p" unfolding mirrored_iff using p(2) by (rule exI)
    then show ?thesis using True p(1) unfolding \<open>q = p\<close> by simp
  next
    case False
    then have "map_of (pm_records s) pid = Some q" using that by simp
    note o = old [OF this]
    then have "mirrored (write (jb_db db)) q" by (intro keep) (use False in simp_all)
    then show ?thesis using o by simp
  qed
  have new: "pm_records (save p write db s) = dput (pj_id p) p (pm_records s)"
    "jb_db (pm_db (save p write db s)) = write (jb_db db)"
    by (simp_all add: save_def on_storage_def)
  show ?thesis
    unfolding pm_ok_def new
  proof (intro conjI allI impI)
    fix pid q
    assume q: "map_of (dput (pj_id p) p (pm_records s)) pid = Some q"
    from recs [OF q] show "pj_id q = pid" "project_ok q" "mirrored (write (jb_db db)) q" by simp_all
  next
    fix k
    assume "prow (write (jb_db db)) k = None"
    then show "hrows (write (jb_db db)) k = []" by (rule none)
  next
    have "distinct (map pr_id (db_projects (jb_db (pm_db s))))" using ok unfolding pm_ok_def by blast
    then show "distinct (map pr_id (db_projects (write (jb_db db))))" using ids db by simp
  qed
qed

lemma stored_row:
  assumes "stored db p r" "pj_id p1 = pj_id p" "map plain_entry (pj_history p1) = map plain_entry (pj_history p)"
    and "\<And>r. pr_id (f r) = pr_id r" "f r = (project_row_of p1)\<lparr>pr_cover_seq := pj_cover_seq p1\<rparr>"
  shows "stored (update_project_row (pj_id p) f db) p1 (f r)"
  using assms by (simp add: stored_def prow_update)

lemma stored_append:
  assumes s: "stored db p r" and id: "pj_id p1 = pj_id p" and hist: "pj_history p1 = pj_history p @ [e]"
    and new: "\<And>h. h \<in> set (pj_history p) \<Longrightarrow> he_seq h < he_seq e"
    and f: "\<And>r. pr_id (f r) = pr_id r" "f r = (project_row_of p1)\<lparr>pr_cover_seq := pj_cover_seq p1\<rparr>"
  shows "stored (persist_history_entry (pj_id p) e (update_project_row (pj_id p) f db)) p1 (f r)"
proof -
  let ?old = "hrows db (pj_id p)"
  have le: "hr_seq y < he_seq e" if "y \<in> set ?old" for y
  proof -
    have "hr_seq y \<in> he_seq ` set (pj_history p)" using that stored_seqs [OF s] by blast
    then show ?thesis using new by auto
  qed
  then have fresh: "he_seq e \<notin> hr_seq ` set ?old" by fastforce
  have "sort_key hr_seq (?old @ [history_row_of (pj_id p) e]) = sort_key hr_seq ?old @ [history_row_of (pj_id p) e]"
    by (rule sort_key_snoc) (use le in \<open>auto simp: history_row_of_def intro: less_imp_le\<close>)
  moreover have "plain_entry (entry_of_row (history_row_of (pj_id p) e)) = plain_entry e"
    by (simp add: plain_entry_def entry_of_row_def history_row_of_def)
  ultimately show ?thesis
    using s fresh f id hist by (simp add: stored_def prow_update hrows_persist)
qed

lemma stored_history_update:
  assumes s: "stored db p r" and id: "pj_id p1 = pj_id p"
    and hist: "map plain_entry (pj_history p1) = map (\<lambda>h. if he_seq h = seq then u h else h) (map plain_entry (pj_history p))"
    and g: "\<And>h. hr_project_id (g h) = hr_project_id h" "\<And>h. hr_seq (g h) = hr_seq h"
      "\<And>h. hr_seq h = seq \<Longrightarrow> plain_entry (entry_of_row (g h)) = u (plain_entry (entry_of_row h))"
    and f: "\<And>r. pr_id (f r) = pr_id r" "f r = (project_row_of p1)\<lparr>pr_cover_seq := pj_cover_seq p1\<rparr>"
  shows "stored (update_history_row (pj_id p) seq g (update_project_row (pj_id p) f db)) p1 (f r)"
proof -
  let ?g = "\<lambda>h. if hr_seq h = seq then g h else h"
  have seq: "he_seq (plain_entry (entry_of_row h)) = hr_seq h" for h
    by (simp add: plain_entry_def entry_of_row_def)
  have "map (plain_entry \<circ> entry_of_row) (sort_key hr_seq (map ?g (hrows db (pj_id p))))
      = map (\<lambda>h. if he_seq h = seq then u h else h)
          (map (plain_entry \<circ> entry_of_row) (sort_key hr_seq (hrows db (pj_id p))))"
    by (subst sort_key_map) (auto simp: g seq)
  also have "map (plain_entry \<circ> entry_of_row) (sort_key hr_seq (hrows db (pj_id p))) = map plain_entry (pj_history p)"
    using s by (simp add: stored_def)
  finally have "map (plain_entry \<circ> entry_of_row) (sort_key hr_seq (map ?g (hrows db (pj_id p))))
      = map plain_entry (pj_history p1)"
    unfolding hist .
  then show ?thesis
    using s f id by (simp add: stored_def prow_update hrows_update_history g(1))
qed

lemma swap_updates:
  "update_project_row pid f (update_history_row pid' seq g db) = update_history_row pid' seq g (update_project_row pid f db)"
  by (simp add: update_project_row_def update_history_row_def)

lemma others_row:
  assumes "\<And>r. pr_id (f r) = pr_id r" "k \<noteq> pid"
  shows "prow (update_project_row pid f db) k = prow db k" "hrows (update_project_row pid f db) k = hrows db k"
  using assms by (simp_all add: prow_update)

lemma sorted_index:
  assumes "sorted_wrt (<) (map he_seq hs)"
  shows "(case index_of_seq n hs of None \<Rightarrow> hs | Some i \<Rightarrow> hs[i := u (hs ! i)])
    = map (\<lambda>h. if he_seq h = n then u h else h) hs"
  using assms
proof (induction hs)
  case (Cons h hs)
  have tail: "map (\<lambda>h. if he_seq h = n then u h else h) hs = hs" if "he_seq h = n"
    using Cons.prems that by (auto intro!: map_idI)
  show ?case
  proof (cases "he_seq h = n")
    case True
    then show ?thesis using tail by simp
  next
    case False
    then show ?thesis using Cons by (simp split: option.splits)
  qed
qed simp

lemma replace_entry_map:
  assumes "sorted_wrt (<) (map he_seq hs)"
  shows "replace_entry e hs = map (\<lambda>h. if he_seq h = he_seq e then e else h) hs"
  using sorted_index [OF assms, where n = "he_seq e" and u = "\<lambda>_. e"] by (simp add: replace_entry_def)

lemma publish_entry_map:
  assumes "sorted_wrt (<) (map he_seq hs)"
  shows "publish_entry n b hs = map (\<lambda>h. if he_seq h = n then h\<lparr>he_published := b\<rparr> else h) hs"
  using sorted_index [OF assms, where n = n and u = "\<lambda>h. h\<lparr>he_published := b\<rparr>"] by (simp add: publish_entry_def)

lemma submit_storage:
  "submit jid now t j force db = Some db' \<Longrightarrow>
   db_projects (jb_db db') = db_projects (jb_db db) \<and> db_history (jb_db db') = db_history (jb_db db)"
  by (auto simp: submit_def Let_def persist_event_def split: if_splits)

lemma cancel_storage:
  "db_projects (jb_db (fst (cancel_job jid db))) = db_projects (jb_db db)"
  "db_history (jb_db (fst (cancel_job jid db))) = db_history (jb_db db)"
  by (simp_all add: cancel_job_def Let_def update_jobs_def)

lemma next_seq_greater:
  assumes "h \<in> set (pj_history p)"
  shows "he_seq h < next_history_seq p"
proof -
  obtain s ss where m: "map he_seq (pj_history p) = s # ss" using assms by (cases "pj_history p") auto
  have "he_seq h \<in> set (s # ss)" using assms by (metis m imageI list.set_map)
  then have "he_seq h \<le> fold max ss s" by (simp add: Max.set_eq_fold [symmetric] del: set_simps)
  then show ?thesis by (simp add: next_history_seq_def m)
qed

lemma append_ok:
  assumes "project_ok p" "pj_history q = pj_history p" "pj_cover_seq q = pj_cover_seq p"
    and "he_seq e = next_history_seq p"
  shows "project_ok (append_entry e now q)"
  using assms next_seq_greater [of _ p]
  by (auto simp: project_ok_def append_entry_def known_seq_def sorted_wrt_append)

section \<open>Every operation keeps the mirror\<close>

lemma pm_okD:
  assumes "pm_ok s" "map_of (pm_records s) pid = Some p"
  obtains r where "pj_id p = pid" "project_ok p" "stored (jb_db (pm_db s)) p r"
    "r = (project_row_of p)\<lparr>pr_cover_seq := pj_cover_seq p\<rparr>"
proof -
  have p: "pj_id p = pid" "project_ok p" "mirrored (jb_db (pm_db s)) p"
    using assms unfolding pm_ok_def by blast+
  from p(3) obtain r where r: "stored (jb_db (pm_db s)) p r" unfolding mirrored_iff ..
  then have "r = (project_row_of p)\<lparr>pr_cover_seq := pj_cover_seq p\<rparr>" unfolding stored_def by blast
  with p r show ?thesis by (intro that)
qed

lemma stored_cong:
  assumes "db_projects d = db_projects d'" "db_history d = db_history d'"
  shows "stored d p r = stored d' p r"
  using assms by (simp add: stored_def prow_def hrows_def)

lemma row_save_ok:
  assumes ok: "pm_ok s" and p: "map_of (pm_records s) pid = Some p"
    and p1: "pj_id p1 = pid" "project_ok p1" "pj_history p1 = pj_history p"
    and f: "\<And>r. pr_id (f r) = pr_id r"
      "f ((project_row_of p)\<lparr>pr_cover_seq := pj_cover_seq p\<rparr>) = (project_row_of p1)\<lparr>pr_cover_seq := pj_cover_seq p1\<rparr>"
  shows "pm_ok (save p1 (update_project_row pid f) (pm_db s) s)"
proof -
  from pm_okD [OF ok p] obtain r where r: "pj_id p = pid" "stored (jb_db (pm_db s)) p r"
    "r = (project_row_of p)\<lparr>pr_cover_seq := pj_cover_seq p\<rparr>" by blast
  have "stored (update_project_row (pj_id p) f (jb_db (pm_db s))) p1 (f r)"
    by (rule stored_row [OF r(2)]) (use p1 f r in simp_all)
  then show ?thesis
    by (intro save_ok [OF ok]) (use p1 f r(1) in \<open>simp_all add: prow_update ids_update\<close>)
qed

lemma append_save_ok:
  assumes ok: "pm_ok s" and p: "map_of (pm_records s) pid = Some p"
    and db: "db_projects (jb_db db) = db_projects (jb_db (pm_db s))" "db_history (jb_db db) = db_history (jb_db (pm_db s))"
    and q: "pj_id q = pid" "pj_history q = pj_history p" "pj_cover_seq q = pj_cover_seq p"
    and e: "he_seq e = next_history_seq p"
    and f: "\<And>r. pr_id (f r) = pr_id r"
      "f ((project_row_of p)\<lparr>pr_cover_seq := pj_cover_seq p\<rparr>)
       = (project_row_of (append_entry e now q))\<lparr>pr_cover_seq := pj_cover_seq q\<rparr>"
  shows "pm_ok (save (append_entry e now q) (persist_history_entry pid e \<circ> update_project_row pid f) db s)"
proof -
  from pm_okD [OF ok p] obtain r where r: "pj_id p = pid" "project_ok p" "stored (jb_db (pm_db s)) p r"
    "r = (project_row_of p)\<lparr>pr_cover_seq := pj_cover_seq p\<rparr>" by blast
  have "stored (jb_db db) p r" using r(3) stored_cong [OF db] by simp
  then have "stored (persist_history_entry (pj_id p) e (update_project_row (pj_id p) f (jb_db db))) (append_entry e now q) (f r)"
    by (rule stored_append)
       (use q f r e next_seq_greater in \<open>simp_all add: append_entry_def\<close>)
  then show ?thesis
    by (intro save_ok [OF ok db append_ok [OF r(2) q(2,3) e]])
       (use r(1) q f in \<open>simp_all add: append_entry_def prow_update ids_update hrows_persist\<close>)
qed

lemma history_save_ok:
  assumes ok: "pm_ok s" and p: "map_of (pm_records s) pid = Some p"
    and db: "db_projects (jb_db db) = db_projects (jb_db (pm_db s))" "db_history (jb_db db) = db_history (jb_db (pm_db s))"
    and p1: "pj_id p1 = pid" "pj_history p1 = map (\<lambda>h. if he_seq h = seq then v h else h) (pj_history p)"
      "pj_current_seq p1 = pj_current_seq p" "pj_cover_seq p1 = pj_cover_seq p"
    and v: "\<And>h. he_seq h = seq \<Longrightarrow> he_seq (v h) = seq" "\<And>h. he_seq h = seq \<Longrightarrow> plain_entry (v h) = u (plain_entry h)"
    and g: "\<And>h. hr_project_id (g h) = hr_project_id h" "\<And>h. hr_seq (g h) = hr_seq h"
      "\<And>h. hr_seq h = seq \<Longrightarrow> plain_entry (entry_of_row (g h)) = u (plain_entry (entry_of_row h))"
    and f: "\<And>r. pr_id (f r) = pr_id r"
      "f ((project_row_of p)\<lparr>pr_cover_seq := pj_cover_seq p\<rparr>) = (project_row_of p1)\<lparr>pr_cover_seq := pj_cover_seq p1\<rparr>"
  shows "pm_ok (save p1 (update_history_row pid seq g \<circ> update_project_row pid f) db s)"
proof -
  from pm_okD [OF ok p] obtain r where r: "pj_id p = pid" "project_ok p" "stored (jb_db (pm_db s)) p r"
    "r = (project_row_of p)\<lparr>pr_cover_seq := pj_cover_seq p\<rparr>" by blast
  have seqs: "map he_seq (pj_history p1) = map he_seq (pj_history p)"
    using v(1) by (simp add: p1(2))
  have "project_ok p1"
    using r(2) p1(3,4) unfolding project_ok_def known_seq_def seqs by simp
  moreover have "stored (jb_db db) p r" using r(3) stored_cong [OF db] by simp
  then have "stored (update_history_row (pj_id p) seq g (update_project_row (pj_id p) f (jb_db db))) p1 (f r)"
    by (rule stored_history_update [where u = u])
       (use p1 f r g v in \<open>simp_all add: plain_entry_def\<close>)
  ultimately show ?thesis
    by (intro save_ok [OF ok db]) (use r(1) p1 f in \<open>simp_all add: prow_update ids_update hrows_update_history g(1)\<close>)
qed

lemma with_project_Inr:
  assumes "with_project pid s f = Inr x"
  obtains p where "map_of (pm_records s) pid = Some p" "f p = Inr x"
  using assms by (auto simp: with_project_def get_project_def split: option.splits)

lemma with_current_Inr:
  assumes "with_current p f = Inr x"
  obtains e where "current_entry p = Some e" "f e = Inr x"
  using assms by (auto simp: with_current_def split: option.splits)

lemma submit_Inr:
  assumes "submit_with_overrides jid now p ov force db = Inr db'"
  shows "db_projects (jb_db db') = db_projects (jb_db db)" "db_history (jb_db db') = db_history (jb_db db)"
  using assms submit_storage by (auto simp: submit_with_overrides_def split: option.splits)

lemma tombstone_storage:
  assumes "tombstone jid db = Inr (db', b)"
  shows "db_projects (jb_db db') = db_projects (jb_db db)" "db_history (jb_db db') = db_history (jb_db db)"
  using assms cancel_storage [of jid db] by (auto simp: tombstone_def Let_def split: option.splits prod.splits)

lemma find_snoc: "find P (xs @ [x]) = (case find P xs of None \<Rightarrow> if P x then Some x else None | Some y \<Rightarrow> Some y)"
  by (induction xs) auto

lemma create_ok:
  assumes ok: "pm_ok s" and new: "prow (jb_db (pm_db s)) pid = None"
    and c: "create pid jid now name t base sessions s = Inr (s', p)"
  shows "pm_ok s'"
proof -
  from c obtain db p0 where db: "submit_with_overrides jid now p0 (j_param_overrides base) False (pm_db s) = Inr db"
    and p: "p = \<lparr>pj_id = pid, pj_name = name, pj_template = t, pj_base_job = base\<lparr>j_param_overrides := []\<rparr>,
               pj_current_seq = 0, pj_draft_mode = False, pj_source_session_ids = sessions, pj_created_at = now,
               pj_updated_at = now, pj_history = [edit_entry 0 jid (j_param_overrides base) (Some ''initial render'') now],
               pj_cover_seq = None, pj_description = None\<rparr>"
    and s': "s' = save p (persist_history_entry pid (edit_entry 0 jid (j_param_overrides base) (Some ''initial render'') now)
                           \<circ> persist_project_insert p) db s"
    by (auto simp: create_def Let_def rbind_eq_Inr)
  let ?e = "edit_entry 0 jid (j_param_overrides base) (Some ''initial render'') now"
  note same = submit_Inr [OF db]
  have new': "prow (jb_db db) pid = None" "hrows (jb_db db) pid = []"
    using new ok same by (simp_all add: prow_def hrows_def pm_ok_def)
  then have ins: "persist_project_insert p (jb_db db)
      = (jb_db db)\<lparr>db_projects := db_projects (jb_db db) @ [project_row_of p]\<rparr>"
    by (auto simp: persist_project_insert_def p prow_def find_None_iff)
  have rows: "prow (persist_project_insert p (jb_db db)) k = (if k = pid then Some (project_row_of p) else prow (jb_db db) k)"
    "hrows (persist_project_insert p (jb_db db)) k = hrows (jb_db db) k" for k
    using new'(1) unfolding ins by (auto simp: prow_def hrows_def project_row_of_def p find_snoc split: option.splits)
  have flds: "pj_id p = pid" "pj_history p = [?e]" "pj_cover_seq p = None" by (simp_all add: p)
  have row: "(project_row_of p)\<lparr>pr_cover_seq := None\<rparr> = project_row_of p" by (simp add: project_row_of_def)
  show ?thesis
    unfolding s'
  proof (rule save_ok [OF ok same])
    show "project_ok p" by (simp add: p project_ok_def known_seq_def edit_entry_def)
    show "stored ((persist_history_entry pid ?e \<circ> persist_project_insert p) (jb_db db)) p (project_row_of p)"
      using new' by (simp add: stored_def rows hrows_persist flds row plain_entry_def entry_of_row_def history_row_of_def
          edit_entry_def)
    show "distinct (map pr_id (db_projects (jb_db db)))
        \<Longrightarrow> distinct (map pr_id (db_projects ((persist_history_entry pid ?e \<circ> persist_project_insert p) (jb_db db))))"
      by (simp add: persist_project_insert_def project_row_of_def)
    show "prow ((persist_history_entry pid ?e \<circ> persist_project_insert p) (jb_db db)) k = prow (jb_db db) k
        \<and> hrows ((persist_history_entry pid ?e \<circ> persist_project_insert p) (jb_db db)) k = hrows (jb_db db) k"
      if "k \<noteq> pj_id p" for k
      using that by (simp add: rows hrows_persist flds)
  qed
qed

definition patched :: "project \<Rightarrow> bool option \<Rightarrow> project" where
  "patched p0 draft = (case draft of None \<Rightarrow> p0 | Some d \<Rightarrow> p0\<lparr>pj_draft_mode := d\<rparr>)"

definition patched_overrides :: "history_entry \<Rightarrow> patch option \<Rightarrow> overrides" where
  "patched_overrides prev ov =
     (case ov of None \<Rightarrow> he_overrides prev | Some pt \<Rightarrow> deep_merge_overrides (he_overrides prev) pt)"

definition patch_result ::
  "string \<Rightarrow> string \<Rightarrow> string \<Rightarrow> patch option \<Rightarrow> bool option \<Rightarrow> string option \<Rightarrow> project \<Rightarrow> history_entry
   \<Rightarrow> bool \<Rightarrow> jobs_db \<Rightarrow> pm \<Rightarrow> pm \<times> project" where
  "patch_result pid jid now ov draft l p0 prev collapse db2 s =
     (if collapse then
          let e = (edit_entry (he_seq prev) jid (patched_overrides prev ov) l now)\<lparr>he_published := he_published prev\<rparr>;
              q = (patched p0 draft)\<lparr>pj_history := replace_entry e (pj_history (patched p0 draft)), pj_updated_at := now\<rparr>
          in (save q (persist_history_replace pid e \<circ> persist_project_update q) db2 s, q)
        else
          let e = edit_entry (next_history_seq (patched p0 draft)) jid (patched_overrides prev ov) l now;
              q = append_entry e now (patched p0 draft)
          in (save q (persist_history_entry pid e \<circ> persist_project_update q) db2 s, q))"

lemma patch_Inr:
  assumes c: "patch_project rendered pid jid now ov draft label force s = Inr (s', p1)"
  obtains (patch) p0 prev db1 collapse db2 l where
    "map_of (pm_records s) pid = Some p0" "current_entry p0 = Some prev"
    "tombstone (he_job_id prev) (pm_db s) = Inr (db1, collapse)"
    "submit_with_overrides jid now (patched p0 draft) (patched_overrides prev ov) force db1 = Inr db2"
    "(s', p1) = patch_result pid jid now ov draft l p0 prev collapse db2 s"
proof -
  from c obtain p0 where p0: "map_of (pm_records s) pid = Some p0"
    unfolding patch_project_def by (rule with_project_Inr)
  then obtain prev where prev: "current_entry p0 = Some prev"
    using c by (auto simp: patch_project_def with_project_def get_project_def with_current_def split: option.splits)
  note c' = c [unfolded patch_project_def with_project_def get_project_def p0 option.case
      with_current_def prev Let_def, folded patched_def patched_overrides_def]
  then obtain tc where t: "tombstone (he_job_id prev) (pm_db s) = Inr tc"
    by (auto simp only: rbind_eq_Inr)
  obtain db1 collapse where tc: "tc = (db1, collapse)" by (cases tc)
  note c'' = c' [unfolded t tc rbind_Inr prod.case]
  then obtain db2 where sub: "submit_with_overrides jid now (patched p0 draft) (patched_overrides prev ov) force db1 = Inr db2"
    by (auto simp only: rbind_eq_Inr)
  show thesis
    using c'' [unfolded sub rbind_Inr]
    by (intro patch [OF p0 prev t [unfolded tc] sub, of "Some (patch_label rendered label force
          (if collapse then overrides_before (patched p0 draft) (he_seq prev) else he_overrides prev)
          (patched_overrides prev ov))"]) (auto simp: Let_def patch_result_def)
qed

lemma patch_at:
  assumes "patch_project rendered pid jid now ov draft label force s = Inr (s', p')"
    and "get_project pid s = Some p" "current_entry p = Some prev"
    and "tombstone (he_job_id prev) (pm_db s) = Inr (db1, collapse)"
  shows "\<exists>db2 l. submit_with_overrides jid now (patched p draft) (patched_overrides prev ov) force db1 = Inr db2
    \<and> (s', p') = patch_result pid jid now ov draft l p prev collapse db2 s"
  using assms(1)
proof (cases rule: patch_Inr)
  case (patch p0 prev0 d0 c0 db2 l)
  have "p0 = p" using patch(1) assms(2) by (simp add: get_project_def)
  moreover from this have "prev0 = prev" using patch(2) assms(3) by simp
  moreover from this have "d0 = db1" "c0 = collapse" using patch(3) assms(4) by simp_all
  ultimately show ?thesis using patch(4,5) by blast
qed

lemma patched_simps [simp]:
  "pj_id (patched p d) = pj_id p" "pj_history (patched p d) = pj_history p" "pj_cover_seq (patched p d) = pj_cover_seq p"
  "pj_current_seq (patched p d) = pj_current_seq p" "next_history_seq (patched p d) = next_history_seq p"
  by (simp_all add: patched_def next_history_seq_def split: option.splits)

lemma patch_ok:
  assumes ok: "pm_ok s" and c: "patch_project rendered pid jid now ov draft label force s = Inr (s', p1)"
  shows "pm_ok s'"
proof -
  from c obtain p0 prev db1 collapse db2 l where p0: "map_of (pm_records s) pid = Some p0"
    and prev: "current_entry p0 = Some prev" and t: "tombstone (he_job_id prev) (pm_db s) = Inr (db1, collapse)"
    and sub: "submit_with_overrides jid now (patched p0 draft) (patched_overrides prev ov) force db1 = Inr db2"
    and r: "(s', p1) = patch_result pid jid now ov draft l p0 prev collapse db2 s"
    by (rule patch_Inr)
  let ?p = "patched p0 draft" and ?ov = "patched_overrides prev ov"
  have id: "pj_id p0 = pid" "project_ok p0" using pm_okD [OF ok p0] by blast+
  have fits: "(project_row_of p0)\<lparr>pr_draft_mode := pj_draft_mode ?p\<rparr> = project_row_of ?p"
    by (simp add: patched_def project_row_of_def split: option.splits)
  have same: "db_projects (jb_db db2) = db_projects (jb_db (pm_db s))" "db_history (jb_db db2) = db_history (jb_db (pm_db s))"
    using tombstone_storage [OF t] submit_Inr [OF sub] by simp_all
  show ?thesis
  proof (cases collapse)
    case True
    define e where "e = (edit_entry (he_seq prev) jid ?ov l now)\<lparr>he_published := he_published prev\<rparr>"
    define q where "q = ?p\<lparr>pj_history := replace_entry e (pj_history ?p), pj_updated_at := now\<rparr>"
    have s': "s' = save q (persist_history_replace pid e \<circ> persist_project_update q) db2 s"
      using r True by (auto simp: e_def q_def Let_def patch_result_def)
    have sorted: "sorted_wrt (<) (map he_seq (pj_history p0))" using id(2) by (simp add: project_ok_def)
    have q: "pj_id q = pid" "pj_history q = map (\<lambda>h. if he_seq h = he_seq e then e else h) (pj_history p0)"
      "pj_current_seq q = pj_current_seq p0" "pj_cover_seq q = pj_cover_seq p0"
      using id replace_entry_map [OF sorted, of e] by (simp_all add: q_def)
    show ?thesis
      unfolding s' persist_history_replace_def persist_project_update_def q(1)
      by (rule history_save_ok [OF ok p0 same q, where u = "\<lambda>_. plain_entry e"])
         (use id fits in \<open>simp_all add: q_def e_def edit_entry_def plain_entry_def entry_of_row_def project_row_of_def\<close>)
  next
    case False
    define e where "e = edit_entry (next_history_seq ?p) jid ?ov l now"
    have s': "s' = save (append_entry e now ?p) (persist_history_entry pid e \<circ> persist_project_update (append_entry e now ?p)) db2 s"
      using r False by (auto simp: e_def Let_def patch_result_def)
    have pid: "pj_id (append_entry e now ?p) = pid" using id by (simp add: append_entry_def)
    show ?thesis
      unfolding s' persist_project_update_def pid
      by (rule append_save_ok [OF ok p0 same, of ?p])
         (use id fits in \<open>simp_all add: e_def edit_entry_def append_entry_def project_row_of_def\<close>)
  qed
qed

lemma set_cover_ok:
  assumes ok: "pm_ok s" and c: "set_cover pid n now s = Inr (s', p1)"
  shows "pm_ok s'"
proof -
  from c obtain p where p: "map_of (pm_records s) pid = Some p"
    unfolding set_cover_def by (rule with_project_Inr)
  have id: "pj_id p = pid" "project_ok p" using pm_okD [OF ok p] by blast+
  have p1: "p1 = p\<lparr>pj_cover_seq := n, pj_updated_at := now\<rparr>" "s' = save p1 (persist_project_update p1) (pm_db s) s"
    and known: "n = Some m \<Longrightarrow> known_seq p m" for m
    using c by (auto simp: set_cover_def with_project_def get_project_def p Let_def split: option.splits if_splits)
  have pid: "pj_id p1 = pid" by (simp add: p1(1) id)
  show ?thesis
    unfolding p1(2) persist_project_update_def pid
    by (rule row_save_ok [OF ok p pid])
       (use id(2) known in \<open>simp_all add: p1(1) project_ok_def known_seq_def project_row_of_def\<close>)
qed

lemma set_published_ok:
  assumes ok: "pm_ok s" and c: "set_published pid n b now s = Inr (s', p1)"
  shows "pm_ok s'"
proof -
  from c obtain p where p: "map_of (pm_records s) pid = Some p"
    unfolding set_published_def by (rule with_project_Inr)
  have id: "pj_id p = pid" "project_ok p" using pm_okD [OF ok p] by blast+
  have p1: "p1 = p\<lparr>pj_history := publish_entry n b (pj_history p), pj_updated_at := now\<rparr>"
    "s' = save p1 (persist_project_update p1 \<circ> persist_history_published pid n b) (pm_db s) s"
    using c by (auto simp: set_published_def with_project_def get_project_def p Let_def split: if_splits)
  have sorted: "sorted_wrt (<) (map he_seq (pj_history p))" using id(2) by (simp add: project_ok_def)
  have q: "pj_id p1 = pid" "pj_history p1 = map (\<lambda>h. if he_seq h = n then h\<lparr>he_published := b\<rparr> else h) (pj_history p)"
    "pj_current_seq p1 = pj_current_seq p" "pj_cover_seq p1 = pj_cover_seq p"
    by (simp_all add: p1(1) id publish_entry_map [OF sorted])
  have swap: "persist_project_update p1 \<circ> persist_history_published pid n b
      = persist_history_published pid n b \<circ> persist_project_update p1"
    by (simp add: fun_eq_iff persist_project_update_def persist_history_published_def swap_updates)
  show ?thesis
    unfolding p1(2) swap unfolding persist_history_published_def persist_project_update_def q(1)
    by (rule history_save_ok [OF ok p refl refl q, where u = "\<lambda>h. h\<lparr>he_published := b\<rparr>"])
       (simp_all add: p1(1) plain_entry_def entry_of_row_def project_row_of_def)
qed

lemma set_description_ok:
  assumes ok: "pm_ok s" and c: "set_description pid d now s = Inr (s', p1)"
  shows "pm_ok s'"
proof -
  from c obtain p where p: "map_of (pm_records s) pid = Some p"
    unfolding set_description_def by (rule with_project_Inr)
  have id: "pj_id p = pid" "project_ok p" using pm_okD [OF ok p] by blast+
  obtain n where p1: "p1 = p\<lparr>pj_description := n, pj_updated_at := now\<rparr>"
    "s' = save p1 (persist_project_update p1) (pm_db s) s"
    using c by (auto simp: set_description_def with_project_def get_project_def p Let_def)
  have pid: "pj_id p1 = pid" by (simp add: p1(1) id)
  show ?thesis
    unfolding p1(2) persist_project_update_def pid
    by (rule row_save_ok [OF ok p pid])
       (use id(2) in \<open>simp_all add: p1(1) project_ok_def known_seq_def project_row_of_def\<close>)
qed

lemma revert_ok:
  assumes ok: "pm_ok s" and c: "revert pid n now s = Inr (s', p1)"
  shows "pm_ok s'"
proof -
  from c obtain p where p: "map_of (pm_records s) pid = Some p"
    unfolding revert_def by (rule with_project_Inr)
  have id: "pj_id p = pid" "project_ok p" using pm_okD [OF ok p] by blast+
  have p1: "p1 = p\<lparr>pj_current_seq := n, pj_updated_at := now\<rparr>"
    "s' = save p1 (persist_project_update p1) (pm_db s) s" and known: "known_seq p n"
    using c by (auto simp: revert_def with_project_def get_project_def p Let_def split: if_splits)
  have pid: "pj_id p1 = pid" by (simp add: p1(1) id)
  show ?thesis
    unfolding p1(2) persist_project_update_def pid
    by (rule row_save_ok [OF ok p pid])
       (use id(2) known in \<open>simp_all add: p1(1) project_ok_def known_seq_def project_row_of_def\<close>)
qed

lemma swap_sessions_ok:
  assumes ok: "pm_ok s" and c: "swap_sessions pid jid now b ss snap auto s = Inr (s', p1, nj)"
  shows "pm_ok s'"
proof -
  from c obtain p0 where p0: "map_of (pm_records s) pid = Some p0"
    unfolding swap_sessions_def by (rule with_project_Inr)
  then obtain prev where prev: "current_entry p0 = Some prev"
    using c by (auto simp: swap_sessions_def with_project_def get_project_def with_current_def split: option.splits)
  define p where "p = p0\<lparr>pj_base_job := b\<lparr>j_param_overrides := []\<rparr>, pj_source_session_ids := ss\<rparr>"
  have id: "pj_id p0 = pid" "project_ok p0" using pm_okD [OF ok p0] by blast+
  have p: "pj_id p = pid" "pj_history p = pj_history p0" "pj_cover_seq p = pj_cover_seq p0"
    "next_history_seq p = next_history_seq p0"
    using id by (simp_all add: p_def next_history_seq_def)
  have fits: "(project_row_of p0)\<lparr>pr_base_job := pj_base_job p, pr_source_session_ids := ss\<rparr> = project_row_of p"
    by (simp add: p_def project_row_of_def)
  note c' = c [unfolded swap_sessions_def with_project_def get_project_def p0 option.case
      with_current_def prev Let_def, folded p_def]
  then obtain x where x: "(if auto then rbind (submit_with_overrides jid now p
        (if j_param_overrides b = [] then he_overrides prev
         else deep_merge_overrides (j_param_overrides b) (as_patch (he_overrides prev))) False
        (fst (cancel_job (he_job_id prev) (pm_db s)))) (\<lambda>db2. Inr (db2, Some jid))
      else Inr (fst (cancel_job (he_job_id prev) (pm_db s)), None)) = Inr x"
    by (auto simp only: rbind_eq_Inr)
  obtain db2 nj' where xx: "x = (db2, nj')" by (cases x)
  have same: "db_projects (jb_db db2) = db_projects (jb_db (pm_db s))" "db_history (jb_db db2) = db_history (jb_db (pm_db s))"
    using x cancel_storage [of "he_job_id prev" "pm_db s"]
    unfolding xx by (auto simp: rbind_eq_Inr submit_Inr split: if_splits)
  note r = c' [unfolded x xx rbind_Inr prod.case]
  define e where "e = (edit_entry (next_history_seq p) (if auto then jid else he_job_id prev)
      (if j_param_overrides b = [] then he_overrides prev
       else deep_merge_overrides (j_param_overrides b) (as_patch (he_overrides prev)))
      (Some (swap_label (length ss))) now)\<lparr>he_kind := ''swap_sessions'', he_snapshot := Some snap\<rparr>"
  have e: "he_seq e = next_history_seq p0" by (simp add: e_def edit_entry_def p(4))
  have s': "s' = save (append_entry e now p) (persist_history_entry pid e \<circ> persist_project_full (append_entry e now p)) db2 s"
    using r unfolding e_def [symmetric] by blast
  have pid: "pj_id (append_entry e now p) = pid" using p(1) by (simp add: append_entry_def)
  show ?thesis
    unfolding s' persist_project_full_def pid
    by (rule append_save_ok [OF ok p0 same p(1-3) e])
       (use p fits e in \<open>simp_all add: p_def append_entry_def project_row_of_def\<close>)
qed

lemma upgrade_ok:
  assumes ok: "pm_ok s" and c: "upgrade_template ms reg pid jid now t s = Inr (s', p1, gone)"
  shows "pm_ok s'"
proof -
  from c obtain p0 where p0: "map_of (pm_records s) pid = Some p0"
    unfolding upgrade_template_def by (rule with_project_Inr)
  note c0 = c [unfolded upgrade_template_def with_project_def get_project_def p0 option.case with_current_def]
  then have guards: "t_id t = t_id (pj_template p0)" "\<not> t_version t \<le> t_version (pj_template p0)"
    by (auto split: if_splits)
  then obtain prev where prev: "current_entry p0 = Some prev"
    using c0 by (auto split: option.splits)
  obtain ov dropped where m: "migrate_param_overrides ms reg t (t_version (pj_template p0)) (he_overrides prev) = (ov, dropped)"
    by (cases "migrate_param_overrides ms reg t (t_version (pj_template p0)) (he_overrides prev)")
  define p where "p = p0\<lparr>pj_template := t, pj_base_job := (pj_base_job p0)\<lparr>j_template_version := t_version t\<rparr>\<rparr>"
  have id: "pj_id p0 = pid" "project_ok p0" using pm_okD [OF ok p0] by blast+
  have p: "pj_id p = pid" "pj_history p = pj_history p0" "pj_cover_seq p = pj_cover_seq p0"
    "next_history_seq p = next_history_seq p0"
    using id by (simp_all add: p_def next_history_seq_def)
  note c' = c0 [unfolded prev option.case Let_def m prod.case, folded p_def]
  with guards obtain db2 where sub: "submit_with_overrides jid now p ov False (fst (cancel_job (he_job_id prev) (pm_db s))) = Inr db2"
    by (auto simp: rbind_eq_Inr)
  have same: "db_projects (jb_db db2) = db_projects (jb_db (pm_db s))" "db_history (jb_db db2) = db_history (jb_db (pm_db s))"
    using submit_Inr [OF sub] cancel_storage [of "he_job_id prev" "pm_db s"] by simp_all
  define e where "e = (edit_entry (next_history_seq p) jid ov
      (Some (''upgrade template (v'' @ show_int (t_version (pj_template p0)) @ '' -> v'' @ show_int (t_version t) @ '')'')) now)
      \<lparr>he_kind := ''template_upgrade'',
       he_snapshot := Some [(''from_version'', JInt (t_version (pj_template p0))), (''to_version'', JInt (t_version t)),
                            (''dropped_overrides'', JList (map JStr dropped))]\<rparr>"
  have e: "he_seq e = next_history_seq p0" by (simp add: e_def edit_entry_def p(4))
  have s': "s' = save (append_entry e now p) (persist_history_entry pid e \<circ> persist_project_template (append_entry e now p)) db2 s"
    using c' [unfolded sub rbind_Inr] guards unfolding e_def [symmetric] by (auto split: if_splits)
  have pid: "pj_id (append_entry e now p) = pid" using p(1) by (simp add: append_entry_def)
  show ?thesis
    unfolding s' persist_project_template_def pid
    by (rule append_save_ok [OF ok p0 same p(1-3) e])
       (use p e in \<open>simp_all add: p_def append_entry_def project_row_of_def\<close>)
qed

section \<open>Reachable states\<close>

text \<open>
  One call of the API on the manager, or anything the rest of the program does to the jobs part of the
  database. A new project's id is fresh (uuid4).
\<close>

inductive pm_step :: "'w registry \<Rightarrow> pm \<Rightarrow> pm \<Rightarrow> bool" for reg :: "'w registry" where
  step_create: "prow (jb_db (pm_db s)) pid = None \<Longrightarrow> create pid jid now name t base ss s = Inr (s', p) \<Longrightarrow> pm_step reg s s'"
| step_patch: "patch_project rendered pid jid now ov draft label force s = Inr (s', p) \<Longrightarrow> pm_step reg s s'"
| step_cover: "set_cover pid n now s = Inr (s', p) \<Longrightarrow> pm_step reg s s'"
| step_published: "set_published pid m b now s = Inr (s', p) \<Longrightarrow> pm_step reg s s'"
| step_description: "set_description pid d now s = Inr (s', p) \<Longrightarrow> pm_step reg s s'"
| step_swap: "swap_sessions pid jid now base ss snap auto s = Inr (s', p, nj) \<Longrightarrow> pm_step reg s s'"
| step_upgrade: "upgrade_template ms reg pid jid now t s = Inr (s', p, gone) \<Longrightarrow> pm_step reg s s'"
| step_revert: "revert pid m now s = Inr (s', p) \<Longrightarrow> pm_step reg s s'"
| step_jobs: "db_projects (jb_db db) = db_projects (jb_db (pm_db s)) \<Longrightarrow> db_history (jb_db db) = db_history (jb_db (pm_db s))
    \<Longrightarrow> pm_step reg s (s\<lparr>pm_db := db\<rparr>)"
| step_delete: "db_projects (jb_db db) = filter (\<lambda>r. pr_id r \<noteq> pid) (db_projects (jb_db (pm_db s)))
    \<Longrightarrow> db_history (jb_db db) = filter (\<lambda>h. hr_project_id h \<noteq> pid) (db_history (jb_db (pm_db s)))
    \<Longrightarrow> pm_step reg s (fst (forget pid (s\<lparr>pm_db := db\<rparr>)))"

lemma jobs_ok:
  assumes ok: "pm_ok s"
    and db: "db_projects (jb_db db) = db_projects (jb_db (pm_db s))" "db_history (jb_db db) = db_history (jb_db (pm_db s))"
  shows "pm_ok (s\<lparr>pm_db := db\<rparr>)"
proof -
  have "stored (jb_db db) p r = stored (jb_db (pm_db s)) p r" "prow (jb_db db) k = prow (jb_db (pm_db s)) k"
    "hrows (jb_db db) k = hrows (jb_db (pm_db s)) k" for p r k
    using stored_cong [OF db] db by (simp_all add: prow_def hrows_def)
  then have "mirrored (jb_db db) p = mirrored (jb_db (pm_db s)) p"
    "prow (jb_db db) k = prow (jb_db (pm_db s)) k" "hrows (jb_db db) k = hrows (jb_db (pm_db s)) k" for p k
    by (simp_all add: mirrored_iff)
  then show ?thesis using ok unfolding pm_ok_def by (simp add: db)
qed

lemma delete_ok:
  assumes ok: "pm_ok s"
    and db: "db_projects (jb_db db) = filter (\<lambda>r. pr_id r \<noteq> pid) (db_projects (jb_db (pm_db s)))"
      "db_history (jb_db db) = filter (\<lambda>h. hr_project_id h \<noteq> pid) (db_history (jb_db (pm_db s)))"
  shows "pm_ok (fst (forget pid (s\<lparr>pm_db := db\<rparr>)))"
proof -
  have "find (\<lambda>r. pr_id r = k) (filter (\<lambda>r. pr_id r \<noteq> pid) rs) = (if k = pid then None else find (\<lambda>r. pr_id r = k) rs)"
    for k and rs :: "project_row list"
    by (induction rs) auto
  then have rows: "prow (jb_db db) k = (if k = pid then None else prow (jb_db (pm_db s)) k)" for k
    by (simp add: prow_def db)
  have hist: "hrows (jb_db db) k = (if k = pid then [] else hrows (jb_db (pm_db s)) k)" for k
    by (auto simp: hrows_def db intro!: filter_cong)
  have keep: "mirrored (jb_db db) p" if "mirrored (jb_db (pm_db s)) p" "pj_id p \<noteq> pid" for p
    using that by (simp add: mirrored_iff stored_def rows hist)
  have ids: "distinct (map pr_id (db_projects (jb_db db)))"
    using ok by (simp add: pm_ok_def db distinct_map_filter)
  show ?thesis
    using ok ids keep unfolding pm_ok_def by (auto simp: forget_def rows hist)
qed

lemma pm_step_ok: "pm_step reg s s' \<Longrightarrow> pm_ok s \<Longrightarrow> pm_ok s'"
  by (induction rule: pm_step.induct)
     (blast intro: create_ok patch_ok set_cover_ok set_published_ok set_description_ok swap_sessions_ok upgrade_ok
        revert_ok jobs_ok delete_ok)+

definition empty_pm :: pm where
  "empty_pm = \<lparr>pm_records = [], pm_db = q_db init_queue\<rparr>"

lemma reachable_pm_ok: "(pm_step reg)\<^sup>*\<^sup>* empty_pm s \<Longrightarrow> pm_ok s"
proof (induction rule: rtranclp_induct)
  case base
  show ?case by (simp add: pm_ok_def empty_pm_def init_queue_def hrows_def)
qed (rule pm_step_ok)

text \<open>What \<open>__init__\<close> loads is, project by project, the database row read back.\<close>

lemma find_key:
  assumes "distinct (map f xs)"
  shows "find (\<lambda>x. f x = k) xs = Some x \<longleftrightarrow> x \<in> set xs \<and> f x = k"
  using assms by (induction xs) auto

lemma option_eqI: "(\<And>x. a = Some x \<longleftrightarrow> b = Some x) \<Longrightarrow> a = b"
  by (cases a; cases b) auto

lemma rehydrate_fold:
  assumes "distinct (map pr_id rs)"
  shows "map_of (fold (\<lambda>r out. case row_to_project db r of None \<Rightarrow> out | Some p \<Rightarrow> dput (pj_id p) p out) rs out) k
    = (case Option.bind (find (\<lambda>r. pr_id r = k) rs) (row_to_project db) of None \<Rightarrow> map_of out k | Some p \<Rightarrow> Some p)"
  using assms
proof (induction rs arbitrary: out)
  case (Cons r rs)
  have none: "find (\<lambda>r. pr_id r = k) rs = None" if "pr_id r = k"
    using Cons.prems that by (auto simp: find_None_iff) (metis imageI)
  have id: "pj_id p = pr_id r" if "row_to_project db r = Some p" for p
    using that by (auto simp: row_to_project_def)
  show ?case
    using Cons.IH Cons.prems none by (cases "row_to_project db r") (auto simp: id split: option.splits)
qed simp

lemma rehydrate_lookup:
  assumes "distinct (map pr_id (db_projects (jb_db (pm_db s))))"
  shows "get_project k (rehydrate s) = read_back (jb_db (pm_db s)) k"
proof -
  let ?rows = "db_projects (jb_db (pm_db s))"
  let ?sorted = "sort_desc pr_updated_at ?rows"
  have same: "mset (map pr_id ?sorted) = mset (map pr_id ?rows)" "set ?sorted = set ?rows"
    by (simp_all add: sort_desc_def)
  have d: "distinct (map pr_id ?sorted)"
    using assms mset_eq_imp_distinct_iff [OF same(1)] by simp
  have "find (\<lambda>r. pr_id r = k) ?sorted = find (\<lambda>r. pr_id r = k) ?rows"
    by (rule option_eqI) (simp add: find_key [OF d] find_key [OF assms] same(2))
  then show ?thesis
    by (simp add: get_project_def rehydrate_def read_back_def prow_def rehydrate_fold [OF d] split: option.splits)
qed

section \<open>What the project manager promises\<close>

text \<open>
  C3: whatever calls the API makes, in any order, a project in memory is well formed: its entries are
  numbered strictly upwards, the current number is the number of an entry (so looking it up never
  fails), and a cover number is too.
\<close>

theorem project_state_invariant:
  assumes "(pm_step reg)\<^sup>*\<^sup>* empty_pm s" "get_project pid s = Some p"
  shows "pj_id p = pid \<and> sorted_wrt (<) (map he_seq (pj_history p)) \<and> current_entry p \<noteq> None
    \<and> (\<forall>n. pj_cover_seq p = Some n \<longrightarrow> n \<in> he_seq ` set (pj_history p))"
proof -
  have "pj_id p = pid" "project_ok p"
    using reachable_pm_ok [OF assms(1)] assms(2) unfolding pm_ok_def get_project_def by blast+
  then show ?thesis
    by (auto simp: project_ok_def known_seq_def current_entry_def find_None_iff)
qed

text \<open>
  C4: the write-through keeps up. Whatever calls were made, a restart (a new manager that rehydrates from the
  database) finds every project of the old one with all its fields and entries; only the kind and
  snapshot of entries may differ.
\<close>

theorem restart_restores_projects:
  assumes "(pm_step reg)\<^sup>*\<^sup>* empty_pm s" "get_project pid s = Some p"
  shows "map_option plain_project (get_project pid (rehydrate s)) = Some (plain_project p)"
proof -
  note ok = reachable_pm_ok [OF assms(1)]
  then have p: "pj_id p = pid" "mirrored (jb_db (pm_db s)) p"
    using assms(2) unfolding pm_ok_def get_project_def by blast+
  have "get_project pid (rehydrate s) = read_back (jb_db (pm_db s)) pid"
    by (rule rehydrate_lookup) (use ok in \<open>simp add: pm_ok_def\<close>)
  then show ?thesis using p by (simp add: mirrored_def)
qed

lemma find_replaced:
  assumes "find (\<lambda>e. he_seq e = n) hs = Some h" "sorted_wrt (<) (map he_seq hs)"
  shows "find (\<lambda>e. he_seq e = n) (map (\<lambda>h. if he_seq h = n then v h else h) hs) = (if he_seq (v h) = n then Some (v h) else None)"
  using assms
proof (induction hs)
  case (Cons x hs)
  then show ?case by (cases "he_seq x = n") (auto simp: find_None_iff)
qed simp



text \<open>
  a revert undoes overrides only. After a session swap, going back to the entry that was current
  before it makes that entry current again, but the project keeps the new sessions and the new base job,
  although the entry kind and snapshot are there to tell a revert about the old ones. The next render
  combines the old sliders with the new sessions.
\<close>

theorem revert_keeps_swapped_sessions:
  assumes "(pm_step reg)\<^sup>*\<^sup>* empty_pm s" "get_project pid s = Some p" "current_entry p = Some prev"
    and "swap_sessions pid jid now base ss snap auto s = Inr (s1, p1, nj)"
  shows "\<exists>s2 p2. revert pid (he_seq prev) later s1 = Inr (s2, p2) \<and> current_entry p2 = Some prev
    \<and> pj_source_session_ids p2 = ss \<and> pj_base_job p2 = base\<lparr>j_param_overrides := []\<rparr>"
proof -
  have ok: "pj_id p = pid" "project_ok p"
    using reachable_pm_ok [OF assms(1)] assms(2) unfolding pm_ok_def get_project_def by blast+
  from assms(3) have prev: "find (\<lambda>e. he_seq e = pj_current_seq p) (pj_history p) = Some prev"
    "he_seq prev = pj_current_seq p" "prev \<in> set (pj_history p)"
    by (auto simp: current_entry_def find_Some_iff)
  have s1: "get_project pid s1 = Some p1 \<and> (\<exists>e. pj_history p1 = pj_history p @ [e]) \<and> pj_source_session_ids p1 = ss
      \<and> pj_base_job p1 = base\<lparr>j_param_overrides := []\<rparr>"
    using assms(2-4) ok(1)
    by (auto simp: swap_sessions_def with_project_def with_current_def Let_def rbind_eq_Inr append_entry_def
        get_project_def save_def split: prod.splits)
  then obtain e where e: "pj_history p1 = pj_history p @ [e]" by blast
  define p2 where "p2 = p1\<lparr>pj_current_seq := he_seq prev, pj_updated_at := later\<rparr>"
  have known: "known_seq p1 (he_seq prev)" using prev(3) e by (simp add: known_seq_def)
  have "revert pid (he_seq prev) later s1 = Inr (save p2 (persist_project_update p2) (pm_db s1) s1, p2)"
    using s1 known by (simp add: revert_def with_project_def p2_def Let_def)
  moreover have "current_entry p2 = Some prev"
    by (simp add: current_entry_def p2_def e find_snoc prev(1,2))
  moreover have "pj_source_session_ids p2 = ss" "pj_base_job p2 = base\<lparr>j_param_overrides := []\<rparr>"
    using s1 by (simp_all add: p2_def)
  ultimately show ?thesis by blast
qed

text \<open>
  collapsing a session swap. A PATCH while the swap's render is live (or was interrupted) rewrites the swap's
  entry as a plain edit in memory, while the database row keeps its kind and snapshot: the two differ
  until a restart, which brings the swap back.
\<close>

theorem collapsed_swap_diverges:
  assumes "(pm_step reg)\<^sup>*\<^sup>* empty_pm s" "get_project pid s = Some p" "current_entry p = Some prev"
    and "tombstone (he_job_id prev) (pm_db s) = Inr (db1, True)"
    and "patch_project rendered pid jid now ov draft label force s = Inr (s', p')"
  shows "(\<exists>e. current_entry p' = Some e \<and> he_seq e = he_seq prev \<and> he_kind e = ''edit'' \<and> he_snapshot e = None)
    \<and> map (\<lambda>h. (hr_seq h, hr_kind h, hr_snapshot h)) (hrows (jb_db (pm_db s')) pid)
      = map (\<lambda>h. (hr_seq h, hr_kind h, hr_snapshot h)) (hrows (jb_db (pm_db s)) pid)"
proof -
  have ok: "pj_id p = pid" "project_ok p"
    using reachable_pm_ok [OF assms(1)] assms(2) unfolding pm_ok_def get_project_def by blast+
  have sorted: "sorted_wrt (<) (map he_seq (pj_history p))" using ok(2) by (simp add: project_ok_def)
  from assms(3) have prev: "find (\<lambda>e. he_seq e = pj_current_seq p) (pj_history p) = Some prev"
    "he_seq prev = pj_current_seq p"
    by (auto simp: current_entry_def find_Some_iff)
  obtain db2 l where sub: "submit_with_overrides jid now (patched p draft) (patched_overrides prev ov) force db1 = Inr db2"
    and r: "(s', p') = patch_result pid jid now ov draft l p prev True db2 s"
    using patch_at [OF assms(5,2,3,4)] by blast
  let ?e = "(edit_entry (he_seq prev) jid (patched_overrides prev ov) l now)\<lparr>he_published := he_published prev\<rparr>"
  have seq: "he_seq ?e = pj_current_seq p" by (simp add: edit_entry_def prev(2))
  have p': "pj_history p' = map (\<lambda>h. if he_seq h = pj_current_seq p then ?e else h) (pj_history p)"
    "pj_current_seq p' = pj_current_seq p"
    "jb_db (pm_db s') = persist_history_replace pid ?e (persist_project_update p' (jb_db db2))"
    using r replace_entry_map [OF sorted, of ?e] seq
    by (auto simp: patch_result_def Let_def save_def on_storage_def)
  have mem: "current_entry p' = Some ?e"
    using find_replaced [OF prev(1) sorted, of "\<lambda>_. ?e"] seq by (simp add: current_entry_def p')
  have "hrows (jb_db db2) pid = hrows (jb_db (pm_db s)) pid"
    using tombstone_storage [OF assms(4)] submit_Inr [OF sub] by (simp add: hrows_def)
  then have "map (\<lambda>h. (hr_seq h, hr_kind h, hr_snapshot h)) (hrows (jb_db (pm_db s')) pid)
      = map (\<lambda>h. (hr_seq h, hr_kind h, hr_snapshot h)) (hrows (jb_db (pm_db s)) pid)"
    by (simp add: p'(3) persist_history_replace_def persist_project_update_def hrows_update_history)
  with mem show ?thesis by (simp add: edit_entry_def)
qed

section \<open>A project in use\<close>

definition pm_created :: pm where
  "pm_created = (case create ''p'' ''j0'' ''t0'' ''M 31'' demo_template demo_job [''s0''] empty_pm of
     Inl _ \<Rightarrow> empty_pm | Inr (s, _) \<Rightarrow> s)"

definition pm_swapped :: pm where
  "pm_swapped = (case swap_sessions ''p'' ''j1'' ''t1'' demo_job [''s1'', ''s2''] [(''n'', JInt 2)] True pm_created of
     Inl _ \<Rightarrow> empty_pm | Inr (s, _) \<Rightarrow> s)"

lemma result_state:
  assumes "s = (case r of Inl _ \<Rightarrow> d | Inr (s, _) \<Rightarrow> s)" "case r of Inl _ \<Rightarrow> False | Inr _ \<Rightarrow> True"
  shows "\<exists>x. r = Inr (s, x)"
  using assms by (auto split: sum.splits)

lemma demo_created: "\<exists>p. create ''p'' ''j0'' ''t0'' ''M 31'' demo_template demo_job [''s0''] empty_pm = Inr (pm_created, p)"
  by (rule result_state [OF pm_created_def]) code_simp

lemma demo_swapped:
  "\<exists>x. swap_sessions ''p'' ''j1'' ''t1'' demo_job [''s1'', ''s2''] [(''n'', JInt 2)] True pm_created = Inr (pm_swapped, x)"
  by (rule result_state [OF pm_swapped_def]) code_simp

lemma demo_runs:
  "(pm_step no_nodes)\<^sup>*\<^sup>* empty_pm pm_created" "(pm_step no_nodes)\<^sup>*\<^sup>* empty_pm pm_swapped"
proof -
  have "prow (jb_db (pm_db empty_pm)) ''p'' = None" by code_simp
  with demo_created have "pm_step no_nodes empty_pm pm_created" by (blast intro: step_create)
  then show created: "(pm_step no_nodes)\<^sup>*\<^sup>* empty_pm pm_created" by (rule r_into_rtranclp)
  obtain p nj where "swap_sessions ''p'' ''j1'' ''t1'' demo_job [''s1'', ''s2''] [(''n'', JInt 2)] True pm_created
      = Inr (pm_swapped, p, nj)"
    using demo_swapped by (metis surj_pair)
  then have "pm_step no_nodes pm_created pm_swapped" by (rule step_swap)
  with created show "(pm_step no_nodes)\<^sup>*\<^sup>* empty_pm pm_swapped" by (rule rtranclp.rtrancl_into_rtrancl)
qed

lemma demo_current:
  obtains p prev db1 where "get_project ''p'' pm_swapped = Some p" "current_entry p = Some prev"
    "tombstone (he_job_id prev) (pm_db pm_swapped) = Inr (db1, True)" "length (pj_history p) = 2"
proof -
  have "case get_project ''p'' pm_swapped of None \<Rightarrow> False | Some p \<Rightarrow> length (pj_history p) = 2 \<and>
      (case current_entry p of None \<Rightarrow> False | Some prev \<Rightarrow>
        (case tombstone (he_job_id prev) (pm_db pm_swapped) of Inl _ \<Rightarrow> False | Inr (db1, c) \<Rightarrow> c))"
    by code_simp
  then show thesis using that by (auto split: option.splits sum.splits)
qed

lemma demo_patched:
  "\<exists>s' p'. patch_project (\<lambda>_. ''v'') ''p'' ''j2'' ''t2'' None (Some True) None False pm_swapped = Inr (s', p')"
proof -
  have "case patch_project (\<lambda>_. ''v'') ''p'' ''j2'' ''t2'' None (Some True) None False pm_swapped of
      Inl _ \<Rightarrow> False | Inr _ \<Rightarrow> True"
    by code_simp
  then show ?thesis by (auto split: sum.splits)
qed

lemma project_state_invariant_witness:
  "\<exists>p. get_project ''p'' pm_swapped = Some p \<and> length (pj_history p) = 2 \<and> sorted_wrt (<) (map he_seq (pj_history p))"
  using project_state_invariant [OF demo_runs(2)] demo_current by metis

lemma restart_restores_projects_witness:
  "\<exists>p. get_project ''p'' pm_swapped = Some p \<and> length (pj_history p) = 2
    \<and> map_option plain_project (get_project ''p'' (rehydrate pm_swapped)) = Some (plain_project p)"
  using restart_restores_projects [OF demo_runs(2)] demo_current by metis


lemma revert_keeps_swapped_sessions_witness:
  "\<exists>s2 p2. get_project ''p'' pm_created \<noteq> None \<and> revert ''p'' 0 ''t2'' pm_swapped = Inr (s2, p2)
    \<and> pj_source_session_ids p2 = [''s1'', ''s2'']"
proof -
  have "case get_project ''p'' pm_created of None \<Rightarrow> False | Some p \<Rightarrow>
      (case current_entry p of None \<Rightarrow> False | Some prev \<Rightarrow> he_seq prev = 0)"
    by code_simp
  then obtain p prev where p: "get_project ''p'' pm_created = Some p" "current_entry p = Some prev" "he_seq prev = 0"
    by (auto split: option.splits)
  obtain p1 nj where "swap_sessions ''p'' ''j1'' ''t1'' demo_job [''s1'', ''s2''] [(''n'', JInt 2)] True pm_created
      = Inr (pm_swapped, p1, nj)"
    using demo_swapped by (metis surj_pair)
  from revert_keeps_swapped_sessions [OF demo_runs(1) p(1,2) this, where later = "''t2''"] p show ?thesis by auto
qed

lemma collapsed_swap_diverges_witness:
  "\<exists>s' p' e. patch_project (\<lambda>_. ''v'') ''p'' ''j2'' ''t2'' None (Some True) None False pm_swapped = Inr (s', p')
    \<and> current_entry p' = Some e \<and> he_seq e = 1 \<and> he_kind e = ''edit''
    \<and> map (\<lambda>h. (hr_seq h, hr_kind h)) (hrows (jb_db (pm_db s')) ''p'') = [(0, ''edit''), (1, ''swap_sessions'')]"
proof -
  obtain s' p' where r: "patch_project (\<lambda>_. ''v'') ''p'' ''j2'' ''t2'' None (Some True) None False pm_swapped = Inr (s', p')"
    using demo_patched by blast
  from demo_current obtain p prev db1 where p: "get_project ''p'' pm_swapped = Some p" "current_entry p = Some prev"
    "tombstone (he_job_id prev) (pm_db pm_swapped) = Inr (db1, True)" by blast
  have "case get_project ''p'' pm_swapped of None \<Rightarrow> False | Some p \<Rightarrow>
      (case current_entry p of None \<Rightarrow> False | Some prev \<Rightarrow> he_seq prev = 1)"
    by code_simp
  then have one: "he_seq prev = 1" using p by simp
  have cols: "map (\<lambda>h. (hr_seq h, hr_kind h, hr_snapshot h)) (hrows (jb_db (pm_db pm_swapped)) ''p'')
      = [(0, ''edit'', Null_Col), (1, ''swap_sessions'', Json_Col (JDict [(''n'', JInt 2)]))]"
    by code_simp
  note d = collapsed_swap_diverges [OF demo_runs(2) p r]
  have "map (\<lambda>h. (hr_seq h, hr_kind h)) (hrows (jb_db (pm_db s')) ''p'')
      = map (\<lambda>(n, k, _). (n, k)) (map (\<lambda>h. (hr_seq h, hr_kind h, hr_snapshot h)) (hrows (jb_db (pm_db s')) ''p''))"
    by simp
  also have "\<dots> = [(0, ''edit''), (1, ''swap_sessions'')]" unfolding d [THEN conjunct2] cols by simp
  finally have "map (\<lambda>h. (hr_seq h, hr_kind h)) (hrows (jb_db (pm_db s')) ''p'') = [(0, ''edit''), (1, ''swap_sessions'')]" .
  with d r one show ?thesis by auto
qed

section \<open>Migrations keep what the template still has\<close>

definition carries :: "'w registry \<Rightarrow> template \<Rightarrow> string \<Rightarrow> string \<Rightarrow> bool" where
  "carries reg t nid k =
     (case map_of (by_id t) nid of None \<Rightarrow> False
      | Some spec \<Rightarrow> (case registry_lookup reg (n_kind spec) (n_variant spec) of None \<Rightarrow> False
          | Some cls \<Rightarrow> k \<in> set (dkeys (cls_fields cls))))"

lemma node_overrides_dput: "node_overrides (dput n p ov) m = (if m = n then p else node_overrides ov m)"
  by (simp add: node_overrides_def)

lemma map_of_kept: "map_of (filter (\<lambda>(k, v). P k) ps) k = (if P k then map_of ps k else None)"
  by (induction ps) auto

lemma migrate_node_lookup:
  assumes "node_overrides (fst acc) nid = []"
  shows "map_of (node_overrides (fst (migrate_node reg t (nid, ps) acc)) m) k
    = (if m = nid then (if carries reg t nid k then map_of ps k else None) else map_of (node_overrides (fst acc) m) k)"
proof (cases acc)
  case (Pair survived gone)
  show ?thesis
  proof (cases "map_of (by_id t) nid")
    case (Some spec)
    then show ?thesis
    proof (cases "registry_lookup reg (n_kind spec) (n_variant spec)")
      case (Some cls)
      let ?known = "\<lambda>k. k \<in> set (dkeys (cls_fields cls))"
      have kept: "map_of (filter (\<lambda>(k, v). ?known k) ps) k = (if ?known k then map_of ps k else None)"
        by (rule map_of_kept)
      show ?thesis
        using Some \<open>map_of (by_id t) nid = Some spec\<close> assms Pair kept [symmetric]
        by (auto simp: migrate_node_def carries_def node_overrides_dput Let_def)
    qed (use assms Pair in \<open>auto simp: migrate_node_def carries_def\<close>)
  qed (use assms Pair in \<open>auto simp: migrate_node_def carries_def\<close>)
qed

lemma migrate_node_other:
  "m \<noteq> nid \<Longrightarrow> node_overrides (fst (migrate_node reg t (nid, ps) acc)) m = node_overrides (fst acc) m"
  by (auto simp: migrate_node_def node_overrides_dput Let_def split: option.splits prod.splits)

lemma migrate_fold_lookup:
  assumes "wf_dict ov" "\<And>n. n \<in> set (dkeys ov) \<Longrightarrow> node_overrides (fst acc) n = []"
  shows "map_of (node_overrides (fst (fold (migrate_node reg t) ov acc)) m) k
    = (if m \<in> set (dkeys ov) then (if carries reg t m k then map_of (node_overrides ov m) k else None)
       else map_of (node_overrides (fst acc) m) k)"
  using assms
proof (induction ov arbitrary: acc)
  case (Cons np ov)
  obtain n ps where np: "np = (n, ps)" by (cases np)
  have w: "wf_dict ov" "n \<notin> set (dkeys ov)" using Cons.prems(1) by (simp_all add: np)
  have n: "node_overrides (fst acc) n = []" using Cons.prems(2) by (simp add: np)
  have rest: "node_overrides (fst (migrate_node reg t (n, ps) acc)) j = []" if "j \<in> set (dkeys ov)" for j
  proof -
    have "j \<noteq> n" using w(2) that by blast
    then show ?thesis using Cons.prems(2) [of j] that by (simp add: migrate_node_other np)
  qed
  have ov: "node_overrides (np # ov) m = (if m = n then ps else node_overrides ov m)"
    by (simp add: node_overrides_def np)
  show ?case
    using Cons.IH [OF w(1) rest] migrate_node_lookup [OF n, of reg t ps m k] w(2) ov
    by (cases "m = n") (simp_all add: np)
qed simp

text \<open>
  what an upgrade keeps. The overrides carried to the new template version are, of those the
  registered migration gives, exactly the ones whose node exists there and whose parameter the node's
  registered class declares; each keeps its value.
\<close>

theorem migrate_keeps_declared:
  assumes "ov' = (case map_of ms (t_id t) of None \<Rightarrow> ov | Some fn \<Rightarrow> fn old (t_version t) ov)" "wf_dict ov'"
  shows "map_of (node_overrides (fst (migrate_param_overrides ms reg t old ov)) nid) k
    = (if carries reg t nid k then map_of (node_overrides ov' nid) k else None)"
proof -
  have none: "node_overrides ov' nid = []" if "nid \<notin> set (dkeys ov')"
    using that by (simp add: node_overrides_def map_of_eq_None_iff [THEN iffD2] split: option.split)
  have "map_of (node_overrides (fst (fold (migrate_node reg t) ov' ([], []))) nid) k
    = (if nid \<in> set (dkeys ov') then (if carries reg t nid k then map_of (node_overrides ov' nid) k else None) else None)"
    using migrate_fold_lookup [OF assms(2), of "([], [])" reg t nid k] by (simp add: node_overrides_def)
  then show ?thesis
    using none by (simp add: migrate_param_overrides_def assms(1) [symmetric])
qed

lemma migrate_keeps_declared_witness:
  "map_of (node_overrides (fst (migrate_param_overrides [(''t'', \<lambda>_ _ ov. dput ''s'' [(''x'', JInt 2), (''y'', JNull)] ov)]
      [((''stack'', None), (demo_cls ''SeqStack'' :: unit node_cls)\<lparr>cls_fields := [(''x'', None)]\<rparr>)] demo_template 0
      [(''s'', [(''x'', JInt 1)]), (''gone'', [(''x'', JInt 1)])])) ''s'') ''x'' = Some (JInt 2)"
  by (subst migrate_keeps_declared [OF refl])
     (simp_all add: demo_template_def node_overrides_def carries_def by_id_def registry_lookup_def)

end
