(* ===== verification/Api_Projects.thy ===== *)
theory Api_Projects
  imports Api_Catalog Projects Storage
begin

text \<open>
  The project endpoints of \<open>server/api.py\<close>: they compose the library (Api_Catalog), the job builder, the project
  manager and the content cache. The state is the process's: the library, the masters and their matches, the staging
  area, the project manager with its database, and the cache. Ids and clock readings are arguments; the environment has what
  the process reads and never writes (the sizes of the frames' files among it). A handler gives the
  state it leaves with its answer or error: an error of a status code, a refusal of the job builder or of the
  project manager with the status the handler gives it (the detail is the exception's text), or \<open>Server_Error\<close> for an exception no handler catches (500).
\<close>

section \<open>The server\<close>

record 'w server_env =
  sx_registry :: "'w registry"
  sx_resolve :: "string \<Rightarrow> string"
  sx_digest :: "string \<Rightarrow> string"
  sx_home :: string
  sx_openngc :: openngc
  sx_common :: "(string, string) dict"
  sx_templates :: "template list"
  sx_frame_size :: "int \<Rightarrow> int"

record server_state =
  sv_library :: library
  sv_masters :: "master list"
  sv_matches :: cal_table
  sv_stages :: stages
  sv_projects :: pm
  sv_cache :: cache

record stamp =
  st_project_id :: string
  st_job_id :: string
  st_now :: string

datatype request_error = Refused api_error | Not_Built nat build_error | Not_Done nat pm_error | Server_Error

definition sv_db :: "server_state \<Rightarrow> storage_db" where
  "sv_db sv = jb_db (pm_db (sv_projects sv))"

definition sv_sessions :: "server_state \<Rightarrow> session_row list" where
  "sv_sessions sv = ct_sessions (lb_catalog (sv_library sv))"

definition load_template :: "'w server_env \<Rightarrow> string \<Rightarrow> template option" where
  "load_template env tid = find (\<lambda>t. t_id t = tid) (sx_templates env)"

definition no_project :: "string \<Rightarrow> request_error" where
  "no_project pid = Refused (Http 404 (''project '' @ pid @ '' not found''))"

text \<open>The handlers' \<open>except\<close> clauses: \<open>ProjectNotFound\<close> is 404, \<open>ValueError\<close> 400.\<close>

definition manager_error :: "string \<Rightarrow> pm_error \<Rightarrow> request_error" where
  "manager_error pid e =
     (case e of
        Project_Not_Found _ \<Rightarrow> no_project pid
      | No_Current_Entry \<Rightarrow> Server_Error
      | Submit_Failed \<Rightarrow> Server_Error
      | Bad_Job_Row \<Rightarrow> Server_Error
      | _ \<Rightarrow> Not_Done 400 e)"

text \<open>\<open>except\<close> around the job builder; an unknown node kind or a failed bundle match is no \<open>JobBuildError\<close>.\<close>

definition build_refused :: "build_error \<Rightarrow> request_error" where
  "build_refused e =
     (case e of
        Session_Missing _ \<Rightarrow> Not_Built 404 e
      | No_Lights _ \<Rightarrow> Not_Built 404 e
      | Job_Builder.Unknown_Node _ \<Rightarrow> Server_Error
      | Bundle_Failed _ \<Rightarrow> Server_Error
      | _ \<Rightarrow> Not_Built 400 e)"

definition missing_session :: "server_state \<Rightarrow> int list \<Rightarrow> int option" where
  "missing_session sv sids = find (\<lambda>sid. session_of (sv_library sv) sid = None) sids"

definition build_sessions ::
  "'w server_env \<Rightarrow> server_state \<Rightarrow> int list \<Rightarrow> template \<Rightarrow> calibration_spec option \<Rightarrow> request_error + job \<times> stages" where
  "build_sessions env sv sids t calibration =
     (case build_from_sessions (sx_registry env) (sx_resolve env) (sx_digest env) (sx_home env)
             (lb_catalog (sv_library sv)) (sv_masters sv) (sv_matches sv) sids t calibration (sv_stages sv) of
        Inl e \<Rightarrow> Inl (build_refused e)
      | Inr r \<Rightarrow> Inr r)"

section \<open>Creating a project\<close>

record project_request =
  cq_session_ids :: "int list"
  cq_template_id :: string
  cq_name :: "string option"
  cq_calibration :: "calibration_spec option"

definition create_project ::
  "stamp \<Rightarrow> string \<Rightarrow> template \<Rightarrow> job \<Rightarrow> string list \<Rightarrow> server_state \<Rightarrow> server_state \<times> (request_error + project)" where
  "create_project st name t base_job source_session_ids sv =
     (case create (st_project_id st) (st_job_id st) (st_now st) name t base_job source_session_ids (sv_projects sv) of
        Inl e \<Rightarrow> (sv, Inl Server_Error)
      | Inr (s', p) \<Rightarrow> (sv\<lparr>sv_projects := s'\<rparr>, Inr p))"

definition given_name :: "string option \<Rightarrow> string option" where
  "given_name n = (case n of None \<Rightarrow> None | Some s \<Rightarrow> if s = '''' then None else Some s)"

definition target_title :: "server_state \<Rightarrow> int \<Rightarrow> string option" where
  "target_title sv sid =
     (case target_row (sv_library sv) sid of None \<Rightarrow> None | Some (_, n, _) \<Rightarrow> given_name (Some n))"

definition int_list_text :: "int list \<Rightarrow> string" where
  "int_list_text xs = ''['' @ join '', '' (map show_int xs) @ '']''"


definition sessions_title :: "server_state \<Rightarrow> int list \<Rightarrow> string option \<Rightarrow> string" where
  "sessions_title sv sids name =
     (case given_name name of
        Some n \<Rightarrow> n
      | None \<Rightarrow>
          (case target_title sv (hd sids) of
             Some n \<Rightarrow> if 1 < length sids then n @ '' ('' @ show_nat (length sids) @ '' sessions)'' else n
           | None \<Rightarrow> ''sessions '' @ int_list_text sids))"


definition share_target :: "'w server_env \<Rightarrow> server_state \<Rightarrow> int list \<Rightarrow> string option \<Rightarrow> request_error + unit" where
  "share_target env sv sids expected =
     (case assert_sessions_share_target (sx_openngc env) (sv_library sv) sids expected of
        Inl e \<Rightarrow> Inl (Refused e) | Inr u \<Rightarrow> Inr u)"

text \<open>The gates every proposed set of sessions passes: it is not empty and each of them exists.\<close>

definition proposed_sessions :: "server_state \<Rightarrow> int list \<Rightarrow> request_error + int list" where
  "proposed_sessions sv session_ids =
     (if session_ids = [] then Inl (Refused (Http 400 ''session_ids must not be empty''))
      else let sids = sort (remdups session_ids)
        in case missing_session sv sids of
             Some sid \<Rightarrow> Inl (Refused (Http 404 (''session '' @ show_int sid @ '' not found'')))
           | None \<Rightarrow> Inr sids)"

definition accept_new_project ::
  "'w server_env \<Rightarrow> server_state \<Rightarrow> project_request \<Rightarrow> request_error + int list \<times> template \<times> job \<times> stages" where
  "accept_new_project env sv rq =
     rbind (proposed_sessions sv (cq_session_ids rq)) (\<lambda>sids.
     rbind (share_target env sv sids None) (\<lambda>_.
       case load_template env (cq_template_id rq) of
         None \<Rightarrow> Inl (Refused (Http 404 (''template '' @ cq_template_id rq @ '' not found'')))
       | Some t \<Rightarrow> rbind (build_sessions env sv sids t (cq_calibration rq)) (\<lambda>(job, fs). Inr (sids, t, job, fs))))"

definition create_project_from_sessions ::
  "'w server_env \<Rightarrow> stamp \<Rightarrow> project_request \<Rightarrow> server_state \<Rightarrow> server_state \<times> (request_error + project)" where
  "create_project_from_sessions env st rq sv =
     (case accept_new_project env sv rq of
        Inl e \<Rightarrow> (sv, Inl e)
      | Inr (sids, t, job, fs) \<Rightarrow>
          create_project st (sessions_title sv sids (cq_name rq)) t job (map show_int sids) (sv\<lparr>sv_stages := fs\<rparr>))"

section \<open>The cache of a project\<close>







section \<open>Changing the sessions of a project\<close>

definition get_project_suggestions :: "'w server_env \<Rightarrow> string \<Rightarrow> server_state \<Rightarrow> request_error + suggestions" where
  "get_project_suggestions env pid sv =
     (case get_project pid (sv_projects sv) of
        None \<Rightarrow> Inl (no_project pid)
      | Some p \<Rightarrow>
          Inr (suggestions_for_project (sx_digest env) (sx_openngc env) (sv_library sv)
            (canonical_group_for_project (sx_openngc env) (sv_library sv) (pj_source_session_ids p))
            (pj_source_session_ids p)))"

definition swap_snapshot :: "server_state \<Rightarrow> int list \<Rightarrow> params" where
  "swap_snapshot sv ids =
     (let rows = filter (\<lambda>s. se_id s \<in> set ids) (sv_sessions sv)
      in [(''session_ids'', JList (map JInt ids)),
          (''frame_count'', JInt (sum_list (map se_frame_count rows))),
          (''failed_count'', JInt (sum_list (map se_failed_count rows))),
          (''integration_seconds'', JFloat (Fin (sum_list (map usable_seconds rows))))])"

record sessions_request =
  tq_session_ids :: "int list"
  tq_auto_render :: bool

definition accept_sessions ::
  "'w server_env \<Rightarrow> server_state \<Rightarrow> project \<Rightarrow> int list \<Rightarrow> request_error + int list \<times> job \<times> stages" where
  "accept_sessions env sv p session_ids =
     rbind (proposed_sessions sv session_ids) (\<lambda>new_ids.
     rbind (case canonical_group_for_project (sx_openngc env) (sv_library sv) (pj_source_session_ids p) of
              None \<Rightarrow> Inr () | Some c \<Rightarrow> share_target env sv new_ids (Some c)) (\<lambda>_.
     rbind (build_sessions env sv new_ids (pj_template p) (Some (j_calibration (pj_base_job p)))) (\<lambda>(job, fs).
       Inr (new_ids, job, fs))))"

definition patch_project_sessions ::
  "'w server_env \<Rightarrow> stamp \<Rightarrow> string \<Rightarrow> sessions_request \<Rightarrow> server_state
   \<Rightarrow> server_state \<times> (request_error + project \<times> nat \<times> nat \<times> string option)" where
  "patch_project_sessions env st pid rq sv =
     (case get_project pid (sv_projects sv) of
        None \<Rightarrow> (sv, Inl (no_project pid))
      | Some p \<Rightarrow>
          (case accept_sessions env sv p (tq_session_ids rq) of
             Inl e \<Rightarrow> (sv, Inl e)
           | Inr (new_ids, job, fs) \<Rightarrow>
               let sv1 = sv\<lparr>sv_stages := fs\<rparr>
               in case rbind (build_reachability (sx_registry env) (sv_db sv1) (sv_cache sv1))
                         (\<lambda>_. terminal_output_hashes (sv_db sv1) pid) of
                    Inl e \<Rightarrow> (sv1, Inl Server_Error)
                  | Inr _ \<Rightarrow>
                      (case swap_sessions pid (st_job_id st) (st_now st) job (map show_int new_ids)
                              (swap_snapshot sv1 new_ids) (tq_auto_render rq) (sv_projects sv1) of
                         Inl e \<Rightarrow> (sv1, Inl (manager_error pid e))
                       | Inr (s', p', new_job) \<Rightarrow>
                           let sv2 = sv1\<lparr>sv_projects := s'\<rparr>
                           in case purge_project_cache (sx_registry env) (sv_db sv2) (sv_cache sv2) pid False of
                                Inl e \<Rightarrow> (sv2, Inl Server_Error)
                              | Inr (c, evicted, freed) \<Rightarrow>
                                  (sv2\<lparr>sv_cache := c\<rparr>, Inr (p', evicted, freed, new_job)))))"

section \<open>The other handlers\<close>










section \<open>What the project lists show\<close>

text \<open>The output shown for a history entry: hash and port. A job row that cannot be read raises.\<close>

definition shown_port :: "(string, ref) dict \<Rightarrow> (string \<times> string) option" where
  "shown_port outputs =
     (let port = (if has_key outputs ''image'' then ''image'' else fst (hd outputs))
      in map_option (\<lambda>r. (r_node_hash r, port)) (map_of outputs port))"

definition entry_preview :: "jobs_db \<Rightarrow> history_entry \<Rightarrow> request_error + (string \<times> string) option" where
  "entry_preview db e =
     (case get_job (he_job_id e) db of
        None \<Rightarrow> Inl Server_Error
      | Some None \<Rightarrow> Inr None
      | Some (Some r) \<Rightarrow>
          (case rec_outputs r of
             None \<Rightarrow> Inr None
           | Some outs \<Rightarrow> if outs = [] then Inr None else Inr (shown_port outs)))"

fun first_preview :: "jobs_db \<Rightarrow> history_entry list \<Rightarrow> request_error + (string \<times> string) option" where
  "first_preview db [] = Inr None"
| "first_preview db (e # es) =
     rbind (entry_preview db e) (\<lambda>r. case r of None \<Rightarrow> first_preview db es | Some x \<Rightarrow> Inr (Some x))"

definition preview_seqs :: "project \<Rightarrow> int list" where
  "preview_seqs p =
     (case pj_cover_seq p of None \<Rightarrow> [] | Some n \<Rightarrow> [n]) @ [pj_current_seq p] @ rev [0..pj_current_seq p - 1]
     @ [pj_current_seq p + 1..int (length (pj_history p)) - 1]"

definition attach_preview :: "jobs_db \<Rightarrow> project \<Rightarrow> request_error + (string \<times> string) option" where
  "attach_preview db p =
     first_preview db (List.map_filter (map_of (rev (map (\<lambda>h. (he_seq h, h)) (pj_history p)))) (preview_seqs p))"

record capture =
  cp_session_count :: nat
  cp_frame_count :: int
  cp_failed_count :: int
  cp_exptime :: "rat option"
  cp_gain :: "int option"
  cp_filter :: "string option"
  cp_started_at :: "string option"
  cp_ended_at :: "string option"
  cp_target_name :: "string option"
  cp_target_common_name :: "string option"
  cp_integration_seconds :: "rat option"
  cp_bytes_on_disk :: int

definition no_capture :: capture where
  "no_capture = \<lparr>cp_session_count = 0, cp_frame_count = 0, cp_failed_count = 0, cp_exptime = None, cp_gain = None,
     cp_filter = None, cp_started_at = None, cp_ended_at = None, cp_target_name = None, cp_target_common_name = None,
     cp_integration_seconds = None, cp_bytes_on_disk = 0\<rparr>"

definition target_common_name :: "'w server_env \<Rightarrow> string \<Rightarrow> string option" where
  "target_common_name env name =
     (case Option.bind (enrich (snd (sx_openngc env)) (Some name)) (given_name \<circ> en_common_name) of
        Some c \<Rightarrow> Some c | None \<Rightarrow> lookup_common (sx_common env) (Some name))"

text \<open>\<open>ORDER BY started_at\<close>: NULL sorts first.\<close>

definition started_key :: "session_row \<Rightarrow> nat \<times> string" where
  "started_key s = (case se_started_at s of None \<Rightarrow> (0, '''') | Some t \<Rightarrow> (1, t))"

definition present_texts :: "string option list \<Rightarrow> string list" where
  "present_texts xs = List.map_filter given_name xs"

definition capture_for_project :: "'w server_env \<Rightarrow> library \<Rightarrow> string list \<Rightarrow> capture" where
  "capture_for_project env lb session_ids =
     (case those (map int_of_text session_ids) of
        None \<Rightarrow> no_capture
      | Some ids \<Rightarrow>
          (case sort_key started_key (filter (\<lambda>s. se_id s \<in> set ids) (ct_sessions (lb_catalog lb))) of
             [] \<Rightarrow> no_capture
           | hd_row # rest \<Rightarrow>
               let rows = hd_row # rest; name = map_option (fst \<circ> snd) (target_row lb (se_id hd_row));
                   counted = filter (\<lambda>s. se_exptime s \<noteq> None \<and> 0 < usable_frames s) rows
               in \<lparr>cp_session_count = length rows, cp_frame_count = sum_list (map se_frame_count rows),
                   cp_failed_count = sum_list (map se_failed_count rows), cp_exptime = se_exptime hd_row,
                   cp_gain = se_gain hd_row, cp_filter = se_filter hd_row,
                   cp_started_at = py_min id (present_texts (map se_started_at rows)),
                   cp_ended_at = (case present_texts (map se_ended_at rows) of [] \<Rightarrow> None | x # xs \<Rightarrow> Some (fold max xs x)),
                   cp_target_name = name,
                   cp_target_common_name = Option.bind (given_name name) (target_common_name env),
                   cp_integration_seconds = (if counted = [] then None else Some (sum_list (map usable_seconds counted))),
                   cp_bytes_on_disk = sum_list (map (sx_frame_size env \<circ> snd)
                     (filter (\<lambda>(s, f). s \<in> set (map se_id rows)) (ct_links (lb_catalog lb))))\<rparr>))"

definition integration_for_sessions :: "library \<Rightarrow> string list \<Rightarrow> rat option" where
  "integration_for_sessions lb session_ids =
     (case those (map int_of_text session_ids) of
        None \<Rightarrow> None
      | Some ids \<Rightarrow>
          let tot = sum_list (map usable_seconds (filter (\<lambda>s. se_id s \<in> set ids) (ct_sessions (lb_catalog lb))))
          in if 0 < tot then Some tot else None)"

definition display_group :: "openngc \<Rightarrow> int \<times> string \<times> string option \<Rightarrow> string option" where
  "display_group cat = (\<lambda>(tid, name, resolved).
     case given_name resolved of
       Some c \<Rightarrow> Some c | None \<Rightarrow> map_option en_canonical (enrich (snd cat) (Some name)))"

definition display_for_project :: "'w server_env \<Rightarrow> library \<Rightarrow> string list \<Rightarrow> (string \<times> string) option" where
  "display_for_project env lb session_ids =
     (case those (map int_of_text session_ids) of
        None \<Rightarrow> None
      | Some ids \<Rightarrow>
          (case map (display_group (sx_openngc env)) (List.map_filter (target_row lb) ids) of
             Some c # rest \<Rightarrow>
               if \<not> list_all (\<lambda>g. g = Some c) rest then None
               else (case enrich (snd (sx_openngc env)) (Some c) of
                   None \<Rightarrow> map_option (\<lambda>n. (n, c)) (given_name (lookup_common (sx_common env) (Some c)))
                 | Some e \<Rightarrow>
                     map_option (\<lambda>n. (n, en_canonical e))
                       (given_name (case given_name (en_common_name e) of
                          Some n \<Rightarrow> Some n | None \<Rightarrow> lookup_common (sx_common env) (Some (en_canonical e)))))
           | _ \<Rightarrow> None))"

record gallery_entry =
  ge_project_id :: string
  ge_project_name :: string
  ge_target_common_name :: "string option"
  ge_template_id :: string
  ge_seq :: int
  ge_label :: "string option"
  ge_created_at :: string
  ge_preview_hash :: string
  ge_preview_port :: string
  ge_is_cover :: bool

definition gallery_of_entry :: "'w server_env \<Rightarrow> server_state \<Rightarrow> project \<Rightarrow> history_entry \<Rightarrow> request_error + gallery_entry list" where
  "gallery_of_entry env sv p e =
     (if \<not> he_published e then Inr []
      else rbind (entry_preview (pm_db (sv_projects sv)) e) (\<lambda>shown.
        case shown of
          None \<Rightarrow> Inr []
        | Some (h, port) \<Rightarrow>
            Inr [\<lparr>ge_project_id = pj_id p, ge_project_name = pj_name p,
                  ge_target_common_name = cp_target_common_name (capture_for_project env (sv_library sv) (pj_source_session_ids p)),
                  ge_template_id = t_id (pj_template p), ge_seq = he_seq e, ge_label = he_label e,
                  ge_created_at = he_created_at e, ge_preview_hash = h, ge_preview_port = port,
                  ge_is_cover = (pj_cover_seq p = Some (he_seq e))\<rparr>]))"

definition list_gallery :: "'w server_env \<Rightarrow> server_state \<Rightarrow> request_error + gallery_entry list" where
  "list_gallery env sv =
     rbind (fold_res (\<lambda>(p, e) out. rbind (gallery_of_entry env sv p e) (\<lambda>g. Inr (out @ g)))
         (concat (map (\<lambda>p. map (Pair p) (pj_history p)) (list_projects (sv_projects sv)))) [])
       (\<lambda>out. Inr (sort_desc ge_created_at out))"

section \<open>Requests are steps of the project manager\<close>




















section \<open>What may be stacked together\<close>















section \<open>The dry run and the purge\<close>




lemma purge_parts:
  assumes "purge_project_cache reg db c pid keep_outputs = Inr (c', evicted, freed)" "wf_cache c"
  obtains entries keep where "build_reachability reg db c = Inr entries"
    "(if keep_outputs then terminal_output_hashes db pid else Inr []) = Inr keep"
    "purge_loop (alive_job_ids db) (purge_candidates entries pid keep) c 0 0 = (c', evicted, freed)"
    "distinct (purge_candidates entries pid keep)" "entries_ok c entries"
proof -
  from assms(1) obtain entries keep where e: "build_reachability reg db c = Inr entries"
    "(if keep_outputs then terminal_output_hashes db pid else Inr []) = Inr keep"
    "purge_loop (alive_job_ids db) (purge_candidates entries pid keep) c 0 0 = (c', evicted, freed)"
    unfolding purge_project_cache_def by (auto simp: rbind_eq_Inr)
  have ok: "entries_ok c entries" by (rule build_reachability_ok [OF e(1)])
  then have "wf_dict entries" using distinct_committed [OF assms(2)] by (simp add: entries_ok_def)
  then have "distinct (purge_candidates entries pid keep)" unfolding purge_candidates_def by (rule distinct_map_filter)
  then show thesis using that e ok by blast
qed



text \<open>What a swap of sessions does to the results of earlier renders: outputs only this project owns go, saved or not.\<close>

lemma swap_drops_saved_outputs:
  assumes run: "patch_project_sessions env st pid rq sv = (sv', Inr (p, evicted, freed, new_job))" and wf: "wf_cache (sv_cache sv)"
    and es: "build_reachability (sx_registry env) (sv_db sv') (sv_cache sv) = Inr entries"
    and own: "(h, e) \<in> set entries" "set (ce_owners e) = {pid}" and idle: "\<not> held (alive_job_ids (sv_db sv')) (sv_cache sv) h"
  shows "\<not> is_committed (sv_cache sv') h"
proof -
  have purge: "purge_project_cache (sx_registry env) (sv_db sv') (sv_cache sv) pid False = Inr (sv_cache sv', evicted, freed)"
    using run by (auto simp: patch_project_sessions_def Let_def sv_db_def split: option.splits sum.splits prod.splits)
  obtain entries' keep where p: "build_reachability (sx_registry env) (sv_db sv') (sv_cache sv) = Inr entries'"
    "(if False then terminal_output_hashes (sv_db sv') pid else Inr []) = Inr keep"
    "purge_loop (alive_job_ids (sv_db sv')) (purge_candidates entries' pid keep) (sv_cache sv) 0 0 = (sv_cache sv', evicted, freed)"
    "distinct (purge_candidates entries' pid keep)" "entries_ok (sv_cache sv) entries'"
    by (rule purge_parts [OF purge wf])
  have "h \<in> set (purge_candidates entries' pid keep)" using p(1,2) es own by (auto simp: purge_candidates_iff)
  then show ?thesis using purge_loop_committed [OF p(4,3), of h] idle by simp
qed

section \<open>A server\<close>

text \<open>
  Sessions 7 and 9 of the builder's example, bound to the given targets, and a session 11 of the same setup; target 1
  is resolved. One template, one dark.
\<close>

definition demo_server_env :: "unit server_env" where
  "demo_server_env = \<lparr>sx_registry = stack_registry, sx_resolve = id, sx_digest = id, sx_home = ''/h'', sx_openngc = ([], []),
     sx_common = [], sx_templates = [stack_template], sx_frame_size = (\<lambda>_. 0)\<rparr>"

definition demo_library :: "int option \<Rightarrow> library" where
  "demo_library t7 =
     \<lparr>lb_catalog = bundle_catalog\<lparr>ct_sessions := [demo_session\<lparr>se_target_id := t7\<rparr>, demo_session\<lparr>se_id := 9\<rparr>,
        demo_session\<lparr>se_id := 11\<rparr>], ct_targets := [(1, ''M 31'')]\<rparr>,
      lb_resolved = [(1, \<lparr>rs_canonical = ''NGC 224'', rs_separation_arcmin = 0, rs_source = ''name''\<rparr>)]\<rparr>"

definition demo_server :: "int option \<Rightarrow> pm \<Rightarrow> server_state" where
  "demo_server t7 s =
     \<lparr>sv_library = demo_library t7, sv_masters = [demo_dark 4 20 9], sv_matches = [], sv_stages = [], sv_projects = s,
      sv_cache = \<lparr>cache_root = ''/c'', cache_entries = []\<rparr>\<rparr>"

definition project_on :: "string list \<Rightarrow> project" where
  "project_on sources =
     \<lparr>pj_id = ''p'', pj_name = ''p'', pj_template = stack_template, pj_base_job = demo_job, pj_current_seq = 0,
      pj_draft_mode = False, pj_source_session_ids = sources, pj_created_at = '''', pj_updated_at = '''',
      pj_history = [edit_entry 0 ''j0'' [] None ''''], pj_cover_seq = None, pj_description = None\<rparr>"

definition one_project :: "storage_db \<Rightarrow> string list \<Rightarrow> pm" where
  "one_project db sources = \<lparr>pm_records = [(''p'', project_on sources)], pm_db = \<lparr>jb_db = db, jb_events = []\<rparr>\<rparr>"

definition demo_stamp :: stamp where
  "demo_stamp = \<lparr>st_project_id = ''p'', st_job_id = ''j0'', st_now = ''2026''\<rparr>"

definition demo_request :: project_request where
  "demo_request = \<lparr>cq_session_ids = [9, 7, 9], cq_template_id = ''osc'', cq_name = None, cq_calibration = None\<rparr>"







text \<open>
  Creation refuses sessions of two objects. The same-target gate of a change of sessions is skipped for a project whose
  object is not resolved: from the untargeted session 7 a project moves to 7 and 9, of NGC 224; and then the
  suggestion made for it is refused, since the project's object leaves out the sessions without a target.
\<close>

lemma unresolved_project_mixes_objects:
  "(case create_project_from_sessions demo_server_env demo_stamp demo_request (demo_server None empty_pm) of
      (_, Inl (Refused (Http n _))) \<Rightarrow> n = 400 | _ \<Rightarrow> False)
   \<and> (case accept_sessions demo_server_env (demo_server None (one_project demo_db [''7''])) (project_on [''7'']) [7, 9] of
        Inr (new_ids, _, _) \<Rightarrow> new_ids = [7, 9] | Inl _ \<Rightarrow> False)"
  by code_simp

lemma untargeted_session_blocks_suggestion:
  "(case get_project_suggestions demo_server_env ''p'' (demo_server None (one_project demo_db [''7'', ''9''])) of
      Inr sg \<Rightarrow> sg_session_ids sg = [11] | Inl _ \<Rightarrow> False)
   \<and> (case accept_sessions demo_server_env (demo_server None (one_project demo_db [''7'', ''9''])) (project_on [''7'', ''9'']) [7, 9, 11] of
        Inl (Refused (Http n _)) \<Rightarrow> n = 400 | _ \<Rightarrow> False)"
  by code_simp

end
