(* ===== verification/Spec2Isabelle.thy ===== *)
theory Spec2Isabelle
  imports Ai_Nodes Siril_Binary Scan_State Scope Mirror Schema Api_Projects
begin

text \<open>
  A verification library for astrolab, a server that turns nights of smart-telescope captures into
  processed images. The program (Python, under \<open>src/server\<close> and \<open>src/nodes\<close>) scans capture folders into
  a SQLite catalog, derives imaging sessions, matches calibration masters to them, builds a job from
  sessions and a pipeline template, queues it, and a worker runs the template's nodes over a
  content-addressed cache; projects keep the history of edits of one picture.

  Theories and the code they model, in the order of the imports:

  Astro_Prelude: Python dictionaries as association lists (insertion order), results with an error branch as
  sums, loops that may raise, \<open>max\<close>/\<open>min\<close> with a key, decimal digits, truncation. Collections
  \<open>dict_simps\<close> and \<open>result_simps\<close>.

  Node_Model (\<open>server/models.py\<close>, \<open>ports.py\<close>, \<open>registry.py\<close>, \<open>nodes/base.py\<close>): JSON values, ports, refs, templates,
  jobs, and the contract of a node class as a record whose \<open>run\<close> is a function. Locale
  \<open>keyed_registry\<close>, interpreted on \<open>register\<close>/\<open>registry_lookup\<close>.

  Topo, Runtime (\<open>server/runtime.py\<close>): the depth-first order of the template graph, the plan, the set of nodes
  that must run, the disk preflight, execution of one node with its failure paths, cache hits, outputs.

  Canonical (\<open>server/canonical.py\<close>): canonical JSON and the preimage of the cache key. SHA-256 is an argument,
  injectivity a named hypothesis where separation of keys is claimed.

  Cache (\<open>server/cache.py\<close>): the cache directory as a map from entry to its files; commit is the list of its
  writes, so that a crash is a prefix of it. In-use marks of live jobs.

  Catalog_DB (tables of \<open>server/catalog/db.py\<close> that storage, jobs and projects share) and Storage (\<open>server/storage.py\<close>):
  which entries projects and jobs still reach, the budget sweep, purging a project, disk headroom.

  Times: \<open>datetime.fromisoformat\<close> as far as the program uses it, naive and aware times apart.

  Jobs (\<open>server/jobs.py\<close>, \<open>server/worker.py\<close>): rows and event log of the queue as a state, API calls and workers as
  interleaved steps of an inductive relation (one step per transaction), the run of a claimed job over
  Runtime, and the worker loop with its signals (fuel bounds its iterations).

  Projects (\<open>server/projects.py\<close>, \<open>template_migrations.py\<close>): the records in memory and their mirror in the database, every
  operation of the manager, and the restart that reads the mirror back.

  Sessions (\<open>server/catalog/sessions.py\<close>): clusters of frames by configuration and time gap; the rebuild of the tables.

  Matching (\<open>server/catalog/matching.py\<close>, \<open>server/profiles.py\<close>): choice of masters for a session, the match table with the
  user's overrides, darks per bin of a bundle.

  Py_Text: the string and path operations of Python the components share (\<open>strip\<close>, \<open>split\<close>, case, the parts of a
  path, digits) and the pieces of a regular expression.

  Job_Builder (\<open>server/job_builder.py\<close>): wiring of a template's external inputs and the staging of several sessions.

  Siril_Runner (\<open>server/siril.py\<close>, \<open>nodes/_seq_runner.py\<close>): a node as its calls of the run context and then an error or a value;
  progress lines, scripts, staging, running and validating a sequence. Siril is an argument.

  Calibrate (\<open>nodes/basic/calibrate.py\<close>): the calibration node: metadata of darks and lights, routing of every light to a dark, one
  run of Siril per group, renumbering and the progress bar over the groups.

  Seq_Nodes (\<open>nodes/_storage_estimate.py\<close> and \<open>convert_lights.py\<close>, \<open>seq_resample.py\<close>, \<open>seq_offset.py\<close>, \<open>seq_bg_extract.py\<close>,
  \<open>seq_register.py\<close>, \<open>seq_stack.py\<close> of \<open>nodes/basic\<close>): the other steps from the lights to the stacked image, each from its parameters
  to its script and the listing of its output. Siril_Binary (\<open>server/siril.py\<close>): the search for the Siril to run and the
  version that enters the cache keys. Crop (\<open>nodes/basic/crop.py\<close>): images as rows of
  pixels, the box of a user or of the signal, and the cut.

  Image_Nodes (\<open>color_balance.py\<close>, \<open>auto_bp_shift.py\<close>, \<open>stretch.py\<close>, \<open>save_image.py\<close>, \<open>narrowband_extract.py\<close>,
  \<open>narrowband_compose.py\<close>, \<open>downscale.py\<close> of \<open>nodes/basic\<close>): the nodes that hand one image to Siril, the black point as a quantile and
  the palettes. Subproc (\<open>server/subproc.py\<close>): progress out of the lines of an external tool. Ai_Nodes (\<open>graxpert.py\<close>,
  \<open>starnet_extract.py\<close>, \<open>starnet_replace.py\<close>, \<open>starnet_recombine.py\<close>): the nodes around GraXpert and StarNet.

  Classify (\<open>catalog/classify.py\<close>, \<open>adapters/dwarf3.py\<close>, \<open>filter_aliases.py\<close>, \<open>fits_reader.py\<close>, \<open>common_names.py\<close>): scope and image
  type of a frame, names of factory masters, filter and target names. The header of a file is an argument.

  Scanner (\<open>catalog/scanner.py\<close>): the walk of a folder tree, the incremental scan with its transactions, factory masters,
  removal of orphans, and the rebuild and matching at the end. Scan_State (\<open>scan_state.py\<close> and its callers in \<open>api.py\<close>):
  the progress of the running scan and the threads that scan.

  Scope (\<open>scope_plan.py\<close>, \<open>scope_observe.py\<close>, \<open>scope_scheduler.py\<close>): which target to shoot, one observation, and a tick of the scheduler
  as a computation over the world (its state, the observer, the service, a trace of effects) that ends in an error
  or a value. Mirror (\<open>scope_mirror.py\<close>, \<open>scope_autostack.py\<close>): copying the captured files and stacking quiet sessions.

  Openngc (\<open>catalog/openngc.py\<close>): the catalog of objects, the keys of its rows and the index. Sky_Match (\<open>catalog/sky_match.py\<close>
  and \<open>resolve_target\<close> of \<open>scanner.py\<close>): position and extent of a target, the nearest entries, the resolution of a
  target. The trigonometry is a record of functions.

  Api_Catalog and Api_Projects (\<open>server/api.py\<close>): the requests that change the library and the projects. A refused request
  is a value with its status; the state of the process is the library, the staging area, the project manager with its
  database, and the cache, and a request is a step from state to state, whatever it answers.

  Schema (\<open>catalog/db.py\<close>): the migrations as data, the effect of their statements on tables and rows, foreign-key actions
  included, the migration loop of one process and of several that race, the retry on a locked database.

  How the parts meet: Scanner names frames with Classify, rebuilds Sessions and calls Matching; Mirror's copies lead to a
  scan (Scan_State) and to jobs of the builder; Matching reads the tables Sessions rebuilds; Job_Builder calls Matching and produces the job record of Node_Model;
  Jobs stores and claims it, and runs it with Runtime; Runtime keys nodes with Canonical, stores results in
  Cache and asks Storage for room; Projects submits jobs to the queue and reads back its rows. Api_Catalog edits the tables
  Sessions rebuilds and resolves targets with Sky_Match; Api_Projects puts sessions through the gates of Api_Catalog and
  the builder, hands the job to Projects and purges with Storage.

  What the lemma groups show. Cache keys separate what differs and ignore order and location of
  inputs. A commit cut off at any write is no entry; a complete one reads back as written. A sweep or purge removes nothing
  a live job holds, respects its documented order and stops over budget only when nothing else is left. A run
  executes exactly the nodes it needs, loses no committed entry, and a second run executes nothing. A job's
  log is gap free and a job is started at most once under every interleaving; a claimed job always ends
  in a terminal status. Project histories keep their invariants and survive a restart unchanged. Sessions
  mirror the clusters of the frames, keep their ids, and rescanning is idempotent. Overrides survive rematching;
  the chosen dark is the best by the documented order. A built job is well typed, complete and its dark metadata
  lines up with its refs. The calibration node gives every light the nearest dark that fits and numbers its output
  without gaps; with draft mode off the next two steps hand on exactly those frames. The Siril found is the newest of the
  first kind that is recent enough. The automatic crop keeps every pixel with signal and nothing around them, the black point
  clips the fraction asked for, and the layers of the star extraction add up to the original where only light was taken. A scan leaves one row per file that reads as a frame and a second one changes nothing. The scheduler
  starts only the best target that may be shot; the mirror never damages a complete file and stacks no frame count
  twice. The targets a user gives to sessions survive every rescan; a project starts from sessions of one object, what is
  suggested for it is never refused, and its requests are steps of the manager. Migrations end, and run once and in order however processes race.

  Bounds and fuel. Times are microseconds since year 1 as integers, sizes natural numbers, SQLite integers and Python's
  are unbounded in both directions here. \<open>run_loop\<close> takes fuel, one unit per iteration of a loop that
  ends on a signal only; \<open>migrate\<close> has one round more than there are migrations, which \<open>migrate_returns\<close> shows to be
  enough; \<open>delete_rows\<close> follows foreign keys as often as there are tables. Floats in canonical JSON are exact rationals with the special values apart; sensor
  temperatures and exposures are exact rationals.

  Not modelled: the routes of \<open>api.py\<close> that only list, stream or serve files, its settings and its routes to the
  scope, the command line, the threads that end an
  external process, the client of the service on the scope, image arithmetic and sky geometry on
  numpy and astropy (\<open>preview.py\<close>, \<open>quality.py\<close>, \<open>sky.py\<close>), metrics read from the
  operating system, and weather. The runtime sees every node through the node contract only; the bodies of the nodes are
  theories of their own. Threads that only repeat a modelled step are left out.
\<close>

end
